(* ===== verification/Prelude.thy ===== *)
theory Prelude
  imports Main "HOL-Library.Word"
begin

unbundle bit_operations_syntax

section \<open>Shared vocabulary: machine types, memory blocks, theorem collections\<close>

text \<open>
  The types and generic lemmas every component theory uses. A \<open>byte\<close> is \<open>std::byte\<close>, the
  \<open>u16\<close>, \<open>u32\<close> and \<open>u64\<close> are the fixed-width unsigned integers of the code, and a block of
  memory is a list that keeps its length: \<open>blit\<close> is \<open>std::memcpy\<close> (or \<open>std::copy\<close>) into such a
  block, \<open>subspan\<close> is a \<open>std::span\<close> of it.
\<close>

type_synonym byte = "8 word"
type_synonym u16 = "16 word"
type_synonym u32 = "32 word"
type_synonym u64 = "64 word"

text \<open>
  Collections the proofs draw on: \<open>result_simps\<close> evaluates the error-propagation combinators,
  \<open>block_simps\<close> rewrites reads and writes of memory blocks.
\<close>

named_theorems result_simps
named_theorems block_simps

subsection \<open>Blocks of memory\<close>

definition subspan :: "nat \<Rightarrow> nat \<Rightarrow> 'a list \<Rightarrow> 'a list" where
  "subspan p n m = take n (drop p m)"

definition blit :: "nat \<Rightarrow> 'a list \<Rightarrow> 'a list \<Rightarrow> 'a list" where
  "blit p xs m = take p m @ xs @ drop (p + length xs) m"

lemma length_blit [simp, block_simps]:
  "p + length xs \<le> length m \<Longrightarrow> length (blit p xs m) = length m"
  by (simp add: blit_def)

lemma length_subspan [simp, block_simps]:
  "p + n \<le> length m \<Longrightarrow> length (subspan p n m) = n"
  by (simp add: subspan_def)

lemma blit_Nil [simp, block_simps]: "blit p [] m = m"
  by (simp add: blit_def)

lemma subspan_0 [simp, block_simps]: "subspan p 0 m = []"
  by (simp add: subspan_def)

lemma nth_blit [block_simps]:
  assumes "p + length xs \<le> length m" and "i < length m"
  shows "blit p xs m ! i = (if p \<le> i \<and> i < p + length xs then xs ! (i - p) else m ! i)"
  using assms by (auto simp: blit_def nth_append min_def add.commute)

lemma nth_subspan [block_simps]:
  "p + n \<le> length m \<Longrightarrow> i < n \<Longrightarrow> subspan p n m ! i = m ! (p + i)"
  by (simp add: subspan_def)

lemma subspan_blit_same [simp, block_simps]:
  "p + length xs \<le> length m \<Longrightarrow> subspan p (length xs) (blit p xs m) = xs"
  by (simp add: subspan_def blit_def)

lemma take_blit [block_simps]:
  "p + length xs \<le> length m \<Longrightarrow> take p (blit p xs m) = take p m"
  by (simp add: blit_def)

lemma take_blit_end [block_simps]:
  "p + length xs \<le> length m \<Longrightarrow> take (p + length xs) (blit p xs m) = take p m @ xs"
  by (simp add: blit_def)

lemma drop_blit_end [block_simps]:
  "p + length xs \<le> length m \<Longrightarrow> drop (p + length xs) (blit p xs m) = drop (p + length xs) m"
  by (simp add: blit_def)

text \<open>Reading and writing parts that are apart, inside one another, or the same.\<close>

lemma drop_blit_after: "p + length xs \<le> k \<Longrightarrow> p + length xs \<le> length m \<Longrightarrow> drop k (blit p xs m) = drop k m"
  by (simp add: blit_def)

lemma take_blit_before: "n \<le> p \<Longrightarrow> p \<le> length m \<Longrightarrow> take n (blit p xs m) = take n m"
  by (simp add: blit_def)

lemma subspan_after: "drop k m = drop k m' \<Longrightarrow> k \<le> p \<Longrightarrow> subspan p n m = subspan p n m'"
  unfolding subspan_def by (metis drop_drop le_add_diff_inverse2)

lemma blit_subspan: "p + n \<le> length m \<Longrightarrow> blit p (subspan p n m) m = m"
  by (simp add: blit_def subspan_def)
    (metis append_take_drop_id drop_drop take_drop add.commute)

lemma blit_blit_same:
  "length xs = length ys \<Longrightarrow> p + length xs \<le> length m \<Longrightarrow> blit p xs (blit p ys m) = blit p xs m"
  by (simp add: blit_def)

lemma blit_blit_subspan:
  assumes "p + n \<le> length m" and "i + length xs \<le> n"
  shows "blit p (blit i xs (subspan p n m)) m = blit (p + i) xs m"
proof (rule nth_equalityI)
  have l: "length (subspan p n m) = n" using assms(1) by (simp add: subspan_def)
  then have l2: "length (blit i xs (subspan p n m)) = n" using assms(2) by simp
  show "length (blit p (blit i xs (subspan p n m)) m) = length (blit (p + i) xs m)"
    using assms l2 by simp
  fix j assume "j < length (blit p (blit i xs (subspan p n m)) m)"
  then have j: "j < length m" using assms l2 by simp
  show "blit p (blit i xs (subspan p n m)) m ! j = blit (p + i) xs m ! j"
    using assms j l l2 by (simp add: nth_blit nth_subspan) (auto simp: nth_blit nth_subspan)
qed

subsection \<open>Masking an index with a power of two\<close>

lemma nat_and_pow2_mask: "(n :: nat) AND (2 ^ k - 1) = n mod 2 ^ k"
  by (metis mask_eq_exp_minus_1 take_bit_eq_mask take_bit_eq_mod)

subsection \<open>Searching a list for a sublist\<close>

text \<open>\<open>std::search\<close>: the position of the first occurrence of \<open>pat\<close>, if there is one.\<close>

fun find_sub :: "'a list \<Rightarrow> 'a list \<Rightarrow> nat option" where
  "find_sub pat [] = (if pat = [] then Some 0 else None)"
| "find_sub pat (x # xs) =
     (if take (length pat) (x # xs) = pat then Some 0 else map_option Suc (find_sub pat xs))"

lemma find_sub_Some:
  "find_sub pat xs = Some i \<Longrightarrow>
     i \<le> length xs \<and> take (length pat) (drop i xs) = pat \<and>
     (\<forall>j < i. take (length pat) (drop j xs) \<noteq> pat)"
proof (induction xs arbitrary: i)
  case Nil
  then show ?case by (auto split: if_splits)
next
  case (Cons x xs)
  show ?case
  proof (cases "take (length pat) (x # xs) = pat")
    case True
    with Cons.prems show ?thesis by simp
  next
    case False
    with Cons.prems obtain j where j: "find_sub pat xs = Some j" and i: "i = Suc j"
      by auto
    from Cons.IH [OF j] False show ?thesis
      by (auto simp: i less_Suc_eq_0_disj)
  qed
qed

lemma find_sub_None:
  "find_sub pat xs = None \<Longrightarrow> take (length pat) (drop j xs) = pat \<Longrightarrow> False"
proof (induction xs arbitrary: j)
  case Nil
  then show ?case by (auto split: if_splits)
next
  case (Cons x xs)
  then show ?case
    by (cases j) (auto split: if_splits)
qed

lemma find_sub_first:
  assumes "take (length pat) (drop i xs) = pat" and "i \<le> length xs"
    and "\<forall>j < i. take (length pat) (drop j xs) \<noteq> pat"
  shows "find_sub pat xs = Some i"
proof (cases "find_sub pat xs")
  case None
  with assms(1) show ?thesis using find_sub_None by blast
next
  case (Some j)
  with assms find_sub_Some [OF Some] show ?thesis
    by (metis linorder_neqE_nat)
qed

lemma find_sub_fits: "find_sub pat xs = Some i \<Longrightarrow> i + length pat \<le> length xs"
  using find_sub_Some [of pat xs i] by (metis (no_types, opaque_lifting) add.commute length_drop length_take min.absorb_iff2 le_diff_conv2)

text \<open>An occurrence is visible in every prefix that contains it, and only there.\<close>

lemma take_drop_prefix:
  "j + length pat \<le> length xs \<Longrightarrow> take (length pat) (drop j (xs @ ys)) = take (length pat) (drop j xs)"
  by simp

lemma find_sub_append:
  assumes "find_sub pat xs = Some i"
  shows "find_sub pat (xs @ ys) = Some i"
proof (rule find_sub_first)
  note f = find_sub_Some [OF assms] and fits = find_sub_fits [OF assms]
  show "take (length pat) (drop i (xs @ ys)) = pat"
    using f take_drop_prefix [OF fits, of ys] by simp
  show "i \<le> length (xs @ ys)" using f by simp
  show "\<forall>j < i. take (length pat) (drop j (xs @ ys)) \<noteq> pat"
  proof (intro allI impI)
    fix j assume "j < i"
    then have "j + length pat \<le> length xs" using fits by simp
    from take_drop_prefix [OF this, of ys] \<open>j < i\<close> f
    show "take (length pat) (drop j (xs @ ys)) \<noteq> pat" by metis
  qed
qed

text \<open>
  The restart of the search: when the first \<open>n\<close> items contain no occurrence, searching from
  \<open>n - (length pat - 1)\<close> on finds the first one.
\<close>

lemma find_sub_restart:
  assumes no: "find_sub pat xs = None" and k: "k = length xs - min (length xs) (length pat - 1)"
  shows "find_sub pat (xs @ ys) = map_option (\<lambda>i. k + i) (find_sub pat (drop k (xs @ ys)))"
proof -
  have early: "take (length pat) (drop j (xs @ ys)) \<noteq> pat" if "j < k" for j
  proof -
    have "j + length pat \<le> length xs" using that k by (cases pat) auto
    from take_drop_prefix [OF this, of ys] show ?thesis using find_sub_None [OF no, of j] by metis
  qed
  have le: "k \<le> length (xs @ ys)" using k by simp
  show ?thesis
  proof (cases "find_sub pat (drop k (xs @ ys))")
    case None
    have "find_sub pat (xs @ ys) = None"
    proof (rule ccontr)
      assume "find_sub pat (xs @ ys) \<noteq> None"
      then obtain i where i: "find_sub pat (xs @ ys) = Some i" by blast
      note f = find_sub_Some [OF i]
      then have "k \<le> i" using early [of i] not_le_imp_less by blast
      then have "drop (i - k) (drop k (xs @ ys)) = drop i (xs @ ys)" by (simp only: drop_drop) simp
      with f have "take (length pat) (drop (i - k) (drop k (xs @ ys))) = pat" by simp
      with find_sub_None [OF None] show False .
    qed
    with None show ?thesis by simp
  next
    case (Some i)
    note f = find_sub_Some [OF Some]
    have "find_sub pat (xs @ ys) = Some (k + i)"
    proof (rule find_sub_first)
      show "take (length pat) (drop (k + i) (xs @ ys)) = pat"
        using f by (simp only: drop_drop add.commute)
      show "k + i \<le> length (xs @ ys)" using f le by (simp only: length_drop) linarith
      show "\<forall>j < k + i. take (length pat) (drop j (xs @ ys)) \<noteq> pat"
      proof (intro allI impI)
        fix j assume j: "j < k + i"
        show "take (length pat) (drop j (xs @ ys)) \<noteq> pat"
        proof (cases "j < k")
          case True
          then show ?thesis by (rule early)
        next
          case False
          with j have "j - k < i" by linarith
          with f have "take (length pat) (drop (j - k) (drop k (xs @ ys))) \<noteq> pat" by blast
          moreover have "drop (j - k) (drop k (xs @ ys)) = drop j (xs @ ys)"
            using False by (simp only: drop_drop) simp
          ultimately show ?thesis by metis
        qed
      qed
    qed
    with Some show ?thesis by simp
  qed
qed
end
