(* ===== verification/Errors.thy ===== *)
theory Errors
  imports Prelude
begin

section \<open>Errors and results (errors.hpp)\<close>

text \<open>
  \<open>close_code\<close> is an enumeration over \<open>uint16_t\<close> that may hold any 16-bit value (a received
  close frame is cast into it), so it is a 16-bit word with the named values as constants.
  \<open>WSError\<close> is the record \<open>ws_error\<close>; its formatted text is represented by the constructor of
  \<open>ws_message\<close> for the format string with the arguments that are formatted into it, and the
  \<open>std::source_location\<close> is left out. \<open>std::expected<T, WSError>\<close> is \<open>'a ws_result\<close>, with a
  third value \<open>Abort\<close> for a failed \<open>assert\<close> or an access outside an object, so that safety is
  something a theorem can say. The \<open>WS_TRY\<close> macros are the combinators \<open>st_try\<close> (for code
  that always returns) and \<open>ws_try\<close> (for code with loops, where \<open>None\<close> is "does not return").
\<close>

subsection \<open>Close codes\<close>

type_synonym close_code = u16

definition not_set :: close_code where "not_set = 0"
definition normal_closure :: close_code where "normal_closure = 1000"
definition going_away :: close_code where "going_away = 1001"
definition cc_protocol_error :: close_code where "cc_protocol_error = 1002"
definition unacceptable_data_type :: close_code where "unacceptable_data_type = 1003"
definition invalid_frame_payload_data :: close_code where "invalid_frame_payload_data = 1007"
definition policy_violation :: close_code where "policy_violation = 1008"
definition message_too_big :: close_code where "message_too_big = 1009"
definition missing_extension :: close_code where "missing_extension = 1010"
definition unexpected_condition :: close_code where "unexpected_condition = 1011"

lemmas close_code_defs =
  not_set_def normal_closure_def going_away_def cc_protocol_error_def unacceptable_data_type_def
  invalid_frame_payload_data_def policy_violation_def message_too_big_def missing_extension_def
  unexpected_condition_def

definition is_valid_close_code :: "close_code \<Rightarrow> bool" where
  "is_valid_close_code code \<longleftrightarrow>
     code = normal_closure \<or> code = going_away \<or> code = cc_protocol_error \<or>
     code = unacceptable_data_type \<or> code = invalid_frame_payload_data \<or>
     code = policy_violation \<or> code = message_too_big \<or> code = missing_extension \<or>
     code = unexpected_condition \<or> (code \<ge> 3000 \<and> code \<le> 4999)"

definition close_code_to_string :: "close_code \<Rightarrow> string" where
  "close_code_to_string code =
     (if code = not_set then ''not_set''
      else if code = normal_closure then ''normal_closure''
      else if code = going_away then ''going_away''
      else if code = cc_protocol_error then ''protocol_error''
      else if code = unacceptable_data_type then ''unacceptable_data_type''
      else if code = invalid_frame_payload_data then ''invalid_frame_payload_data''
      else if code = policy_violation then ''policy_violation''
      else if code = message_too_big then ''message_too_big''
      else if code = missing_extension then ''missing_extension''
      else if code = unexpected_condition then ''unexpected_condition''
      else ''unknown'')"

subsection \<open>Error codes\<close>

datatype ws_error_code =
    Success
  | Connection_closed
  | Transport_error
  | Protocol_error
  | Url_error
  | Buffer_error
  | Uncategorized_error
  | Compression_error
  | Timeout_error
  | Logic_error
  | Operation_cancelled

text \<open>The underlying value of the enumerator (\<open>int16_t\<close>).\<close>

fun error_code_value :: "ws_error_code \<Rightarrow> int" where
  "error_code_value Success = 0"
| "error_code_value Connection_closed = 1"
| "error_code_value Transport_error = 3"
| "error_code_value Protocol_error = 4"
| "error_code_value Url_error = 5"
| "error_code_value Buffer_error = 6"
| "error_code_value Uncategorized_error = 7"
| "error_code_value Compression_error = 8"
| "error_code_value Timeout_error = 9"
| "error_code_value Logic_error = 10"
| "error_code_value Operation_cancelled = 11"

fun error_code_to_string :: "ws_error_code \<Rightarrow> string" where
  "error_code_to_string Success = ''success''"
| "error_code_to_string Connection_closed = ''connection_closed''"
| "error_code_to_string Transport_error = ''transport_error''"
| "error_code_to_string Protocol_error = ''protocol_error''"
| "error_code_to_string Url_error = ''url_error''"
| "error_code_to_string Buffer_error = ''buffer_error''"
| "error_code_to_string Uncategorized_error = ''uncategorized_error''"
| "error_code_to_string Compression_error = ''compression_error''"
| "error_code_to_string Timeout_error = ''timeout_error''"
| "error_code_to_string Logic_error = ''logic_error''"
| "error_code_to_string Operation_cancelled = ''operation_cancelled''"

subsection \<open>Messages and errors\<close>

text \<open>
  One constructor per diagnostic text of the code, grouped by the header that produces it, with
  the values that are formatted into it.
\<close>

datatype client_message =
    Msg_already_open
  | Msg_closed_state
  | Msg_reserved_opcode nat
  | Msg_payload_too_large nat nat
  | Msg_compressed_not_enabled
  | Msg_rsv23_set
  | Msg_expected_continuation nat
  | Msg_rsv_on_continuation
  | Msg_unexpected_opcode nat
  | Msg_unexpected_message_opcode nat
  | Msg_read_timeout
  | Msg_invalid_utf8_text

datatype frame_message =
    Msg_fragmented_close
  | Msg_masked_from_server
  | Msg_must_be_masked
  | Msg_fragmented_control
  | Msg_control_rsv
  | Msg_control_too_large nat
  | Msg_close_size_one
  | Msg_invalid_close_code nat
  | Msg_invalid_utf8_reason
  | Msg_unexpected_control_opcode nat

datatype buffer_message =
    Msg_exceeds_max nat nat
  | Msg_alloc_failed nat

datatype http_message =
    Msg_status_line
  | Msg_status_not_integer
  | Msg_malformed_header string
  | Msg_http_status int string
  | Msg_missing_header string
  | Msg_header_lacks_token string string
  | Msg_header_value string string string

datatype deflate_message =
    Msg_window_bits string
  | Msg_bits_invalid string nat
  | Msg_bits_greater string nat nat
  | Msg_zlib string

datatype url_message =
    Msg_no_protocol string
  | Msg_unknown_protocol string
  | Msg_ipv6_bracket string
  | Msg_ipv6_trailing string
  | Msg_port string
  | Msg_empty_host string

datatype transport_message =
    Msg_transport_closed
  | Msg_errno string int
  | Msg_ssl_error string int int
  | Msg_syscall string int int
  | Msg_text string

datatype ws_message =
    Client_msg client_message
  | Frame_msg frame_message
  | Buffer_msg buffer_message
  | Http_msg http_message
  | Deflate_msg deflate_message
  | Url_msg url_message
  | Transport_msg transport_message

record ws_error =
  err_code :: ws_error_code
  err_message :: ws_message
  close_with_code :: close_code

definition WSError :: "ws_error_code \<Rightarrow> ws_message \<Rightarrow> close_code \<Rightarrow> ws_error" where
  "WSError c m cc = \<lparr>err_code = c, err_message = m, close_with_code = cc\<rparr>"

lemma WSError_sel [simp]:
  "err_code (WSError c m cc) = c" "err_message (WSError c m cc) = m"
  "close_with_code (WSError c m cc) = cc"
  by (simp_all add: WSError_def)

subsection \<open>Results and their propagation\<close>

datatype 'a ws_result = Ok 'a | Err ws_error | Abort

text \<open>Code that always returns: a state and a result.\<close>

type_synonym ('s, 'a) st = "'s \<Rightarrow> 'a ws_result \<times> 's"

text \<open>Code with loops: \<open>None\<close> when it does not return.\<close>

type_synonym ('s, 'a) ws = "'s \<Rightarrow> ('a ws_result \<times> 's) option"

text \<open>\<open>WS_TRY\<close>, \<open>WS_TRYV\<close> and their \<open>RAW\<close> forms: go on with the value, or return the error.\<close>

fun res_try :: "'a ws_result \<Rightarrow> ('a \<Rightarrow> 'b ws_result) \<Rightarrow> 'b ws_result" where
  "res_try (Ok v) k = k v"
| "res_try (Err e) k = Err e"
| "res_try Abort k = Abort"

definition st_try :: "('s, 'a) st \<Rightarrow> ('a \<Rightarrow> ('s, 'b) st) \<Rightarrow> ('s, 'b) st" where
  "st_try m k s =
     (case m s of
        (Ok v, s') \<Rightarrow> k v s'
      | (Err e, s') \<Rightarrow> (Err e, s')
      | (Abort, s') \<Rightarrow> (Abort, s'))"

definition ws_try :: "('s, 'a) ws \<Rightarrow> ('a \<Rightarrow> ('s, 'b) ws) \<Rightarrow> ('s, 'b) ws" where
  "ws_try m k s =
     (case m s of
        None \<Rightarrow> None
      | Some (r, s') \<Rightarrow>
          (case r of
             Ok v \<Rightarrow> k v s'
           | Err e \<Rightarrow> Some (Err e, s')
           | Abort \<Rightarrow> Some (Abort, s')))"

definition ws_return :: "'a \<Rightarrow> ('s, 'a) ws" where "ws_return v s = Some (Ok v, s)"

definition ws_fail :: "ws_error \<Rightarrow> ('s, 'a) ws" where "ws_fail e s = Some (Err e, s)"

definition ws_result :: "'a ws_result \<Rightarrow> ('s, 'a) ws" where "ws_result r s = Some (r, s)"

definition ws_total :: "('s, 'a) st \<Rightarrow> ('s, 'a) ws" where "ws_total m s = Some (m s)"

lemma st_try_simps [result_simps]:
  "m s = (Ok v, s') \<Longrightarrow> st_try m k s = k v s'"
  "m s = (Err e, s') \<Longrightarrow> st_try m k s = (Err e, s')"
  "m s = (Abort, s') \<Longrightarrow> st_try m k s = (Abort, s')"
  by (simp_all add: st_try_def)

lemma ws_try_simps [result_simps]:
  "m s = Some (Ok v, s') \<Longrightarrow> ws_try m k s = k v s'"
  "m s = Some (Err e, s') \<Longrightarrow> ws_try m k s = Some (Err e, s')"
  "m s = Some (Abort, s') \<Longrightarrow> ws_try m k s = Some (Abort, s')"
  "m s = None \<Longrightarrow> ws_try m k s = None"
  by (simp_all add: ws_try_def)

lemma ws_unit_simps [simp, result_simps]:
  "ws_return v s = Some (Ok v, s)" "ws_fail e s = Some (Err e, s)" "ws_result r s = Some (r, s)"
  "ws_total m s = Some (m s)"
  by (simp_all add: ws_return_def ws_fail_def ws_result_def ws_total_def)

lemma ws_try_Some_Ok:
  "ws_try m k s = Some (Ok w, s'') \<longleftrightarrow> (\<exists>v s'. m s = Some (Ok v, s') \<and> k v s' = Some (Ok w, s''))"
  by (auto simp: ws_try_def split: option.splits ws_result.splits)

lemma st_try_Ok:
  "st_try m k s = (Ok w, s'') \<longleftrightarrow> (\<exists>v s'. m s = (Ok v, s') \<and> k v s' = (Ok w, s''))"
  by (auto simp: st_try_def split: prod.splits ws_result.splits)

lemma st_try_cases:
  "st_try m k s = (case m s of (Ok v, s') \<Rightarrow> k v s' | (Err e, s') \<Rightarrow> (Err e, s') | (Abort, s') \<Rightarrow> (Abort, s'))"
  by (simp add: st_try_def)

text \<open>Recursive calls in the continuation of \<open>ws_try\<close> are monotone, so loops can be written with it.\<close>

lemma ws_try_mono [partial_function_mono]:
  assumes "\<And>v s. mono_option (\<lambda>f. C f v s)"
  shows "mono_option (\<lambda>f. ws_try m (C f) s)"
proof (cases "m s")
  case None
  then show ?thesis by (simp add: ws_try_def option.const_mono)
next
  case (Some p)
  obtain r s' where p: "p = (r, s')" by fastforce
  show ?thesis
  proof (cases r)
    case (Ok v)
    with assms [of v s'] Some p show ?thesis by (simp add: ws_try_def)
  qed (simp_all add: ws_try_def Some p option.const_mono)
qed

lemma ws_try_cases:
  assumes "ws_try m k s = Some (r, s'')"
  obtains (ok) v s' where "m s = Some (Ok v, s')" and "k v s' = Some (r, s'')"
    | (err) e where "m s = Some (Err e, s'')" and "r = Err e"
    | (abort) "m s = Some (Abort, s'')" and "r = Abort"
  using assms by (auto simp: ws_try_def split: option.splits ws_result.splits)

text \<open>A call that returned a value with a property, in a form that evaluates.\<close>

definition ws_holds :: "('a ws_result \<times> 's) option \<Rightarrow> ('a \<Rightarrow> 's \<Rightarrow> bool) \<Rightarrow> bool" where
  "ws_holds m P =
     (case m of
        None \<Rightarrow> False
      | Some (r, s) \<Rightarrow> (case r of Ok v \<Rightarrow> P v s | Err e \<Rightarrow> False | Abort \<Rightarrow> False))"

lemma ws_holds_iff: "ws_holds m P \<longleftrightarrow> (\<exists>v s. m = Some (Ok v, s) \<and> P v s)"
  by (auto simp: ws_holds_def split: option.splits ws_result.splits)

subsection \<open>Operations on a part of the state\<close>

definition on_fst :: "('a, 'r) ws \<Rightarrow> ('a \<times> 'b, 'r) ws" where
  "on_fst m s = (case m (fst s) of None \<Rightarrow> None | Some (r, a) \<Rightarrow> Some (r, (a, snd s)))"

definition on_snd :: "('b, 'r) ws \<Rightarrow> ('a \<times> 'b, 'r) ws" where
  "on_snd m s = (case m (snd s) of None \<Rightarrow> None | Some (r, b) \<Rightarrow> Some (r, (fst s, b)))"

definition on_part :: "('s \<Rightarrow> 'a) \<Rightarrow> ('a \<Rightarrow> 's \<Rightarrow> 's) \<Rightarrow> ('a, 'r) ws \<Rightarrow> ('s, 'r) ws" where
  "on_part get put m s = (case m (get s) of None \<Rightarrow> None | Some (r, a) \<Rightarrow> Some (r, put a s))"

lemma on_fst_Some [result_simps]:
  "on_fst m s = Some (r, s') \<longleftrightarrow> (\<exists>a. m (fst s) = Some (r, a) \<and> s' = (a, snd s))"
  by (auto simp: on_fst_def split: option.splits)

lemma on_snd_Some [result_simps]:
  "on_snd m s = Some (r, s') \<longleftrightarrow> (\<exists>b. m (snd s) = Some (r, b) \<and> s' = (fst s, b))"
  by (auto simp: on_snd_def split: option.splits)

lemma on_part_Some [result_simps]:
  "on_part get put m s = Some (r, s') \<longleftrightarrow> (\<exists>a. m (get s) = Some (r, a) \<and> s' = put a s)"
  by (auto simp: on_part_def split: option.splits)

end
