(* ===== verification/Bytes.thy ===== *)
theory Bytes
  imports Errors
begin

unbundle bit_operations_syntax

section \<open>Byte order (utils/networking.hpp)\<close>

text \<open>
  The conversions between host and network byte order, for both values of
  \<open>std::endian::native\<close>; on a little-endian host they are the shift-and-mask expressions of the
  portable branch. \<open>mem_bytes\<close> and \<open>from_mem\<close> are the object representation of an unsigned
  integer, which the code reads and writes with \<open>std::memcpy\<close> and \<open>reinterpret_cast\<close>. The lemmas
  show that what ends up in memory is the big-endian representation on every host.
\<close>

datatype endian = Little | Big

subsection \<open>Conversions\<close>

definition bswap16 :: "u16 \<Rightarrow> u16" where
  "bswap16 value = drop_bit 8 (value AND 0xff00) OR push_bit 8 (value AND 0x00ff)"

definition bswap32 :: "u32 \<Rightarrow> u32" where
  "bswap32 value =
     (drop_bit 24 (value AND 0xff000000) OR drop_bit 8 (value AND 0x00ff0000) OR
      push_bit 8 (value AND 0x0000ff00) OR push_bit 24 (value AND 0x000000ff))"

definition bswap64 :: "u64 \<Rightarrow> u64" where
  "bswap64 value =
     (drop_bit 56 (value AND 0xff00000000000000) OR drop_bit 40 (value AND 0x00ff000000000000) OR
      drop_bit 24 (value AND 0x0000ff0000000000) OR drop_bit 8 (value AND 0x000000ff00000000) OR
      push_bit 8 (value AND 0x00000000ff000000) OR push_bit 24 (value AND 0x0000000000ff0000) OR
      push_bit 40 (value AND 0x000000000000ff00) OR push_bit 56 (value AND 0x00000000000000ff))"

definition network_to_host32 :: "endian \<Rightarrow> u32 \<Rightarrow> u32" where
  "network_to_host32 native value = (if native = Little then bswap32 value else value)"

definition network_to_host16 :: "endian \<Rightarrow> u16 \<Rightarrow> u16" where
  "network_to_host16 native value = (if native = Little then bswap16 value else value)"

definition host_to_network32 :: "endian \<Rightarrow> u32 \<Rightarrow> u32" where
  "host_to_network32 native value = (if native = Little then bswap32 value else value)"

definition host_to_network16 :: "endian \<Rightarrow> u16 \<Rightarrow> u16" where
  "host_to_network16 native value = (if native = Little then bswap16 value else value)"

definition host_to_network64 :: "endian \<Rightarrow> u64 \<Rightarrow> u64" where
  "host_to_network64 native value = (if native = Little then bswap64 value else value)"

definition network_to_host64 :: "endian \<Rightarrow> u64 \<Rightarrow> u64" where
  "network_to_host64 native value = (if native = Little then bswap64 value else value)"

subsection \<open>Object representations\<close>

definition le_bytes :: "'a::len word \<Rightarrow> byte list" where
  "le_bytes w = map (\<lambda>i. ucast (drop_bit (8 * i) w)) [0..<LENGTH('a) div 8]"

fun le_word :: "byte list \<Rightarrow> 'a::len word" where
  "le_word [] = 0"
| "le_word (b # bs) = ucast b OR push_bit 8 (le_word bs)"

definition mem_bytes :: "endian \<Rightarrow> 'a::len word \<Rightarrow> byte list" where
  "mem_bytes native w = (if native = Little then le_bytes w else rev (le_bytes w))"

definition from_mem :: "endian \<Rightarrow> byte list \<Rightarrow> 'a::len word" where
  "from_mem native bs = le_word (if native = Little then bs else rev bs)"

text \<open>The network representation: most significant byte first.\<close>

definition be_bytes :: "'a::len word \<Rightarrow> byte list" where
  "be_bytes w = rev (le_bytes w)"

definition be_word :: "byte list \<Rightarrow> 'a::len word" where
  "be_word bs = le_word (rev bs)"

lemma length_le_bytes [simp]: "length (le_bytes (w :: 'a::len word)) = LENGTH('a) div 8"
  by (simp add: le_bytes_def)

lemma length_be_bytes [simp]: "length (be_bytes (w :: 'a::len word)) = LENGTH('a) div 8"
  by (simp add: be_bytes_def)

lemma length_mem_bytes [simp]: "length (mem_bytes e (w :: 'a::len word)) = LENGTH('a) div 8"
  by (simp add: mem_bytes_def)

lemma bit_le_word:
  "bit (le_word bs :: 'a::len word) n \<longleftrightarrow>
     n < LENGTH('a) \<and> n div 8 < length bs \<and> bit (bs ! (n div 8)) (n mod 8)"
proof (induction bs arbitrary: n)
  case Nil
  then show ?case by simp
next
  case (Cons b bs)
  show ?case
  proof (cases "n < 8")
    case True
    then show ?thesis by (auto simp: bit_simps dest: bit_imp_le_length)
  next
    case False
    then have "n div 8 = Suc ((n - 8) div 8)" and "(n - 8) mod 8 = n mod 8"
      by (simp_all add: le_div_geq le_mod_geq not_less)
    with False Cons.IH [of "n - 8"] show ?thesis
      by (auto simp: bit_simps dest: bit_imp_le_length)
  qed
qed

lemma bit_le_bytes_nth:
  "i < LENGTH('a::len) div 8 \<Longrightarrow> bit (le_bytes (w :: 'a word) ! i) n \<longleftrightarrow> n < 8 \<and> bit w (8 * i + n)"
  by (auto simp: le_bytes_def bit_simps)

lemma le_word_le_bytes:
  assumes "8 dvd LENGTH('a::len)"
  shows "le_word (le_bytes w) = (w :: 'a word)"
proof (rule bit_word_eqI)
  fix n assume n: "n < LENGTH('a)"
  then have "n div 8 < LENGTH('a) div 8" using assms by (auto elim!: dvdE)
  with n show "bit (le_word (le_bytes w) :: 'a word) n = bit w n"
    by (simp add: bit_le_word bit_le_bytes_nth)
qed

lemma le_bytes_le_word:
  assumes "length bs * 8 = LENGTH('a::len)"
  shows "le_bytes (le_word bs :: 'a word) = bs"
proof (rule nth_equalityI)
  show "length (le_bytes (le_word bs :: 'a word)) = length bs" using assms by simp
  fix i assume "i < length (le_bytes (le_word bs :: 'a word))"
  then have i: "i < length bs" using assms by simp
  show "le_bytes (le_word bs :: 'a word) ! i = bs ! i"
  proof (rule bit_word_eqI)
    fix n :: nat assume n: "n < LENGTH(8)"
    then have "8 * i + n < LENGTH('a)" using i assms by simp
    moreover have "i < LENGTH('a) div 8" using i assms by simp
    ultimately show "bit (le_bytes (le_word bs :: 'a word) ! i) n = bit (bs ! i) n"
      using n i by (simp add: bit_le_bytes_nth bit_le_word)
  qed
qed

lemma be_word_be_bytes: "8 dvd LENGTH('a::len) \<Longrightarrow> be_word (be_bytes w) = (w :: 'a word)"
  by (simp add: be_word_def be_bytes_def le_word_le_bytes)

lemma be_bytes_be_word: "length bs * 8 = LENGTH('a::len) \<Longrightarrow> be_bytes (be_word bs :: 'a word) = bs"
  by (simp add: be_word_def be_bytes_def le_bytes_le_word)

lemma from_mem_mem_bytes: "8 dvd LENGTH('a::len) \<Longrightarrow> from_mem e (mem_bytes e w) = (w :: 'a word)"
  by (simp add: from_mem_def mem_bytes_def le_word_le_bytes)


subsection \<open>The swaps reverse the bytes\<close>

lemma byte_eq_bits:
  "a = (b :: byte) \<longleftrightarrow>
     bit a 0 = bit b 0 \<and> bit a 1 = bit b 1 \<and> bit a 2 = bit b 2 \<and> bit a 3 = bit b 3 \<and>
     bit a 4 = bit b 4 \<and> bit a 5 = bit b 5 \<and> bit a 6 = bit b 6 \<and> bit a 7 = bit b 7"
proof -
  have "a = b \<longleftrightarrow> (\<forall>n\<in>set [0, 1, 2, 3, 4, 5, 6, 7]. bit a n = bit b n)"
  proof
    assume *: "\<forall>n\<in>set [0, 1, 2, 3, 4, 5, 6, 7]. bit a n = bit b n"
    show "a = b"
      by (rule bit_word_eqI) (use * in \<open>auto simp: less_Suc_eq numeral_eq_Suc\<close>)
  qed simp
  then show ?thesis by simp
qed

lemma upt_small:
  "[0..<2] = [0, 1 :: nat]" "[0..<4] = [0, 1, 2, 3 :: nat]"
  "[0..<8] = [0, 1, 2, 3, 4, 5, 6, 7 :: nat]"
  by code_simp+

lemma le_bytes_bswap16: "le_bytes (bswap16 v) = rev (le_bytes v)"
  apply (simp add: le_bytes_def upt_small)
  apply (simp only: byte_eq_bits bswap16_def bit_simps)
  apply (simp add: bit_simps)
  done

lemma le_bytes_bswap32: "le_bytes (bswap32 v) = rev (le_bytes v)"
  apply (simp add: le_bytes_def upt_small)
  apply (simp only: byte_eq_bits bswap32_def bit_simps)
  apply (simp add: bit_simps)
  done

lemma le_bytes_bswap64: "le_bytes (bswap64 v) = rev (le_bytes v)"
  apply (simp add: le_bytes_def upt_small)
  apply (simp only: byte_eq_bits bswap64_def bit_simps)
  apply (simp add: bit_simps)
  done

lemma bswap16_le_word: "length bs = 2 \<Longrightarrow> bswap16 (le_word bs) = le_word (rev bs)"
  using le_word_le_bytes [of "bswap16 (le_word bs)"] by (simp add: le_bytes_bswap16 le_bytes_le_word)

lemma bswap32_le_word: "length bs = 4 \<Longrightarrow> bswap32 (le_word bs) = le_word (rev bs)"
  using le_word_le_bytes [of "bswap32 (le_word bs)"] by (simp add: le_bytes_bswap32 le_bytes_le_word)

lemma bswap64_le_word: "length bs = 8 \<Longrightarrow> bswap64 (le_word bs) = le_word (rev bs)"
  using le_word_le_bytes [of "bswap64 (le_word bs)"] by (simp add: le_bytes_bswap64 le_bytes_le_word)

subsection \<open>Network byte order is independent of the host\<close>

lemma mem_host_to_network16: "mem_bytes e (host_to_network16 e v) = be_bytes v"
  by (cases e) (simp_all add: mem_bytes_def host_to_network16_def be_bytes_def le_bytes_bswap16)

lemma mem_host_to_network32: "mem_bytes e (host_to_network32 e v) = be_bytes v"
  by (cases e) (simp_all add: mem_bytes_def host_to_network32_def be_bytes_def le_bytes_bswap32)

lemma mem_host_to_network64: "mem_bytes e (host_to_network64 e v) = be_bytes v"
  by (cases e) (simp_all add: mem_bytes_def host_to_network64_def be_bytes_def le_bytes_bswap64)

lemma network_to_host16_mem: "length bs = 2 \<Longrightarrow> network_to_host16 e (from_mem e bs) = be_word bs"
  by (cases e) (simp_all add: from_mem_def network_to_host16_def be_word_def bswap16_le_word)

lemma network_to_host32_mem: "length bs = 4 \<Longrightarrow> network_to_host32 e (from_mem e bs) = be_word bs"
  by (cases e) (simp_all add: from_mem_def network_to_host32_def be_word_def bswap32_le_word)

lemma network_to_host64_mem: "length bs = 8 \<Longrightarrow> network_to_host64 e (from_mem e bs) = be_word bs"
  by (cases e) (simp_all add: from_mem_def network_to_host64_def be_word_def bswap64_le_word)

end
