(* ===== verification/Utf8.thy ===== *)
theory Utf8
  imports Prelude
begin

section \<open>UTF-8 validation (utils/utf8.hpp)\<close>

text \<open>
  The validator the client uses when simdutf is not configured. The loop index and the length are
  C \<open>int\<close>s, modelled by \<open>int\<close>: the index stays below \<open>len + 3\<close>, so for lengths below
  \<open>2\<^sup>3\<^sup>1 - 3\<close> no addition overflows. The callers pass a \<open>size_t\<close>, which the call narrows to
  a 32-bit signed integer (\<open>narrow_len\<close>). The lemmas relate the loop to a definition of UTF-8 by
  the encoder \<open>utf8_encode\<close>, over the scalar values of Unicode.
\<close>

function utf8_loop :: "byte list \<Rightarrow> int \<Rightarrow> int \<Rightarrow> bool" where
  "utf8_loop s len i =
     (if \<not> i < len then True
      else let b0 = s ! nat i; b1 = s ! nat (i + 1); b2 = s ! nat (i + 2); b3 = s ! nat (i + 3) in
        if b0 < 0x80 then utf8_loop s len (i + 1)
        else if b0 AND 0xe0 = 0xc0 then
          (if i + 1 \<ge> len \<or> b1 AND 0xc0 \<noteq> 0x80 \<or> b0 AND 0xfe = 0xc0 then False
           else utf8_loop s len (i + 2))
        else if b0 AND 0xf0 = 0xe0 then
          (if i + 2 \<ge> len \<or> b1 AND 0xc0 \<noteq> 0x80 \<or> b2 AND 0xc0 \<noteq> 0x80 \<or>
              (b0 = 0xe0 \<and> b1 AND 0xe0 = 0x80) \<or> (b0 = 0xed \<and> b1 AND 0xa0 = 0xa0) then False
           else utf8_loop s len (i + 3))
        else if b0 AND 0xf8 = 0xf0 then
          (if i + 3 \<ge> len \<or> b1 AND 0xc0 \<noteq> 0x80 \<or> b2 AND 0xc0 \<noteq> 0x80 \<or> b3 AND 0xc0 \<noteq> 0x80 \<or>
              (b0 = 0xf0 \<and> b1 AND 0xf0 = 0x80) \<or> (b0 = 0xf4 \<and> b1 > 0x8f) \<or> b0 > 0xf4 then False
           else utf8_loop s len (i + 4))
        else False)"
  by pat_completeness auto

termination
  by (relation "measure (\<lambda>(s, len, i). nat (len - i))") auto

declare utf8_loop.simps [simp del]

definition is_valid_utf8 :: "byte list \<Rightarrow> int \<Rightarrow> bool" where
  "is_valid_utf8 s len = utf8_loop s len 0"

text \<open>The conversion of a \<open>size_t\<close> argument to the \<open>int\<close> parameter.\<close>

definition narrow_len :: "nat \<Rightarrow> int" where
  "narrow_len n = sint (word_of_nat n :: 32 word)"

lemma narrow_len_id: "n < 2 ^ 31 \<Longrightarrow> narrow_len n = int n"
  by (simp add: narrow_len_def sint_word_ariths signed_of_nat signed_take_bit_int_eq_self)

lemma narrow_len_neg: "2 ^ 31 \<le> n \<Longrightarrow> n < 2 ^ 32 \<Longrightarrow> narrow_len n < 0"
proof -
  assume n: "2 ^ 31 \<le> n" "n < 2 ^ 32"
  then have "(int n + 2 ^ 31) mod 2 ^ 32 = int n + 2 ^ 31 - 2 ^ 32"
    by (subst mod_pos_geq) simp_all
  with n show ?thesis
    by (simp add: narrow_len_def signed_of_nat signed_take_bit_eq_take_bit_shift take_bit_eq_mod
        mod_pos_geq)
qed

subsection \<open>The reference: concatenations of encoded scalar values\<close>

definition scalar_value :: "nat \<Rightarrow> bool" where
  "scalar_value c \<longleftrightarrow> c < 0x110000 \<and> \<not> (0xD800 \<le> c \<and> c \<le> 0xDFFF)"

definition utf8_units :: "nat \<Rightarrow> nat list" where
  "utf8_units c =
     (if c < 0x80 then [c]
      else if c < 0x800 then [0xC0 + c div 64, 0x80 + c mod 64]
      else if c < 0x10000 then [0xE0 + c div 4096, 0x80 + c div 64 mod 64, 0x80 + c mod 64]
      else [0xF0 + c div 262144, 0x80 + c div 4096 mod 64, 0x80 + c div 64 mod 64, 0x80 + c mod 64])"

definition utf8_encode :: "nat \<Rightarrow> byte list" where
  "utf8_encode c = map word_of_nat (utf8_units c)"

definition utf8_text :: "byte list \<Rightarrow> bool" where
  "utf8_text bs \<longleftrightarrow> (\<exists>cs. (\<forall>c \<in> set cs. scalar_value c) \<and> bs = concat (map utf8_encode cs))"

subsection \<open>The byte tests as ranges\<close>

lemma nat_and_shifted: "(n :: nat) AND (2 ^ k * m) = 2 ^ k * (n div 2 ^ k AND m)"
proof -
  have "n AND push_bit k m = push_bit k (drop_bit k n AND m)"
    by (rule bit_eqI) (auto simp: bit_simps)
  then show ?thesis by (simp add: push_bit_eq_mult drop_bit_eq_div mult.commute)
qed

lemma byte_less: "unat (b :: byte) < 256"
  using unsigned_less [where 'a = nat, of b] by simp

lemma byte_eq_unat: "(b :: byte) = w \<longleftrightarrow> unat b = unat w"
  by (rule word_unat_eq_iff)

lemma byte_and_shifted:
  assumes "unat w = 2 ^ k * m"
  shows "unat (b AND w :: byte) = 2 ^ k * (unat b div 2 ^ k AND m)"
  using nat_and_shifted [of "unat b" k m] assms by (simp add: unsigned_and_eq)

lemma byte_and_field:
  assumes "unat w = 2 ^ k * (2 ^ j - 1)" and "k + j = 8"
  shows "unat (b AND w :: byte) = 2 ^ k * (unat b div 2 ^ k)"
proof -
  have "unat b < 2 ^ (k + j)" using byte_less [of b] assms(2) by simp
  then have "unat b div 2 ^ k < 2 ^ j" by (simp add: less_mult_imp_div_less power_add mult.commute)
  with byte_and_shifted [OF assms(1), of b] show ?thesis by (simp only: nat_and_pow2_mask mod_less)
qed

lemma field_range:
  assumes "unat w = 2 ^ k * (2 ^ j - 1)" and "k + j = 8" and "unat v = 2 ^ k * c"
  shows "(b AND w = (v :: byte)) \<longleftrightarrow> 2 ^ k * c \<le> unat b \<and> unat b < 2 ^ k * Suc c"
proof -
  have "(b AND w = v) \<longleftrightarrow> unat b div 2 ^ k = c"
    by (simp only: byte_eq_unat byte_and_field [OF assms(1,2)] assms(3)) simp
  also have "\<dots> \<longleftrightarrow> 2 ^ k * c \<le> unat b \<and> unat b < 2 ^ k * Suc c"
    by (auto simp: div_nat_eqI dividend_less_times_div dividend_less_div_times intro: div_nat_eqI
        div_times_less_eq_dividend)
  finally show ?thesis .
qed

lemma byte_test_ranges:
  "(b AND 0xc0 = 0x80) = (0x80 \<le> unat b \<and> unat b < 0xc0)"
  "(b AND 0xe0 = 0xc0) = (0xc0 \<le> unat b \<and> unat b < 0xe0)"
  "(b AND 0xfe = 0xc0) = (0xc0 \<le> unat b \<and> unat b < 0xc2)"
  "(b AND 0xf0 = 0xe0) = (0xe0 \<le> unat b \<and> unat b < 0xf0)"
  "(b AND 0xe0 = 0x80) = (0x80 \<le> unat b \<and> unat b < 0xa0)"
  "(b AND 0xf8 = 0xf0) = (0xf0 \<le> unat b \<and> unat b < 0xf8)"
  "(b AND 0xf0 = 0x80) = (0x80 \<le> unat b \<and> unat b < 0x90)"
  for b :: byte
  using field_range [of "0xc0" 6 2 "0x80" 2 b] field_range [of "0xe0" 5 3 "0xc0" 6 b]
    field_range [of "0xfe" 1 7 "0xc0" 96 b] field_range [of "0xf0" 4 4 "0xe0" 14 b]
    field_range [of "0xe0" 5 3 "0x80" 4 b] field_range [of "0xf8" 3 5 "0xf0" 30 b]
    field_range [of "0xf0" 4 4 "0x80" 8 b]
  by simp_all

lemma byte_test_surrogate:
  assumes "0x80 \<le> unat b" "unat b < 0xc0"
  shows "(b AND 0xa0 = 0xa0) = (0xa0 \<le> unat (b :: byte))"
proof (cases "0xa0 \<le> unat b")
  case True
  with assms have "unat b div 32 = 5" by (intro div_nat_eqI) simp_all
  with True byte_and_shifted [of "0xa0" 5 5 b] show ?thesis by (simp add: byte_eq_unat)
next
  case False
  with assms have "unat b div 32 = 4" by (intro div_nat_eqI) simp_all
  with False byte_and_shifted [of "0xa0" 5 5 b] show ?thesis by (simp add: byte_eq_unat)
qed

lemma byte_test_eqs:
  "(b < 0x80) = (unat b < 0x80)" "(b > 0x8f) = (unat b > 0x8f)" "(b > 0xf4) = (unat b > 0xf4)"
  "(b = 0xe0) = (unat b = 0xe0)" "(b = 0xed) = (unat b = 0xed)" "(b = 0xf0) = (unat b = 0xf0)"
  "(b = 0xf4) = (unat b = 0xf4)"
  for b :: byte
  by (simp_all add: byte_eq_unat word_less_nat_alt)

lemma unat_byte: "n < 256 \<Longrightarrow> unat (word_of_nat n :: byte) = n"
  by (simp add: unat_of_nat take_bit_eq_mod)

subsection \<open>One encoded scalar value\<close>

fun utf8_seq :: "nat list \<Rightarrow> bool" where
  "utf8_seq [a] \<longleftrightarrow> a < 0x80"
| "utf8_seq [a, b] \<longleftrightarrow> 0xC2 \<le> a \<and> a < 0xE0 \<and> 0x80 \<le> b \<and> b < 0xC0"
| "utf8_seq [a, b, c] \<longleftrightarrow> 0xE0 \<le> a \<and> a < 0xF0 \<and> 0x80 \<le> b \<and> b < 0xC0 \<and> 0x80 \<le> c \<and> c < 0xC0 \<and>
     (a = 0xE0 \<longrightarrow> 0xA0 \<le> b) \<and> (a = 0xED \<longrightarrow> b < 0xA0)"
| "utf8_seq [a, b, c, d] \<longleftrightarrow> 0xF0 \<le> a \<and> a \<le> 0xF4 \<and> 0x80 \<le> b \<and> b < 0xC0 \<and> 0x80 \<le> c \<and> c < 0xC0 \<and>
     0x80 \<le> d \<and> d < 0xC0 \<and> (a = 0xF0 \<longrightarrow> 0x90 \<le> b) \<and> (a = 0xF4 \<longrightarrow> b \<le> 0x8F)"
| "utf8_seq _ \<longleftrightarrow> False"

lemma split_64:
  "c = 64 * (c div 64) + c mod 64" "c div 64 = 64 * (c div 4096) + c div 64 mod 64"
  "c div 4096 = 64 * (c div 262144) + c div 4096 mod 64" for c :: nat
proof -
  show "c = 64 * (c div 64) + c mod 64" by simp
  have "c div 4096 = c div 64 div 64" by (simp add: div_mult2_eq [symmetric])
  then show "c div 64 = 64 * (c div 4096) + c div 64 mod 64" by simp
  have "c div 262144 = c div 4096 div 64" by (simp add: div_mult2_eq [symmetric])
  then show "c div 4096 = 64 * (c div 262144) + c div 4096 mod 64" by simp
qed

lemma utf8_seq_units: "scalar_value c \<Longrightarrow> utf8_seq (utf8_units c)"
proof -
  assume c: "scalar_value c"
  note d = split_64 [of c]
  have m: "c mod 64 < 64" "c div 64 mod 64 < 64" "c div 4096 mod 64 < 64" by simp_all
  consider "c < 0x80" | "0x80 \<le> c" "c < 0x800" | "0x800 \<le> c" "c < 0x10000" | "0x10000 \<le> c"
    by linarith
  then show ?thesis
  proof cases
    case 1 then show ?thesis by (simp add: utf8_units_def)
  next
    case 2
    then have "2 \<le> c div 64" "c div 64 < 32" using d m by linarith+
    with 2 show ?thesis by (simp add: utf8_units_def)
  next
    case 3
    then have "c div 4096 < 16" using d m by linarith
    moreover have "c div 4096 = 0 \<Longrightarrow> 32 \<le> c div 64 mod 64" using 3 d m by linarith
    moreover have "c div 4096 = 13 \<Longrightarrow> c div 64 mod 64 < 32"
      using 3 c d m unfolding scalar_value_def by linarith
    ultimately show ?thesis using 3 by (simp add: utf8_units_def)
  next
    case 4
    then have "c div 262144 \<le> 4" using c d m unfolding scalar_value_def by linarith
    moreover have "c div 262144 = 0 \<Longrightarrow> 16 \<le> c div 4096 mod 64" using 4 d m by linarith
    moreover have "c div 262144 = 4 \<Longrightarrow> c div 4096 mod 64 \<le> 15"
      using 4 c d m unfolding scalar_value_def by linarith
    ultimately show ?thesis using 4 by (simp add: utf8_units_def)
  qed
qed

lemma utf8_units_seq: "utf8_seq us \<Longrightarrow> \<exists>c. scalar_value c \<and> us = utf8_units c"
proof (induction us rule: utf8_seq.induct)
  case (1 a)
  then show ?case by (intro exI [of _ a]) (simp add: scalar_value_def utf8_units_def)
next
  case (2 a b)
  then obtain x y where xy: "a = 0xC0 + x" "b = 0x80 + y" "2 \<le> x" "x < 32" "y < 64"
    using le_iff_add [of "0xC0" a] le_iff_add [of "0x80" b] by auto
  let ?c = "x * 64 + y"
  have "?c div 64 = x" "?c mod 64 = y" "0x80 \<le> ?c" "?c < 0x800" using xy by simp_all
  with xy show ?case by (intro exI [of _ ?c]) (simp add: scalar_value_def utf8_units_def)
next
  case (3 a b c)
  then obtain x y z where xyz: "a = 0xE0 + x" "b = 0x80 + y" "c = 0x80 + z" "x < 16" "y < 64"
      "z < 64" "x = 0 \<Longrightarrow> 32 \<le> y" "x = 13 \<Longrightarrow> y < 32"
    using le_iff_add [of "0xE0" a] le_iff_add [of "0x80" b] le_iff_add [of "0x80" c] by auto
  let ?c = "(x * 64 + y) * 64 + z"
  have d: "?c div 64 = x * 64 + y" "?c mod 64 = z"
    using xyz by (simp_all only: div_mult_self3 mod_mult_self3) simp_all
  moreover have "?c div 4096 = x" using xyz by (intro div_nat_eqI) simp_all
  moreover have "?c div 64 mod 64 = y" using xyz by (simp only: d) simp
  moreover have "0x800 \<le> ?c" using xyz by (cases "x = 0") simp_all
  moreover have "?c < 0x10000" using xyz by simp
  moreover have "\<not> (0xD800 \<le> ?c \<and> ?c \<le> 0xDFFF)"
  proof (cases "x = 13")
    case False
    then have "x < 13 \<or> 14 \<le> x" by linarith
    then show ?thesis using xyz by auto
  qed (use xyz in simp)
  ultimately show ?case using xyz
    by (intro exI [of _ ?c]) (simp add: scalar_value_def utf8_units_def)
next
  case (4 a b c d)
  then obtain x y z w where v: "a = 0xF0 + x" "b = 0x80 + y" "c = 0x80 + z" "d = 0x80 + w" "x \<le> 4"
      "y < 64" "z < 64" "w < 64" "x = 0 \<Longrightarrow> 16 \<le> y" "x = 4 \<Longrightarrow> y \<le> 15"
    using le_iff_add [of "0xF0" a] le_iff_add [of "0x80" b] le_iff_add [of "0x80" c]
      le_iff_add [of "0x80" d] by auto
  let ?c = "((x * 64 + y) * 64 + z) * 64 + w"
  have d64: "?c div 64 = (x * 64 + y) * 64 + z" and "?c mod 64 = w"
    using v by (simp_all only: div_mult_self3 mod_mult_self3) simp_all
  moreover have "?c div 64 mod 64 = z" using v by (simp only: d64 mod_mult_self3) simp
  moreover have d4096: "?c div 4096 = x * 64 + y" using v by (intro div_nat_eqI) simp_all
  moreover have "?c div 4096 mod 64 = y" using v by (simp only: d4096 mod_mult_self3) simp
  moreover have "?c div 262144 = x" using v by (intro div_nat_eqI) simp_all
  moreover have "0x10000 \<le> ?c" using v by (cases "x = 0") simp_all
  moreover have "?c < 0x110000" using v by (cases "x = 4") simp_all
  ultimately show ?case using v
    by (intro exI [of _ ?c]) (simp add: scalar_value_def utf8_units_def)
qed simp_all

lemma units_bytes: "scalar_value c \<Longrightarrow> map unat (utf8_encode c) = utf8_units c"
proof -
  assume c: "scalar_value c"
  have "\<forall>u \<in> set us. u < 256" if "utf8_seq us" for us
    using that by (induction us rule: utf8_seq.induct) auto
  from this [OF utf8_seq_units [OF c]] show ?thesis
    by (auto simp: utf8_encode_def unat_byte intro: map_idI)
qed

lemma utf8_seq_bytes: "utf8_seq (map unat bs) \<longleftrightarrow> (\<exists>c. scalar_value c \<and> bs = utf8_encode c)"
proof
  assume "utf8_seq (map unat bs)"
  then obtain c where "scalar_value c" "map unat bs = map unat (utf8_encode c)"
    using utf8_units_seq units_bytes by metis
  moreover have "inj (unat :: byte \<Rightarrow> nat)" by (rule injI) (simp add: word_unat_eq_iff)
  ultimately show "\<exists>c. scalar_value c \<and> bs = utf8_encode c"
    by (auto simp: inj_map_eq_map)
next
  assume "\<exists>c. scalar_value c \<and> bs = utf8_encode c"
  then show "utf8_seq (map unat bs)" using utf8_seq_units units_bytes by metis
qed

subsection \<open>The loop, one sequence at a time\<close>

lemma take_drop_nths:
  "k + 1 \<le> length s \<Longrightarrow> take (Suc 0) (drop k s) = [s ! k]"
  "k + 2 \<le> length s \<Longrightarrow> take 2 (drop k s) = [s ! k, s ! (k + 1)]"
  "k + 3 \<le> length s \<Longrightarrow> take 3 (drop k s) = [s ! k, s ! (k + 1), s ! (k + 2)]"
  "k + 4 \<le> length s \<Longrightarrow> take 4 (drop k s) = [s ! k, s ! (k + 1), s ! (k + 2), s ! (k + 3)]"
  by (auto intro!: nth_equalityI simp: less_Suc_eq numeral_eq_Suc)

definition utf8_at :: "byte list \<Rightarrow> nat \<Rightarrow> nat \<Rightarrow> bool" where
  "utf8_at s k n \<longleftrightarrow> k + n \<le> length s \<and> utf8_seq (map unat (take n (drop k s)))"

lemma utf8_at_simps:
  "utf8_at s k (Suc 0) \<longleftrightarrow> k + 1 \<le> length s \<and> utf8_seq [unat (s ! k)]"
  "utf8_at s k 2 \<longleftrightarrow> k + 2 \<le> length s \<and> utf8_seq [unat (s ! k), unat (s ! (k + 1))]"
  "utf8_at s k 3 \<longleftrightarrow> k + 3 \<le> length s \<and>
     utf8_seq [unat (s ! k), unat (s ! (k + 1)), unat (s ! (k + 2))]"
  "utf8_at s k 4 \<longleftrightarrow> k + 4 \<le> length s \<and>
     utf8_seq [unat (s ! k), unat (s ! (k + 1)), unat (s ! (k + 2)), unat (s ! (k + 3))]"
  by (auto simp: utf8_at_def take_drop_nths cong: conj_cong)

lemma utf8_loop_step:
  assumes k: "k < length s"
  shows "utf8_loop s (int (length s)) (int k) \<longleftrightarrow>
    (\<exists>n \<in> {1, 2, 3, 4}. utf8_at s k n \<and> utf8_loop s (int (length s)) (int (k + n)))"
proof -
  let ?b = "\<lambda>j. unat (s ! (k + j))"
  define L where "L j = utf8_loop s (int (length s)) (int k + j)" for j
  have nats: "nat (int k) = k" "nat (int k + 1) = k + 1" "nat (int k + 2) = k + 2"
    "nat (int k + 3) = k + 3" by simp_all
  have le: "int k < int (length s)" "(int k + 1 \<ge> int (length s)) = (\<not> k + 2 \<le> length s)"
    "(int k + 2 \<ge> int (length s)) = (\<not> k + 3 \<le> length s)"
    "(int k + 3 \<ge> int (length s)) = (\<not> k + 4 \<le> length s)" using k by auto
  have loop: "utf8_loop s (int (length s)) (int k) =
     (if s ! k < 0x80 then L 1
      else if s ! k AND 0xe0 = 0xc0 then
        (if \<not> k + 2 \<le> length s \<or> s ! (k + 1) AND 0xc0 \<noteq> 0x80 \<or> s ! k AND 0xfe = 0xc0 then False
         else L 2)
      else if s ! k AND 0xf0 = 0xe0 then
        (if \<not> k + 3 \<le> length s \<or> s ! (k + 1) AND 0xc0 \<noteq> 0x80 \<or> s ! (k + 2) AND 0xc0 \<noteq> 0x80 \<or>
            (s ! k = 0xe0 \<and> s ! (k + 1) AND 0xe0 = 0x80) \<or>
            (s ! k = 0xed \<and> s ! (k + 1) AND 0xa0 = 0xa0) then False
         else L 3)
      else if s ! k AND 0xf8 = 0xf0 then
        (if \<not> k + 4 \<le> length s \<or> s ! (k + 1) AND 0xc0 \<noteq> 0x80 \<or> s ! (k + 2) AND 0xc0 \<noteq> 0x80 \<or>
            s ! (k + 3) AND 0xc0 \<noteq> 0x80 \<or> (s ! k = 0xf0 \<and> s ! (k + 1) AND 0xf0 = 0x80) \<or>
            (s ! k = 0xf4 \<and> s ! (k + 1) > 0x8f) \<or> s ! k > 0xf4 then False
         else L 4)
      else False)"
    by (subst utf8_loop.simps) (simp only: nats le L_def Let_def not_True_eq_False if_False)
  have e: "utf8_loop s (int (length s)) (int (k + 1)) = L 1"
    "utf8_loop s (int (length s)) (int (k + 2)) = L 2"
    "utf8_loop s (int (length s)) (int (k + 3)) = L 3"
    "utf8_loop s (int (length s)) (int (k + 4)) = L 4" by (simp_all add: L_def ac_simps)
  have sur: "0x80 \<le> ?b 1 \<Longrightarrow> ?b 1 < 0xc0 \<Longrightarrow> (s ! (k + 1) AND 0xa0 = 0xa0) = (0xa0 \<le> ?b 1)"
    by (rule byte_test_surrogate) simp_all
  note facts = loop [unfolded byte_test_ranges, unfolded byte_test_eqs] utf8_at_simps
  consider "?b 0 < 0x80" | "0x80 \<le> ?b 0" "?b 0 < 0xc0" | "0xc0 \<le> ?b 0" "?b 0 < 0xe0"
    | "0xe0 \<le> ?b 0" "?b 0 < 0xf0" | "0xf0 \<le> ?b 0" "?b 0 < 0xf8" | "0xf8 \<le> ?b 0" by linarith
  then have "utf8_loop s (int (length s)) (int k) \<longleftrightarrow>
    (utf8_at s k 1 \<and> L 1) \<or> (utf8_at s k 2 \<and> L 2) \<or> (utf8_at s k 3 \<and> L 3) \<or> (utf8_at s k 4 \<and> L 4)"
  proof cases
    case 3
    then show ?thesis using k by (simp add: facts) linarith
  next
    case 4
    show ?thesis
    proof (cases "0x80 \<le> unat (s ! (k + 1)) \<and> unat (s ! (k + 1)) < 0xc0")
      case True
      with 4 sur show ?thesis using k by (simp add: facts) linarith
    next
      case False
      with 4 show ?thesis using k by (simp add: facts) linarith
    qed
  next
    case 5
    then show ?thesis using k by (simp add: facts) linarith
  qed (use k in \<open>simp add: facts\<close>)+
  then show ?thesis by (simp only: bex_simps e) simp
qed

lemma utf8_text_step:
  assumes "bs \<noteq> []"
  shows "utf8_text bs \<longleftrightarrow>
    (\<exists>n \<in> {1, 2, 3, 4}. n \<le> length bs \<and> utf8_seq (map unat (take n bs)) \<and> utf8_text (drop n bs))"
proof
  assume "utf8_text bs"
  then obtain cs where cs: "\<forall>c \<in> set cs. scalar_value c" "bs = concat (map utf8_encode cs)"
    by (auto simp: utf8_text_def)
  with assms obtain c cs' where "cs = c # cs'" by (cases cs) auto
  moreover have "length (utf8_encode c) \<in> {1, 2, 3, 4}"
    by (simp add: utf8_encode_def utf8_units_def)
  ultimately show "\<exists>n \<in> {1, 2, 3, 4}. n \<le> length bs \<and> utf8_seq (map unat (take n bs)) \<and>
      utf8_text (drop n bs)"
    using cs by (intro bexI [of _ "length (utf8_encode c)"])
      (auto simp: utf8_seq_bytes utf8_text_def)
next
  assume "\<exists>n \<in> {1, 2, 3, 4}. n \<le> length bs \<and> utf8_seq (map unat (take n bs)) \<and> utf8_text (drop n bs)"
  then obtain n c cs where "take n bs = utf8_encode c" "scalar_value c"
      "\<forall>c \<in> set cs. scalar_value c" "drop n bs = concat (map utf8_encode cs)"
    by (auto simp: utf8_seq_bytes utf8_text_def)
  moreover from this have "bs = concat (map utf8_encode (c # cs))"
    using append_take_drop_id [of n bs] by simp
  ultimately show "utf8_text bs" unfolding utf8_text_def by (intro exI [of _ "c # cs"]) auto
qed

lemma utf8_loop_text:
  "k \<le> length s \<Longrightarrow> utf8_loop s (int (length s)) (int k) \<longleftrightarrow> utf8_text (drop k s)"
proof (induction "length s - k" arbitrary: k rule: less_induct)
  case less
  show ?case
  proof (cases "k = length s")
    case True
    then show ?thesis by (subst utf8_loop.simps) (auto simp: utf8_text_def intro: exI [of _ "[]"])
  next
    case False
    with less.prems have k: "k < length s" by simp
    have IH: "utf8_loop s (int (length s)) (int (k + n)) = utf8_text (drop (k + n) s)"
      if "utf8_at s k n" "0 < n" for n
      using that k by (intro less.hyps) (auto simp: utf8_at_def)
    have "utf8_text (drop k s) \<longleftrightarrow> (\<exists>n \<in> {1, 2, 3, 4}. utf8_at s k n \<and> utf8_text (drop (k + n) s))"
    proof -
      have le: "n \<le> length (drop k s) \<longleftrightarrow> k + n \<le> length s" for n using k by auto
      have "drop k s \<noteq> []" using k by simp
      from utf8_text_step [OF this] show ?thesis
        by (simp only: utf8_at_def drop_drop add.commute [of _ k] conj_assoc le)
    qed
    moreover have "utf8_at s k n \<and> utf8_loop s (int (length s)) (int (k + n)) \<longleftrightarrow>
        utf8_at s k n \<and> utf8_text (drop (k + n) s)" if "n \<in> {1, 2, 3, 4}" for n
      using IH [of n] that by auto
    ultimately show ?thesis
      by (simp only: utf8_loop_step [OF k] cong: bex_cong)
  qed
qed

subsection \<open>Correctness, and the narrowing of the length\<close>

text \<open>
  C26: For messages up to the size an \<open>int\<close> can count (with the three bytes of look-ahead), the
  validator accepts a byte string exactly when it is a sequence of UTF-8 encodings of Unicode
  scalar values: no overlong form, no surrogate, nothing above U+10FFFF, no truncated sequence.
\<close>

theorem is_valid_utf8_correct:
  assumes "length s < 2 ^ 31 - 3"
  shows "is_valid_utf8 s (narrow_len (length s)) \<longleftrightarrow> utf8_text s"
  using assms utf8_loop_text [of 0 s] by (simp add: is_valid_utf8_def narrow_len_id)

theorem is_valid_utf8_correct_witness:
  "is_valid_utf8 [0xE2, 0x82, 0xAC] (narrow_len 3) \<and> utf8_encode 0x20AC = [0xE2, 0x82, 0xAC]"
proof
  show e: "utf8_encode 0x20AC = [0xE2, 0x82, 0xAC]" by (simp add: utf8_encode_def utf8_units_def)
  have "utf8_text [0xE2, 0x82, 0xAC]"
    unfolding utf8_text_def by (rule exI [of _ "[0x20AC]"]) (simp add: e scalar_value_def)
  with is_valid_utf8_correct [of "[0xE2, 0x82, 0xAC]"]
  show "is_valid_utf8 [0xE2, 0x82, 0xAC] (narrow_len 3)" by (simp add: numeral_3_eq_3)
qed

text \<open>
  C40: A message of two to four gigabytes is accepted whatever its bytes are: its \<open>size_t\<close> length is
  negative as an \<open>int\<close>, so the validation loop does not look at a single byte.
\<close>

theorem is_valid_utf8_skips_large:
  assumes "2 ^ 31 \<le> length s" and "length s < 2 ^ 32"
  shows "is_valid_utf8 s (narrow_len (length s))"
  using narrow_len_neg [OF assms] by (simp add: is_valid_utf8_def utf8_loop.simps)

theorem is_valid_utf8_skips_large_witness:
  "is_valid_utf8 (replicate (2 ^ 31) 0xFF) (narrow_len (length (replicate (2 ^ 31) (0xFF :: byte))))"
  by (rule is_valid_utf8_skips_large) simp_all

end
