(* ===== verification/Frame.thy ===== *)
theory Frame
  imports Bytes Utf8
begin

unbundle bit_operations_syntax

section \<open>Frames and messages (Frame.hpp, Message.hpp)\<close>

text \<open>
  The enumeration \<open>opcode\<close> with its underlying values, the two header bytes with the bit-mask
  accessors, the setters the writers use, the control frames with their fixed payload array, and
  the small message types. The lemmas say which bits each setter changes and that the accessors
  read back what was set; \<open>client_header\<close> is the header RFC 6455 prescribes for a client frame.
\<close>

subsection \<open>Opcodes\<close>

datatype opcode =
    Op_continuation | Op_text | Op_binary | Op_rsv3 | Op_rsv4 | Op_rsv5 | Op_rsv6 | Op_rsv7
  | Op_close | Op_ping | Op_pong
  | Op_control_rsvb | Op_control_rsvc | Op_control_rsvd | Op_control_rsve | Op_control_rsvf
  | Op_not_set

fun opcode_value :: "opcode \<Rightarrow> byte" where
  "opcode_value Op_continuation = 0x0"
| "opcode_value Op_text = 0x1"
| "opcode_value Op_binary = 0x2"
| "opcode_value Op_rsv3 = 0x3"
| "opcode_value Op_rsv4 = 0x4"
| "opcode_value Op_rsv5 = 0x5"
| "opcode_value Op_rsv6 = 0x6"
| "opcode_value Op_rsv7 = 0x7"
| "opcode_value Op_close = 0x8"
| "opcode_value Op_ping = 0x9"
| "opcode_value Op_pong = 0xA"
| "opcode_value Op_control_rsvb = 0xB"
| "opcode_value Op_control_rsvc = 0xC"
| "opcode_value Op_control_rsvd = 0xD"
| "opcode_value Op_control_rsve = 0xE"
| "opcode_value Op_control_rsvf = 0xF"
| "opcode_value Op_not_set = 0xFF"

text \<open>The cast \<open>opcode(b)\<close>; the code casts values below 16 only.\<close>

definition opcode_of_byte :: "byte \<Rightarrow> opcode" where
  "opcode_of_byte b =
     (if b = 0x0 then Op_continuation else if b = 0x1 then Op_text else if b = 0x2 then Op_binary
      else if b = 0x3 then Op_rsv3 else if b = 0x4 then Op_rsv4 else if b = 0x5 then Op_rsv5
      else if b = 0x6 then Op_rsv6 else if b = 0x7 then Op_rsv7 else if b = 0x8 then Op_close
      else if b = 0x9 then Op_ping else if b = 0xA then Op_pong
      else if b = 0xB then Op_control_rsvb else if b = 0xC then Op_control_rsvc
      else if b = 0xD then Op_control_rsvd else if b = 0xE then Op_control_rsve
      else if b = 0xF then Op_control_rsvf else Op_not_set)"

lemma opcode_of_byte_value [simp]: "opcode_of_byte (opcode_value op) = op"
  by (cases op) (simp_all add: opcode_of_byte_def)

lemma opcode_value_inject [simp]: "opcode_value a = opcode_value b \<longleftrightarrow> a = b"
  by (metis opcode_of_byte_value)

text \<open>Scoped enumerators compare by their values.\<close>

instantiation opcode :: linorder
begin

definition less_eq_opcode :: "opcode \<Rightarrow> opcode \<Rightarrow> bool" where
  "less_eq_opcode a b \<longleftrightarrow> opcode_value a \<le> opcode_value b"

definition less_opcode :: "opcode \<Rightarrow> opcode \<Rightarrow> bool" where
  "less_opcode a b \<longleftrightarrow> opcode_value a < opcode_value b"

instance
proof
  fix a b c :: opcode
  show "a < b \<longleftrightarrow> a \<le> b \<and> \<not> b \<le> a" 
    unfolding less_eq_opcode_def less_opcode_def by (rule less_le_not_le)
  show "a \<le> a" by (simp add: less_eq_opcode_def)
  show "a \<le> b \<Longrightarrow> b \<le> c \<Longrightarrow> a \<le> c" by (simp add: less_eq_opcode_def)
  show "a \<le> b \<Longrightarrow> b \<le> a \<Longrightarrow> a = b"
    using opcode_value_inject order_antisym unfolding less_eq_opcode_def by blast
  show "a \<le> b \<or> b \<le> a" by (auto simp: less_eq_opcode_def)
qed

end

definition is_reserved :: "opcode \<Rightarrow> bool" where
  "is_reserved v \<longleftrightarrow>
     (v \<ge> Op_rsv3 \<and> v \<le> Op_rsv7) \<or> (v \<ge> Op_control_rsvb \<and> v \<le> Op_control_rsvf)"

definition opcode_to_string :: "opcode \<Rightarrow> string" where
  "opcode_to_string v =
     (case v of
        Op_continuation \<Rightarrow> ''continuation''
      | Op_text \<Rightarrow> ''text''
      | Op_binary \<Rightarrow> ''binary''
      | Op_rsv3 \<Rightarrow> ''rsv3''
      | Op_rsv4 \<Rightarrow> ''rsv4''
      | Op_rsv5 \<Rightarrow> ''rsv5''
      | Op_rsv6 \<Rightarrow> ''rsv6''
      | Op_rsv7 \<Rightarrow> ''rsv7''
      | Op_close \<Rightarrow> ''close''
      | Op_ping \<Rightarrow> ''ping''
      | Op_pong \<Rightarrow> ''pong''
      | Op_control_rsvb \<Rightarrow> ''control_rsvb''
      | Op_control_rsvc \<Rightarrow> ''control_rsvc''
      | Op_control_rsvd \<Rightarrow> ''control_rsvd''
      | Op_control_rsve \<Rightarrow> ''control_rsve''
      | Op_control_rsvf \<Rightarrow> ''control_rsvf''
      | Op_not_set \<Rightarrow> ''unknown'')"

lemmas opcode_order_defs = less_eq_opcode_def less_opcode_def

lemma is_reserved_iff:
  "is_reserved op \<longleftrightarrow>
     op \<notin> {Op_continuation, Op_text, Op_binary, Op_close, Op_ping, Op_pong, Op_not_set}"
  by (cases op) (simp_all add: is_reserved_def opcode_order_defs word_le_nat_alt)

subsection \<open>The frame header\<close>

definition mask_opcode :: byte where "mask_opcode = 0x0F"
definition mask_rsv1 :: byte where "mask_rsv1 = 0x40"
definition mask_rsv2 :: byte where "mask_rsv2 = 0x20"
definition mask_rsv3 :: byte where "mask_rsv3 = 0x10"
definition mask_rsv_all :: byte where "mask_rsv_all = (mask_rsv1 OR mask_rsv2) OR mask_rsv3"
definition mask_final :: byte where "mask_final = 0x80"
definition mask_payload :: byte where "mask_payload = 0x7F"
definition mask_is_masked :: byte where "mask_is_masked = 0x80"

record frame_header =
  hdr_b0 :: byte
  hdr_b1 :: byte

definition op_code :: "frame_header \<Rightarrow> opcode" where
  "op_code h = opcode_of_byte (hdr_b0 h AND mask_opcode)"

definition is_final :: "frame_header \<Rightarrow> bool" where
  "is_final h \<longleftrightarrow> hdr_b0 h AND mask_final = mask_final"

definition is_control :: "frame_header \<Rightarrow> bool" where
  "is_control h \<longleftrightarrow> opcode_value (op_code h) \<ge> 0x8"

definition has_rsv_bits :: "frame_header \<Rightarrow> bool" where
  "has_rsv_bits h \<longleftrightarrow> hdr_b0 h AND mask_rsv_all \<noteq> 0"

definition rsv1_bit :: "frame_header \<Rightarrow> bool" where
  "rsv1_bit h \<longleftrightarrow> hdr_b0 h AND mask_rsv1 = mask_rsv1"

definition rsv1_bit_only :: "frame_header \<Rightarrow> bool" where
  "rsv1_bit_only h \<longleftrightarrow>
     hdr_b0 h AND mask_rsv1 = mask_rsv1 \<and> hdr_b0 h AND mask_rsv2 = 0 \<and> hdr_b0 h AND mask_rsv3 = 0"

definition rsv2_bit :: "frame_header \<Rightarrow> bool" where
  "rsv2_bit h \<longleftrightarrow> hdr_b0 h AND mask_rsv2 = mask_rsv2"

definition rsv3_bit :: "frame_header \<Rightarrow> bool" where
  "rsv3_bit h \<longleftrightarrow> hdr_b0 h AND mask_rsv3 = mask_rsv3"

definition is_masked :: "frame_header \<Rightarrow> bool" where
  "is_masked h \<longleftrightarrow> hdr_b1 h AND mask_is_masked = mask_is_masked"

definition get_basic_size :: "frame_header \<Rightarrow> u64" where
  "get_basic_size h = ucast (hdr_b1 h AND mask_payload)"

subsection \<open>Frames\<close>

record frame =
  fr_header :: frame_header
  fr_mask_key :: u32
  fr_payload_size :: u64

definition frame_new :: frame where
  "frame_new = \<lparr>fr_header = \<lparr>hdr_b0 = 0, hdr_b1 = 0\<rparr>, fr_mask_key = 0, fr_payload_size = 0\<rparr>"

definition set_b0 :: "byte \<Rightarrow> frame \<Rightarrow> frame" where
  "set_b0 b f = f\<lparr>fr_header := (fr_header f)\<lparr>hdr_b0 := b\<rparr>\<rparr>"

definition set_b1 :: "byte \<Rightarrow> frame \<Rightarrow> frame" where
  "set_b1 b f = f\<lparr>fr_header := (fr_header f)\<lparr>hdr_b1 := b\<rparr>\<rparr>"

definition set_opcode :: "opcode \<Rightarrow> frame \<Rightarrow> frame" where
  "set_opcode op f =
     set_b0 ((hdr_b0 (fr_header f) AND NOT mask_opcode) OR (opcode_value op AND mask_opcode)) f"

definition set_is_final :: "bool \<Rightarrow> frame \<Rightarrow> frame" where
  "set_is_final v f =
     set_b0 ((hdr_b0 (fr_header f) AND NOT mask_final) OR (if v then mask_final else 0)) f"

definition set_is_masked :: "bool \<Rightarrow> frame \<Rightarrow> frame" where
  "set_is_masked v f =
     set_b1 ((hdr_b1 (fr_header f) AND NOT mask_is_masked) OR (if v then mask_is_masked else 0)) f"

definition set_is_compressed :: "bool \<Rightarrow> frame \<Rightarrow> frame" where
  "set_is_compressed v f =
     set_b0 ((hdr_b0 (fr_header f) AND NOT mask_rsv1) OR (if v then mask_rsv1 else 0)) f"

definition set_payload_size :: "u64 \<Rightarrow> frame \<Rightarrow> frame" where
  "set_payload_size sz f =
     (let f = f\<lparr>fr_payload_size := sz\<rparr>; b1 = hdr_b1 (fr_header f)
      in if sz \<le> 125 then set_b1 ((b1 AND NOT mask_payload) OR (ucast sz AND mask_payload)) f
         else if sz \<le> 0xFFFF then set_b1 (b1 OR 0x7E) f
         else set_b1 (b1 OR 0x7F) f)"

subsection \<open>Control frames\<close>

text \<open>
  The payload array has 125 bytes and is not initialised by the constructor: \<open>junk\<close> is what it
  happens to hold. \<open>PingFrame\<close>, \<open>PongFrame\<close> and \<open>CloseFrame\<close> are control frames with that opcode.
\<close>

record control_frame =
  cf_op_code :: opcode
  cf_payload_size :: nat
  cf_payload :: "byte list"

definition control_frame_new :: "(nat \<Rightarrow> byte) \<Rightarrow> opcode \<Rightarrow> nat \<Rightarrow> control_frame" where
  "control_frame_new junk op payload_size =
     \<lparr>cf_op_code = op, cf_payload_size = payload_size, cf_payload = map junk [0..<125]\<rparr>"

definition payload_bytes :: "control_frame \<Rightarrow> byte list" where
  "payload_bytes f = take (cf_payload_size f) (cf_payload f)"

definition close_frame_new :: "(nat \<Rightarrow> byte) \<Rightarrow> nat \<Rightarrow> control_frame" where
  "close_frame_new junk payload_size = control_frame_new junk Op_close payload_size"

definition ping_frame_new :: "(nat \<Rightarrow> byte) \<Rightarrow> nat \<Rightarrow> control_frame" where
  "ping_frame_new junk payload_size = control_frame_new junk Op_ping payload_size"

definition pong_frame_new :: "(nat \<Rightarrow> byte) \<Rightarrow> nat \<Rightarrow> control_frame" where
  "pong_frame_new junk payload_size = control_frame_new junk Op_pong payload_size"

definition has_close_code :: "control_frame \<Rightarrow> bool" where
  "has_close_code f \<longleftrightarrow> cf_payload_size f \<ge> 2"

definition has_reason :: "control_frame \<Rightarrow> bool" where
  "has_reason f \<longleftrightarrow> cf_payload_size f > 2"

definition get_close_code :: "endian \<Rightarrow> control_frame \<Rightarrow> close_code" where
  "get_close_code native f =
     (if \<not> has_close_code f then not_set
      else let ncode = from_mem native (take 2 (cf_payload f)) in network_to_host16 native ncode)"

definition get_reason :: "control_frame \<Rightarrow> byte list" where
  "get_reason f =
     (if \<not> has_reason f then [] else take (cf_payload_size f - 2) (drop 2 (cf_payload f)))"

definition is_reason_valid_utf8 :: "control_frame \<Rightarrow> bool" where
  "is_reason_valid_utf8 f =
     (if \<not> has_reason f then True
      else let reason = get_reason f in is_valid_utf8 reason (narrow_len (length reason)))"

subsection \<open>Messages\<close>

datatype message_type = Mt_text | Mt_binary

fun message_opcode :: "message_type \<Rightarrow> opcode" where
  "message_opcode Mt_text = Op_text"
| "message_opcode Mt_binary = Op_binary"

fun message_type_to_string :: "message_type \<Rightarrow> string" where
  "message_type_to_string Mt_text = ''text''"
| "message_type_to_string Mt_binary = ''binary''"

text \<open>A message is a span of the caller's memory: its address and the bytes there.\<close>

record message =
  msg_type :: message_type
  msg_ptr :: nat
  msg_data :: "byte list"

record message_read_state =
  rs_is_compressed :: bool
  rs_is_first :: bool
  rs_op_code :: opcode

definition read_state_reset :: message_read_state where
  "read_state_reset =
     \<lparr>rs_is_compressed = False, rs_is_first = True, rs_op_code = Op_not_set\<rparr>"

record send_options =
  opt_compress :: bool
  opt_timeout :: int

definition send_options_default :: send_options where
  "send_options_default = \<lparr>opt_compress = True, opt_timeout = 30 * 1000\<rparr>"


subsection \<open>What the setters change\<close>

lemmas mask_defs =
  mask_opcode_def mask_rsv1_def mask_rsv2_def mask_rsv3_def mask_rsv_all_def mask_final_def
  mask_payload_def mask_is_masked_def

named_theorems frame_simps

lemma set_b_sel [frame_simps]:
  "hdr_b0 (fr_header (set_b0 b f)) = b" "hdr_b1 (fr_header (set_b0 b f)) = hdr_b1 (fr_header f)"
  "hdr_b0 (fr_header (set_b1 b f)) = hdr_b0 (fr_header f)" "hdr_b1 (fr_header (set_b1 b f)) = b"
  "fr_mask_key (set_b0 b f) = fr_mask_key f" "fr_mask_key (set_b1 b f) = fr_mask_key f"
  "fr_payload_size (set_b0 b f) = fr_payload_size f"
  "fr_payload_size (set_b1 b f) = fr_payload_size f"
  by (simp_all add: set_b0_def set_b1_def)

text \<open>The first byte of a frame with the given final bit, RSV1 bit and opcode.\<close>

definition first_byte :: "bool \<Rightarrow> bool \<Rightarrow> opcode \<Rightarrow> byte" where
  "first_byte fin rsv1 op =
     (if fin then 0x80 else 0) + (if rsv1 then 0x40 else 0) + opcode_value op"

lemma first_byte_setters:
  assumes "op \<noteq> Op_not_set"
  shows "hdr_b0 (fr_header (set_is_final fin (set_opcode op frame_new))) = first_byte fin False op"
    and "hdr_b0 (fr_header (set_is_compressed True (set_is_final fin (set_opcode op frame_new)))) =
      first_byte fin True op"
  using assms
  by (cases op; cases fin; simp add: set_is_compressed_def set_is_final_def set_opcode_def frame_new_def
      mask_defs first_byte_def frame_simps)+

lemma first_byte_accessors [frame_simps]:
  assumes "op \<noteq> Op_not_set"
  shows "op_code \<lparr>hdr_b0 = first_byte fin rsv1 op, hdr_b1 = b1\<rparr> = op"
    and "is_final \<lparr>hdr_b0 = first_byte fin rsv1 op, hdr_b1 = b1\<rparr> = fin"
    and "rsv1_bit \<lparr>hdr_b0 = first_byte fin rsv1 op, hdr_b1 = b1\<rparr> = rsv1"
    and "\<not> rsv2_bit \<lparr>hdr_b0 = first_byte fin rsv1 op, hdr_b1 = b1\<rparr>"
    and "\<not> rsv3_bit \<lparr>hdr_b0 = first_byte fin rsv1 op, hdr_b1 = b1\<rparr>"
    and "has_rsv_bits \<lparr>hdr_b0 = first_byte fin rsv1 op, hdr_b1 = b1\<rparr> = rsv1"
  using assms
  by (cases op; cases fin; cases rsv1;
      simp add: op_code_def is_final_def rsv1_bit_def rsv2_bit_def rsv3_bit_def has_rsv_bits_def
        mask_defs first_byte_def opcode_of_byte_def)+

lemma is_control_iff:
  "is_control h \<longleftrightarrow> op_code h \<notin>
     {Op_continuation, Op_text, Op_binary, Op_rsv3, Op_rsv4, Op_rsv5, Op_rsv6, Op_rsv7}"
  by (cases "op_code h") (simp_all add: is_control_def word_le_nat_alt)

lemma op_code_not_set [simp]: "op_code h \<noteq> Op_not_set"
proof
  let ?b = "hdr_b0 h AND mask_opcode"
  assume "op_code h = Op_not_set"
  then have n: "unat ?b \<notin> {0, 1, 2, 3, 4, 5, 6, 7, 8, 9, 10, 11, 12, 13, 14, 15}"
    by (auto simp: op_code_def opcode_of_byte_def word_unat_eq_iff split: if_splits)
  have "mask_opcode = mask 4" by (simp add: mask_opcode_def mask_eq_exp_minus_1)
  then have "?b = take_bit 4 (hdr_b0 h)" by (simp add: take_bit_eq_mask)
  then have "unat ?b < 16" using take_bit_nat_less_exp [of 4 "unat (hdr_b0 h)"]
    by (simp add: unsigned_take_bit_eq)
  then have "unat ?b \<in> {0, 1, 2, 3, 4, 5, 6, 7, 8, 9, 10, 11, 12, 13, 14, 15}"
    by (simp only: insert_iff empty_iff) arith
  with n show False by blast
qed

text \<open>The second byte: the mask bit and the 7-bit length field.\<close>

definition second_byte :: "bool \<Rightarrow> u64 \<Rightarrow> byte" where
  "second_byte masked sz =
     (if masked then 0x80 else 0) +
     (if sz \<le> 125 then ucast sz else if sz \<le> 0xFFFF then 126 else 127)"

text \<open>The extended length that follows the two bytes.\<close>

definition length_bytes :: "u64 \<Rightarrow> byte list" where
  "length_bytes sz =
     (if sz \<le> 125 then [] else if sz \<le> 0xFFFF then be_bytes (ucast sz :: u16) else be_bytes sz)"

lemma small_size:
  assumes "sz \<le> (125 :: u64)"
  shows "\<exists>n \<le> 125. sz = word_of_nat n \<and> (ucast sz :: byte) = word_of_nat n"
proof (intro exI conjI)
  show "unat sz \<le> 125" using assms by (simp add: word_le_nat_alt)
  show "sz = word_of_nat (unat sz)" by simp
  show "(ucast sz :: byte) = word_of_nat (unat sz)" by simp
qed


lemma byte_top_bit:
  assumes "unat (x :: byte) < 128"
  shows "\<not> bit x 7"
proof
  assume "bit x 7"
  then have "bit (unat x) 7" by (simp add: bit_unsigned_iff)
  with assms show False by (simp add: bit_iff_odd)
qed

lemma small_byte_masks:
  assumes "unat (x :: byte) < 128"
  shows "x AND 0x7F = x" and "x AND 0x80 = 0" and "0x80 OR x = 0x80 + x"
    and "(0x80 + x) AND 0x7F = x" and "(0x80 + x) AND 0x80 = 0x80"
proof -
  note top = byte_top_bit [OF assms]
  show "x AND 0x7F = x" "x AND 0x80 = 0" using top by (simp_all add: byte_eq_bits bit_and_iff)
  then show or: "0x80 OR x = 0x80 + x"
    using word_plus_and_or [of "0x80" x] by (simp add: and.commute)
  show "(0x80 + x) AND 0x7F = x" "(0x80 + x) AND 0x80 = 0x80"
    using top by (simp_all add: or [symmetric] byte_eq_bits bit_and_iff bit_or_iff)
qed

definition size_field :: "u64 \<Rightarrow> byte" where
  "size_field sz = (if sz \<le> 125 then ucast sz else if sz \<le> 0xFFFF then 126 else 127)"

lemma unat_ucast_small: "sz \<le> (125 :: u64) \<Longrightarrow> unat (ucast sz :: byte) = unat sz"
  by (simp add: unsigned_ucast_eq word_le_nat_alt take_bit_nat_eq_self)

lemma size_field_less: "unat (size_field sz) < 128"
  using unat_ucast_small [of sz] by (auto simp: size_field_def word_le_nat_alt)

lemma second_byte_alt: "second_byte masked sz = (if masked then 0x80 else 0) + size_field sz"
  by (simp add: second_byte_def size_field_def)

lemma second_byte_accessors [frame_simps]:
  "is_masked \<lparr>hdr_b0 = b0, hdr_b1 = second_byte masked sz\<rparr> = masked"
  "get_basic_size \<lparr>hdr_b0 = b0, hdr_b1 = second_byte masked sz\<rparr> =
     (if sz \<le> 125 then sz else if sz \<le> 0xFFFF then 126 else 127)"
proof -
  note m = small_byte_masks [OF size_field_less [of sz]]
  show "is_masked \<lparr>hdr_b0 = b0, hdr_b1 = second_byte masked sz\<rparr> = masked"
    by (simp add: is_masked_def mask_is_masked_def second_byte_alt m)
  have "get_basic_size \<lparr>hdr_b0 = b0, hdr_b1 = second_byte masked sz\<rparr> = ucast (size_field sz)"
    by (simp add: get_basic_size_def mask_payload_def second_byte_alt m)
  also have "\<dots> = (if sz \<le> 125 then sz else if sz \<le> 0xFFFF then 126 else 127)"
  proof (cases "sz \<le> 125")
    case True
    then have "unat (ucast (size_field sz) :: u64) = unat sz"
      using unat_ucast_small [OF True]
      by (simp add: size_field_def unsigned_ucast_eq take_bit_nat_eq_self unsigned_take_bit_eq)
    with True show ?thesis by (simp add: word_unat_eq_iff)
  qed (simp add: size_field_def)
  finally show "get_basic_size \<lparr>hdr_b0 = b0, hdr_b1 = second_byte masked sz\<rparr> =
     (if sz \<le> 125 then sz else if sz \<le> 0xFFFF then 126 else 127)" .
qed

lemma set_payload_size_b1:
  assumes "hdr_b1 (fr_header f) = (if masked then 0x80 else 0)"
  shows "hdr_b1 (fr_header (set_payload_size sz f)) = second_byte masked sz"
proof -
  note m = small_byte_masks [OF size_field_less [of sz]]
  have z: "(if masked then 0x80 else 0) AND NOT (0x7F :: byte) = (if masked then 0x80 else 0)" by simp
  consider "sz \<le> 125" | "\<not> sz \<le> 125" "sz \<le> 0xFFFF" | "\<not> sz \<le> 0xFFFF" by blast
  then show ?thesis
  proof cases
    case 1
    then have "size_field sz = ucast sz" by (simp add: size_field_def)
    with 1 m assms show ?thesis
      by (simp add: set_payload_size_def Let_def frame_simps mask_payload_def second_byte_alt)
  next
    case 2
    with assms show ?thesis
      by (simp add: set_payload_size_def Let_def frame_simps second_byte_alt size_field_def)
  next
    case 3
    then have "\<not> sz \<le> 125" by (simp add: word_le_nat_alt)
    with 3 assms show ?thesis
      by (simp add: set_payload_size_def Let_def frame_simps second_byte_alt size_field_def)
  qed
qed

lemma set_payload_size_sel [frame_simps]:
  "fr_payload_size (set_payload_size sz f) = sz"
  "hdr_b0 (fr_header (set_payload_size sz f)) = hdr_b0 (fr_header f)"
  "fr_mask_key (set_payload_size sz f) = fr_mask_key f"
  by (simp_all add: set_payload_size_def Let_def frame_simps)

lemma set_bits_sel [frame_simps]:
  "hdr_b0 (fr_header (set_is_masked v f)) = hdr_b0 (fr_header f)"
  "hdr_b1 (fr_header (set_opcode op f)) = hdr_b1 (fr_header f)"
  "hdr_b1 (fr_header (set_is_final v f)) = hdr_b1 (fr_header f)"
  "hdr_b1 (fr_header (set_is_compressed v f)) = hdr_b1 (fr_header f)"
  by (simp_all add: set_is_masked_def set_opcode_def set_is_final_def set_is_compressed_def frame_simps)

lemma set_is_masked_new: "hdr_b1 (fr_header f) = 0 \<Longrightarrow> hdr_b1 (fr_header (set_is_masked True f)) = 0x80"
  by (simp add: set_is_masked_def mask_is_masked_def frame_simps)

end
