(* ===== verification/Timeout.thy ===== *)
theory Timeout
  imports Errors "HOL-Library.Signed_Division"
begin

section \<open>Timeouts (utils/Timeout.hpp)\<close>

text \<open>
  \<open>Timeout<milliseconds, steady_clock>\<close>: the start in nanoseconds of the clock, the duration in
  milliseconds. Reading the clock is an operation \<open>now\<close> on the state of the environment, so two
  readings may differ. \<open>duration_cast\<close> truncates towards zero (\<open>sdiv\<close>). Durations are unbounded
  integers, as 64-bit nanoseconds last for 292 years.
\<close>

type_synonym 's clock = "'s \<Rightarrow> int \<times> 's"

record timeout =
  to_start :: int
  to_timeout :: int

definition ns_per_ms :: int where "ns_per_ms = 1000000"

definition timeout_at :: "int \<Rightarrow> int \<Rightarrow> timeout ws_result" where
  "timeout_at ms start =
     (if ms > 0 then Ok \<lparr>to_start = start, to_timeout = ms\<rparr> else Abort)"

definition timeout_new :: "'s clock \<Rightarrow> int \<Rightarrow> ('s, timeout) st" where
  "timeout_new now ms s = (let (t, s') = now s in (timeout_at ms t, s'))"

definition elapsed :: "'s clock \<Rightarrow> timeout \<Rightarrow> 's \<Rightarrow> int \<times> 's" where
  "elapsed now to s = (let (t, s') = now s in ((t - to_start to) sdiv ns_per_ms, s'))"

definition remaining :: "'s clock \<Rightarrow> timeout \<Rightarrow> 's \<Rightarrow> int \<times> 's" where
  "remaining now to s =
     (let (elap, s') = elapsed now to s
      in (if elap \<ge> to_timeout to then 0 else to_timeout to - elap, s'))"

record timeval =
  tv_sec :: int
  tv_usec :: int

definition remaining_timeval :: "'s clock \<Rightarrow> timeout \<Rightarrow> 's \<Rightarrow> timeval \<times> 's" where
  "remaining_timeval now to s =
     (let (rem, s') = remaining now to s
      in (\<lparr>tv_sec = rem sdiv 1000, tv_usec = (rem smod 1000) * 1000\<rparr>, s'))"

definition is_expired :: "'s clock \<Rightarrow> timeout \<Rightarrow> 's \<Rightarrow> bool \<times> 's" where
  "is_expired now to s =
     (let (elap, s') = elapsed now to s in (elap \<ge> to_timeout to, s'))"

subsection \<open>Properties\<close>

lemma is_expired_state: "snd (is_expired now to s) = snd (now s)"
  by (simp add: is_expired_def elapsed_def case_prod_beta Let_def)

lemma sdiv_nonneg: "0 \<le> a \<Longrightarrow> 0 < b \<Longrightarrow> (a :: int) sdiv b = a div b"
  by (cases "a = 0") (simp_all add: signed_divide_int_def)

lemma smod_nonneg: "0 \<le> a \<Longrightarrow> 0 < b \<Longrightarrow> (a :: int) smod b = a mod b"
  by (cases "a = 0") (simp_all add: signed_modulo_int_def)

text \<open>
  C35: The \<open>timeval\<close> passed to \<open>select\<close> is always valid: it is normalised and never negative, it is
  zero exactly when the timeout has expired at the same instant (so a pending wait is never turned
  into a poll, and an expired one never blocks), it never exceeds the whole timeout when the
  monotonic clock has not run backwards, and it is the remaining time to the microsecond.
\<close>

theorem remaining_timeval_valid:
  assumes "timeout_at ms start = Ok to" and "start \<le> fst (now s)"
  shows "let tv = fst (remaining_timeval now to s) in
    0 \<le> tv_sec tv \<and> 0 \<le> tv_usec tv \<and> tv_usec tv < 1000000 \<and>
    (tv_sec tv = 0 \<and> tv_usec tv = 0 \<longleftrightarrow> fst (is_expired now to s)) \<and>
    1000000 * tv_sec tv + tv_usec tv = 1000 * fst (remaining now to s) \<and>
    fst (remaining now to s) \<le> ms"
proof -
  have to: "to = \<lparr>to_start = start, to_timeout = ms\<rparr>" "0 < ms"
    using assms(1) by (auto simp: timeout_at_def split: if_splits)
  define e where "e = (fst (now s) - start) div 1000000"
  have e: "fst (elapsed now to s) = e" "0 \<le> e"
    using assms(2) by (simp_all add: elapsed_def case_prod_beta to ns_per_ms_def e_def sdiv_nonneg
        pos_imp_zdiv_nonneg_iff)
  define r where "r = fst (remaining now to s)"
  have r: "r = (if e \<ge> ms then 0 else ms - e)"
    using e(1) by (simp add: r_def remaining_def case_prod_beta to)
  then have pos: "0 \<le> r" by simp
  have tv: "fst (remaining_timeval now to s) = \<lparr>tv_sec = r div 1000, tv_usec = (r mod 1000) * 1000\<rparr>"
    using pos by (simp add: remaining_timeval_def case_prod_beta r_def sdiv_nonneg smod_nonneg)
  have x: "fst (is_expired now to s) \<longleftrightarrow> e \<ge> ms"
    using e(1) by (simp add: is_expired_def case_prod_beta to)
  have "1000 * (r div 1000) + r mod 1000 = r" by simp
  then have "r div 1000 = 0 \<and> r mod 1000 = 0 \<longleftrightarrow> r = 0" by fastforce
  moreover have "r = 0 \<longleftrightarrow> e \<ge> ms" using r by auto
  moreover have "1000000 * (r div 1000) + (r mod 1000) * 1000 = 1000 * r"
    using \<open>1000 * (r div 1000) + r mod 1000 = r\<close> by linarith
  moreover have "0 \<le> r mod 1000" "r mod 1000 < 1000" by simp_all
  ultimately show ?thesis
    using pos r e(2) to(2) unfolding tv x Let_def r_def [symmetric]
    by (auto simp: pos_imp_zdiv_nonneg_iff)
qed

theorem remaining_timeval_valid_witness:
  "fst (remaining_timeval (\<lambda>s. (s, s)) \<lparr>to_start = 5, to_timeout = 2500\<rparr> (5 + 999999)) =
     \<lparr>tv_sec = 2, tv_usec = 500000\<rparr> \<and>
   fst (remaining (\<lambda>s. (s, s)) \<lparr>to_start = 5, to_timeout = 2500\<rparr> (5 + 999999)) \<le> 2500"
proof
  show "fst (remaining_timeval (\<lambda>s. (s, s)) \<lparr>to_start = 5, to_timeout = 2500\<rparr> (5 + 999999)) =
     \<lparr>tv_sec = 2, tv_usec = 500000\<rparr>"
    by (simp add: remaining_timeval_def remaining_def elapsed_def ns_per_ms_def sdiv_nonneg smod_nonneg)
  show "fst (remaining (\<lambda>s. (s, s)) \<lparr>to_start = 5, to_timeout = 2500\<rparr> (5 + 999999)) \<le> 2500"
    using remaining_timeval_valid [of 2500 5 "\<lparr>to_start = 5, to_timeout = 2500\<rparr>" "\<lambda>s. (s, s)" "5 + 999999"]
    by (simp add: timeout_at_def Let_def)
qed

end
