(* ===== verification/Transport.thy ===== *)
theory Transport
  imports Timeout
begin

section \<open>The transport contract (ISocket.hpp, HasSocketOperations.hpp)\<close>

text \<open>
  The client is a template over a socket type with the five operations of \<open>HasSocketOperations\<close>. A
  \<open>transport\<close> is such a type: the operations on a state \<open>'s\<close> that stands for the socket object and
  the world behind it (the peer, the kernel, the clock). An operation may block for ever, which is
  \<open>None\<close>. \<open>read_some\<close> returns the bytes it stores at the start of the span; the length of the span
  is all it is told of it.
\<close>

record 's transport =
  tr_now :: "'s clock"
  tr_read_some :: "nat \<Rightarrow> timeout \<Rightarrow> ('s, byte list) ws"
  tr_write_some :: "byte list \<Rightarrow> timeout \<Rightarrow> ('s, nat) ws"
  tr_wait_readable :: "timeout \<Rightarrow> ('s, bool) ws"
  tr_shutdown :: "bool \<Rightarrow> timeout \<Rightarrow> ('s, unit) ws"
  tr_close :: "bool \<Rightarrow> ('s, unit) ws"

text \<open>
  The documented contract, as a locale: two byte streams. \<open>pend\<close> is what the peer sends and the
  socket has not delivered yet, \<open>sent\<close> what the socket has accepted. A read of at least one byte
  delivers a non-empty prefix that fits or fails without consuming anything; a write accepts a
  non-empty prefix, or fails, and then a part of the data may have been sent. Shutting down and closing
  send no data.
\<close>

locale stream_socket =
  fixes T :: "'s transport"
    and inv :: "'s \<Rightarrow> bool"
    and pend :: "'s \<Rightarrow> byte list"
    and sent :: "'s \<Rightarrow> byte list"
  assumes now_ok: "inv s \<Longrightarrow> tr_now T s = (t, s') \<Longrightarrow>
      inv s' \<and> pend s' = pend s \<and> sent s' = sent s"
    and read_ok: "inv s \<Longrightarrow> 0 < n \<Longrightarrow> tr_read_some T n to s = Some (Ok xs, s') \<Longrightarrow>
      inv s' \<and> xs \<noteq> [] \<and> length xs \<le> n \<and> pend s = xs @ pend s' \<and> sent s' = sent s"
    and read_err: "inv s \<Longrightarrow> 0 < n \<Longrightarrow> tr_read_some T n to s = Some (Err e, s') \<Longrightarrow>
      inv s' \<and> pend s' = pend s \<and> sent s' = sent s"
    and read_no_abort: "inv s \<Longrightarrow> 0 < n \<Longrightarrow> tr_read_some T n to s \<noteq> Some (Abort, s')"
    and write_ok: "inv s \<Longrightarrow> data \<noteq> [] \<Longrightarrow> tr_write_some T data to s = Some (Ok k, s') \<Longrightarrow>
      inv s' \<and> 0 < k \<and> k \<le> length data \<and> pend s' = pend s \<and> sent s' = sent s @ take k data"
    and write_err: "inv s \<Longrightarrow> data \<noteq> [] \<Longrightarrow> tr_write_some T data to s = Some (Err e, s') \<Longrightarrow>
      \<exists>k \<le> length data. inv s' \<and> pend s' = pend s \<and> sent s' = sent s @ take k data"
    and write_no_abort: "inv s \<Longrightarrow> data \<noteq> [] \<Longrightarrow> tr_write_some T data to s \<noteq> Some (Abort, s')"
    and shutdown_quiet: "inv s \<Longrightarrow> tr_shutdown T fail to s = Some (r, s') \<Longrightarrow>
      r \<noteq> Abort \<and> inv s' \<and> sent s' = sent s"
    and close_quiet: "inv s \<Longrightarrow> tr_close T fail s = Some (r, s') \<Longrightarrow> r \<noteq> Abort \<and> sent s' = sent s"

text \<open>The sockets that make one system call at a time lose nothing in a write that fails.\<close>

locale strict_socket = stream_socket +
  assumes write_err_quiet: "inv s \<Longrightarrow> data \<noteq> [] \<Longrightarrow> tr_write_some T data to s = Some (Err e, s') \<Longrightarrow>
      inv s' \<and> pend s' = pend s \<and> sent s' = sent s"

text \<open>
  Two weaker contracts. A fragile socket keeps the stream contract until a write has failed: a prefix of
  the data may have been sent then, and nothing is promised of what follows. A lossy socket may in
  addition lose what a read had already received when the read ends with a timeout. Where no write
  fails, a fragile socket is a stream socket.
\<close>

locale lossy_socket =
  fixes T :: "'s transport"
    and inv :: "'s \<Rightarrow> bool"
    and pend :: "'s \<Rightarrow> byte list"
    and sent :: "'s \<Rightarrow> byte list"
  assumes now_ok: "inv s \<Longrightarrow> tr_now T s = (t, s') \<Longrightarrow>
      inv s' \<and> pend s' = pend s \<and> sent s' = sent s"
    and read_ok: "inv s \<Longrightarrow> 0 < n \<Longrightarrow> tr_read_some T n to s = Some (Ok xs, s') \<Longrightarrow>
      inv s' \<and> xs \<noteq> [] \<and> length xs \<le> n \<and> pend s = xs @ pend s' \<and> sent s' = sent s"
    and read_err: "inv s \<Longrightarrow> 0 < n \<Longrightarrow> tr_read_some T n to s = Some (Err e, s') \<Longrightarrow>
      inv s' \<and> sent s' = sent s \<and>
      (\<exists>lost. pend s = lost @ pend s' \<and> length lost \<le> n \<and> (err_code e \<noteq> Timeout_error \<longrightarrow> lost = []))"
    and read_no_abort: "inv s \<Longrightarrow> 0 < n \<Longrightarrow> tr_read_some T n to s \<noteq> Some (Abort, s')"
    and write_ok: "inv s \<Longrightarrow> data \<noteq> [] \<Longrightarrow> tr_write_some T data to s = Some (Ok k, s') \<Longrightarrow>
      inv s' \<and> 0 < k \<and> k \<le> length data \<and> pend s' = pend s \<and> sent s' = sent s @ take k data"
    and write_err: "inv s \<Longrightarrow> data \<noteq> [] \<Longrightarrow> tr_write_some T data to s = Some (Err e, s') \<Longrightarrow>
      \<exists>k \<le> length data. sent s' = sent s @ take k data"
    and write_no_abort: "inv s \<Longrightarrow> data \<noteq> [] \<Longrightarrow> tr_write_some T data to s \<noteq> Some (Abort, s')"
    and shutdown_quiet: "inv s \<Longrightarrow> tr_shutdown T fail to s = Some (r, s') \<Longrightarrow>
      r \<noteq> Abort \<and> inv s' \<and> sent s' = sent s"
    and close_quiet: "inv s \<Longrightarrow> tr_close T fail s = Some (r, s') \<Longrightarrow> r \<noteq> Abort \<and> sent s' = sent s"

locale fragile_socket = lossy_socket +
  assumes read_err_quiet: "inv s \<Longrightarrow> 0 < n \<Longrightarrow> tr_read_some T n to s = Some (Err e, s') \<Longrightarrow>
      inv s' \<and> pend s' = pend s \<and> sent s' = sent s"
begin

lemma stream_while_writes_succeed:
  assumes "\<And>s data to e s'. inv s \<Longrightarrow> data \<noteq> [] \<Longrightarrow> tr_write_some T data to s \<noteq> Some (Err e, s')"
  shows "stream_socket T inv pend sent"
proof (rule stream_socket.intro)
  fix s data to e s'
  assume "inv s" "data \<noteq> []" "tr_write_some T data to s = Some (Err e, s')"
  with assms show "\<exists>k \<le> length data. inv s' \<and> pend s' = pend s \<and> sent s' = sent s @ take k data" by blast
qed (fact now_ok read_ok read_err_quiet read_no_abort write_ok write_no_abort shutdown_quiet close_quiet)+

end

sublocale stream_socket \<subseteq> fragile: fragile_socket T inv pend sent
proof (rule fragile_socket.intro [OF lossy_socket.intro fragile_socket_axioms.intro])
  fix s n to e s'
  assume "inv s" "0 < n" "tr_read_some T n to s = Some (Err e, s')"
  from read_err [OF this] show "inv s' \<and> sent s' = sent s \<and>
      (\<exists>lost. pend s = lost @ pend s' \<and> length lost \<le> n \<and> (err_code e \<noteq> Timeout_error \<longrightarrow> lost = []))" by simp
next
  fix s data to e s'
  assume "inv s" "data \<noteq> []" "tr_write_some T data to s = Some (Err e, s')"
  from write_err [OF this] show "\<exists>k \<le> length data. sent s' = sent s @ take k data" by blast
qed (fact now_ok read_ok read_err read_no_abort write_ok write_no_abort shutdown_quiet close_quiet)+

text \<open>
  A delivering socket returns from every read, with data as long as the peer sends; a live one also
  accepts every write and returns from the other calls. (The totality theorems need it: no program
  can promise more than its network.)
\<close>

locale delivering_socket = stream_socket +
  assumes read_live: "inv s \<Longrightarrow> 0 < n \<Longrightarrow> pend s \<noteq> [] \<Longrightarrow> \<exists>xs s'. tr_read_some T n to s = Some (Ok xs, s')"
    and read_end: "inv s \<Longrightarrow> 0 < n \<Longrightarrow> pend s = [] \<Longrightarrow> \<exists>e s'. tr_read_some T n to s = Some (Err e, s')"

locale live_socket = delivering_socket +
  assumes write_live: "inv s \<Longrightarrow> data \<noteq> [] \<Longrightarrow> \<exists>k s'. tr_write_some T data to s = Some (Ok k, s')"
    and shutdown_live: "inv s \<Longrightarrow> \<exists>r s'. tr_shutdown T fail to s = Some (r, s')"
    and close_live: "inv s \<Longrightarrow> \<exists>r s'. tr_close T fail s = Some (r, s')"

text \<open>A transport that never reports a write of nothing (the asynchronous client checks for it, the other one does not).\<close>

definition never_writes_zero :: "'s transport \<Rightarrow> bool" where
  "never_writes_zero T \<longleftrightarrow> (\<forall>data to s s'. data \<noteq> [] \<longrightarrow> tr_write_some T data to s \<noteq> Some (Ok 0, s'))"

lemma never_writes_zeroD: "never_writes_zero T \<Longrightarrow> data \<noteq> [] \<Longrightarrow> tr_write_some T data to s \<noteq> Some (Ok 0, s')"
  by (simp add: never_writes_zero_def)

subsection \<open>A scripted socket\<close>

text \<open>
  The simplest peer: it delivers its bytes in chunks of scripted sizes (then one at a time), accepts
  what it is told in scripted sizes, and its clock stands still. Witnesses run on it.
\<close>

record script =
  sc_in :: "byte list"
  sc_out :: "byte list"
  sc_chunks :: "nat list"
  sc_closed :: bool

definition script_step :: "script \<Rightarrow> nat \<times> script" where
  "script_step s =
     (case sc_chunks s of [] \<Rightarrow> (1, s) | c # cs \<Rightarrow> (max 1 c, s\<lparr>sc_chunks := cs\<rparr>))"

definition script_eof :: ws_error where
  "script_eof = WSError Connection_closed (Transport_msg Msg_transport_closed) not_set"

definition script_socket :: "script transport" where
  "script_socket =
     \<lparr>tr_now = (\<lambda>s. (0, s)),
      tr_read_some = (\<lambda>n to s. let (c, s') = script_step s; k = min n c in
        Some (if sc_in s = [] then (Err script_eof, s)
              else (Ok (take k (sc_in s)), s'\<lparr>sc_in := drop k (sc_in s)\<rparr>))),
      tr_write_some = (\<lambda>data to s. let (c, s') = script_step s; k = min (length data) c in
        Some (Ok k, s'\<lparr>sc_out := sc_out s @ take k data\<rparr>)),
      tr_wait_readable = (\<lambda>to s. Some (Ok (sc_in s \<noteq> []), s)),
      tr_shutdown = (\<lambda>fail to s. Some (Ok (), s)),
      tr_close = (\<lambda>fail s. Some (Ok (), s\<lparr>sc_closed := True\<rparr>))\<rparr>"

lemma script_never_writes_zero: "never_writes_zero script_socket"
  by (auto simp: never_writes_zero_def script_socket_def script_step_def Let_def min_def split: prod.splits list.splits if_splits)

lemma script_step_state [simp]:
  "sc_in (snd (script_step s)) = sc_in s" "sc_out (snd (script_step s)) = sc_out s"
  "fst (script_step s) \<noteq> 0" "0 < fst (script_step s)"
  by (auto simp: script_step_def split: list.splits)

interpretation script: live_socket script_socket "\<lambda>_. True" sc_in sc_out
  by unfold_locales
    (auto simp: script_socket_def Let_def min_def case_prod_beta split: if_splits)

interpretation script_strict: strict_socket script_socket "\<lambda>_. True" sc_in sc_out
  by unfold_locales (auto simp: script_socket_def Let_def case_prod_beta)

end
