(* ===== verification/Queue_Interface.thy ===== *)
theory Queue_Interface
  imports Errors
begin

section \<open>The contract of a bounded FIFO queue\<close>

text \<open>
  What \<open>BufferedSocket\<close> relies on when it stores socket data in \<open>CircularBuffer\<close>: bulk pushes and
  pops on a bounded queue behave like the same operations on a list of at most \<open>cap\<close> items. The
  list operations are the specification; the locale lifts the one-step contract to any sequence of
  operations.
\<close>

subsection \<open>The specification: a list of at most \<open>c\<close> items\<close>

definition list_push :: "nat \<Rightarrow> 'a list \<Rightarrow> ('a list, unit) st" where
  "list_push c xs l = (if length xs \<le> c - length l then (Ok (), l @ xs) else (Abort, l))"

definition list_pop :: "nat \<Rightarrow> ('a list, 'a list) st" where
  "list_pop n l =
     (if n = 0 \<or> l = [] then (Ok [], l)
      else if n \<le> length l then (Ok (take n l), drop n l)
      else (Abort, l))"

datatype 'a queue_op = Push "'a list" | Pop nat

text \<open>Run a sequence of operations, collecting what the pops deliver.\<close>

fun queue_run ::
  "('a list \<Rightarrow> ('q, unit) st) \<Rightarrow> (nat \<Rightarrow> ('q, 'a list) st) \<Rightarrow> 'a queue_op list \<Rightarrow> ('q, 'a list) st"
where
  "queue_run push pop [] q = (Ok [], q)"
| "queue_run push pop (Push xs # ops) q = st_try (push xs) (\<lambda>_. queue_run push pop ops) q"
| "queue_run push pop (Pop n # ops) q =
     st_try (pop n) (\<lambda>out. st_try (queue_run push pop ops) (\<lambda>rest q'. (Ok (out @ rest), q'))) q"

fun pushed :: "'a queue_op list \<Rightarrow> 'a list" where
  "pushed [] = []"
| "pushed (Push xs # ops) = xs @ pushed ops"
| "pushed (Pop n # ops) = pushed ops"

text \<open>No operation pushes an empty block.\<close>

fun proper :: "'a queue_op list \<Rightarrow> bool" where
  "proper [] = True"
| "proper (Push xs # ops) = (xs \<noteq> [] \<and> proper ops)"
| "proper (Pop n # ops) = proper ops"

text \<open>Nothing is lost, duplicated or reordered by the specification.\<close>

lemma list_queue_conserves:
  "queue_run (list_push c) list_pop ops l = (Ok out, l') \<Longrightarrow> out @ l' = l @ pushed ops"
proof (induction ops arbitrary: l out)
  case Nil
  then show ?case by simp
next
  case (Cons op ops)
  show ?case
  proof (cases op)
    case (Push xs)
    with Cons.prems obtain l1 where push: "list_push c xs l = (Ok (), l1)"
        and rest: "queue_run (list_push c) list_pop ops l1 = (Ok out, l')"
      by (auto simp: st_try_Ok)
    from push have "l1 = l @ xs" by (auto simp: list_push_def split: if_splits)
    with Cons.IH [OF rest] Push show ?thesis by simp
  next
    case (Pop n)
    with Cons.prems obtain o1 l1 o2
      where pop: "list_pop n l = (Ok o1, l1)"
        and rest: "queue_run (list_push c) list_pop ops l1 = (Ok o2, l')" and out: "out = o1 @ o2"
      by (auto simp: st_try_Ok)
    from pop have "o1 @ l1 = l" by (auto simp: list_pop_def split: if_splits)
    with Cons.IH [OF rest] Pop out show ?thesis by (metis append.assoc pushed.simps(3))
  qed
qed

subsection \<open>The interface\<close>

locale bounded_queue =
  fixes content :: "'q \<Rightarrow> 'a list"
    and invar :: "'q \<Rightarrow> bool"
    and cap :: "'q \<Rightarrow> nat"
    and push :: "'a list \<Rightarrow> ('q, unit) st"
    and pop :: "nat \<Rightarrow> ('q, 'a list) st"
  assumes push_refines: "invar q \<Longrightarrow> xs \<noteq> [] \<Longrightarrow> push xs q = (r, q') \<Longrightarrow>
      invar q' \<and> cap q' = cap q \<and> list_push (cap q) xs (content q) = (r, content q')"
    and pop_refines: "invar q \<Longrightarrow> pop n q = (o', q') \<Longrightarrow>
      invar q' \<and> cap q' = cap q \<and> list_pop n (content q) = (o', content q')"
begin

lemma run_refines:
  assumes "invar q" and "proper ops" and "queue_run push pop ops q = (r, q')"
  shows "invar q' \<and> cap q' = cap q \<and>
    queue_run (list_push (cap q)) list_pop ops (content q) = (r, content q')"
  using assms
proof (induction ops arbitrary: q r q')
  case Nil
  then show ?case by simp
next
  case (Cons op ops)
  show ?case
  proof (cases op)
    case (Push xs)
    obtain r1 q1 where step: "push xs q = (r1, q1)" by (cases "push xs q")
    with push_refines [OF Cons.prems(1) _ step] Push Cons.prems(2)
    have s: "invar q1" "cap q1 = cap q" "list_push (cap q) xs (content q) = (r1, content q1)"
      by auto
    with Cons.IH [OF s(1)] Cons.prems(2,3) Push step show ?thesis
      by (cases r1) (auto simp: st_try_def)
  next
    case (Pop n)
    obtain r1 q1 where step: "pop n q = (r1, q1)" by (cases "pop n q")
    from pop_refines [OF Cons.prems(1) step]
    have s: "invar q1" "cap q1 = cap q" "list_pop n (content q) = (r1, content q1)" by auto
    obtain r2 q2 where rest: "queue_run push pop ops q1 = (r2, q2)"
      by (cases "queue_run push pop ops q1")
    have "proper ops" using Cons.prems(2) Pop by simp
    from Cons.IH [OF s(1) this rest] s Cons.prems(3) Pop step rest show ?thesis
      by (cases r1; cases r2) (auto simp: st_try_def)
  qed
qed

lemma run_conserves:
  assumes "invar q" and "proper ops" and "queue_run push pop ops q = (Ok out, q')"
  shows "out @ content q' = content q @ pushed ops"
  using run_refines [OF assms] list_queue_conserves by blast

lemma run_bounded:
  assumes "invar q" and "proper ops" and "queue_run push pop ops q = (r, q')"
    and "length (content q) \<le> cap q"
  shows "cap q' = cap q"
  using run_refines [OF assms(1-3)] by blast

end

end
