(* ===== verification/Circular_Buffer.thy ===== *)
theory Circular_Buffer
  imports Queue_Interface
begin

section \<open>The circular buffer (utils/CircularBuffer.hpp)\<close>

text \<open>
  The fixed-size ring that \<open>BufferedSocket\<close> reads into: the record keeps the storage and the
  fields \<open>head_\<close>, \<open>tail_\<close>, \<open>full_\<close> and \<open>capacity_\<close> of the class, every operation is translated
  with its two-phase copies and its \<open>& (capacity_ - 1)\<close> wrap-around. Indices are \<open>nat\<close>: the
  storage is one allocation, so \<open>capacity_\<close> is at most 2 to the 63 and no sum of an index and a
  length below it wraps. A failed \<open>assert\<close> is the result \<open>Abort\<close>.

  \<open>cb_content\<close> is the abstraction (the stored items, oldest first) and \<open>cb_inv\<close> the
  representation invariant; the lemmas show that the class is a bounded FIFO queue.
\<close>

record 'a cbuf =
  cb_cells :: "'a list"
  cb_head :: nat
  cb_tail :: nat
  cb_full :: bool
  cb_capacity :: nat

subsection \<open>Operations\<close>

text \<open>The constructor; \<open>g\<close> is what the fresh storage happens to hold.\<close>

definition cb_new :: "(nat \<Rightarrow> 'a) \<Rightarrow> nat \<Rightarrow> 'a cbuf ws_result" where
  "cb_new g capacity =
     (if capacity \<noteq> 0 \<and> capacity AND (capacity - 1) = 0
      then Ok \<lparr>cb_cells = map g [0..<capacity], cb_head = 0, cb_tail = 0, cb_full = False,
               cb_capacity = capacity\<rparr>
      else Abort)"

definition cb_empty :: "'a cbuf \<Rightarrow> bool" where
  "cb_empty b \<longleftrightarrow> cb_head b = cb_tail b \<and> \<not> cb_full b"

definition cb_size :: "'a cbuf \<Rightarrow> nat" where
  "cb_size b =
     (if \<not> cb_full b
      then (if cb_head b < cb_tail b then cb_capacity b + cb_head b - cb_tail b
            else cb_head b - cb_tail b)
      else cb_capacity b)"

definition cb_available :: "'a cbuf \<Rightarrow> nat" where
  "cb_available b = cb_capacity b - cb_size b"

definition cb_clear :: "'a cbuf \<Rightarrow> 'a cbuf" where
  "cb_clear b = b\<lparr>cb_head := 0, cb_tail := 0, cb_full := False\<rparr>"

definition cb_push1 :: "'a \<Rightarrow> ('a cbuf, unit) st" where
  "cb_push1 x b =
     (if cb_full b then (Abort, b)
      else let cells = (cb_cells b)[cb_head b := x];
               head = (cb_head b + 1) AND (cb_capacity b - 1)
           in (Ok (), b\<lparr>cb_cells := cells, cb_head := head, cb_full := (head = cb_tail b)\<rparr>))"

definition cb_push :: "'a list \<Rightarrow> ('a cbuf, unit) st" where
  "cb_push src b =
     (if \<not> length src \<le> cb_available b then (Abort, b)
      else let len = length src;
               first_copy_n = min len (cb_capacity b - cb_head b);
               cells = blit (cb_head b) (take first_copy_n src) (cb_cells b);
               len = len - first_copy_n;
               head = cb_head b + first_copy_n
           in if len > 0
              then let cells = blit 0 (take len (drop first_copy_n src)) cells;
                       head = len
                   in (Ok (), b\<lparr>cb_cells := cells, cb_head := head,
                                cb_full := (head = cb_tail b)\<rparr>)
              else let head = head AND (cb_capacity b - 1)
                   in (Ok (), b\<lparr>cb_cells := cells, cb_head := head,
                                cb_full := (head = cb_tail b)\<rparr>))"

text \<open>Pop one item: \<open>None\<close> stands for the result \<open>false\<close>.\<close>

definition cb_pop1 :: "'a cbuf \<Rightarrow> 'a option \<times> 'a cbuf" where
  "cb_pop1 b =
     (if cb_empty b then (None, b)
      else let data = cb_cells b ! cb_tail b;
               tail = (cb_tail b + 1) AND (cb_capacity b - 1)
           in (Some data, b\<lparr>cb_tail := tail, cb_full := False\<rparr>))"

text \<open>Pop \<open>len\<close> items: the items copied to the destination (none on the early return).\<close>

definition cb_pop :: "nat \<Rightarrow> ('a cbuf, 'a list) st" where
  "cb_pop len b =
     (if len = 0 \<or> cb_empty b then (Ok [], b)
      else if \<not> len \<le> cb_size b then (Abort, b)
      else let first_copy_n = min len (cb_capacity b - cb_tail b);
               dest = subspan (cb_tail b) first_copy_n (cb_cells b);
               tail = cb_tail b + first_copy_n;
               len = len - first_copy_n;
               tail = tail AND (cb_capacity b - 1)
           in if len > 0
              then (Ok (dest @ subspan 0 len (cb_cells b)), b\<lparr>cb_tail := len, cb_full := False\<rparr>)
              else (Ok dest, b\<lparr>cb_tail := tail, cb_full := False\<rparr>))"

text \<open>The contiguous spans, as offset and length in the storage.\<close>

definition cb_available_span :: "'a cbuf \<Rightarrow> nat \<times> nat" where
  "cb_available_span b =
     (if cb_full b then (cb_head b, 0)
      else if cb_head b \<ge> cb_tail b then (cb_head b, cb_capacity b - cb_head b)
      else (cb_head b, cb_tail b - cb_head b))"

definition cb_used_span :: "'a cbuf \<Rightarrow> nat \<times> nat" where
  "cb_used_span b =
     (if cb_empty b then (0, 0)
      else if cb_full b then (cb_tail b, cb_capacity b - cb_tail b)
      else if cb_head b \<ge> cb_tail b then (cb_tail b, cb_head b - cb_tail b)
      else (cb_tail b, cb_capacity b - cb_tail b))"

definition cb_move_head :: "nat \<Rightarrow> ('a cbuf, unit) st" where
  "cb_move_head len b =
     (if \<not> len \<le> cb_available b then (Abort, b)
      else let head = (cb_head b + len) AND (cb_capacity b - 1)
           in (Ok (), b\<lparr>cb_head := head, cb_full := (head = cb_tail b)\<rparr>))"

definition cb_move_tail :: "nat \<Rightarrow> ('a cbuf, unit) st" where
  "cb_move_tail len b =
     (if \<not> len \<le> cb_size b then (Abort, b)
      else let tail = (cb_tail b + len) AND (cb_capacity b - 1)
           in (Ok (), b\<lparr>cb_tail := tail, cb_full := False\<rparr>))"

definition cb_peek :: "'a cbuf \<Rightarrow> 'a option" where
  "cb_peek b = (if cb_empty b then None else Some (cb_cells b ! cb_tail b))"

definition cb_index :: "nat \<Rightarrow> 'a cbuf \<Rightarrow> 'a ws_result" where
  "cb_index index b =
     (if \<not> index < cb_size b then Abort
      else let ix = (cb_tail b + index) AND (cb_capacity b - 1) in Ok (cb_cells b ! ix))"

text \<open>A write through the span returned by \<open>cb_available_span\<close>.\<close>

definition cb_store :: "nat \<Rightarrow> 'a list \<Rightarrow> 'a cbuf \<Rightarrow> 'a cbuf" where
  "cb_store off xs b = b\<lparr>cb_cells := blit off xs (cb_cells b)\<rparr>"

subsection \<open>Invariant and abstraction\<close>

definition is_pow2 :: "nat \<Rightarrow> bool" where
  "is_pow2 n \<longleftrightarrow> (\<exists>k. n = 2 ^ k)"

definition cb_inv :: "'a cbuf \<Rightarrow> bool" where
  "cb_inv b \<longleftrightarrow>
     is_pow2 (cb_capacity b) \<and> length (cb_cells b) = cb_capacity b \<and>
     cb_head b < cb_capacity b \<and> cb_tail b < cb_capacity b \<and>
     (cb_full b \<longrightarrow> cb_head b = cb_tail b)"

definition cb_content :: "'a cbuf \<Rightarrow> 'a list" where
  "cb_content b = map (\<lambda>i. cb_cells b ! ((cb_tail b + i) mod cb_capacity b)) [0..<cb_size b]"

lemma and_capacity [simp]:
  "is_pow2 c \<Longrightarrow> n AND (c - Suc 0) = n mod c"
  using nat_and_pow2_mask by (auto simp: is_pow2_def)

lemma and_self_pred_eq_0:
  fixes c :: nat
  assumes "c \<noteq> 0" and "c AND (c - 1) = 0"
  shows "is_pow2 c"
  using assms
proof (induction c rule: less_induct)
  case (less c)
  show ?case
  proof (cases "even c")
    case True
    then obtain d where d: "c = 2 * d" by blast
    with less.prems have "d \<noteq> 0" by simp
    moreover have "d AND (d - 1) = 0"
    proof -
      have *: "2 * d - 1 = 2 * (d - 1) + 1" using \<open>d \<noteq> 0\<close> by simp
      have "(2 * d) AND (2 * (d - 1) + 1) = 2 * (d AND (d - 1))"
        by (subst and_rec) simp
      with less.prems(2) d * show ?thesis by simp
    qed
    ultimately have "is_pow2 d" using less.IH [of d] d by simp
    then show ?thesis using d by (auto simp: is_pow2_def intro: exI [of _ "Suc _"])
  next
    case False
    then obtain d where d: "c = 2 * d + 1" by (blast elim: oddE)
    have "(2 * d + 1) AND (2 * d) = 2 * d"
      by (subst and_rec) simp
    with less.prems(2) d have "d = 0" by simp
    with d show ?thesis by (auto simp: is_pow2_def intro: exI [of _ 0])
  qed
qed

lemma length_content [simp]: "length (cb_content b) = cb_size b"
  by (simp add: cb_content_def)

lemma cb_size_le: "cb_inv b \<Longrightarrow> cb_size b \<le> cb_capacity b"
  by (auto simp: cb_inv_def cb_size_def)

lemma cb_capacity_pos: "cb_inv b \<Longrightarrow> 0 < cb_capacity b"
  by (auto simp: cb_inv_def)

lemma cb_head_eq: "cb_inv b \<Longrightarrow> cb_head b = (cb_tail b + cb_size b) mod cb_capacity b"
  by (auto simp: cb_inv_def cb_size_def mod_if)

lemma cb_size_full: "cb_inv b \<Longrightarrow> cb_size b = cb_capacity b \<longleftrightarrow> cb_full b"
  by (auto simp: cb_inv_def cb_size_def)

lemma cb_empty_content: "cb_inv b \<Longrightarrow> cb_empty b \<longleftrightarrow> cb_content b = []"
  by (auto simp: cb_inv_def cb_empty_def cb_content_def cb_size_def split: if_splits)

text \<open>Content and size of a ring whose fields are described by tail and fill level.\<close>

lemma cb_size_shape:
  assumes "t < c" and "n \<le> c" and "cb_tail b = t" and "cb_head b = (t + n) mod c"
    and "cb_full b \<longleftrightarrow> n = c" and "cb_capacity b = c"
  shows "cb_size b = n"
  using assms by (auto simp: cb_size_def mod_if split: if_splits)

lemma cb_content_nth:
  "i < cb_size b \<Longrightarrow> cb_content b ! i = cb_cells b ! ((cb_tail b + i) mod cb_capacity b)"
  by (simp add: cb_content_def)

subsection \<open>Writing round the ring\<close>

text \<open>
  Storage after a write of \<open>xs\<close> from position \<open>h\<close> on, round the end: the cell \<open>d\<close> places after
  \<open>h\<close> holds \<open>xs ! d\<close> for \<open>d < length xs\<close> and is unchanged otherwise.
\<close>

definition ring_write :: "nat \<Rightarrow> 'a list \<Rightarrow> 'a list \<Rightarrow> 'a list" where
  "ring_write h xs cells =
     (let k = min (length xs) (length cells - h)
      in blit 0 (drop k xs) (blit h (take k xs) cells))"

lemma length_ring_write [simp]:
  "h < length cells \<Longrightarrow> length xs \<le> length cells \<Longrightarrow> length (ring_write h xs cells) = length cells"
  by (simp add: ring_write_def Let_def)

lemma ring_write_nth:
  assumes "h < length cells" and "length xs \<le> length cells" and "p < length cells"
  shows "ring_write h xs cells ! p =
     (let d = (p + length cells - h) mod length cells
      in if d < length xs then xs ! d else cells ! p)"
proof (cases "h \<le> p")
  case True
  with assms have "(p + length cells - h) mod length cells = p - h"
    by (simp add: mod_if)
  with True assms show ?thesis
    by (auto simp: ring_write_def Let_def nth_blit min_def split: if_splits)
next
  case False
  with assms have d: "(p + length cells - h) mod length cells = p + length cells - h"
    by (simp add: mod_if)
  have "xs ! (length cells - h + p) = xs ! (p + length cells - h)"
    using assms by (simp add: add.commute)
  with False assms d show ?thesis
    by (auto simp: ring_write_def Let_def nth_blit min_def add.commute split: if_splits)
qed

lemma mod_dist_shift:
  fixes t n i c :: nat
  assumes "t < c" and "n \<le> c" and "i < c"
  shows "((t + i) mod c + c - (t + n) mod c) mod c = (if n \<le> i then i - n else i + c - n)"
  using assms by (auto simp: mod_if split: if_splits)

lemma content_ring_write:
  assumes inv: "cb_inv b" and fits: "length xs \<le> cb_available b"
    and cells: "cb_cells b' = ring_write (cb_head b) xs (cb_cells b)"
    and tail: "cb_tail b' = cb_tail b" and cap: "cb_capacity b' = cb_capacity b"
    and head: "cb_head b' = (cb_head b + length xs) mod cb_capacity b"
    and full: "cb_full b' \<longleftrightarrow> cb_size b + length xs = cb_capacity b"
  shows "cb_inv b' \<and> cb_content b' = cb_content b @ xs"
proof -
  let ?c = "cb_capacity b" and ?n = "cb_size b" and ?t = "cb_tail b"
  have c: "0 < ?c" and len: "length (cb_cells b) = ?c" and t: "?t < ?c" and h: "cb_head b < ?c"
    using inv by (auto simp: cb_inv_def)
  have n: "?n \<le> ?c" and room: "?n + length xs \<le> ?c"
    using cb_size_le [OF inv] fits by (auto simp: cb_available_def)
  have hd: "cb_head b = (?t + ?n) mod ?c" using inv by (rule cb_head_eq)
  have hd': "cb_head b' = (?t + (?n + length xs)) mod ?c"
    using head hd by (simp add: mod_add_left_eq add.assoc)
  have size: "cb_size b' = ?n + length xs"
    by (rule cb_size_shape [OF t room tail hd' full cap])
  have "length (cb_cells b') = ?c" using cells h len room by simp
  moreover have "cb_full b' \<longrightarrow> cb_head b' = cb_tail b'"
    using full hd' tail t by (simp add: mod_if)
  moreover have "cb_head b' < ?c" using head c by simp
  moreover have "is_pow2 ?c" using inv by (simp add: cb_inv_def)
  ultimately have inv': "cb_inv b'"
    using t tail cap by (simp add: cb_inv_def)
  have "cb_content b' = cb_content b @ xs"
  proof (rule nth_equalityI)
    show "length (cb_content b') = length (cb_content b @ xs)" using size by simp
    fix i assume "i < length (cb_content b')"
    then have i: "i < ?n + length xs" using size by simp
    let ?p = "(?t + i) mod ?c"
    have "cb_content b' ! i = ring_write (cb_head b) xs (cb_cells b) ! ?p"
      using i size tail cap cells by (simp add: cb_content_nth)
    also have "\<dots> = (let d = (?p + ?c - cb_head b) mod ?c
                     in if d < length xs then xs ! d else cb_cells b ! ?p)"
      using ring_write_nth [of "cb_head b" "cb_cells b" xs ?p] h len room c by simp
    also have "\<dots> = (if ?n \<le> i then xs ! (i - ?n) else cb_cells b ! ?p)"
      using mod_dist_shift [OF t n, of i] i room by (auto simp: Let_def hd)
    also have "\<dots> = (cb_content b @ xs) ! i"
      using i by (auto simp: nth_append cb_content_nth)
    finally show "cb_content b' ! i = (cb_content b @ xs) ! i" .
  qed
  with inv' show ?thesis by blast
qed

subsection \<open>The operations on the content\<close>

lemma mod_back_to_start:
  fixes t m c :: nat
  assumes "t < c" and "0 < m" and "m \<le> c"
  shows "(t + m) mod c = t \<longleftrightarrow> m = c"
  using assms by (cases "t + m < c") (auto simp: le_mod_geq not_less)

lemma full_after_write:
  assumes inv: "cb_inv b" and "0 < k" and "k \<le> cb_available b"
  shows "(cb_head b + k) mod cb_capacity b = cb_tail b \<longleftrightarrow> cb_size b + k = cb_capacity b"
proof -
  have "(cb_head b + k) mod cb_capacity b = (cb_tail b + (cb_size b + k)) mod cb_capacity b"
    by (simp add: cb_head_eq [OF inv] mod_add_left_eq add.assoc)
  moreover have "cb_tail b < cb_capacity b" and "cb_size b + k \<le> cb_capacity b"
    using inv cb_size_le [OF inv] assms(3) by (auto simp: cb_inv_def cb_available_def)
  ultimately show ?thesis using mod_back_to_start [of "cb_tail b" _ "cb_size b + k"] assms(2) by simp
qed

text \<open>
  A push of nothing recomputes \<open>full_\<close> from \<open>head_ == tail_\<close>: on an empty ring it sets the flag.
\<close>

lemma cb_push_content:
  assumes inv: "cb_inv b" and ne: "xs \<noteq> []" and fits: "length xs \<le> cb_available b"
  shows "\<exists>b'. cb_push xs b = (Ok (), b') \<and> cb_inv b' \<and> cb_content b' = cb_content b @ xs \<and>
    cb_capacity b' = cb_capacity b"
proof -
  let ?c = "cb_capacity b" and ?k = "min (length xs) (cb_capacity b - cb_head b)"
  have len: "length (cb_cells b) = ?c" and h: "cb_head b < ?c" and p: "is_pow2 ?c"
    using inv by (auto simp: cb_inv_def)
  define b' where "b' = b\<lparr>cb_cells := ring_write (cb_head b) xs (cb_cells b),
    cb_head := (cb_head b + length xs) mod ?c,
    cb_full := ((cb_head b + length xs) mod ?c = cb_tail b)\<rparr>"
  have room: "length xs \<le> ?c" using fits by (simp add: cb_available_def)
  have "cb_push xs b = (Ok (), b')"
  proof (cases "length xs \<le> ?c - cb_head b")
    case True
    with fits p len h show ?thesis
      by (simp add: cb_push_def b'_def ring_write_def Let_def)
  next
    case False
    then have "cb_head b + length xs - ?c = (cb_head b + length xs) mod ?c"
      using h room by (simp add: le_mod_geq)
    with False fits p len h show ?thesis
      by (simp add: cb_push_def b'_def ring_write_def Let_def add.commute)
  qed
  moreover have "cb_inv b' \<and> cb_content b' = cb_content b @ xs"
    by (rule content_ring_write [OF inv fits])
      (use full_after_write [OF inv _ fits] ne in \<open>auto simp: b'_def\<close>)
  ultimately show ?thesis by (auto simp: b'_def)
qed

lemma cb_push_overflow: "\<not> length xs \<le> cb_available b \<Longrightarrow> cb_push xs b = (Abort, b)"
  by (simp add: cb_push_def)

lemma cb_push1_content:
  assumes inv: "cb_inv b" and nf: "\<not> cb_full b"
  shows "\<exists>b'. cb_push1 x b = (Ok (), b') \<and> cb_inv b' \<and> cb_content b' = cb_content b @ [x] \<and>
    cb_capacity b' = cb_capacity b"
proof -
  let ?c = "cb_capacity b"
  have len: "length (cb_cells b) = ?c" and h: "cb_head b < ?c" and p: "is_pow2 ?c"
    using inv by (auto simp: cb_inv_def)
  have fits: "length [x] \<le> cb_available b"
    using nf cb_size_full [OF inv] cb_size_le [OF inv] by (auto simp: cb_available_def)
  define b' where "b' = b\<lparr>cb_cells := (cb_cells b)[cb_head b := x],
    cb_head := (cb_head b + 1) mod ?c, cb_full := ((cb_head b + 1) mod ?c = cb_tail b)\<rparr>"
  have "cb_push1 x b = (Ok (), b')"
    using nf p by (simp add: cb_push1_def b'_def Let_def)
  moreover have "(cb_cells b)[cb_head b := x] = ring_write (cb_head b) [x] (cb_cells b)"
    using h len by (simp add: ring_write_def Let_def blit_def min_def upd_conv_take_nth_drop)
  then have "cb_inv b' \<and> cb_content b' = cb_content b @ [x]"
    by (intro content_ring_write [OF inv fits])
      (use full_after_write [OF inv _ fits] in \<open>auto simp: b'_def\<close>)
  ultimately show ?thesis by (auto simp: b'_def)
qed

lemma tail_advance:
  assumes inv: "cb_inv b" and k: "0 < k" "k \<le> cb_size b"
    and b': "b' = b\<lparr>cb_tail := (cb_tail b + k) mod cb_capacity b, cb_full := False\<rparr>"
  shows "cb_inv b' \<and> cb_content b' = drop k (cb_content b)"
proof -
  let ?c = "cb_capacity b" and ?n = "cb_size b" and ?t = "cb_tail b"
  have c: "0 < ?c" and n: "?n \<le> ?c" using cb_capacity_pos [OF inv] cb_size_le [OF inv] by auto
  have "cb_head b = (?t + ?n) mod ?c" using inv by (rule cb_head_eq)
  also have "?t + ?n = (?t + k) + (?n - k)" using k by simp
  also have "\<dots> mod ?c = ((?t + k) mod ?c + (?n - k)) mod ?c"
    by (simp only: mod_add_left_eq)
  finally have hd: "cb_head b' = (cb_tail b' + (?n - k)) mod ?c" by (simp add: b')
  have size: "cb_size b' = ?n - k"
    by (rule cb_size_shape [of "cb_tail b'" ?c]) (use c n k hd in \<open>auto simp: b'\<close>)
  have "cb_inv b'" using inv c by (auto simp: cb_inv_def b')
  moreover have "cb_content b' = drop k (cb_content b)"
  proof (rule nth_equalityI)
    show "length (cb_content b') = length (drop k (cb_content b))" using size by simp
    fix i assume "i < length (cb_content b')"
    then have i: "i < ?n - k" using size by simp
    then show "cb_content b' ! i = drop k (cb_content b) ! i"
      using size k by (simp add: cb_content_nth b' mod_add_left_eq add.assoc)
  qed
  ultimately show ?thesis by blast
qed

lemma subspan_eq_map: "p + n \<le> length m \<Longrightarrow> subspan p n m = map (\<lambda>i. m ! (p + i)) [0..<n]"
  by (rule nth_equalityI) (simp_all add: nth_subspan)

lemma take_content:
  assumes inv: "cb_inv b" and k: "k \<le> cb_size b" "k \<le> cb_capacity b - cb_tail b"
  shows "subspan (cb_tail b) k (cb_cells b) = take k (cb_content b)"
proof -
  have fits: "cb_tail b + k \<le> length (cb_cells b)" and c: "length (cb_cells b) = cb_capacity b"
    using inv k by (auto simp: cb_inv_def)
  show ?thesis
  proof (rule nth_equalityI)
    show "length (subspan (cb_tail b) k (cb_cells b)) = length (take k (cb_content b))"
      using fits k by simp
    fix i assume "i < length (subspan (cb_tail b) k (cb_cells b))"
    then have "i < k" using fits by simp
    then show "subspan (cb_tail b) k (cb_cells b) ! i = take k (cb_content b) ! i"
      using fits k c by (simp add: nth_subspan cb_content_nth)
  qed
qed

lemma take_content_wrapped:
  assumes inv: "cb_inv b" and k: "k \<le> cb_size b" "cb_capacity b - cb_tail b < k"
  shows "subspan (cb_tail b) (cb_capacity b - cb_tail b) (cb_cells b) @
      subspan 0 (k - (cb_capacity b - cb_tail b)) (cb_cells b) = take k (cb_content b)"
    (is "?u @ ?v = _")
proof -
  let ?r = "cb_capacity b - cb_tail b"
  have u: "?u = take ?r (cb_content b)" using take_content [OF inv, of ?r] k by simp
  have t: "cb_tail b < cb_capacity b" "length (cb_cells b) = cb_capacity b"
    using inv by (auto simp: cb_inv_def)
  have n: "cb_size b \<le> cb_capacity b" using inv by (rule cb_size_le)
  have "?v = take (k - ?r) (drop ?r (cb_content b))"
  proof (rule nth_equalityI)
    show "length ?v = length (take (k - ?r) (drop ?r (cb_content b)))" using t n k by simp
    fix i assume "i < length ?v"
    then have i: "i < k - ?r" using t n k by simp
    then have "(cb_tail b + (?r + i)) mod cb_capacity b = i" using t n k by (simp add: mod_if)
    then show "?v ! i = take (k - ?r) (drop ?r (cb_content b)) ! i"
      using i t n k by (simp add: nth_subspan cb_content_nth)
  qed
  with u k show ?thesis by (metis le_add_diff_inverse less_imp_le_nat take_add)
qed

lemma cb_pop_content:
  assumes inv: "cb_inv b" and k: "k \<le> cb_size b"
  shows "\<exists>b'. cb_pop k b = (Ok (take k (cb_content b)), b') \<and> cb_inv b' \<and>
    cb_content b' = drop k (cb_content b) \<and> cb_capacity b' = cb_capacity b"
proof (cases "k = 0")
  case True
  with inv show ?thesis by (simp add: cb_pop_def)
next
  case False
  let ?c = "cb_capacity b"
  define b' where "b' = b\<lparr>cb_tail := (cb_tail b + k) mod ?c, cb_full := False\<rparr>"
  have p: "is_pow2 ?c" and t: "cb_tail b < ?c" using inv by (auto simp: cb_inv_def)
  have ne: "\<not> cb_empty b"
    using False k cb_empty_content [OF inv] by (auto simp flip: length_0_conv)
  have n: "cb_size b \<le> ?c" using inv by (rule cb_size_le)
  have "cb_pop k b = (Ok (take k (cb_content b)), b')"
  proof (cases "k \<le> ?c - cb_tail b")
    case True
    with False k ne p t take_content [OF inv k True] show ?thesis
      by (simp add: cb_pop_def Let_def b'_def)
  next
    case long: False
    then have "k - (?c - cb_tail b) = (cb_tail b + k) mod ?c"
      using t n k by (simp add: le_mod_geq)
    with long False k ne t take_content_wrapped [OF inv k] show ?thesis
      by (simp add: cb_pop_def Let_def b'_def)
  qed
  with tail_advance [OF inv _ k b'_def] False show ?thesis by (auto simp: b'_def)
qed

lemma cb_pop_over:
  assumes "cb_inv b" and "cb_size b < k"
  shows "cb_pop k b = (if cb_empty b then (Ok [], b) else (Abort, b))"
  using assms by (auto simp: cb_pop_def)

lemma cb_pop1_content:
  assumes inv: "cb_inv b"
  shows "case cb_content b of
      [] \<Rightarrow> cb_pop1 b = (None, b)
    | x # xs \<Rightarrow> \<exists>b'. cb_pop1 b = (Some x, b') \<and> cb_inv b' \<and> cb_content b' = xs \<and>
        cb_capacity b' = cb_capacity b"
proof (cases "cb_content b")
  case Nil
  with inv show ?thesis by (simp add: cb_pop1_def cb_empty_content)
next
  case (Cons x xs)
  define b' where "b' = b\<lparr>cb_tail := (cb_tail b + 1) mod cb_capacity b, cb_full := False\<rparr>"
  have size: "0 < cb_size b" using Cons length_content [of b] by simp
  have "cb_cells b ! cb_tail b = x"
    using cb_content_nth [OF size] Cons inv by (simp add: cb_inv_def)
  then have "cb_pop1 b = (Some x, b')"
    using Cons inv cb_empty_content [OF inv] by (simp add: cb_pop1_def b'_def Let_def cb_inv_def)
  with tail_advance [OF inv _ _ b'_def] size Cons show ?thesis by (auto simp: b'_def)
qed

lemma cb_move_tail_content:
  assumes inv: "cb_inv b" and k: "0 < k" "k \<le> cb_size b"
  shows "\<exists>b'. cb_move_tail k b = (Ok (), b') \<and> cb_inv b' \<and> cb_content b' = drop k (cb_content b) \<and>
    cb_capacity b' = cb_capacity b"
proof -
  define b' where "b' = b\<lparr>cb_tail := (cb_tail b + k) mod cb_capacity b, cb_full := False\<rparr>"
  have "cb_move_tail k b = (Ok (), b')"
    using inv k by (simp add: cb_move_tail_def b'_def Let_def cb_inv_def)
  with tail_advance [OF inv k b'_def] show ?thesis by (auto simp: b'_def)
qed

lemma cb_available_span_fits:
  "cb_inv b \<Longrightarrow> cb_available_span b = (off, n) \<Longrightarrow>
     off = cb_head b \<and> n \<le> cb_available b \<and> off + n \<le> cb_capacity b \<and> (n = 0 \<longleftrightarrow> cb_full b)"
  by (auto simp: cb_available_span_def cb_available_def cb_inv_def cb_size_def split: if_splits)

text \<open>A direct write through the span followed by \<open>move_head\<close>, as \<open>fill_read_buffer\<close> does it.\<close>

lemma cb_store_move_head:
  assumes inv: "cb_inv b" and span: "cb_available_span b = (off, n)"
    and xs: "xs \<noteq> []" "length xs \<le> n"
  shows "\<exists>b'. cb_move_head (length xs) (cb_store off xs b) = (Ok (), b') \<and> cb_inv b' \<and>
    cb_content b' = cb_content b @ xs \<and> cb_capacity b' = cb_capacity b"
proof -
  let ?c = "cb_capacity b"
  have off: "off = cb_head b" and fits: "length xs \<le> cb_available b" and "off + length xs \<le> ?c"
    using cb_available_span_fits [OF inv span] xs by auto
  define b' where "b' = (cb_store off xs b)\<lparr>cb_head := (cb_head b + length xs) mod ?c,
    cb_full := ((cb_head b + length xs) mod ?c = cb_tail b)\<rparr>"
  have size: "cb_size (cb_store off xs b) = cb_size b" by (simp add: cb_size_def cb_store_def)
  then have "cb_move_head (length xs) (cb_store off xs b) = (Ok (), b')"
    using fits inv by (simp add: cb_move_head_def cb_available_def b'_def Let_def cb_inv_def cb_store_def)
  moreover have "ring_write (cb_head b) xs (cb_cells b) = blit off xs (cb_cells b)"
    using off \<open>off + length xs \<le> ?c\<close> inv by (simp add: ring_write_def cb_inv_def)
  then have "cb_inv b' \<and> cb_content b' = cb_content b @ xs"
    by (intro content_ring_write [OF inv fits])
      (use full_after_write [OF inv _ fits] xs off in \<open>auto simp: b'_def cb_store_def\<close>)
  ultimately show ?thesis by (auto simp: b'_def cb_store_def)
qed

lemma cb_used_span_content:
  assumes inv: "cb_inv b" and span: "cb_used_span b = (off, n)"
  shows "subspan off n (cb_cells b) = take n (cb_content b) \<and> n \<le> cb_size b \<and>
    (n = 0 \<longleftrightarrow> cb_empty b)"
proof (cases "cb_empty b")
  case True
  with span show ?thesis by (simp add: cb_used_span_def)
next
  case False
  then have "off = cb_tail b \<and> n \<le> cb_size b \<and> n \<le> cb_capacity b - cb_tail b \<and> 0 < n"
    using inv span
    by (auto simp: cb_used_span_def cb_inv_def cb_size_def cb_empty_def split: if_splits)
  then show ?thesis using take_content [OF inv] False by auto
qed

lemma cb_index_content:
  "cb_inv b \<Longrightarrow> cb_index i b = (if i < cb_size b then Ok (cb_content b ! i) else Abort)"
  by (simp add: cb_index_def Let_def cb_content_nth cb_inv_def)

lemma cb_peek_content:
  assumes inv: "cb_inv b"
  shows "cb_peek b = (case cb_content b of [] \<Rightarrow> None | x # _ \<Rightarrow> Some x)"
proof (cases "cb_content b")
  case Nil
  with inv show ?thesis by (simp add: cb_peek_def cb_empty_content)
next
  case (Cons x xs)
  then have "0 < cb_size b" using length_content [of b] by simp
  from cb_content_nth [OF this] Cons inv show ?thesis
    using cb_empty_content [OF inv] by (simp add: cb_peek_def cb_inv_def)
qed

lemma cb_clear_content: "cb_inv b \<Longrightarrow> cb_inv (cb_clear b) \<and> cb_content (cb_clear b) = []"
  by (auto simp: cb_clear_def cb_inv_def cb_content_def cb_size_def)

lemma cb_new_content:
  "cb_new g c = Ok b \<Longrightarrow> cb_inv b \<and> cb_content b = [] \<and> cb_capacity b = c"
  using and_self_pred_eq_0 [of c]
  by (auto simp: cb_new_def cb_inv_def cb_content_def cb_size_def split: if_splits)

subsection \<open>The ring is a bounded FIFO queue\<close>

lemma cb_push_refines:
  assumes "cb_inv b" and "xs \<noteq> []" and "cb_push xs b = (r, b')"
  shows "cb_inv b' \<and> cb_capacity b' = cb_capacity b \<and>
    list_push (cb_capacity b) xs (cb_content b) = (r, cb_content b')"
proof (cases "length xs \<le> cb_available b")
  case True
  with cb_push_content [OF assms(1,2)] assms(3) show ?thesis
    by (auto simp: list_push_def cb_available_def)
next
  case False
  with assms cb_push_overflow [OF False] show ?thesis
    by (auto simp: list_push_def cb_available_def)
qed

lemma cb_pop_refines:
  assumes inv: "cb_inv b" and pop: "cb_pop n b = (r, b')"
  shows "cb_inv b' \<and> cb_capacity b' = cb_capacity b \<and>
    list_pop n (cb_content b) = (r, cb_content b')"
proof (cases "n \<le> cb_size b")
  case True
  have "list_pop n (cb_content b) = (Ok (take n (cb_content b)), drop n (cb_content b))"
    using True by (auto simp: list_pop_def)
  moreover have "r = Ok (take n (cb_content b)) \<and> cb_inv b' \<and>
      cb_content b' = drop n (cb_content b) \<and> cb_capacity b' = cb_capacity b"
    using cb_pop_content [OF inv True] pop by auto
  ultimately show ?thesis by simp
next
  case False
  then have "list_pop n (cb_content b) =
      (if cb_empty b then (Ok [], cb_content b) else (Abort, cb_content b))"
    using cb_empty_content [OF inv] by (auto simp: list_pop_def)
  with False inv pop cb_pop_over [of b n] show ?thesis by (auto split: if_splits)
qed

interpretation ring: bounded_queue cb_content cb_inv cb_capacity cb_push cb_pop
  by unfold_locales (auto dest: cb_push_refines cb_pop_refines)

text \<open>
  C24: Any sequence of bulk pushes (of at least one item each) and pops on a circular buffer behaves
  exactly like the same sequence on a list bounded by the capacity: the same items come out in the
  same order, the same calls trip an assertion, and the buffer ends up holding what the list holds,
  wherever the read and write positions wrap around.
\<close>

theorem ring_refines_list_queue:
  assumes "cb_inv b" and "proper ops" and "queue_run cb_push cb_pop ops b = (r, b')"
  shows "cb_inv b' \<and>
    queue_run (list_push (cb_capacity b)) list_pop ops (cb_content b) = (r, cb_content b')"
  using ring.run_refines [OF assms] by blast

theorem ring_refines_list_queue_witness:
  "\<exists>b r b'. cb_new (\<lambda>_. 0 :: nat) 4 = Ok b \<and>
     queue_run cb_push cb_pop [Push [1, 2, 3], Pop 2, Push [4, 5, 6], Pop 4] b = (r, b') \<and>
     r = Ok [1, 2, 3, 4, 5, 6] \<and> cb_inv b' \<and> cb_content b' = []"
proof -
  define b where "b = \<lparr>cb_cells = [0, 0, 0, 0 :: nat], cb_head = 0, cb_tail = 0, cb_full = False,
    cb_capacity = 4\<rparr>"
  have new: "cb_new (\<lambda>_. 0 :: nat) 4 = Ok b" by (simp add: cb_new_def b_def) code_simp
  let ?ops = "[Push [1, 2, 3], Pop 2, Push [4, 5, 6], Pop 4 :: nat queue_op]"
  obtain r b' where run: "queue_run cb_push cb_pop ?ops b = (r, b')" by fastforce
  have "cb_inv b" and c: "cb_content b = []" using cb_new_content [OF new] by auto
  from ring_refines_list_queue [OF this(1) _ run]
  have "cb_inv b'" and spec: "queue_run (list_push 4) list_pop ?ops [] = (r, cb_content b')"
    using c by (auto simp: b_def)
  with new run show ?thesis
    by (intro exI [of _ b] exI [of _ r] exI [of _ b'])
      (auto simp: list_push_def list_pop_def st_try_def)
qed

text \<open>
  Pushing a block of zero items, or moving the head by zero positions, onto an empty circular
  buffer marks it full: afterwards it reports its whole capacity as stored items, although nothing
  was ever put into it. (The call recomputes \<open>full_\<close> from \<open>head_ == tail_\<close>.)
\<close>

theorem ring_zero_length_write_fills:
  assumes "cb_inv b" and "cb_empty b"
  shows "\<exists>b1 b2. cb_push [] b = (Ok (), b1) \<and> cb_size b1 = cb_capacity b \<and>
    cb_move_head 0 b = (Ok (), b2) \<and> cb_size b2 = cb_capacity b"
  using assms by (auto simp: cb_push_def cb_move_head_def cb_empty_def cb_size_def cb_inv_def Let_def)

theorem ring_zero_length_write_fills_witness:
  "\<exists>b b1. cb_new (\<lambda>_. 0 :: nat) 8 = Ok b \<and> cb_content b = [] \<and> cb_push [] b = (Ok (), b1) \<and>
     cb_size b1 = 8"
proof -
  obtain b where new: "cb_new (\<lambda>_. 0 :: nat) 8 = Ok b" by (simp add: cb_new_def)
  have b: "cb_inv b" "cb_content b = []" "cb_capacity b = 8" using cb_new_content [OF new] by auto
  then have "cb_empty b" using cb_empty_content by blast
  from ring_zero_length_write_fills [OF b(1) this] b new show ?thesis by auto
qed

end
