(* ===== verification/Buffer_Interface.thy ===== *)
theory Buffer_Interface
  imports Errors
begin

section \<open>The contract of a growable byte buffer (HasBufferOperations.hpp)\<close>

text \<open>
  What the readers of the library need from a \<open>TBuffer\<close>: \<open>append(size)\<close> adds a region of \<open>size\<close>
  bytes behind the data it keeps, or fails and keeps everything, and the bytes written through the
  returned span are then part of the data. Spans are given as offset and length. The laws hold as
  long as the sizes do not wrap around \<open>size_t\<close>, which is a premise.
\<close>

type_synonym span = "nat \<times> nat"

locale append_buffer =
  fixes data :: "'b \<Rightarrow> byte list"
    and invar :: "'b \<Rightarrow> bool"
    and append_n :: "u64 \<Rightarrow> ('b, span) st"
    and fill :: "nat \<Rightarrow> byte list \<Rightarrow> ('b, unit) st"
  assumes append_ok: "invar b \<Longrightarrow> length (data b) + unat n < 2 ^ 64 \<Longrightarrow>
      append_n n b = (Ok sp, b') \<Longrightarrow>
      invar b' \<and> sp = (length (data b), unat n) \<and>
      length (data b') = length (data b) + unat n \<and> take (length (data b)) (data b') = data b"
    and append_err: "invar b \<Longrightarrow> append_n n b = (Err e, b') \<Longrightarrow> b' = b"
    and append_no_abort: "invar b \<Longrightarrow> fst (append_n n b) \<noteq> Abort"
    and fill_ok: "invar b \<Longrightarrow> off + length xs \<le> length (data b) \<Longrightarrow>
      \<exists>b'. fill off xs b = (Ok (), b') \<and> invar b' \<and> data b' = blit off xs (data b)"
begin

text \<open>Receiving into a buffer: reserve the region, then write the bytes that arrived into it.\<close>

lemma append_fill:
  assumes inv: "invar b" and fits: "length (data b) + unat n < 2 ^ 64"
    and app: "append_n n b = (Ok (off, len), b1)" and xs: "length xs = len"
  shows "\<exists>b2. fill off xs b1 = (Ok (), b2) \<and> invar b2 \<and> data b2 = data b @ xs"
proof -
  have b1: "invar b1" "off = length (data b)" "len = unat n"
      "length (data b1) = length (data b) + unat n" "take (length (data b)) (data b1) = data b"
    using append_ok [OF inv fits app] by auto
  then obtain b2 where b2: "fill off xs b1 = (Ok (), b2)" "invar b2" "data b2 = blit off xs (data b1)"
    using fill_ok [of b1 off xs] xs by auto
  have "blit off xs (data b1) = data b @ xs"
    using b1 xs by (simp add: blit_def)
  with b2 show ?thesis by simp
qed

end

end
