(* ===== verification/Byte_Buffer.thy ===== *)
theory Byte_Buffer
  imports Buffer_Interface
begin

section \<open>The message buffer (Buffer.hpp)\<close>

text \<open>
  \<open>Buffer\<close> owns one heap block. The record keeps the four fields of the class; the pointer
  \<open>buffer_\<close> is the address of the block with the bytes it holds, \<open>None\<close> for the null pointer.
  Sizes are \<open>size_t\<close> of a 64-bit host, kept at their width. \<open>std::realloc\<close> is a parameter of type
  \<open>allocator\<close>: for a size it fails or gives an address and the (indeterminate) bytes of the fresh
  part of the block. A write outside the block is the result \<open>Abort\<close>.
\<close>

type_synonym allocator = "nat \<Rightarrow> (nat \<times> (nat \<Rightarrow> byte)) option"

record buffer =
  buf_max_size :: u64
  buf_capacity :: u64
  buf_used :: u64
  buf_mem :: "(nat \<times> byte list) option"

subsection \<open>Operations\<close>

definition buf_block :: "buffer \<Rightarrow> byte list" where
  "buf_block b = (case buf_mem b of None \<Rightarrow> [] | Some (a, bs) \<Rightarrow> bs)"

definition realloc :: "allocator \<Rightarrow> byte list \<Rightarrow> nat \<Rightarrow> (nat \<times> byte list) option" where
  "realloc A old n =
     (case A n of None \<Rightarrow> None
      | Some (addr, fresh) \<Rightarrow> Some (addr, take n old @ map fresh [length old..<n]))"

definition buffer_error_exceeds :: "u64 \<Rightarrow> u64 \<Rightarrow> ws_error" where
  "buffer_error_exceeds sz m =
     WSError Buffer_error (Buffer_msg (Msg_exceeds_max (unat sz) (unat m))) not_set"

definition buffer_error_alloc :: "u64 \<Rightarrow> ws_error" where
  "buffer_error_alloc sz = WSError Buffer_error (Buffer_msg (Msg_alloc_failed (unat sz))) not_set"

definition internal_reserve :: "allocator \<Rightarrow> u64 \<Rightarrow> (buffer, unit) st" where
  "internal_reserve A sz b =
     (if sz > buf_max_size b then (Err (buffer_error_exceeds sz (buf_max_size b)), b)
      else case realloc A (buf_block b) (unat (max 1 sz)) of
             None \<Rightarrow> (Err (buffer_error_alloc sz), b)
           | Some newbuf \<Rightarrow>
               (Ok (), b\<lparr>buf_mem := Some newbuf, buf_capacity := sz,
                         buf_used := min (buf_used b) sz\<rparr>))"

definition buffer_reserve :: "allocator \<Rightarrow> u64 \<Rightarrow> (buffer, unit) st" where
  "buffer_reserve A sz b =
     (if sz > buf_capacity b then internal_reserve A sz b else (Ok (), b))"

definition buffer_create :: "allocator \<Rightarrow> u64 \<Rightarrow> u64 \<Rightarrow> buffer ws_result" where
  "buffer_create A initial_size max_size =
     (if \<not> initial_size \<le> max_size then Abort
      else let b = \<lparr>buf_max_size = max_size, buf_capacity = 0, buf_used = 0, buf_mem = None\<rparr>
           in case buffer_reserve A initial_size b of
                (Ok _, b') \<Rightarrow> Ok b'
              | (Err e, b') \<Rightarrow> Err e
              | (Abort, b') \<Rightarrow> Abort)"

definition buffer_clear :: "buffer \<Rightarrow> buffer" where
  "buffer_clear b = b\<lparr>buf_used := 0\<rparr>"

definition buffer_reset :: "buffer \<Rightarrow> buffer" where
  "buffer_reset b = b\<lparr>buf_mem := None, buf_capacity := 0, buf_used := 0\<rparr>"

definition buffer_empty :: "buffer \<Rightarrow> bool" where
  "buffer_empty b \<longleftrightarrow> buf_used b = 0"

definition buffer_full :: "buffer \<Rightarrow> bool" where
  "buffer_full b \<longleftrightarrow> buf_used b = buf_max_size b"

definition buffer_at :: "u64 \<Rightarrow> buffer \<Rightarrow> byte ws_result" where
  "buffer_at pos b = (if pos < buf_used b then Ok (buf_block b ! unat pos) else Abort)"

definition buffer_set_max_size :: "u64 \<Rightarrow> buffer \<Rightarrow> buffer" where
  "buffer_set_max_size m b = b\<lparr>buf_max_size := m\<rparr>"

definition buffer_resize :: "allocator \<Rightarrow> u64 \<Rightarrow> (buffer, unit) st" where
  "buffer_resize A sz b =
     (let r = (if sz \<noteq> buf_capacity b then internal_reserve A sz b else (Ok (), b))
      in st_try (\<lambda>_. r) (\<lambda>_ b'. (Ok (), b'\<lparr>buf_used := sz\<rparr>)) b)"

definition buffer_discard_end :: "u64 \<Rightarrow> (buffer, unit) st" where
  "buffer_discard_end sz b =
     (if sz \<le> buf_used b then (Ok (), b\<lparr>buf_used := buf_used b - sz\<rparr>) else (Abort, b))"

text \<open>Write through a span of the block.\<close>

definition buffer_fill :: "nat \<Rightarrow> byte list \<Rightarrow> (buffer, unit) st" where
  "buffer_fill off xs b =
     (if xs = [] then (Ok (), b)
      else case buf_mem b of
             None \<Rightarrow> (Abort, b)
           | Some (addr, bs) \<Rightarrow>
               if off + length xs \<le> length bs
               then (Ok (), b\<lparr>buf_mem := Some (addr, blit off xs bs)\<rparr>)
               else (Abort, b))"

text \<open>\<open>append(size)\<close>: extend the data by \<open>size\<close> bytes without writing them.\<close>

definition buffer_append_n :: "allocator \<Rightarrow> u64 \<Rightarrow> (buffer, span) st" where
  "buffer_append_n A sz b =
     (let pos = buf_used b; new_pos = pos + sz;
          r = (if new_pos > buf_capacity b then internal_reserve A new_pos b else (Ok (), b))
      in st_try (\<lambda>_. r) (\<lambda>_ b'. (Ok (unat pos, unat sz), b'\<lparr>buf_used := new_pos\<rparr>)) b)"

text \<open>\<open>append(data, size)\<close>: extend the data by a copy of \<open>xs\<close>.\<close>

definition buffer_append :: "allocator \<Rightarrow> byte list \<Rightarrow> (buffer, span) st" where
  "buffer_append A xs b =
     (let sz = word_of_nat (length xs); pos = buf_used b; new_pos = pos + sz;
          r = (if new_pos > buf_capacity b then internal_reserve A new_pos b else (Ok (), b))
      in st_try (\<lambda>_. r)
           (\<lambda>_. st_try (buffer_fill (unat pos) xs)
             (\<lambda>_ b'. (Ok (unat pos, length xs), b'\<lparr>buf_used := new_pos\<rparr>))) b)"

definition buffer_data :: "buffer \<Rightarrow> byte list" where
  "buffer_data b = (case buf_mem b of None \<Rightarrow> [] | Some (a, bs) \<Rightarrow> take (unat (buf_used b)) bs)"

subsection \<open>Invariant\<close>

text \<open>The block is exactly as large as the capacity says (one byte for capacity 0).\<close>

definition buffer_inv :: "buffer \<Rightarrow> bool" where
  "buffer_inv b \<longleftrightarrow>
     buf_used b \<le> buf_capacity b \<and>
     (case buf_mem b of
        None \<Rightarrow> buf_capacity b = 0
      | Some (a, bs) \<Rightarrow> length bs = max 1 (unat (buf_capacity b)))"

lemma length_realloc: "realloc A old n = Some (a, bs) \<Longrightarrow> length bs = n"
  by (auto simp: realloc_def split: option.splits)

lemma take_realloc:
  "realloc A old n = Some (a, bs) \<Longrightarrow> k \<le> n \<Longrightarrow> k \<le> length old \<Longrightarrow> take k bs = take k old"
  by (auto simp: realloc_def min_def split: option.splits)

lemma length_buffer_data [simp]: "buffer_inv b \<Longrightarrow> length (buffer_data b) = unat (buf_used b)"
  by (auto simp: buffer_inv_def buffer_data_def word_le_nat_alt split: option.splits)

lemma buffer_data_block: "buffer_inv b \<Longrightarrow> buffer_data b = take (unat (buf_used b)) (buf_block b)"
  by (auto simp: buffer_data_def buf_block_def split: option.splits)

lemma buffer_inv_block: "buffer_inv b \<Longrightarrow> unat (buf_capacity b) \<le> length (buf_block b)"
  by (auto simp: buffer_inv_def buf_block_def split: option.splits)

lemma unat_max_1: "unat (max 1 (n :: u64)) = max 1 (unat n)"
  by (auto simp: max_def word_le_nat_alt)

lemma internal_reserve_Ok:
  assumes inv: "buffer_inv b" and ok: "internal_reserve A n b = (Ok u, b')"
  shows "buffer_inv b' \<and> buf_capacity b' = n \<and> buf_max_size b' = buf_max_size b \<and>
    n \<le> buf_max_size b \<and> buf_used b' = min (buf_used b) n \<and>
    take (unat (buf_used b')) (buf_block b') = take (unat (buf_used b')) (buf_block b)"
proof -
  from ok obtain a bs where r: "realloc A (buf_block b) (unat (max 1 n)) = Some (a, bs)"
    and b': "b' = b\<lparr>buf_mem := Some (a, bs), buf_capacity := n, buf_used := min (buf_used b) n\<rparr>"
    and n: "n \<le> buf_max_size b"
    by (auto simp: internal_reserve_def split: if_splits option.splits)
  have u: "unat (buf_used b') \<le> unat n" "unat (buf_used b') \<le> unat (buf_used b)"
    by (auto simp: b' min_def word_le_nat_alt)
  have "unat (buf_used b) \<le> length (buf_block b)"
    using inv buffer_inv_block [OF inv] by (auto simp: buffer_inv_def word_le_nat_alt)
  with u have "take (unat (buf_used b')) bs = take (unat (buf_used b')) (buf_block b)"
    by (intro take_realloc [OF r]) (auto simp: unat_max_1)
  moreover have "buffer_inv b'"
    using length_realloc [OF r] by (simp add: buffer_inv_def b' unat_max_1)
  ultimately show ?thesis using n by (simp add: b' buf_block_def)
qed

lemma internal_reserve_Err: "internal_reserve A n b = (Err e, b') \<Longrightarrow> b' = b"
  by (auto simp: internal_reserve_def split: if_splits option.splits)

lemma internal_reserve_no_abort: "fst (internal_reserve A n b) \<noteq> Abort"
  by (auto simp: internal_reserve_def split: option.splits)

subsection \<open>Appending\<close>

lemma u64_add_no_wrap: "unat (a :: u64) + unat b < 2 ^ 64 \<Longrightarrow> unat (a + b) = unat a + unat b"
  by (simp add: unat_word_ariths)

text \<open>The reallocation step of the two \<open>append\<close>s.\<close>

lemma append_room:
  assumes inv: "buffer_inv b" and nw: "unat (buf_used b) + unat n < 2 ^ 64"
    and r: "(if buf_used b + n > buf_capacity b then internal_reserve A (buf_used b + n) b
             else (Ok (), b)) = (Ok u, b1)"
  shows "buffer_inv b1 \<and> buf_used b1 = buf_used b \<and> buf_used b + n \<le> buf_capacity b1 \<and>
    buf_max_size b1 = buf_max_size b \<and> buffer_data b1 = buffer_data b"
proof (cases "buf_used b + n > buf_capacity b")
  case True
  with r have ok: "internal_reserve A (buf_used b + n) b = (Ok u, b1)" by simp
  have "buf_used b \<le> buf_used b + n" using nw by (simp add: word_le_nat_alt u64_add_no_wrap)
  with internal_reserve_Ok [OF inv ok] inv show ?thesis
    by (auto simp: buffer_data_block min_def)
next
  case False
  with r inv show ?thesis by auto
qed

lemma buffer_append_n_Ok:
  assumes inv: "buffer_inv b" and nw: "length (buffer_data b) + unat n < 2 ^ 64"
    and ok: "buffer_append_n A n b = (Ok sp, b')"
  shows "buffer_inv b' \<and> sp = (length (buffer_data b), unat n) \<and>
    length (buffer_data b') = length (buffer_data b) + unat n \<and>
    take (length (buffer_data b)) (buffer_data b') = buffer_data b"
proof -
  from inv nw have nw': "unat (buf_used b) + unat n < 2 ^ 64" by simp
  from ok obtain b1 u where r: "(if buf_used b + n > buf_capacity b
        then internal_reserve A (buf_used b + n) b else (Ok (), b)) = (Ok u, b1)"
    and sp: "sp = (unat (buf_used b), unat n)" and b': "b' = b1\<lparr>buf_used := buf_used b + n\<rparr>"
    by (auto simp: buffer_append_n_def st_try_Ok Let_def)
  note room = append_room [OF inv nw' r]
  have "buffer_inv b'" using room by (auto simp: b' buffer_inv_def split: option.splits)
  moreover have "take (unat (buf_used b)) (buffer_data b') = buffer_data b"
    using room inv u64_add_no_wrap [OF nw']
    by (auto simp: b' buffer_data_def buffer_inv_def min_def split: option.splits)
  ultimately show ?thesis using inv sp u64_add_no_wrap [OF nw'] by (simp add: b')
qed

lemma buffer_append_n_Err: "buffer_append_n A n b = (Err e, b') \<Longrightarrow> b' = b"
  by (auto simp: buffer_append_n_def st_try_def Let_def split: if_splits prod.splits ws_result.splits
      dest: internal_reserve_Err)

lemma buffer_append_n_no_abort: "fst (buffer_append_n A n b) \<noteq> Abort"
  using internal_reserve_no_abort [of A "buf_used b + n" b]
  by (auto simp: buffer_append_n_def st_try_def Let_def split: prod.splits ws_result.splits)

lemma buffer_fill_Ok:
  assumes inv: "buffer_inv b" and fits: "off + length xs \<le> length (buffer_data b)"
  shows "\<exists>b'. buffer_fill off xs b = (Ok (), b') \<and> buffer_inv b' \<and> buf_used b' = buf_used b \<and>
    buf_max_size b' = buf_max_size b \<and> buffer_data b' = blit off xs (buffer_data b)"
proof (cases "xs = []")
  case True
  with inv show ?thesis by (simp add: buffer_fill_def)
next
  case False
  with fits obtain a bs where m: "buf_mem b = Some (a, bs)"
    by (auto simp: buffer_data_def split: option.splits)
  let ?u = "unat (buf_used b)"
  have u: "?u \<le> length bs" using inv m by (auto simp: buffer_inv_def word_le_nat_alt)
  with fits inv have "off + length xs \<le> ?u" by simp
  moreover from this have "take ?u (blit off xs bs) = blit off xs (take ?u bs)"
    using u by (intro nth_equalityI) (auto simp: nth_blit)
  ultimately show ?thesis
    using m False inv u by (auto simp: buffer_fill_def buffer_inv_def buffer_data_def)
qed

interpretation buf: append_buffer buffer_data buffer_inv "buffer_append_n A" buffer_fill for A
proof unfold_locales
  fix b n sp b'
  assume "buffer_inv b" and "length (buffer_data b) + unat n < 2 ^ 64"
    and "buffer_append_n A n b = (Ok sp, b')"
  then show "buffer_inv b' \<and> sp = (length (buffer_data b), unat n) \<and>
      length (buffer_data b') = length (buffer_data b) + unat n \<and>
      take (length (buffer_data b)) (buffer_data b') = buffer_data b"
    by (rule buffer_append_n_Ok)
next
  fix b n e b'
  assume "buffer_append_n A n b = (Err e, b')"
  then show "b' = b" by (rule buffer_append_n_Err)
next
  fix b n
  show "fst (buffer_append_n A n b) \<noteq> Abort" by (rule buffer_append_n_no_abort)
next
  fix b off and xs :: "byte list"
  assume "buffer_inv b" and "off + length xs \<le> length (buffer_data b)"
  from buffer_fill_Ok [OF this]
  show "\<exists>b'. buffer_fill off xs b = (Ok (), b') \<and> buffer_inv b' \<and>
      buffer_data b' = blit off xs (buffer_data b)" by blast
qed


subsection \<open>The operations on the data\<close>

lemma buffer_append_Ok:
  assumes inv: "buffer_inv b" and nw: "unat (buf_used b) + length xs < 2 ^ 64"
    and room: "(if buf_used b + word_of_nat (length xs) > buf_capacity b
                then internal_reserve A (buf_used b + word_of_nat (length xs)) b else (Ok (), b))
               = (Ok u, b1)"
  shows "\<exists>b'. buffer_append A xs b = (Ok (unat (buf_used b), length xs), b') \<and> buffer_inv b' \<and>
    buffer_data b' = buffer_data b @ xs \<and> buf_max_size b' = buf_max_size b"
proof -
  let ?n = "word_of_nat (length xs) :: u64" and ?u = "unat (buf_used b)"
  have n: "unat ?n = length xs" using nw by (simp add: unat_of_nat take_bit_nat_eq_self)
  with nw have nw': "unat (buf_used b) + unat ?n < 2 ^ 64" by simp
  note b1 = append_room [OF inv nw' room]
  define b2 where "b2 = b1\<lparr>buf_used := buf_used b + ?n\<rparr>"
  have u2: "unat (buf_used b2) = ?u + length xs" using u64_add_no_wrap [OF nw'] n by (simp add: b2_def)
  have inv2: "buffer_inv b2" using b1 by (auto simp: b2_def buffer_inv_def split: option.splits)
  have pre: "take ?u (buffer_data b2) = buffer_data b"
    using b1 inv u2 by (auto simp: b2_def buffer_data_def buffer_inv_def min_def split: option.splits)
  have len: "length (buffer_data b2) = ?u + length xs" using inv2 u2 by simp
  from buffer_fill_Ok [OF inv2, of ?u xs] len obtain b3
    where b3: "buffer_fill ?u xs b2 = (Ok (), b3)" "buffer_inv b3" "buf_used b3 = buf_used b2"
      "buf_max_size b3 = buf_max_size b2" "buffer_data b3 = blit ?u xs (buffer_data b2)"
    by auto
  have "buffer_fill ?u xs b1 = (Ok (), b3\<lparr>buf_used := buf_used b1\<rparr>)"
    using b3(1) by (auto simp: buffer_fill_def b2_def split: option.splits if_splits)
  then have "buffer_append A xs b = (Ok (?u, length xs), b3)"
    using room b1 b3(3) by (simp add: buffer_append_def Let_def st_try_def b2_def)
  moreover have "buffer_data b3 = buffer_data b @ xs"
    using b3(5) pre len by (simp add: blit_def)
  ultimately show ?thesis using b3 b1 by (auto simp: b2_def)
qed

lemma buffer_append_Err:
  assumes "(if buf_used b + word_of_nat (length xs) > buf_capacity b
            then internal_reserve A (buf_used b + word_of_nat (length xs)) b else (Ok (), b))
           = (Err e, b1)"
  shows "buffer_append A xs b = (Err e, b)"
  using assms internal_reserve_Err [of A _ b e b1]
  by (auto simp: buffer_append_def Let_def st_try_def split: if_splits)

lemma buffer_resize_Ok:
  assumes inv: "buffer_inv b" and n: "n \<le> buf_used b" and ok: "buffer_resize A n b = (Ok u, b')"
  shows "buffer_inv b' \<and> buffer_data b' = take (unat n) (buffer_data b) \<and> buf_capacity b' = n \<and>
    buf_max_size b' = buf_max_size b"
proof (cases "n = buf_capacity b")
  case True
  with inv n have u: "buf_used b = n" by (auto simp: buffer_inv_def)
  with True ok have "b' = b" by (auto simp: buffer_resize_def st_try_def)
  with True inv u length_buffer_data [OF inv] show ?thesis by simp
next
  case False
  with ok obtain b1 u1 where r: "internal_reserve A n b = (Ok u1, b1)" and b': "b' = b1\<lparr>buf_used := n\<rparr>"
    by (auto simp: buffer_resize_def st_try_Ok Let_def)
  from internal_reserve_Ok [OF inv r] n
  have b1: "buffer_inv b1" "buf_used b1 = n" "buf_capacity b1 = n" "buf_max_size b1 = buf_max_size b"
      "take (unat n) (buf_block b1) = take (unat n) (buf_block b)"
    by (auto simp: min_absorb2)
  then have "b' = b1" by (simp add: b')
  with b1 inv n show ?thesis
    by (auto simp: buffer_data_block min_def word_le_nat_alt)
qed

lemma buffer_discard_end_Ok:
  assumes inv: "buffer_inv b" and n: "n \<le> buf_used b"
  shows "\<exists>b'. buffer_discard_end n b = (Ok (), b') \<and> buffer_inv b' \<and>
    buffer_data b' = take (unat (buf_used b) - unat n) (buffer_data b) \<and>
    buf_max_size b' = buf_max_size b \<and> buf_capacity b' = buf_capacity b"
proof -
  have u: "unat (buf_used b - n) = unat (buf_used b) - unat n"
    using n by (simp add: unat_sub)
  moreover have "buf_used b - n \<le> buf_capacity b"
    using inv n u by (auto simp: buffer_inv_def word_le_nat_alt)
  ultimately show ?thesis
    using inv n by (auto simp: buffer_discard_end_def buffer_inv_def buffer_data_def min_def
        split: option.splits)
qed

lemma buffer_clear_inv [simp]: "buffer_inv b \<Longrightarrow> buffer_inv (buffer_clear b)"
  by (auto simp: buffer_inv_def buffer_clear_def split: option.splits)

lemma buffer_clear_data [simp]: "buffer_data (buffer_clear b) = []"
  by (simp add: buffer_data_def buffer_clear_def split: option.splits)

lemma buffer_create_Ok:
  "buffer_create A n m = Ok b \<Longrightarrow> buffer_inv b \<and> buffer_data b = [] \<and> buf_used b = 0 \<and>
     buf_max_size b = m"
proof -
  let ?b = "\<lparr>buf_max_size = m, buf_capacity = 0, buf_used = 0, buf_mem = None\<rparr>"
  assume ok: "buffer_create A n m = Ok b"
  then obtain u where r: "buffer_reserve A n ?b = (Ok u, b)"
    by (auto simp: buffer_create_def Let_def split: if_splits prod.splits ws_result.splits)
  have inv: "buffer_inv ?b" by (simp add: buffer_inv_def)
  show ?thesis
  proof (cases "n > 0")
    case True
    with r have "internal_reserve A n ?b = (Ok u, b)" by (simp add: buffer_reserve_def)
    from internal_reserve_Ok [OF inv this] show ?thesis by (auto simp: buffer_data_block)
  next
    case False
    with r inv show ?thesis by (auto simp: buffer_reserve_def buffer_data_def)
  qed
qed

text \<open>
  Appending a block to a message buffer either adds exactly that block behind the bytes already
  there, or fails with a buffer error and leaves the buffer as it was; it fails exactly when the
  block no longer fits the allocated space and the new size exceeds the maximum or the allocation
  fails. The buffer stays well-formed either way. (For sizes whose sum does not wrap around.)
\<close>

theorem buffer_append_spec:
  assumes inv: "buffer_inv b" and nw: "unat (buf_used b) + length xs < 2 ^ 64"
  shows "case buffer_append A xs b of
      (Ok sp, b') \<Rightarrow> buffer_inv b' \<and> buffer_data b' = buffer_data b @ xs \<and>
        sp = (length (buffer_data b), length xs)
    | (Err e, b') \<Rightarrow> b' = b \<and> err_code e = Buffer_error \<and>
        unat (buf_capacity b) < unat (buf_used b) + length xs \<and>
        (unat (buf_max_size b) < unat (buf_used b) + length xs \<or>
         A (max 1 (unat (buf_used b) + length xs)) = None)
    | (Abort, b') \<Rightarrow> False"
proof -
  let ?n = "word_of_nat (length xs) :: u64"
  have n: "unat ?n = length xs" using nw by (simp add: unat_of_nat take_bit_nat_eq_self)
  then have sum: "unat (buf_used b + ?n) = unat (buf_used b) + length xs"
    using nw u64_add_no_wrap by simp
  obtain r b1 where room: "(if buf_used b + ?n > buf_capacity b
      then internal_reserve A (buf_used b + ?n) b else (Ok (), b)) = (r, b1)" by fastforce
  show ?thesis
  proof (cases r)
    case (Ok u)
    with buffer_append_Ok [OF inv nw room [unfolded Ok]] inv show ?thesis by auto
  next
    case (Err e)
    from room [unfolded Err] have big: "buf_used b + ?n > buf_capacity b"
      and res: "internal_reserve A (buf_used b + ?n) b = (Err e, b1)"
      by (auto split: if_splits)
    have "err_code e = Buffer_error \<and> (unat (buf_max_size b) < unat (buf_used b) + length xs \<or>
         A (max 1 (unat (buf_used b) + length xs)) = None)"
      using res by (auto simp: internal_reserve_def buffer_error_exceeds_def buffer_error_alloc_def
          realloc_def unat_max_1 sum word_less_nat_alt split: if_splits option.splits)
    with big buffer_append_Err [OF room [unfolded Err]] show ?thesis
      by (auto simp: word_less_nat_alt sum)
  next
    case Abort
    with room internal_reserve_no_abort [of A "buf_used b + ?n" b] show ?thesis
      by (auto split: if_splits)
  qed
qed

theorem buffer_append_spec_witness:
  "\<exists>b b'. buffer_create (\<lambda>n. Some (64, \<lambda>_. 0)) 2 4 = Ok b \<and>
     buffer_append (\<lambda>n. Some (64, \<lambda>_. 0)) [7, 8, 9] b = (Ok (0, 3), b') \<and> buffer_data b' = [7, 8, 9]"
proof -
  let ?A = "\<lambda>n :: nat. Some (64 :: nat, \<lambda>_ :: nat. 0 :: byte)"
  obtain b where b: "buffer_create ?A 2 4 = Ok b"
    by (simp add: buffer_create_def buffer_reserve_def internal_reserve_def realloc_def Let_def
        buf_block_def)
  from buffer_create_Ok [OF this]
  have inv: "buffer_inv b" and d: "buffer_data b = []" and u: "buf_used b = 0" and m: "buf_max_size b = 4"
    by auto
  obtain r b' where app: "buffer_append ?A [7, 8, 9] b = (r, b')" by fastforce
  from buffer_append_spec [OF inv, of "[7, 8, 9]" ?A] app u d m b show ?thesis
    by (auto split: ws_result.splits)
qed

text \<open>
  C39: \<open>append(size)\<close> does not guard its addition: when the requested size makes the new length wrap
  around \<open>size_t\<close>, the call succeeds without allocating, hands out a span that reaches far beyond
  the allocated block, and the recorded size even shrinks. Writing a received payload through such
  a span runs out of the block.
\<close>

theorem buffer_append_n_wraps:
  assumes inv: "buffer_inv b" and wrap: "2 ^ 64 \<le> unat (buf_used b) + unat n"
    and xs: "length xs = unat n" "unat n > length (buf_block b)"
  shows "\<exists>b'. buffer_append_n A n b = (Ok (unat (buf_used b), unat n), b') \<and>
    buf_mem b' = buf_mem b \<and> buf_used b' < buf_used b \<and>
    fst (buffer_fill (unat (buf_used b)) xs b') = Abort"
proof -
  have sum: "unat (buf_used b + n) = unat (buf_used b) + unat n - 2 ^ 64"
    using wrap unsigned_less [where 'a = nat, of "buf_used b"] unsigned_less [where 'a = nat, of n]
    by (simp add: unat_word_ariths le_mod_geq)
  then have less: "buf_used b + n < buf_used b"
    using unsigned_less [where 'a = nat, of n] wrap by (simp add: word_less_nat_alt)
  moreover have "buf_used b \<le> buf_capacity b" using inv by (simp add: buffer_inv_def)
  ultimately have "\<not> buf_used b + n > buf_capacity b" by simp
  then have app: "buffer_append_n A n b =
      (Ok (unat (buf_used b), unat n), b\<lparr>buf_used := buf_used b + n\<rparr>)"
    by (simp add: buffer_append_n_def st_try_def Let_def)
  have "xs \<noteq> []" using xs by auto
  with xs have "fst (buffer_fill (unat (buf_used b)) xs (b\<lparr>buf_used := buf_used b + n\<rparr>)) = Abort"
    by (auto simp: buffer_fill_def buf_block_def split: option.splits)
  with app less show ?thesis by auto
qed

theorem buffer_append_n_wraps_witness:
  "\<exists>b b'. buffer_create (\<lambda>n. Some (64, \<lambda>_. 0)) 8 0xFFFFFFFFFFFFFFFF = Ok b \<and>
     (\<exists>b1. buffer_append_n (\<lambda>n. Some (64, \<lambda>_. 0)) 5 b = (Ok (0, 5), b1) \<and>
       buffer_append_n (\<lambda>n. Some (64, \<lambda>_. 0)) 0xFFFFFFFFFFFFFFFF b1 = (Ok (5, 2 ^ 64 - 1), b') \<and>
       buf_used b' = 4 \<and>
       fst (buffer_fill 5 (replicate (2 ^ 64 - 1) 0) b') = Abort)"
proof -
  let ?A = "\<lambda>n :: nat. Some (64 :: nat, \<lambda>_ :: nat. 0 :: byte)"
  let ?m = "0xFFFFFFFFFFFFFFFF :: u64"
  define b where "b = \<lparr>buf_max_size = ?m, buf_capacity = 8, buf_used = 0,
    buf_mem = Some (64, replicate 8 0)\<rparr>"
  define b1 where "b1 = b\<lparr>buf_used := 5\<rparr>"
  have new: "buffer_create ?A 8 ?m = Ok b"
    by (simp add: buffer_create_def buffer_reserve_def internal_reserve_def realloc_def b_def
        Let_def buf_block_def map_replicate_const)
  have one: "buffer_append_n ?A 5 b = (Ok (0, 5), b1)"
    by (simp add: buffer_append_n_def b_def b1_def st_try_def Let_def)
  have inv: "buffer_inv b1" by (simp add: buffer_inv_def b1_def b_def)
  have "length (replicate (2 ^ 64 - 1) (0 :: byte)) = unat ?m"
    and "unat ?m > length (buf_block b1)" and "2 ^ 64 \<le> unat (buf_used b1) + unat ?m"
    by (simp_all add: buf_block_def b1_def b_def)
  from buffer_append_n_wraps [OF inv this(3) this(1,2), of ?A] obtain b'
    where b': "buffer_append_n ?A ?m b1 = (Ok (unat (buf_used b1), unat ?m), b')"
      "fst (buffer_fill (unat (buf_used b1)) (replicate (2 ^ 64 - 1) 0) b') = Abort"
    by blast
  then have "buf_used b' = 4"
    by (auto simp: buffer_append_n_def b1_def b_def st_try_def Let_def)
  with new one b' show ?thesis
    by (intro exI [of _ b] exI [of _ b'] conjI exI [of _ b1]) (simp_all add: b1_def b_def)
qed

subsection \<open>With an allocator that does not fail\<close>

lemma realloc_live: "\<forall>n. A n \<noteq> None \<Longrightarrow> \<exists>p. realloc A old n = Some p"
  by (auto simp: realloc_def split: option.splits)

lemma internal_reserve_live:
  "\<forall>n. A n \<noteq> None \<Longrightarrow> n \<le> buf_max_size b \<Longrightarrow> \<exists>b'. internal_reserve A n b = (Ok (), b')"
  using realloc_live [of A "buf_block b" "unat (max 1 n)"] by (auto simp: internal_reserve_def not_less)

lemma append_n_live:
  assumes "\<forall>n. A n \<noteq> None" and "buf_used b + n \<le> buf_max_size b"
  shows "\<exists>off len b'. buffer_append_n A n b = (Ok (off, len), b')"
  using internal_reserve_live [OF assms] by (auto simp: buffer_append_n_def st_try_def Let_def)

lemma resize_live:
  assumes "\<forall>n. A n \<noteq> None" and "n \<le> buf_max_size b"
  shows "\<exists>b'. buffer_resize A n b = (Ok (), b')"
  using internal_reserve_live [OF assms] by (auto simp: buffer_resize_def st_try_def Let_def)

lemma resize_sizes:
  "buffer_resize A n b = (Ok (), b') \<Longrightarrow> buf_max_size b' = buf_max_size b"
  by (auto simp: buffer_resize_def st_try_Ok Let_def internal_reserve_def split: if_splits option.splits)

end
