(* ===== verification/Buffered_Socket.thy ===== *)
theory Buffered_Socket
  imports Transport Circular_Buffer Byte_Buffer
begin

section \<open>The buffered socket (BufferedSocket.hpp)\<close>

text \<open>
  \<open>BufferedSocket\<close> puts a ring of 4096 bytes in front of a transport. The record holds both; the
  loops are \<open>partial_function (option)\<close>, where \<open>None\<close> is a call that does not return. A destination
  span is memory of the caller, so \<open>read_exact\<close> and \<open>read_until\<close> run on a pair of that memory and
  the socket: what has been stored before an error stays stored.

  The lemmas of the locale \<open>stream_socket\<close> view the socket as one byte stream: what is in the ring
  followed by what the transport still delivers. Every read consumes a prefix of it, whatever the
  chunks are in which the transport delivers.
\<close>

record 's bsock =
  bs_socket :: 's
  bs_ring :: "byte cbuf"

definition read_buffer_size :: nat where "read_buffer_size = 4096"

definition bsock_new :: "(nat \<Rightarrow> byte) \<Rightarrow> 's \<Rightarrow> 's bsock ws_result" where
  "bsock_new junk socket =
     res_try (cb_new junk read_buffer_size) (\<lambda>ring. Ok \<lparr>bs_socket = socket, bs_ring = ring\<rparr>)"

definition on_socket :: "('s, 'r) ws \<Rightarrow> ('s bsock, 'r) ws" where
  "on_socket = on_part bs_socket (\<lambda>k s. s\<lparr>bs_socket := k\<rparr>)"

definition on_ring :: "(byte cbuf, 'r) st \<Rightarrow> ('s bsock, 'r) ws" where
  "on_ring m = on_part bs_ring (\<lambda>k s. s\<lparr>bs_ring := k\<rparr>) (ws_total m)"

subsection \<open>Operations\<close>

definition bs_wait_readable :: "'s transport \<Rightarrow> timeout \<Rightarrow> ('s bsock, bool) ws" where
  "bs_wait_readable T to s =
     (if \<not> cb_empty (bs_ring s) then Some (Ok True, s)
      else on_socket (tr_wait_readable T to) s)"

definition bs_read_some :: "'s transport \<Rightarrow> nat \<Rightarrow> timeout \<Rightarrow> ('s bsock, byte list) ws" where
  "bs_read_some T n to = on_socket (tr_read_some T n to)"

definition fill_read_buffer :: "'s transport \<Rightarrow> nat \<Rightarrow> timeout \<Rightarrow> ('s bsock, nat) ws" where
  "fill_read_buffer T desired_bytes to s =
     (if \<not> desired_bytes > 0 then Some (Abort, s)
      else if cb_size (bs_ring s) \<ge> desired_bytes then Some (Ok desired_bytes, s)
      else let (off, n) = cb_available_span (bs_ring s)
           in ws_try (on_socket (tr_read_some T n to))
                (\<lambda>xs. ws_try (on_ring (\<lambda>r. cb_move_head (length xs) (cb_store off xs r)))
                  (\<lambda>_ s. Some (Ok (if cb_size (bs_ring s) < desired_bytes
                                   then cb_size (bs_ring s) else desired_bytes), s))) s)"

text \<open>One round of \<open>read_exact\<close>: fill, then pop to the destination at \<open>total_read\<close>.\<close>

definition read_exact_step ::
  "'s transport \<Rightarrow> timeout \<Rightarrow> nat \<Rightarrow> nat \<Rightarrow> (byte list \<times> 's bsock, nat) ws" where
  "read_exact_step T to total_read rest_len =
     ws_try (on_snd (fill_read_buffer T rest_len to))
       (\<lambda>read_bytes. ws_try (on_snd (on_ring (cb_pop read_bytes)))
         (\<lambda>xs s. Some (Ok read_bytes, (blit total_read xs (fst s), snd s))))"

partial_function (option) read_exact_loop ::
  "'s transport \<Rightarrow> timeout \<Rightarrow> nat \<Rightarrow> nat \<Rightarrow> byte list \<times> 's bsock \<Rightarrow>
     (nat ws_result \<times> byte list \<times> 's bsock) option"
where
  "read_exact_loop T to total_read rest_len s =
     (if rest_len > 0
      then ws_try (read_exact_step T to total_read rest_len)
             (\<lambda>k. read_exact_loop T to (total_read + k) (rest_len - k)) s
      else Some (Ok total_read, s))"

definition read_exact :: "'s transport \<Rightarrow> timeout \<Rightarrow> (byte list \<times> 's bsock, nat) ws" where
  "read_exact T to s = read_exact_loop T to 0 (length (fst s)) s"

text \<open>
  One round of \<open>read_until\<close>: \<open>True\<close> when the delimiter was found and everything from it on has been
  moved back into the ring, \<open>False\<close> when the loop goes on.
\<close>

definition read_until_search ::
  "allocator \<Rightarrow> byte list \<Rightarrow> nat \<Rightarrow> (buffer \<times> 's bsock, bool) ws" where
  "read_until_search A delim search_offset s =
     (let data = buffer_data (fst s);
          search_start = search_offset - min search_offset (length delim - 1)
      in case find_sub delim (drop search_start data) of
           None \<Rightarrow> Some (Ok False, s)
         | Some i \<Rightarrow>
             (let res = search_start + i
              in ws_try (on_snd (on_ring (cb_push (drop res data))))
                   (\<lambda>_. ws_try (on_fst (ws_total (buffer_resize A (word_of_nat res))))
                     (\<lambda>_ s. Some (Ok True, s))) s))"

definition read_until_step ::
  "'s transport \<Rightarrow> allocator \<Rightarrow> byte list \<Rightarrow> timeout \<Rightarrow> nat \<Rightarrow> (buffer \<times> 's bsock, bool) ws" where
  "read_until_step T A delim to search_offset s =
     ws_try (on_snd (fill_read_buffer T (cb_capacity (bs_ring (snd s))) to))
       (\<lambda>_ s. ws_try (on_fst (ws_total (buffer_append_n A (word_of_nat (cb_size (bs_ring (snd s)))))))
         (\<lambda>(off, len). ws_try (on_snd (on_ring (cb_pop len)))
           (\<lambda>xs. ws_try (on_fst (ws_total (buffer_fill off xs)))
             (\<lambda>_. read_until_search A delim search_offset))) s) s"

partial_function (option) read_until_loop ::
  "'s transport \<Rightarrow> allocator \<Rightarrow> byte list \<Rightarrow> timeout \<Rightarrow> nat \<Rightarrow> buffer \<times> 's bsock \<Rightarrow>
     (unit ws_result \<times> buffer \<times> 's bsock) option"
where
  "read_until_loop T A delim to search_offset s =
     ws_try (read_until_step T A delim to search_offset)
       (\<lambda>found s. if found then Some (Ok (), s)
                  else read_until_loop T A delim to (unat (buf_used (fst s))) s) s"

definition read_until ::
  "'s transport \<Rightarrow> allocator \<Rightarrow> byte list \<Rightarrow> timeout \<Rightarrow> (buffer \<times> 's bsock, unit) ws" where
  "read_until T A delim to = read_until_loop T A delim to 0"

definition bs_write_some :: "'s transport \<Rightarrow> byte list \<Rightarrow> timeout \<Rightarrow> ('s bsock, nat) ws" where
  "bs_write_some T data to = on_socket (tr_write_some T data to)"

partial_function (option) bs_write_loop ::
  "'s transport \<Rightarrow> byte list \<Rightarrow> timeout \<Rightarrow> nat \<Rightarrow> nat \<Rightarrow> 's bsock \<Rightarrow> (unit ws_result \<times> 's bsock) option"
where
  "bs_write_loop T data to total_written rest_len s =
     (if rest_len > 0
      then ws_try (bs_write_some T (drop total_written data) to)
             (\<lambda>written. bs_write_loop T data to (total_written + written) (rest_len - written)) s
      else Some (Ok (), s))"

definition bs_write :: "'s transport \<Rightarrow> byte list \<Rightarrow> timeout \<Rightarrow> ('s bsock, unit) ws" where
  "bs_write T data to = bs_write_loop T data to 0 (length data)"

declare read_exact_loop.simps [code] read_until_loop.simps [code] bs_write_loop.simps [code]


subsection \<open>The byte stream of a buffered socket\<close>

definition bs_inv :: "('s \<Rightarrow> bool) \<Rightarrow> 's bsock \<Rightarrow> bool" where
  "bs_inv I s \<longleftrightarrow> I (bs_socket s) \<and> cb_inv (bs_ring s)"

text \<open>Between calls the ring is never full, so there is always room for a read.\<close>

definition bs_ready :: "('s \<Rightarrow> bool) \<Rightarrow> 's bsock \<Rightarrow> bool" where
  "bs_ready I s \<longleftrightarrow> bs_inv I s \<and> \<not> cb_full (bs_ring s)"

definition bs_stream :: "('s \<Rightarrow> byte list) \<Rightarrow> 's bsock \<Rightarrow> byte list" where
  "bs_stream pend s = cb_content (bs_ring s) @ pend (bs_socket s)"

definition bs_sent :: "('s \<Rightarrow> byte list) \<Rightarrow> 's bsock \<Rightarrow> byte list" where
  "bs_sent sent s = sent (bs_socket s)"

lemmas bs_defs = bs_inv_def bs_ready_def bs_stream_def bs_sent_def

lemma on_socket_Some [result_simps]:
  "on_socket m s = Some (r, s') \<longleftrightarrow> (\<exists>a. m (bs_socket s) = Some (r, a) \<and> s' = s\<lparr>bs_socket := a\<rparr>)"
  by (auto simp: on_socket_def on_part_Some)

lemma on_ring_Some [result_simps]:
  "on_ring m s = Some (r, s') \<longleftrightarrow> (\<exists>a. m (bs_ring s) = (r, a) \<and> s' = s\<lparr>bs_ring := a\<rparr>)"
  by (auto simp: on_ring_def on_part_Some)

lemma cb_content_length_le: "cb_inv b \<Longrightarrow> length (cb_content b) \<le> cb_capacity b"
  by (simp add: cb_size_le)

lemma cb_pop_not_full:
  assumes inv: "cb_inv b" and k: "0 < k" "k \<le> cb_size b"
  shows "\<exists>b'. cb_pop k b = (Ok (take k (cb_content b)), b') \<and> cb_inv b' \<and> \<not> cb_full b' \<and>
    cb_content b' = drop k (cb_content b) \<and> cb_capacity b' = cb_capacity b"
proof -
  from cb_pop_content [OF inv k(2)] obtain b' where b':
    "cb_pop k b = (Ok (take k (cb_content b)), b')" "cb_inv b'"
    "cb_content b' = drop k (cb_content b)" "cb_capacity b' = cb_capacity b" by blast
  have "cb_size b' = cb_size b - k" using b'(3) by (metis length_content length_drop)
  also have "\<dots> < cb_capacity b'" using k cb_size_le [OF inv] b'(4) by linarith
  finally have "\<not> cb_full b'" using cb_size_full [OF b'(2)] by auto
  with b' show ?thesis by blast
qed

lemma blit_extend:
  "t + length xs + length ys \<le> length m \<Longrightarrow> blit (t + length xs) ys (blit t xs m) = blit t (xs @ ys) m"
  by (simp add: blit_def add.commute add.left_commute)

context stream_socket
begin

text \<open>What a read leaves behind: a consumed prefix, nothing sent.\<close>

definition consumes :: "byte list \<Rightarrow> 's bsock \<Rightarrow> 's bsock \<Rightarrow> bool" where
  "consumes xs s s' \<longleftrightarrow> bs_ready inv s' \<and> bs_stream pend s = xs @ bs_stream pend s' \<and>
     bs_sent sent s' = bs_sent sent s \<and> cb_capacity (bs_ring s') = cb_capacity (bs_ring s)"

lemma fill_outcome:
  assumes inv: "bs_inv inv s" and d: "0 < d"
    and room: "\<not> cb_full (bs_ring s) \<or> d \<le> cb_capacity (bs_ring s)"
    and run: "fill_read_buffer T d to s = Some (r, s')"
  shows "bs_inv inv s' \<and> bs_stream pend s' = bs_stream pend s \<and> bs_sent sent s' = bs_sent sent s \<and>
    cb_capacity (bs_ring s') = cb_capacity (bs_ring s) \<and>
    (case r of
       Ok k \<Rightarrow> 0 < k \<and> k = min d (cb_size (bs_ring s'))
     | Err e \<Rightarrow> \<not> cb_full (bs_ring s')
     | Abort \<Rightarrow> False)"
proof (cases "cb_size (bs_ring s) \<ge> d")
  case True
  with run d have "r = Ok d \<and> s' = s" by (simp add: fill_read_buffer_def)
  with True inv d show ?thesis by simp
next
  case False
  note i = inv [unfolded bs_inv_def]
  obtain off n where span: "cb_available_span (bs_ring s) = (off, n)" by fastforce
  have nf: "\<not> cb_full (bs_ring s)" using room False cb_size_full [of "bs_ring s"] i by auto
  with cb_available_span_fits [OF _ span] i have n: "0 < n" by auto
  from run False d have
    "ws_try (on_socket (tr_read_some T n to))
       (\<lambda>xs. ws_try (on_ring (\<lambda>r. cb_move_head (length xs) (cb_store off xs r)))
         (\<lambda>_ s. Some (Ok (if cb_size (bs_ring s) < d then cb_size (bs_ring s) else d), s))) s =
     Some (r, s')"
    by (simp add: fill_read_buffer_def span)
  then show ?thesis
  proof (cases rule: ws_try_cases)
    case (ok xs s1)
    from ok(1) obtain k where k: "tr_read_some T n to (bs_socket s) = Some (Ok xs, k)"
      and s1: "s1 = s\<lparr>bs_socket := k\<rparr>" by (auto simp: on_socket_Some)
    note read = read_ok [OF conjunct1 [OF i] n k]
    from cb_store_move_head [OF conjunct2 [OF i] span, of xs] read obtain b where
      b: "cb_move_head (length xs) (cb_store off xs (bs_ring s)) = (Ok (), b)" "cb_inv b"
        "cb_content b = cb_content (bs_ring s) @ xs" "cb_capacity b = cb_capacity (bs_ring s)"
      by auto
    have "on_ring (\<lambda>r. cb_move_head (length xs) (cb_store off xs r)) s1 =
        Some (Ok (), s1\<lparr>bs_ring := b\<rparr>)"
      using b(1) by (simp add: on_ring_Some s1)
    from ok(2) [unfolded ws_try_simps(1) [of "on_ring _", OF this]]
    have s': "s' = s1\<lparr>bs_ring := b\<rparr>" and r: "r = Ok (min d (cb_size b))" by (auto simp: min_def)
    have "0 < cb_size b" using b(3) read by (metis length_content append_is_Nil_conv length_greater_0_conv)
    with read b d i s' r show ?thesis by (simp add: bs_defs s1)
  next
    case (err e)
    then obtain k where k: "tr_read_some T n to (bs_socket s) = Some (Err e, k)"
      and s': "s' = s\<lparr>bs_socket := k\<rparr>" by (auto simp: on_socket_Some)
    from read_err [OF conjunct1 [OF i] n k] i nf err show ?thesis by (simp add: bs_defs s')
  next
    case abort
    then show ?thesis using read_no_abort [OF conjunct1 [OF i] n] by (auto simp: on_socket_Some)
  qed
qed

lemma read_exact_step_outcome:
  assumes ready: "bs_ready inv s" and d: "0 < d" and len: "tot + d \<le> length dest"
    and run: "read_exact_step T to tot d (dest, s) = Some (r, (dest', s'))"
  shows "case r of
      Ok k \<Rightarrow> 0 < k \<and> k \<le> d \<and> (\<exists>xs. length xs = k \<and> consumes xs s s' \<and> dest' = blit tot xs dest)
    | Err e \<Rightarrow> consumes [] s s' \<and> dest' = dest
    | Abort \<Rightarrow> False"
  using run unfolding read_exact_step_def
proof (cases rule: ws_try_cases)
  case (ok k st1)
  from ok(1) obtain s1 where f: "fill_read_buffer T d to s = Some (Ok k, s1)" and st1: "st1 = (dest, s1)"
    by (auto simp: on_snd_Some)
  from fill_outcome [OF _ d _ f] ready
  have s1: "bs_inv inv s1" "bs_stream pend s1 = bs_stream pend s" "bs_sent sent s1 = bs_sent sent s"
    "cb_capacity (bs_ring s1) = cb_capacity (bs_ring s)" "0 < k" "k = min d (cb_size (bs_ring s1))"
    by (auto simp: bs_ready_def)
  have i1: "cb_inv (bs_ring s1)" and k: "k \<le> cb_size (bs_ring s1)" "k \<le> d"
    using s1 by (simp_all add: bs_inv_def)
  from cb_pop_not_full [OF i1 s1(5) k(1)] obtain b where b:
    "cb_pop k (bs_ring s1) = (Ok (take k (cb_content (bs_ring s1))), b)" "cb_inv b" "\<not> cb_full b"
    "cb_content b = drop k (cb_content (bs_ring s1))" "cb_capacity b = cb_capacity (bs_ring s1)"
    by blast
  let ?xs = "take k (cb_content (bs_ring s1))"
  have "on_snd (on_ring (cb_pop k)) st1 = Some (Ok ?xs, (dest, s1\<lparr>bs_ring := b\<rparr>))"
    using b(1) by (simp add: on_snd_Some on_ring_Some st1)
  from ok(2) [unfolded ws_try_simps(1) [of "on_snd _", OF this]]
  have r: "r = Ok k" "dest' = blit tot ?xs dest" "s' = s1\<lparr>bs_ring := b\<rparr>" by simp_all
  have "consumes ?xs s s'"
    using s1 b r(3) by (simp add: consumes_def bs_defs flip: append_assoc)
  moreover have "length ?xs = k" using k by simp
  ultimately show ?thesis
    using s1(5) k(2) unfolding r ws_result.case by blast
next
  case (err e)
  then have f: "fill_read_buffer T d to s = Some (Err e, s')" and d': "dest' = dest"
    by (auto simp: on_snd_Some)
  from fill_outcome [OF _ d _ f] ready err(2) d' show ?thesis by (auto simp: bs_ready_def consumes_def)
next
  case abort
  then have "fill_read_buffer T d to s = Some (Abort, s')" by (auto simp: on_snd_Some)
  from fill_outcome [OF _ d _ this] ready show ?thesis by (auto simp: bs_ready_def)
qed

lemma consumes_trans: "consumes xs s s1 \<Longrightarrow> consumes ys s1 s2 \<Longrightarrow> consumes (xs @ ys) s s2"
  by (auto simp: consumes_def)

lemma consumes_refl: "bs_ready inv s \<Longrightarrow> consumes [] s s"
  by (simp add: consumes_def)

lemma read_exact_loop_outcome:
  assumes "bs_ready inv s" and "tot + d \<le> length dest"
    and "read_exact_loop T to tot d (dest, s) = Some (r, (dest', s'))"
  shows "case r of
      Ok n \<Rightarrow> n = tot + d \<and> (\<exists>xs. length xs = d \<and> consumes xs s s' \<and> dest' = blit tot xs dest)
    | Err e \<Rightarrow> (\<exists>xs. length xs < d \<and> consumes xs s s' \<and> dest' = blit tot xs dest)
    | Abort \<Rightarrow> False"
  using assms
proof (induction d arbitrary: tot dest s rule: less_induct)
  case (less d)
  show ?case
  proof (cases "d = 0")
    case True
    with less.prems show ?thesis
      by (subst (asm) read_exact_loop.simps) (auto intro: consumes_refl)
  next
    case False
    with less.prems(3) have "ws_try (read_exact_step T to tot d)
        (\<lambda>k. read_exact_loop T to (tot + k) (d - k)) (dest, s) = Some (r, (dest', s'))"
      by (subst (asm) read_exact_loop.simps) simp
    then show ?thesis
    proof (cases rule: ws_try_cases)
      case (ok k st1)
      obtain dest1 s1 where st1: "st1 = (dest1, s1)" by fastforce
      from read_exact_step_outcome [OF less.prems(1) _ less.prems(2) ok(1) [unfolded st1]] False
      obtain xs where k: "0 < k" "k \<le> d" and xs: "length xs = k" "consumes xs s s1"
        "dest1 = blit tot xs dest" by auto
      have len1: "length dest1 = length dest" using xs k less.prems(2) by simp
      have ready1: "bs_ready inv s1" using xs(2) by (simp add: consumes_def)
      have "d - k < d" "tot + k + (d - k) \<le> length dest1" using k len1 less.prems(2) by simp_all
      from less.IH [OF this(1) ready1 this(2) ok(2) [unfolded st1]]
      have IH: "case r of
          Ok n \<Rightarrow> n = tot + d \<and>
            (\<exists>ys. length ys = d - k \<and> consumes ys s1 s' \<and> dest' = blit (tot + k) ys dest1)
        | Err e \<Rightarrow> (\<exists>ys. length ys < d - k \<and> consumes ys s1 s' \<and> dest' = blit (tot + k) ys dest1)
        | Abort \<Rightarrow> False"
        using k by (simp only: add.assoc le_add_diff_inverse)
      have join: "consumes (xs @ ys) s s' \<and> dest' = blit tot (xs @ ys) dest"
        if "length ys \<le> d - k" "consumes ys s1 s'" "dest' = blit (tot + k) ys dest1" for ys
        using that xs k less.prems(2) consumes_trans [OF xs(2) that(2)] blit_extend [of tot xs ys dest]
        by simp
      show ?thesis
      proof (cases r)
        case (Ok n)
        with IH obtain ys where ys: "n = tot + d" "length ys = d - k" "consumes ys s1 s'"
          "dest' = blit (tot + k) ys dest1" by auto
        with join [of ys] xs k Ok show ?thesis by (auto intro!: exI [of _ "xs @ ys"])
      next
        case (Err e)
        with IH obtain ys where ys: "length ys < d - k" "consumes ys s1 s'"
          "dest' = blit (tot + k) ys dest1" by auto
        with join [of ys] xs k Err show ?thesis by (auto intro!: exI [of _ "xs @ ys"])
      next
        case Abort
        with IH show ?thesis by simp
      qed
    next
      case (err e)
      from read_exact_step_outcome [OF less.prems(1) _ less.prems(2) err(1)] False err(2)
      show ?thesis by (auto intro!: exI [of _ "[]"])
    next
      case abort
      from read_exact_step_outcome [OF less.prems(1) _ less.prems(2) abort(1)] False
      show ?thesis by simp
    qed
  qed
qed

text \<open>\<open>read_exact\<close> delivers exactly the next bytes of the stream.\<close>

lemma read_exact_outcome:
  assumes ready: "bs_ready inv s" and run: "read_exact T to (dest, s) = Some (r, (dest', s'))"
  shows "case r of
      Ok n \<Rightarrow> n = length dest \<and> consumes dest' s s' \<and> length dest' = length dest
    | Err e \<Rightarrow> (\<exists>xs. length xs < length dest \<and> consumes xs s s' \<and> dest' = blit 0 xs dest)
    | Abort \<Rightarrow> False"
proof -
  have "read_exact_loop T to 0 (length dest) (dest, s) = Some (r, (dest', s'))"
    using run by (simp add: read_exact_def)
  from read_exact_loop_outcome [OF ready _ this] show ?thesis
    by (auto simp: blit_def split: ws_result.splits)
qed

end


subsection \<open>Reading up to a delimiter\<close>

lemma word_of_nat_64: "n < 2 ^ 64 \<Longrightarrow> unat (word_of_nat n :: u64) = n"
  by (simp add: unat_of_nat take_bit_nat_eq_self)

text \<open>Moving the ring into the buffer: append a region of its size, pop into it.\<close>

definition drain_ring :: "allocator \<Rightarrow> (buffer \<times> 's bsock, unit) ws" where
  "drain_ring A s =
     ws_try (on_fst (ws_total (buffer_append_n A (word_of_nat (cb_size (bs_ring (snd s)))))))
       (\<lambda>(off, len). ws_try (on_snd (on_ring (cb_pop len)))
         (\<lambda>xs. on_fst (ws_total (buffer_fill off xs)))) s"

lemma ws_try_assoc: "ws_try (ws_try m k) l s = ws_try m (\<lambda>v. ws_try (k v) l) s"
  by (auto simp: ws_try_def split: option.splits prod.splits ws_result.splits)

lemma read_until_step_drain:
  "read_until_step T A delim to off s =
     ws_try (on_snd (fill_read_buffer T (cb_capacity (bs_ring (snd s))) to))
       (\<lambda>_. ws_try (drain_ring A) (\<lambda>_. read_until_search A delim off)) s"
  unfolding read_until_step_def drain_ring_def
  by (simp add: ws_try_def split: option.splits ws_result.splits prod.splits)

lemma drain_ring_outcome:
  assumes b: "buffer_inv b" and r: "cb_inv (bs_ring s)" and ne: "cb_size (bs_ring s) \<noteq> 0"
    and small: "length (buffer_data b) + cb_size (bs_ring s) < 2 ^ 64"
    and run: "drain_ring A (b, s) = Some (res, (b', s'))"
  shows "case res of
      Ok u \<Rightarrow> buffer_inv b' \<and> buffer_data b' = buffer_data b @ cb_content (bs_ring s) \<and>
        cb_inv (bs_ring s') \<and> cb_content (bs_ring s') = [] \<and> \<not> cb_full (bs_ring s') \<and>
        cb_capacity (bs_ring s') = cb_capacity (bs_ring s) \<and> bs_socket s' = bs_socket s
    | Err e \<Rightarrow> b' = b \<and> s' = s
    | Abort \<Rightarrow> False"
proof -
  let ?n = "cb_size (bs_ring s)"
  have n: "unat (word_of_nat ?n :: u64) = ?n" using small by (intro word_of_nat_64) linarith
  from run show ?thesis unfolding drain_ring_def
  proof (cases rule: ws_try_cases)
    case (ok sp st)
    then obtain b1 where a: "buffer_append_n A (word_of_nat ?n) b = (Ok sp, b1)" and st: "st = (b1, s)"
      by (auto simp: on_fst_Some)
    obtain off len where sp: "sp = (off, len)" by fastforce
    have len: "len = ?n" using buf.append_ok [OF b _ a] n small sp by simp
    from cb_pop_not_full [OF r _ order_refl] ne obtain c where
      c: "cb_pop ?n (bs_ring s) = (Ok (cb_content (bs_ring s)), c)" "cb_inv c" "\<not> cb_full c"
        "cb_content c = []" "cb_capacity c = cb_capacity (bs_ring s)"
      by auto
    from buf.append_fill [OF b _ a [unfolded sp], of "cb_content (bs_ring s)"] n small len obtain b2 where
      f: "buffer_fill off (cb_content (bs_ring s)) b1 = (Ok (), b2)" "buffer_inv b2"
        "buffer_data b2 = buffer_data b @ cb_content (bs_ring s)" by auto
    from ok(2) have "res = Ok ()" "b' = b2" "s' = s\<lparr>bs_ring := c\<rparr>"
      using c(1) f(1) by (simp_all add: sp st len ws_try_def on_fst_def on_snd_def on_ring_def on_part_def)
    with c f show ?thesis by simp
  next
    case (err e)
    then have "buffer_append_n A (word_of_nat ?n) b = (Err e, b')" "s' = s" by (auto simp: on_fst_Some)
    with buf.append_err [OF b this(1)] err(2) show ?thesis by simp
  next
    case abort
    then show ?thesis
      using buffer_append_n_no_abort [of A "word_of_nat ?n" b] by (auto simp: on_fst_Some)
  qed
qed

lemma read_until_search_outcome:
  assumes b: "buffer_inv b" and r: "cb_inv (bs_ring s)" "cb_content (bs_ring s) = []"
    and delim: "delim \<noteq> []" and no: "find_sub delim (take off (buffer_data b)) = None"
    and off: "off \<le> length (buffer_data b)"
    and run: "read_until_search A delim off (b, s) = Some (res, (b', s'))"
  shows "bs_socket s' = bs_socket s \<and> (case res of
      Ok True \<Rightarrow> \<exists>i. find_sub delim (buffer_data b) = Some i \<and> buffer_inv b' \<and>
        buffer_data b' = take i (buffer_data b) \<and> cb_inv (bs_ring s') \<and>
        cb_content (bs_ring s') = drop i (buffer_data b) \<and>
        cb_capacity (bs_ring s') = cb_capacity (bs_ring s)
    | Ok False \<Rightarrow> find_sub delim (buffer_data b) = None \<and> b' = b \<and> s' = s
    | Err e \<Rightarrow> cb_inv (bs_ring s') \<and> cb_capacity (bs_ring s') = cb_capacity (bs_ring s)
    | Abort \<Rightarrow> cb_capacity (bs_ring s) < length (buffer_data b) \<and> s' = s)"
proof -
  let ?d = "buffer_data b" and ?k = "off - min off (length delim - 1)"
  have "find_sub delim (take off ?d @ drop off ?d) =
      map_option ((+) ?k) (find_sub delim (drop ?k (take off ?d @ drop off ?d)))"
    by (rule find_sub_restart [OF no]) (use off in simp)
  then have find: "find_sub delim ?d = map_option ((+) ?k) (find_sub delim (drop ?k ?d))"
    by (simp only: append_take_drop_id)
  show ?thesis
  proof (cases "find_sub delim (drop ?k ?d)")
    case None
    with run have "res = Ok False" "b' = b" "s' = s" by (auto simp: read_until_search_def Let_def)
    with None find show ?thesis by simp
  next
    case (Some j)
    define i where "i = ?k + j"
    have i: "find_sub delim ?d = Some i" using Some find by (simp add: i_def)
    have fits: "i + length delim \<le> length ?d" by (rule find_sub_fits [OF i])
    have ne: "drop i ?d \<noteq> []" using fits delim by (cases delim) auto
    have le: "i \<le> unat (buf_used b)" using fits b by simp
    moreover have "unat (buf_used b) < 2 ^ 64"
      using unsigned_less [where 'a = nat, of "buf_used b"] by simp
    ultimately have i64: "unat (word_of_nat i :: u64) = i"
      by (intro word_of_nat_64) linarith
    have av: "cb_available (bs_ring s) = cb_capacity (bs_ring s)"
      using r(2) length_content [of "bs_ring s"] by (simp add: cb_available_def)
    have run': "ws_try (on_snd (on_ring (cb_push (drop i ?d))))
        (\<lambda>_. ws_try (on_fst (ws_total (buffer_resize A (word_of_nat i)))) (\<lambda>_ s. Some (Ok True, s))) (b, s) =
      Some (res, (b', s'))"
      using run Some by (simp add: read_until_search_def i_def Let_def)
    show ?thesis
    proof (cases "length (drop i ?d) \<le> cb_available (bs_ring s)")
      case True
      from cb_push_content [OF r(1) ne True] obtain c where
        c: "cb_push (drop i ?d) (bs_ring s) = (Ok (), c)" "cb_inv c" "cb_content c = drop i ?d"
          "cb_capacity c = cb_capacity (bs_ring s)" using r(2) by auto
      have p: "on_snd (on_ring (cb_push (drop i ?d))) (b, s) = Some (Ok (), (b, s\<lparr>bs_ring := c\<rparr>))"
        using c(1) by (simp add: on_snd_Some on_ring_Some)
      from run' [unfolded ws_try_simps(1) [of "on_snd _", OF p]]
      show ?thesis
      proof (cases rule: ws_try_cases)
        case (ok u st)
        then obtain b1 where b1: "buffer_resize A (word_of_nat i) b = (Ok u, b1)"
          and st: "res = Ok True" "b' = b1" "s' = s\<lparr>bs_ring := c\<rparr>" by (auto simp: on_fst_Some)
        from buffer_resize_Ok [OF b _ b1] le have "buffer_inv b1" "buffer_data b1 = take i ?d"
          by (simp_all add: i64 word_le_nat_alt)
        with c i st show ?thesis by simp
      next
        case (err e)
        with c show ?thesis by (auto simp: on_fst_Some)
      next
        case abort
        then have "fst (buffer_resize A (word_of_nat i) b) = Abort" by (auto simp: on_fst_Some)
        then show ?thesis using internal_reserve_no_abort [of A "word_of_nat i" b]
          by (auto simp: buffer_resize_def st_try_def split: if_splits prod.splits ws_result.splits)
      qed
    next
      case False
      then have p: "on_snd (on_ring (cb_push (drop i ?d))) (b, s) = Some (Abort, (b, s))"
        using cb_push_overflow [OF False] by (simp add: on_snd_Some on_ring_Some)
      with run' have "res = Abort" "s' = s" by (simp_all add: ws_try_simps(3) [of "on_snd _", OF p])
      with False av show ?thesis by simp
    qed
  qed
qed


context stream_socket
begin

lemma read_until_step_outcome:
  assumes s: "bs_inv inv s" and b: "buffer_inv b" and delim: "delim \<noteq> []"
    and off: "off \<le> length (buffer_data b)" and no: "find_sub delim (take off (buffer_data b)) = None"
    and off': "off = length (buffer_data b) \<or> off = 0"
    and small: "length (buffer_data b) + length (bs_stream pend s) < 2 ^ 64"
    and run: "read_until_step T A delim to off (b, s) = Some (r, (b', s'))"
  shows "bs_inv inv s' \<and> bs_sent sent s' = bs_sent sent s \<and>
    cb_capacity (bs_ring s') = cb_capacity (bs_ring s) \<and> (case r of
      Ok True \<Rightarrow> \<exists>i. find_sub delim (buffer_data b @ bs_stream pend s) = Some i \<and> buffer_inv b' \<and>
        buffer_data b' = take i (buffer_data b @ bs_stream pend s) \<and>
        bs_stream pend s' = drop i (buffer_data b @ bs_stream pend s)
    | Ok False \<Rightarrow> \<exists>xs. xs \<noteq> [] \<and> bs_stream pend s = xs @ bs_stream pend s' \<and> buffer_inv b' \<and>
        buffer_data b' = buffer_data b @ xs \<and> find_sub delim (buffer_data b @ xs) = None
    | Err e \<Rightarrow> True
    | Abort \<Rightarrow> buffer_data b \<noteq> [])"
proof -
  let ?c = "cb_capacity (bs_ring s)"
  have c: "0 < ?c" using s cb_capacity_pos by (auto simp: bs_inv_def)
  from run [unfolded read_until_step_drain]
  show ?thesis
  proof (cases rule: ws_try_cases)
    case (ok k st)
    then obtain s1 where f: "fill_read_buffer T ?c to s = Some (Ok k, s1)" and st: "st = (b, s1)"
      by (auto simp: on_snd_Some)
    from fill_outcome [OF s c _ f] have
      s1: "bs_inv inv s1" "bs_stream pend s1 = bs_stream pend s" "bs_sent sent s1 = bs_sent sent s"
        "cb_capacity (bs_ring s1) = ?c" "0 < k" "k = min ?c (cb_size (bs_ring s1))" by auto
    let ?xs = "cb_content (bs_ring s1)"
    have len: "length ?xs \<le> length (bs_stream pend s)"
      unfolding s1(2) [symmetric] by (simp add: bs_stream_def)
    have xs: "bs_stream pend s = ?xs @ pend (bs_socket s1)"
      unfolding s1(2) [symmetric] by (simp add: bs_stream_def)
    have ne: "cb_size (bs_ring s1) \<noteq> 0" "?xs \<noteq> []" using s1(5,6) by (auto simp flip: length_content)
    have le: "length ?xs \<le> ?c" using cb_size_le [of "bs_ring s1"] s1 by (simp add: bs_inv_def)
    from ok(2) show ?thesis
    proof (cases rule: ws_try_cases)
      case (ok u st2)
      obtain b2 s2 where st2: "st2 = (b2, s2)" by fastforce
      have "cb_inv (bs_ring s1)" "length (buffer_data b) + cb_size (bs_ring s1) < 2 ^ 64"
        using s1(1) small len by (simp_all add: bs_inv_def)
      from drain_ring_outcome [OF b this(1) ne(1) this(2) ok(1) [unfolded st st2]]
      have d: "buffer_inv b2" "buffer_data b2 = buffer_data b @ ?xs" "cb_inv (bs_ring s2)"
        "cb_content (bs_ring s2) = []" "cb_capacity (bs_ring s2) = ?c" "bs_socket s2 = bs_socket s1"
        using s1 by auto
      have "find_sub delim (take off (buffer_data b2)) = None" "off \<le> length (buffer_data b2)"
        using no off d(2) by auto
      from read_until_search_outcome [OF d(1,3,4) delim this ok(2) [unfolded st2]]
      have res: "bs_socket s' = bs_socket s1" "case r of
          Ok True \<Rightarrow> \<exists>i. find_sub delim (buffer_data b @ ?xs) = Some i \<and> buffer_inv b' \<and>
            buffer_data b' = take i (buffer_data b @ ?xs) \<and> cb_inv (bs_ring s') \<and>
            cb_content (bs_ring s') = drop i (buffer_data b @ ?xs) \<and> cb_capacity (bs_ring s') = ?c
        | Ok False \<Rightarrow> find_sub delim (buffer_data b @ ?xs) = None \<and> b' = b2 \<and> s' = s2
        | Err e \<Rightarrow> cb_inv (bs_ring s') \<and> cb_capacity (bs_ring s') = ?c
        | Abort \<Rightarrow> ?c < length (buffer_data b @ ?xs) \<and> s' = s2"
        unfolding d(2,5,6) by blast+
      note i1 = s1(1) [unfolded bs_inv_def] and sent1 = s1(3) [unfolded bs_sent_def]
      consider (found) "r = Ok True" | (more) "r = Ok False" | (err) e where "r = Err e" | (abort) "r = Abort"
        by (cases r) auto
      then show ?thesis
      proof cases
        case found
        with res obtain i where i: "find_sub delim (buffer_data b @ ?xs) = Some i" "buffer_inv b'"
          "buffer_data b' = take i (buffer_data b @ ?xs)" "cb_inv (bs_ring s')"
          "cb_content (bs_ring s') = drop i (buffer_data b @ ?xs)" "cb_capacity (bs_ring s') = ?c" by auto
        have ile: "i \<le> length (buffer_data b @ ?xs)" using find_sub_Some [OF i(1)] by blast
        have "find_sub delim ((buffer_data b @ ?xs) @ pend (bs_socket s1)) = Some i"
          by (rule find_sub_append [OF i(1)])
        moreover have "take i ((buffer_data b @ ?xs) @ pend (bs_socket s1)) = take i (buffer_data b @ ?xs)"
          "drop i ((buffer_data b @ ?xs) @ pend (bs_socket s1)) =
            drop i (buffer_data b @ ?xs) @ pend (bs_socket s1)"
          using ile by (simp_all only: take_append drop_append) simp_all
        moreover have "bs_stream pend s' = drop i (buffer_data b @ ?xs) @ pend (bs_socket s1)"
          by (simp only: bs_stream_def res(1) i(5))
        ultimately have "\<exists>i. find_sub delim (buffer_data b @ bs_stream pend s) = Some i \<and> buffer_inv b' \<and>
            buffer_data b' = take i (buffer_data b @ bs_stream pend s) \<and>
            bs_stream pend s' = drop i (buffer_data b @ bs_stream pend s)"
          unfolding xs append_assoc [symmetric] i(3) using i(2) by (intro exI [of _ i]) simp
        with found i res(1) i1 sent1 show ?thesis by (simp add: bs_inv_def bs_sent_def)
      next
        case more
        with res have "s' = s2" "b' = b2" and none: "find_sub delim (buffer_data b @ ?xs) = None" by auto
        then have "\<exists>xs. xs \<noteq> [] \<and> bs_stream pend s = xs @ bs_stream pend s' \<and> buffer_inv b' \<and>
            buffer_data b' = buffer_data b @ xs \<and> find_sub delim (buffer_data b @ xs) = None"
          using d ne xs by (intro exI [of _ ?xs]) (simp add: bs_stream_def)
        with more d i1 sent1 \<open>s' = s2\<close> show ?thesis by (simp add: bs_inv_def bs_sent_def)
      next
        case err
        with res i1 sent1 show ?thesis by (simp add: bs_inv_def bs_sent_def)
      next
        case abort
        then have "buffer_data b \<noteq> []" using res(2) le by auto
        moreover have "cb_inv (bs_ring s') \<and> cb_capacity (bs_ring s') = ?c"
          using res(2) abort d by simp
        ultimately show ?thesis using abort res(1) i1 sent1 by (simp add: bs_inv_def bs_sent_def)
      qed
    next
      case (err e)
      have "cb_inv (bs_ring s1)" "length (buffer_data b) + cb_size (bs_ring s1) < 2 ^ 64"
        using s1(1) small len by (simp_all add: bs_inv_def)
      from drain_ring_outcome [OF b this(1) ne(1) this(2) err(1) [unfolded st]] s1 err(2)
      show ?thesis by simp
    next
      case abort
      have "cb_inv (bs_ring s1)" "length (buffer_data b) + cb_size (bs_ring s1) < 2 ^ 64"
        using s1(1) small len by (simp_all add: bs_inv_def)
      from drain_ring_outcome [OF b this(1) ne(1) this(2) abort(1) [unfolded st]]
      show ?thesis by simp
    qed
  next
    case (err e)
    then have "fill_read_buffer T ?c to s = Some (Err e, s')" by (auto simp: on_snd_Some)
    from fill_outcome [OF s c _ this] err(2) show ?thesis by simp
  next
    case abort
    then have "fill_read_buffer T ?c to s = Some (Abort, s')" by (auto simp: on_snd_Some)
    from fill_outcome [OF s c _ this] show ?thesis by simp
  qed
qed

end


context stream_socket
begin

lemma read_until_loop_outcome:
  assumes "bs_inv inv s" and "buffer_inv b" and delim: "delim \<noteq> []"
    and "off = length (buffer_data b) \<or> off = 0"
    and "find_sub delim (take off (buffer_data b)) = None"
    and "length (buffer_data b) + length (bs_stream pend s) < 2 ^ 64"
    and "read_until_loop T A delim to off (b, s) = Some (r, (b', s'))"
  shows "bs_inv inv s' \<and> bs_sent sent s' = bs_sent sent s \<and>
    cb_capacity (bs_ring s') = cb_capacity (bs_ring s) \<and> (case r of
      Ok u \<Rightarrow> \<exists>i. find_sub delim (buffer_data b @ bs_stream pend s) = Some i \<and> buffer_inv b' \<and>
        buffer_data b' = take i (buffer_data b @ bs_stream pend s) \<and>
        bs_stream pend s' = drop i (buffer_data b @ bs_stream pend s)
    | Err e \<Rightarrow> True
    | Abort \<Rightarrow> True)"
  using assms
proof (induction "length (bs_stream pend s)" arbitrary: s b off rule: less_induct)
  case less
  from less.prems(7) have
    "ws_try (read_until_step T A delim to off)
       (\<lambda>found s. if found then Some (Ok (), s)
                  else read_until_loop T A delim to (unat (buf_used (fst s))) s) (b, s) = Some (r, (b', s'))"
    by (subst (asm) read_until_loop.simps)
  then show ?case
  proof (cases rule: ws_try_cases)
    case (ok found st)
    obtain b1 s1 where st: "st = (b1, s1)" by fastforce
    have off: "off \<le> length (buffer_data b)" using less.prems(4) by auto
    note step = read_until_step_outcome [OF less.prems(1-3) off less.prems(5,4,6) ok(1) [unfolded st]]
    show ?thesis
    proof (cases found)
      case True
      with ok(2) st have "r = Ok ()" "b' = b1" "s' = s1" by auto
      with step True show ?thesis by simp
    next
      case False
      from step False obtain xs where xs: "xs \<noteq> []" "bs_stream pend s = xs @ bs_stream pend s1"
        "buffer_inv b1" "buffer_data b1 = buffer_data b @ xs" "find_sub delim (buffer_data b @ xs) = None"
        "bs_inv inv s1" "bs_sent sent s1 = bs_sent sent s"
        "cb_capacity (bs_ring s1) = cb_capacity (bs_ring s)" by auto
      have run: "read_until_loop T A delim to (unat (buf_used b1)) (b1, s1) = Some (r, (b', s'))"
        using ok(2) False st by simp
      have l: "unat (buf_used b1) = length (buffer_data b1)" using xs(3) by simp
      have "length (bs_stream pend s1) < length (bs_stream pend s)" using xs(1,2) by simp
      from less.hyps [OF this xs(6,3) delim _ _ _ run] less.prems(6) xs l
      have IH: "bs_inv inv s' \<and> bs_sent sent s' = bs_sent sent s1 \<and>
        cb_capacity (bs_ring s') = cb_capacity (bs_ring s1) \<and> (case r of
          Ok u \<Rightarrow> \<exists>i. find_sub delim (buffer_data b1 @ bs_stream pend s1) = Some i \<and> buffer_inv b' \<and>
            buffer_data b' = take i (buffer_data b1 @ bs_stream pend s1) \<and>
            bs_stream pend s' = drop i (buffer_data b1 @ bs_stream pend s1)
        | Err e \<Rightarrow> True
        | Abort \<Rightarrow> True)"
        by simp
      have eq: "buffer_data b1 @ bs_stream pend s1 = buffer_data b @ bs_stream pend s"
        using xs(2,4) by simp
      from IH show ?thesis unfolding eq xs(7,8) .
    qed
  next
    case (err e)
    have off: "off \<le> length (buffer_data b)" using less.prems(4) by auto
    from read_until_step_outcome [OF less.prems(1-3) off less.prems(5,4,6) err(1)] err(2)
    show ?thesis by simp
  next
    case abort
    have off: "off \<le> length (buffer_data b)" using less.prems(4) by auto
    from read_until_step_outcome [OF less.prems(1-3) off less.prems(5,4,6) abort(1)] abort(2)
    show ?thesis by simp
  qed
qed

lemma find_sub_Nil: "pat \<noteq> [] \<Longrightarrow> find_sub pat [] = None"
  by simp

lemmas read_until_outcome =
  read_until_loop_outcome [where off = 0, OF _ _ _ disjI2 [OF refl], unfolded take_0 find_sub.simps(1)]

text \<open>What a write leaves behind: the stream untouched, the written bytes sent.\<close>

definition sends :: "byte list \<Rightarrow> 's bsock \<Rightarrow> 's bsock \<Rightarrow> bool" where
  "sends xs s s' \<longleftrightarrow> bs_ring s' = bs_ring s \<and> inv (bs_socket s') \<and>
     pend (bs_socket s') = pend (bs_socket s) \<and> bs_sent sent s' = bs_sent sent s @ xs"

lemma sends_trans: "sends xs s s1 \<Longrightarrow> sends ys s1 s2 \<Longrightarrow> sends (xs @ ys) s s2"
  by (auto simp: sends_def)

lemma sends_ready: "sends xs s s' \<Longrightarrow> bs_ready inv s \<Longrightarrow>
    bs_ready inv s' \<and> bs_stream pend s' = bs_stream pend s"
  by (simp add: sends_def bs_defs)

lemma bs_write_loop_outcome:
  assumes "inv (bs_socket s)" and "w + d = length data"
    and "bs_write_loop T data to w d s = Some (r, s')"
  shows "case r of
      Ok u \<Rightarrow> sends (drop w data) s s'
    | Err e \<Rightarrow> (\<exists>k \<le> d. sends (take k (drop w data)) s s')
    | Abort \<Rightarrow> False"
  using assms
proof (induction d arbitrary: w s rule: less_induct)
  case (less d)
  show ?case
  proof (cases "d = 0")
    case True
    with less.prems show ?thesis
      by (subst (asm) bs_write_loop.simps) (auto simp: sends_def)
  next
    case False
    then have ne: "drop w data \<noteq> []" using less.prems(2) by auto
    from False less.prems(3) have "ws_try (bs_write_some T (drop w data) to)
        (\<lambda>k. bs_write_loop T data to (w + k) (d - k)) s = Some (r, s')"
      by (subst (asm) bs_write_loop.simps) simp
    then show ?thesis
    proof (cases rule: ws_try_cases)
      case (ok k s1)
      then obtain a where a: "tr_write_some T (drop w data) to (bs_socket s) = Some (Ok k, a)"
        and s1: "s1 = s\<lparr>bs_socket := a\<rparr>" by (auto simp: bs_write_some_def on_socket_Some)
      from write_ok [OF less.prems(1) ne a] less.prems(2)
      have k: "0 < k" "k \<le> d" and s1': "inv (bs_socket s1)" "sends (take k (drop w data)) s s1"
        by (auto simp: s1 sends_def bs_sent_def)
      have "d - k < d" "w + k + (d - k) = length data" using k less.prems(2) by simp_all
      from less.IH [OF this(1) s1'(1) this(2) ok(2)]
      have IH: "case r of
          Ok u \<Rightarrow> sends (drop (w + k) data) s1 s'
        | Err e \<Rightarrow> (\<exists>j \<le> d - k. sends (take j (drop (w + k) data)) s1 s')
        | Abort \<Rightarrow> False" .
      have split: "take (k + j) (drop w data) = take k (drop w data) @ take j (drop (w + k) data)" for j
        by (metis add.commute drop_drop take_add)
      show ?thesis
      proof (cases r)
        case (Ok u)
        with IH sends_trans [OF s1'(2), of "drop (w + k) data" s']
        have "sends (take k (drop w data) @ drop (w + k) data) s s'" by simp
        moreover have "take k (drop w data) @ drop (w + k) data = drop w data"
          by (metis append_take_drop_id drop_drop add.commute)
        ultimately show ?thesis using Ok by simp
      next
        case (Err e)
        with IH obtain j where j: "j \<le> d - k" "sends (take j (drop (w + k) data)) s1 s'" by auto
        with sends_trans [OF s1'(2) j(2)] k Err show ?thesis
          by (auto intro!: exI [of _ "k + j"] simp: split)
      next
        case Abort
        with IH show ?thesis by simp
      qed
    next
      case (err e)
      then obtain a where a: "tr_write_some T (drop w data) to (bs_socket s) = Some (Err e, a)"
        and s': "s' = s\<lparr>bs_socket := a\<rparr>" by (auto simp: bs_write_some_def on_socket_Some)
      from write_err [OF less.prems(1) ne a] obtain k where
        "k \<le> length (drop w data)" "inv a" "pend a = pend (bs_socket s)" "sent a = sent (bs_socket s) @ take k (drop w data)"
        by auto
      with less.prems(2) err(2) show ?thesis
        by (auto simp: s' sends_def bs_sent_def intro!: exI [of _ k])
    next
      case abort
      with write_no_abort [OF less.prems(1) ne] show ?thesis
        by (auto simp: bs_write_some_def on_socket_Some)
    qed
  qed
qed

lemma bs_write_outcome:
  assumes "inv (bs_socket s)" and "bs_write T data to s = Some (r, s')"
  shows "case r of
      Ok u \<Rightarrow> sends data s s'
    | Err e \<Rightarrow> (\<exists>k \<le> length data. sends (take k data) s s')
    | Abort \<Rightarrow> False"
  using bs_write_loop_outcome [of s 0 "length data" data, unfolded drop_0] assms
  by (simp only: bs_write_def add_0)

end

context delivering_socket
begin

lemma fill_live_pend:
  assumes inv: "bs_ready inv s" and d: "0 < d"
  shows "\<exists>r s'. fill_read_buffer T d to s = Some (r, s') \<and>
    (d \<le> length (bs_stream pend s) \<or> pend (bs_socket s) \<noteq> [] \<longrightarrow> (\<exists>k. r = Ok k))"
proof (cases "cb_size (bs_ring s) \<ge> d")
  case True
  with d show ?thesis by (simp add: fill_read_buffer_def)
next
  case False
  obtain off n where span: "cb_available_span (bs_ring s) = (off, n)" by fastforce
  have i: "inv (bs_socket s)" "cb_inv (bs_ring s)" and n: "0 < n"
    using inv cb_available_span_fits [OF _ span] by (auto simp: bs_ready_def bs_inv_def)
  show ?thesis
  proof (cases "pend (bs_socket s) = []")
    case True
    from read_end [OF i(1) n True, of to] obtain e k where
      "tr_read_some T n to (bs_socket s) = Some (Err e, k)" by blast
    then have "on_socket (tr_read_some T n to) s = Some (Err e, s\<lparr>bs_socket := k\<rparr>)"
      by (simp add: on_socket_Some)
    moreover have "\<not> d \<le> length (bs_stream pend s)" using True False by (simp add: bs_stream_def)
    ultimately show ?thesis using True False d
      by (simp add: fill_read_buffer_def span ws_try_simps(2) [of "on_socket _"])
  next
    case False': False
    from read_live [OF i(1) n False', of to] obtain xs k where
      k: "tr_read_some T n to (bs_socket s) = Some (Ok xs, k)" by blast
    note r = read_ok [OF i(1) n k]
    from cb_store_move_head [OF i(2) span, of xs] r obtain b where
      "cb_move_head (length xs) (cb_store off xs (bs_ring s)) = (Ok (), b)" by auto
    then have b: "on_ring (\<lambda>r. cb_move_head (length xs) (cb_store off xs r)) (s\<lparr>bs_socket := k\<rparr>) =
        Some (Ok (), s\<lparr>bs_socket := k, bs_ring := b\<rparr>)"
      by (simp add: on_ring_Some)
    have "on_socket (tr_read_some T n to) s = Some (Ok xs, s\<lparr>bs_socket := k\<rparr>)"
      using k by (simp add: on_socket_Some)
    with b False d show ?thesis
      by (simp add: fill_read_buffer_def span ws_try_simps(1) [of "on_socket _"]
          ws_try_simps(1) [of "on_ring _"])
  qed
qed

lemma fill_live:
  assumes "bs_ready inv s" and "0 < d"
  shows "\<exists>r s'. fill_read_buffer T d to s = Some (r, s') \<and>
    (d \<le> length (bs_stream pend s) \<longrightarrow> (\<exists>k. r = Ok k))"
  using fill_live_pend [OF assms] by blast

lemma read_exact_step_live:
  assumes inv: "bs_ready inv s" and d: "0 < d"
  shows "\<exists>r s'. read_exact_step T to w d (dest, s) = Some (r, s') \<and>
    (d \<le> length (bs_stream pend s) \<longrightarrow> (\<exists>k. r = Ok k))"
proof -
  from fill_live [OF inv d, of to] obtain r s1 where
    f: "fill_read_buffer T d to s = Some (r, s1)"
      "d \<le> length (bs_stream pend s) \<longrightarrow> (\<exists>k. r = Ok k)" by blast
  then have f': "on_snd (fill_read_buffer T d to) (dest, s) = Some (r, (dest, s1))"
    by (simp add: on_snd_Some)
  from fill_outcome [OF _ d _ f(1)] inv
  have o: "bs_inv inv s1" "case r of
       Ok k \<Rightarrow> 0 < k \<and> k = min d (cb_size (bs_ring s1)) | Err e \<Rightarrow> True | Abort \<Rightarrow> False"
    by (auto simp: bs_ready_def split: ws_result.splits)
  show ?thesis
  proof (cases r)
    case (Ok k)
    with o cb_pop_not_full [of "bs_ring s1" k] obtain xs b where
      "cb_pop k (bs_ring s1) = (Ok xs, b)" by (auto simp: bs_inv_def)
    then have "on_snd (on_ring (cb_pop k)) (dest, s1) = Some (Ok xs, (dest, s1\<lparr>bs_ring := b\<rparr>))"
      by (simp add: on_snd_Some on_ring_Some)
    with f' Ok show ?thesis
      by (simp add: read_exact_step_def ws_try_simps(1) [of "on_snd _"])
  next
    case (Err e)
    with f f' show ?thesis by (auto simp: read_exact_step_def ws_try_simps(2) [of "on_snd _"])
  next
    case Abort
    with o show ?thesis by simp
  qed
qed

lemma read_exact_loop_live:
  assumes "bs_ready inv s" and "w + d \<le> length dest"
  shows "\<exists>r s'. read_exact_loop T to w d (dest, s) = Some (r, s') \<and>
    (d \<le> length (bs_stream pend s) \<longrightarrow> (\<exists>n. r = Ok n))"
  using assms
proof (induction d arbitrary: w dest s rule: less_induct)
  case (less d)
  show ?case
  proof (cases "d = 0")
    case True
    then show ?thesis by (subst read_exact_loop.simps) simp
  next
    case False
    then have d: "0 < d" by simp
    from read_exact_step_live [OF less.prems(1) d, of to w dest] obtain r st1 where
      st: "read_exact_step T to w d (dest, s) = Some (r, st1)"
        "d \<le> length (bs_stream pend s) \<longrightarrow> (\<exists>k. r = Ok k)" by blast
    obtain dest1 s1 where st1: "st1 = (dest1, s1)" by fastforce
    note out = read_exact_step_outcome [OF less.prems(1) d less.prems(2) st(1) [unfolded st1]]
    have unf: "read_exact_loop T to w d (dest, s) = ws_try (read_exact_step T to w d)
        (\<lambda>k. read_exact_loop T to (w + k) (d - k)) (dest, s)"
      using d by (subst read_exact_loop.simps) simp
    show ?thesis
    proof (cases r)
      case (Ok k)
      with out obtain xs where k: "0 < k" "k \<le> d" "length xs = k" "consumes xs s s1"
        "dest1 = blit w xs dest" by auto
      have "d - k < d" "bs_ready inv s1" "w + k + (d - k) \<le> length dest1"
        using k less.prems(2) by (auto simp: consumes_def)
      from less.IH [OF this] obtain r' s' where
        "read_exact_loop T to (w + k) (d - k) (dest1, s1) = Some (r', s')"
        "d - k \<le> length (bs_stream pend s1) \<longrightarrow> (\<exists>n. r' = Ok n)" by blast
      moreover have "length (bs_stream pend s) = k + length (bs_stream pend s1)"
        using k by (simp add: consumes_def)
      ultimately show ?thesis
        using st(1) Ok st1 by (simp add: unf ws_try_simps(1) [of "read_exact_step _ _ _ _"])
    next
      case (Err e)
      with st show ?thesis by (auto simp: unf ws_try_simps(2) [of "read_exact_step _ _ _ _"])
    next
      case Abort
      with out show ?thesis by simp
    qed
  qed
qed

lemma read_exact_live:
  assumes "bs_ready inv s"
  shows "\<exists>r s'. read_exact T to (dest, s) = Some (r, s') \<and>
    (length dest \<le> length (bs_stream pend s) \<longrightarrow> (\<exists>n. r = Ok n))"
  using read_exact_loop_live [OF assms, of 0 "length dest" dest to] by (simp add: read_exact_def)

text \<open>The errors are those of the transport, when the peer sends nothing more.\<close>

definition at_end :: "timeout \<Rightarrow> ws_error \<Rightarrow> bool" where
  "at_end to e \<longleftrightarrow> (\<exists>n k k'. 0 < n \<and> inv k \<and> pend k = [] \<and> tr_read_some T n to k = Some (Err e, k'))"

lemma fill_error:
  assumes inv: "bs_ready inv s" and d: "0 < d" and run: "fill_read_buffer T d to s = Some (Err e, s')"
  shows "at_end to e"
proof -
  obtain off n where span: "cb_available_span (bs_ring s) = (off, n)" by fastforce
  have i: "inv (bs_socket s)" and n: "0 < n"
    using inv cb_available_span_fits [OF _ span] by (auto simp: bs_ready_def bs_inv_def)
  have c: "\<not> cb_size (bs_ring s) \<ge> d" using d run by (auto simp: fill_read_buffer_def)
  have p: "pend (bs_socket s) = []" using fill_live_pend [OF inv d, of to] run by auto
  from read_end [OF i n this, of to] obtain e' k where k: "tr_read_some T n to (bs_socket s) = Some (Err e', k)" by blast
  then have "on_socket (tr_read_some T n to) s = Some (Err e', s\<lparr>bs_socket := k\<rparr>)" by (simp add: on_socket_Some)
  with run c d have "e' = e" by (simp add: fill_read_buffer_def span ws_try_simps(2) [of "on_socket _"])
  with i n p k show ?thesis unfolding at_end_def by blast
qed

lemma read_exact_step_error:
  assumes inv: "bs_ready inv s" and d: "0 < d" and run: "read_exact_step T to w d (dest, s) = Some (Err e, st)"
  shows "at_end to e"
proof -
  from fill_live [OF inv d, of to] obtain r s1 where f: "fill_read_buffer T d to s = Some (r, s1)" by blast
  then have f': "on_snd (fill_read_buffer T d to) (dest, s) = Some (r, (dest, s1))" by (simp add: on_snd_Some)
  from fill_outcome [OF _ d _ f] inv
  have o: "bs_inv inv s1" "case r of
       Ok k \<Rightarrow> 0 < k \<and> k = min d (cb_size (bs_ring s1)) | Err e \<Rightarrow> True | Abort \<Rightarrow> False"
    by (auto simp: bs_ready_def split: ws_result.splits)
  show ?thesis
  proof (cases r)
    case (Ok k)
    with o cb_pop_not_full [of "bs_ring s1" k] obtain xs b where
      "cb_pop k (bs_ring s1) = (Ok xs, b)" by (auto simp: bs_inv_def)
    then have "on_snd (on_ring (cb_pop k)) (dest, s1) = Some (Ok xs, (dest, s1\<lparr>bs_ring := b\<rparr>))"
      by (simp add: on_snd_Some on_ring_Some)
    with f' Ok run show ?thesis by (simp add: read_exact_step_def ws_try_simps(1) [of "on_snd _"])
  next
    case (Err e')
    with f' run have "e' = e" by (simp add: read_exact_step_def ws_try_simps(2) [of "on_snd _"])
    with fill_error [OF inv d] f Err show ?thesis by blast
  next
    case Abort
    with o show ?thesis by simp
  qed
qed

lemma read_exact_loop_error:
  assumes "bs_ready inv s" and "w + d \<le> length dest" and "read_exact_loop T to w d (dest, s) = Some (Err e, st)"
  shows "at_end to e"
  using assms
proof (induction d arbitrary: w dest s rule: less_induct)
  case (less d)
  then have d: "0 < d" by (cases d) (simp_all add: read_exact_loop.simps [of T to w 0])
  with less.prems(3) have "ws_try (read_exact_step T to w d) (\<lambda>k. read_exact_loop T to (w + k) (d - k)) (dest, s) =
      Some (Err e, st)"
    by (simp add: read_exact_loop.simps [of T to w d])
  then show ?case
  proof (cases rule: ws_try_cases)
    case (ok k st1)
    obtain dest1 s1 where st1: "st1 = (dest1, s1)" by fastforce
    from read_exact_step_outcome [OF less.prems(1) d less.prems(2) ok(1) [unfolded st1]] obtain xs where
      k: "0 < k" "k \<le> d" "length xs = k" "consumes xs s s1" "dest1 = blit w xs dest" by auto
    then have "d - k < d" "bs_ready inv s1" "w + k + (d - k) \<le> length dest1"
      using less.prems(2) by (auto simp: consumes_def)
    from less.IH [OF this] ok(2) st1 show ?thesis by simp
  next
    case (err e')
    with read_exact_step_error [OF less.prems(1) d] show ?thesis by simp
  next
    case abort
    then show ?thesis by simp
  qed
qed

lemma read_exact_error: "bs_ready inv s \<Longrightarrow> read_exact T to (dest, s) = Some (Err e, st) \<Longrightarrow> at_end to e"
  using read_exact_loop_error [of s 0 "length dest" dest to e st] by (simp add: read_exact_def)

end

context live_socket
begin

lemma bs_write_loop_live:
  assumes "inv (bs_socket s)" and "w + d = length data"
  shows "\<exists>s'. bs_write_loop T data to w d s = Some (Ok (), s')"
  using assms
proof (induction d arbitrary: w s rule: less_induct)
  case (less d)
  show ?case
  proof (cases "d = 0")
    case True
    then show ?thesis by (subst bs_write_loop.simps) simp
  next
    case False
    then have ne: "drop w data \<noteq> []" using less.prems(2) by auto
    from write_live [OF less.prems(1) ne, of to] obtain k a where
      a: "tr_write_some T (drop w data) to (bs_socket s) = Some (Ok k, a)" by blast
    from write_ok [OF less.prems(1) ne a] less.prems(2)
    have k: "0 < k" "k \<le> d" "inv a" by auto
    then have "d - k < d" "inv (bs_socket (s\<lparr>bs_socket := a\<rparr>))" "w + k + (d - k) = length data"
      using less.prems(2) by simp_all
    from less.IH [OF this] obtain s' where
      "bs_write_loop T data to (w + k) (d - k) (s\<lparr>bs_socket := a\<rparr>) = Some (Ok (), s')" by blast
    moreover have "bs_write_some T (drop w data) to s = Some (Ok k, s\<lparr>bs_socket := a\<rparr>)"
      using a by (simp add: bs_write_some_def on_socket_Some)
    ultimately show ?thesis
      using False by (subst bs_write_loop.simps) (simp add: ws_try_simps(1) [of "bs_write_some _ _ _"])
  qed
qed

lemma bs_write_live:
  assumes "inv (bs_socket s)"
  shows "\<exists>s'. bs_write T data to s = Some (Ok (), s') \<and> sends data s s'"
proof -
  from bs_write_loop_live [OF assms, of 0 "length data" data to] obtain s' where
    run: "bs_write T data to s = Some (Ok (), s')" by (auto simp: bs_write_def)
  from bs_write_outcome [OF assms this] run show ?thesis by auto
qed

end


subsection \<open>Properties\<close>

lemma bsock_new_ready:
  assumes "bsock_new junk k = Ok s" and "I k"
  shows "bs_ready I s \<and> bs_stream pend s = pend k \<and> bs_sent sent s = sent k \<and>
    cb_capacity (bs_ring s) = 4096"
proof -
  from assms(1) obtain ring where r: "cb_new junk read_buffer_size = Ok ring"
    and s: "s = \<lparr>bs_socket = k, bs_ring = ring\<rparr>"
    by (cases "cb_new junk read_buffer_size") (auto simp: bsock_new_def)
  note n = cb_new_content [OF r]
  then have "cb_size ring = 0" by (metis length_content list.size(3))
  with n have "\<not> cb_full ring" using cb_size_full [of ring] by (simp add: read_buffer_size_def)
  with n assms(2) s show ?thesis by (simp add: bs_defs read_buffer_size_def)
qed

lemma bsock_new_Ok: "\<exists>s. bsock_new junk k = Ok s"
proof -
  have "(4096 :: nat) AND (4096 - 1) = 0" using nat_and_pow2_mask [of 4096 12] by simp
  then show ?thesis by (simp add: bsock_new_def cb_new_def read_buffer_size_def)
qed

text \<open>
  C21: \<open>read_exact\<close> delivers the next bytes of the stream, in order, without loss or duplication and
  whatever the chunks are in which the transport delivers: on success the destination is full of
  exactly these bytes and the rest stays available; on an error the part received so far is stored,
  the rest of the destination and of the stream is untouched. No assertion of the ring ever fails.
\<close>

theorem read_exact_delivers_stream:
  assumes "stream_socket T I pend sent" and "bs_ready I s"
    and "read_exact T to (dest, s) = Some (r, dest', s')"
  shows "bs_ready I s' \<and> bs_sent sent s' = bs_sent sent s \<and> (case r of
      Ok n \<Rightarrow> n = length dest \<and> length dest' = length dest \<and>
        bs_stream pend s = dest' @ bs_stream pend s'
    | Err e \<Rightarrow> \<exists>xs. length xs < length dest \<and> dest' = xs @ drop (length xs) dest \<and>
        bs_stream pend s = xs @ bs_stream pend s'
    | Abort \<Rightarrow> False)"
  using stream_socket.read_exact_outcome [OF assms(1,2,3)]
  by (cases r) (auto simp: stream_socket.consumes_def [OF assms(1)] blit_def)

theorem read_exact_delivers_stream_witness:
  "\<exists>s r s'. bsock_new (\<lambda>_. 0) \<lparr>sc_in = [1, 2, 3, 4], sc_out = [], sc_chunks = [2, 2], sc_closed = False\<rparr> = Ok s \<and>
     read_exact script_socket \<lparr>to_start = 0, to_timeout = 9\<rparr> ([0, 0, 0], s) = Some (r, [1, 2, 3], s') \<and>
     bs_stream sc_in s' = [4]"
proof -
  let ?k = "\<lparr>sc_in = [1, 2, 3, 4], sc_out = [], sc_chunks = [2, 2], sc_closed = False\<rparr>"
    and ?to = "\<lparr>to_start = 0, to_timeout = 9\<rparr>"
  obtain s where new: "bsock_new (\<lambda>_. 0) ?k = Ok s" using bsock_new_Ok [of "\<lambda>_. 0" ?k] by blast
  note s = bsock_new_ready [OF new, of "\<lambda>_. True" sc_in sc_out, OF TrueI]
  from script.read_exact_live [OF conjunct1 [OF s], of ?to "[0, 0, 0]"] s obtain n dest' s' where
    run: "read_exact script_socket ?to ([0, 0, 0], s) = Some (Ok n, dest', s')" by auto
  from read_exact_delivers_stream [OF script.stream_socket_axioms conjunct1 [OF s] run] s
  have "length dest' = 3" "[1, 2, 3, 4] = dest' @ bs_stream sc_in s'" by auto
  then have "dest' = [1, 2, 3]" "bs_stream sc_in s' = [4]"
    by (auto simp: length_Suc_conv numeral_3_eq_3)
  with new run show ?thesis by blast
qed

text \<open>
  C22: On a live socket \<open>read_exact\<close> always returns: it has filled the span when the peer sends enough
  bytes, and otherwise fails with the error with which the transport reported that the peer sends no
  more. The loop makes progress in every round.
\<close>

theorem read_exact_returns:
  assumes "delivering_socket T I pend sent" and "bs_ready I s"
  shows "\<exists>r dest' s'. read_exact T to (dest, s) = Some (r, dest', s') \<and>
    (if length dest \<le> length (bs_stream pend s) then r = Ok (length dest)
     else \<exists>e n k k'. r = Err e \<and> 0 < n \<and> I k \<and> pend k = [] \<and> tr_read_some T n to k = Some (Err e, k'))"
proof -
  have ss: "stream_socket T I pend sent" using assms(1) by (simp add: delivering_socket_def)
  from delivering_socket.read_exact_live [OF assms, of to dest] obtain r st where
    run: "read_exact T to (dest, s) = Some (r, st)"
      "length dest \<le> length (bs_stream pend s) \<longrightarrow> (\<exists>n. r = Ok n)" by blast
  obtain dest' s' where st: "st = (dest', s')" by fastforce
  note o = stream_socket.read_exact_outcome [OF ss assms(2) run(1) [unfolded st]]
  note e = delivering_socket.read_exact_error [OF assms, of to dest _ st, unfolded delivering_socket.at_end_def [OF assms(1)]]
  show ?thesis
  proof (cases r)
    case (Ok n)
    with o have "n = length dest" "length dest \<le> length (bs_stream pend s)"
      by (auto simp: stream_socket.consumes_def [OF ss])
    with run(1) st Ok show ?thesis by auto
  next
    case (Err x)
    with run e have "\<exists>n k k'. 0 < n \<and> I k \<and> pend k = [] \<and> tr_read_some T n to k = Some (Err x, k')" by blast
    with run st Err show ?thesis by auto
  next
    case Abort
    with o show ?thesis by simp
  qed
qed

theorem read_exact_returns_witness:
  "\<exists>s r s'. bsock_new (\<lambda>_. 0) \<lparr>sc_in = [1], sc_out = [], sc_chunks = [], sc_closed = False\<rparr> = Ok s \<and>
     (\<exists>dest'. read_exact script_socket \<lparr>to_start = 0, to_timeout = 9\<rparr> ([0, 0], s) = Some (r, dest', s')) \<and>
     (\<nexists>n. r = Ok n)"
proof -
  let ?k = "\<lparr>sc_in = [1], sc_out = [], sc_chunks = [], sc_closed = False\<rparr>"
  obtain s where new: "bsock_new (\<lambda>_. 0) ?k = Ok s" using bsock_new_Ok [of "\<lambda>_. 0" ?k] by blast
  note s = bsock_new_ready [OF new, of "\<lambda>_. True" sc_in sc_out, OF TrueI]
  from read_exact_returns [OF script.delivering_socket_axioms conjunct1 [OF s], of "\<lparr>to_start = 0, to_timeout = 9\<rparr>" "[0, 0]"]
    new s show ?thesis by fastforce
qed

text \<open>
  C23: A call of \<open>read_until\<close> that succeeds has split the stream at the first delimiter, also when the
  delimiter came in pieces: the buffer has got everything before it, and the stream goes on with the
  delimiter itself, so that the bytes behind the delimiter that were already received (the first
  frames of a fast server) are not lost. (It need not succeed: besides errors of the transport and of the
  buffer, it ends in a failed assertion when the delimiter came in pieces and what has to go back
  into the ring does not fit there any more.)
\<close>

theorem read_until_splits_stream:
  assumes "stream_socket T I pend sent" and "bs_inv I s" and "buffer_inv b" and "buffer_data b = []"
    and "delim \<noteq> []" and "length (bs_stream pend s) < 2 ^ 64"
    and "read_until T A delim to (b, s) = Some (Ok (), b', s')"
  shows "\<exists>i. find_sub delim (bs_stream pend s) = Some i \<and> buffer_data b' = take i (bs_stream pend s) \<and>
    bs_stream pend s' = drop i (bs_stream pend s) \<and> take (length delim) (bs_stream pend s') = delim \<and>
    bs_inv I s' \<and> bs_sent sent s' = bs_sent sent s"
proof -
  have "read_until_loop T A delim to 0 (b, s) = Some (Ok (), (b', s'))"
    using assms(7) by (simp add: read_until_def)
  from stream_socket.read_until_outcome [OF assms(1,2,3,5) _ _ this] assms(4-6)
  obtain i where "find_sub delim (bs_stream pend s) = Some i" "buffer_data b' = take i (bs_stream pend s)"
    "bs_stream pend s' = drop i (bs_stream pend s)" "bs_inv I s'" "bs_sent sent s' = bs_sent sent s"
    by auto
  with find_sub_Some [OF this(1)] show ?thesis by auto
qed

theorem read_until_splits_stream_witness:
  "\<exists>r. read_until script_socket (\<lambda>_. Some (0, \<lambda>_. 0)) [13, 10] \<lparr>to_start = 0, to_timeout = 9\<rparr>
      (\<lparr>buf_max_size = 9, buf_capacity = 0, buf_used = 0, buf_mem = None\<rparr>,
       \<lparr>bs_socket = \<lparr>sc_in = [65, 13, 10, 66], sc_out = [], sc_chunks = [2, 2], sc_closed = False\<rparr>,
        bs_ring = \<lparr>cb_cells = [0, 0, 0, 0], cb_head = 0, cb_tail = 0, cb_full = False, cb_capacity = 4\<rparr>\<rparr>) =
      Some (Ok (), r) \<and>
    buffer_data (fst r) = [65] \<and> bs_stream sc_in (snd r) = [13, 10, 66]"
proof -
  let ?A = "\<lambda>_. Some (0, \<lambda>_. 0)" and ?d = "[13, 10]" and ?to = "\<lparr>to_start = 0, to_timeout = 9\<rparr>"
    and ?b = "\<lparr>buf_max_size = 9, buf_capacity = 0, buf_used = 0, buf_mem = None\<rparr>"
    and ?s = "\<lparr>bs_socket = \<lparr>sc_in = [65, 13, 10, 66], sc_out = [], sc_chunks = [2, 2], sc_closed = False\<rparr>,
        bs_ring = \<lparr>cb_cells = [0, 0, 0, 0], cb_head = 0, cb_tail = 0, cb_full = False, cb_capacity = 4\<rparr>\<rparr>"
  have "ws_holds (read_until_step script_socket ?A ?d ?to 0 (?b, ?s)) (\<lambda>f st. f = False \<and>
      buf_used (fst st) = 2 \<and>
      ws_holds (read_until_step script_socket ?A ?d ?to 2 st) (\<lambda>f r. f = True))"
    by code_simp
  then obtain b1 s1 r where s1: "read_until_step script_socket ?A ?d ?to 0 (?b, ?s) = Some (Ok False, (b1, s1))"
    "read_until_step script_socket ?A ?d ?to 2 (b1, s1) = Some (Ok True, r)" "buf_used b1 = 2"
    by (auto simp: ws_holds_iff)
  have run: "read_until script_socket ?A ?d ?to (?b, ?s) = Some (Ok (), fst r, snd r)"
    unfolding read_until_def
    apply (subst read_until_loop.simps)
    apply (subst ws_try_simps(1) [of "read_until_step _ _ _ _ _", OF s1(1)])
    apply (simp add: s1(3))
    apply (subst read_until_loop.simps)
    by (simp add: ws_try_simps(1) [of "read_until_step _ _ _ _ _", OF s1(2)])
  have "is_pow2 4" unfolding is_pow2_def by (rule exI [of _ 2]) simp
  then have "bs_inv (\<lambda>_. True) ?s" by (simp add: bs_inv_def cb_inv_def)
  moreover have st: "bs_stream sc_in ?s = [65, 13, 10, 66]"
    by (simp add: bs_stream_def cb_content_def cb_size_def)
  moreover have "buffer_inv ?b" "buffer_data ?b = []" by (simp_all add: buffer_inv_def buffer_data_def)
  ultimately have "\<exists>i. find_sub ?d [65, 13, 10, 66 :: byte] = Some i \<and>
      buffer_data (fst r) = take i [65, 13, 10, 66] \<and>
      bs_stream sc_in (snd r) = drop i [65, 13, 10, 66]"
    using read_until_splits_stream [OF script.stream_socket_axioms, of ?s ?b ?d ?A ?to "fst r" "snd r"] run
    by auto
  moreover have "find_sub ?d [65, 13, 10, 66 :: byte] = Some 1" by simp
  ultimately show ?thesis using run by (intro exI [of _ r]) auto
qed

text \<open>
  C20: \<open>write\<close> on a live socket returns, and the transport has then accepted exactly the given bytes,
  in order, whatever pieces it accepted them in. What has been received is not touched.
\<close>

theorem write_sends_all:
  assumes "live_socket T I pend sent" and "bs_ready I s"
  shows "\<exists>s'. bs_write T data to s = Some (Ok (), s') \<and> bs_ready I s' \<and>
    bs_sent sent s' = bs_sent sent s @ data \<and> bs_stream pend s' = bs_stream pend s"
proof -
  have ss: "stream_socket T I pend sent" using assms(1) by (simp add: live_socket_def delivering_socket_def)
  from live_socket.bs_write_live [OF assms(1), of s data to] assms(2) obtain s' where
    s': "bs_write T data to s = Some (Ok (), s')" "stream_socket.sends I pend sent data s s'"
    by (auto simp: bs_ready_def bs_inv_def)
  with stream_socket.sends_ready [OF ss s'(2) assms(2)] show ?thesis
    by (auto simp: stream_socket.sends_def [OF ss])
qed

theorem write_sends_all_witness:
  "\<exists>s s'. bsock_new (\<lambda>_. 0) \<lparr>sc_in = [], sc_out = [], sc_chunks = [2, 1], sc_closed = False\<rparr> = Ok s \<and>
     bs_write script_socket [1, 2, 3, 4] \<lparr>to_start = 0, to_timeout = 9\<rparr> s = Some (Ok (), s') \<and>
     sc_out (bs_socket s') = [1, 2, 3, 4]"
proof -
  let ?k = "\<lparr>sc_in = [], sc_out = [], sc_chunks = [2, 1], sc_closed = False\<rparr>"
  obtain s where new: "bsock_new (\<lambda>_. 0) ?k = Ok s" using bsock_new_Ok [of "\<lambda>_. 0" ?k] by blast
  note s = bsock_new_ready [OF new, of "\<lambda>_. True" sc_in sc_out, OF TrueI]
  from write_sends_all [OF script.live_socket_axioms conjunct1 [OF s],
      of "[1, 2, 3, 4]" "\<lparr>to_start = 0, to_timeout = 9\<rparr>"] new s
  show ?thesis by (auto simp: bs_sent_def)
qed

end
