(* ===== verification/Strings.thy ===== *)
theory Strings
  imports Prelude
begin

section \<open>String helpers (utils/string.hpp)\<close>

text \<open>
  A \<open>std::string\<close> of bytes is a \<open>string\<close>: a list of the 256 characters of HOL. \<open>std::tolower\<close> and
  \<open>std::isspace\<close> are those of the C locale, in which the library runs: it never sets another one.
\<close>

definition char_code :: "char \<Rightarrow> nat" where
  "char_code c = of_char c"

definition tolower :: "nat \<Rightarrow> nat" where
  "tolower n = (if 65 \<le> n \<and> n \<le> 90 then n + 32 else n)"

definition less_ci_char :: "char \<Rightarrow> char \<Rightarrow> bool" where
  "less_ci_char a b \<longleftrightarrow> tolower (char_code a) < tolower (char_code b)"

definition equals_ci_char :: "char \<Rightarrow> char \<Rightarrow> bool" where
  "equals_ci_char a b \<longleftrightarrow> tolower (char_code a) = tolower (char_code b)"

text \<open>\<open>std::equal\<close> and \<open>std::lexicographical_compare\<close>.\<close>

fun std_equal :: "('a \<Rightarrow> 'a \<Rightarrow> bool) \<Rightarrow> 'a list \<Rightarrow> 'a list \<Rightarrow> bool" where
  "std_equal f (x # xs) (y # ys) \<longleftrightarrow> f x y \<and> std_equal f xs ys"
| "std_equal f _ _ \<longleftrightarrow> True"

fun lexicographical_compare :: "('a \<Rightarrow> 'a \<Rightarrow> bool) \<Rightarrow> 'a list \<Rightarrow> 'a list \<Rightarrow> bool" where
  "lexicographical_compare f [] ys \<longleftrightarrow> ys \<noteq> []"
| "lexicographical_compare f (x # xs) [] \<longleftrightarrow> False"
| "lexicographical_compare f (x # xs) (y # ys) \<longleftrightarrow>
     (if f x y then True else if f y x then False else lexicographical_compare f xs ys)"

definition equals_ci :: "string \<Rightarrow> string \<Rightarrow> bool" where
  "equals_ci a b \<longleftrightarrow> length a = length b \<and> std_equal equals_ci_char a b"

definition case_insensitive_less :: "string \<Rightarrow> string \<Rightarrow> bool" where
  "case_insensitive_less s1 s2 \<longleftrightarrow>
     (if length s1 \<noteq> length s2 then length s1 < length s2
      else lexicographical_compare less_ci_char s1 s2)"

definition isspace :: "char \<Rightarrow> bool" where
  "isspace c \<longleftrightarrow> char_code c = 32 \<or> (9 \<le> char_code c \<and> char_code c \<le> 13)"

definition trim_left :: "string \<Rightarrow> string" where
  "trim_left s = dropWhile isspace s"

definition trim_right :: "string \<Rightarrow> string" where
  "trim_right s = rev (dropWhile isspace (rev s))"

definition trim :: "string \<Rightarrow> string" where
  "trim s = trim_right (trim_left s)"

definition char_of_byte :: "byte \<Rightarrow> char" where "char_of_byte b = char_of (unat b)"

definition byte_of_char :: "char \<Rightarrow> byte" where "byte_of_char c = word_of_nat (of_char c)"

definition string_from_bytes :: "byte list \<Rightarrow> string" where
  "string_from_bytes bs = List.map char_of_byte bs"

definition bytes_of_string :: "string \<Rightarrow> byte list" where
  "bytes_of_string s = List.map byte_of_char s"

subsection \<open>Lemmas\<close>

lemma char_code_less [simp]: "char_code c < 256"
  by (simp add: char_code_def)

lemma byte_of_char_of_byte [simp]: "byte_of_char (char_of_byte b) = b"
proof -
  have "unat b < 256" using unsigned_less [where 'a = nat, of b] by simp
  then show ?thesis by (simp add: byte_of_char_def char_of_byte_def of_char_of)
qed

lemma char_of_byte_of_char [simp]: "char_of_byte (byte_of_char c) = c"
  by (simp add: byte_of_char_def char_of_byte_def unat_of_nat take_bit_eq_mod)

lemma string_bytes_inverse [simp]:
  "string_from_bytes (bytes_of_string s) = s" "bytes_of_string (string_from_bytes bs) = bs"
  "length (bytes_of_string s) = length s" "length (string_from_bytes bs) = length bs"
  by (simp_all add: string_from_bytes_def bytes_of_string_def comp_def)

lemma equals_ci_char_iff: "equals_ci_char a b \<longleftrightarrow> \<not> less_ci_char a b \<and> \<not> less_ci_char b a"
  by (auto simp: equals_ci_char_def less_ci_char_def)

lemma less_ci_char_trans: "less_ci_char a b \<Longrightarrow> less_ci_char b c \<Longrightarrow> less_ci_char a c"
  by (auto simp: less_ci_char_def)

definition lower_codes :: "string \<Rightarrow> nat list" where
  "lower_codes s = List.map (\<lambda>c. tolower (char_code c)) s"

lemma equals_ci_lower: "equals_ci a b \<longleftrightarrow> lower_codes a = lower_codes b"
proof -
  have "length a = length b \<Longrightarrow> std_equal equals_ci_char a b \<longleftrightarrow> lower_codes a = lower_codes b"
    by (induction a b rule: list_induct2) (auto simp: lower_codes_def equals_ci_char_def)
  moreover have "lower_codes a = lower_codes b \<Longrightarrow> length a = length b"
    by (metis lower_codes_def length_map)
  ultimately show ?thesis by (auto simp: equals_ci_def)
qed

lemma equals_ci_refl [simp]: "equals_ci a a"
  and equals_ci_sym: "equals_ci a b \<Longrightarrow> equals_ci b a"
  and equals_ci_trans: "equals_ci a b \<Longrightarrow> equals_ci b c \<Longrightarrow> equals_ci a c"
  by (simp_all add: equals_ci_lower)

lemma lexicographical_compare_lower:
  "lexicographical_compare less_ci_char a b \<longleftrightarrow>
     (lower_codes a, lower_codes b) \<in> lexord {(m, n). m < n}"
  by (induction "less_ci_char" a b rule: lexicographical_compare.induct)
    (auto simp: lower_codes_def less_ci_char_def neq_Nil_conv)

lemma case_insensitive_less_lower:
  "case_insensitive_less a b \<longleftrightarrow>
     length a < length b \<or>
     (length a = length b \<and> (lower_codes a, lower_codes b) \<in> lexord {(m, n). m < n})"
  by (auto simp: case_insensitive_less_def lexicographical_compare_lower)

text \<open>
  The order of the header map is a strict weak order (irreflexive, transitive) in which two
  keys are equivalent exactly when they are equal up to ASCII case, as the multimap requires and the
  lookups of headers rely on.
\<close>

theorem case_insensitive_less_strict_weak:
  "\<not> case_insensitive_less a a \<and>
   (case_insensitive_less a b \<longrightarrow> case_insensitive_less b c \<longrightarrow> case_insensitive_less a c) \<and>
   (\<not> case_insensitive_less a b \<and> \<not> case_insensitive_less b a \<longleftrightarrow> equals_ci a b)"
proof (intro conjI impI)
  have irr: "(xs, xs) \<notin> lexord {(m, n :: nat). m < n}" for xs
    by (rule lexord_irreflexive) simp
  show "\<not> case_insensitive_less a a" by (simp add: case_insensitive_less_lower irr)
  have trans: "trans {(m, n :: nat). m < n}" by (auto intro: transI)
  show "case_insensitive_less a c" if "case_insensitive_less a b" "case_insensitive_less b c"
    using that lexord_trans [OF _ _ trans, of "lower_codes a" "lower_codes b" "lower_codes c"]
    by (auto simp: case_insensitive_less_lower)
  have "xs = ys \<or> (xs, ys) \<in> lexord {(m, n :: nat). m < n} \<or> (ys, xs) \<in> lexord {(m, n). m < n}" for xs ys
    using lexord_linear [of "{(m, n :: nat). m < n}" xs ys] by fastforce
  then have lin: "lower_codes a = lower_codes b \<or>
      (lower_codes a, lower_codes b) \<in> lexord {(m, n). m < n} \<or>
      (lower_codes b, lower_codes a) \<in> lexord {(m, n). m < n}" .
  have len: "lower_codes a = lower_codes b \<Longrightarrow> length a = length b"
    by (metis lower_codes_def length_map)
  show "\<not> case_insensitive_less a b \<and> \<not> case_insensitive_less b a \<longleftrightarrow> equals_ci a b"
    using lin len irr [of "lower_codes a"]
    by (auto simp: case_insensitive_less_lower equals_ci_lower)
qed

theorem case_insensitive_less_strict_weak_witness:
  "case_insensitive_less ''Host'' ''UPGRADE'' \<and> case_insensitive_less ''upgrade'' ''upgradf'' \<and>
   equals_ci ''Sec-WebSocket-Key'' ''sec-websocket-key''"
proof -
  have "\<not> case_insensitive_less ''Sec-WebSocket-Key'' ''sec-websocket-key''"
    "\<not> case_insensitive_less ''sec-websocket-key'' ''Sec-WebSocket-Key''" by code_simp+
  moreover have "case_insensitive_less ''Host'' ''UPGRADE''"
    "case_insensitive_less ''upgrade'' ''upgradf''" by code_simp+
  ultimately show ?thesis
    using case_insensitive_less_strict_weak [of "''Sec-WebSocket-Key''" "''sec-websocket-key''"]
    by blast
qed

subsection \<open>Trimming\<close>

lemma trim_left_stop: "trim_left s = [] \<or> \<not> isspace (hd (trim_left s))"
  using hd_dropWhile [of isspace s] by (auto simp: trim_left_def)

lemma trim_id:
  "(s = [] \<or> (\<not> isspace (hd s) \<and> \<not> isspace (last s))) \<Longrightarrow> trim s = s"
proof -
  have d: "dropWhile isspace xs = xs" if "xs = [] \<or> \<not> isspace (hd xs)" for xs
    using that by (cases xs) auto
  assume "s = [] \<or> (\<not> isspace (hd s) \<and> \<not> isspace (last s))"
  then show ?thesis by (auto simp: trim_def trim_left_def trim_right_def d hd_rev)
qed

lemma trim_left_spaces: "(\<forall>c \<in> set ws. isspace c) \<Longrightarrow> trim_left (ws @ s) = trim_left s"
  by (simp add: trim_left_def dropWhile_append2)

lemma trim_right_spaces: "(\<forall>c \<in> set ws. isspace c) \<Longrightarrow> trim_right (s @ ws) = trim_right s"
  using dropWhile_append2 [of "rev ws" isspace "rev s"] by (simp add: trim_right_def)

lemma trim_surrounded:
  assumes "s = [] \<or> (\<not> isspace (hd s) \<and> \<not> isspace (last s))"
    and "\<forall>c \<in> set ws. isspace c" and "\<forall>c \<in> set ws'. isspace c"
  shows "trim (ws @ s @ ws') = s"
proof (cases "s = []")
  case True
  then show ?thesis
    using assms by (simp add: trim_def trim_left_spaces)
      (simp add: trim_left_def trim_right_def dropWhile_eq_Nil_conv [THEN iffD2])
next
  case False
  with assms(1) have "trim_left (s @ ws') = s @ ws'"
    by (cases s) (auto simp: trim_left_def)
  then have "trim (ws @ s @ ws') = trim_right s"
    using assms by (simp add: trim_def trim_left_spaces trim_right_spaces)
  also have "\<dots> = s"
    using assms(1) False by (cases s rule: rev_cases) (auto simp: trim_right_def)
  finally show ?thesis .
qed

end
