(* ===== verification/Text_Streams.thy ===== *)
theory Text_Streams
  imports Strings
begin

section \<open>Text streams and number conversion\<close>

text \<open>
  What the program uses of \<open>std::istringstream\<close>, \<open>std::from_chars\<close> and \<open>std::to_string\<close>. The state
  of an input stream is the text not read yet. Extraction of a word skips white space and fails at
  the end of the text; \<open>std::getline\<close> fails only when nothing is left (a stream that hit its end
  has nothing left, so the end-of-file bit needs no state of its own).
\<close>

lemma while_until [simp]:
  "c \<notin> set k \<Longrightarrow> takeWhile (\<lambda>x. x \<noteq> c) (k @ c # v) = k"
  "c \<notin> set k \<Longrightarrow> dropWhile (\<lambda>x. x \<noteq> c) (k @ c # v) = c # v"
  "c \<notin> set k \<Longrightarrow> takeWhile (\<lambda>x. x \<noteq> c) k = k"
  "c \<notin> set k \<Longrightarrow> dropWhile (\<lambda>x. x \<noteq> c) k = []"
  by (induction k) auto

definition newline :: char where "newline = CHR 0x0A"
definition crlf :: string where "crlf = [CHR 0x0D, CHR 0x0A]"

definition stream_word :: "string \<Rightarrow> (string \<times> string) option" where
  "stream_word s =
     (let s' = dropWhile isspace s; w = takeWhile (\<lambda>c. \<not> isspace c) s' in
      if w = [] then None else Some (w, dropWhile (\<lambda>c. \<not> isspace c) s'))"

definition stream_getline :: "char \<Rightarrow> string \<Rightarrow> (string \<times> string) option" where
  "stream_getline delim s =
     (if s = [] then None
      else Some (takeWhile (\<lambda>c. c \<noteq> delim) s, drop 1 (dropWhile (\<lambda>c. c \<noteq> delim) s)))"

lemma stream_getline_shorter: "stream_getline d s = Some (line, s') \<Longrightarrow> length s' < length s"
  using length_dropWhile_le [of "\<lambda>c. c \<noteq> d" s]
  by (cases s) (auto simp: stream_getline_def split: if_splits)

lemma stream_getline_line:
  "d \<notin> set line \<Longrightarrow> stream_getline d (line @ d # rest) = Some (line, rest)"
  by (simp add: stream_getline_def)

lemma stream_word_word:
  assumes "w \<noteq> []" and "\<forall>c \<in> set w. \<not> isspace c" and "isspace d"
  shows "stream_word (w @ d # rest) = Some (w, d # rest)"
proof -
  have "dropWhile isspace (w @ d # rest) = w @ d # rest" using assms by (cases w) auto
  with assms show ?thesis by (simp add: stream_word_def takeWhile_append2 dropWhile_append2)
qed

lemma stream_word_skip: "isspace d \<Longrightarrow> stream_word (d # s) = stream_word s"
  by (simp add: stream_word_def)

subsection \<open>Finding a character (std::string::find)\<close>

definition find_char :: "char \<Rightarrow> string \<Rightarrow> nat option" where
  "find_char c s =
     (let n = length (takeWhile (\<lambda>x. x \<noteq> c) s) in if n < length s then Some n else None)"

lemma find_char_append: "c \<notin> set k \<Longrightarrow> find_char c (k @ c # v) = Some (length k)"
  by (simp add: find_char_def)

lemma find_char_None: "find_char c s = None \<longleftrightarrow> c \<notin> set s"
proof (cases "c \<in> set s")
  case True
  then obtain k v where "s = k @ c # v" "c \<notin> set k" by (meson split_list_first)
  with True show ?thesis by (simp add: find_char_append)
qed (simp add: find_char_def)

lemma find_char_Some:
  "find_char c s = Some n \<Longrightarrow> n < length s \<and> s ! n = c \<and> c \<notin> set (take n s)"
  by (auto simp: find_char_def Let_def split: if_splits dest: set_takeWhileD
      nth_length_takeWhile simp flip: takeWhile_eq_take)

subsection \<open>Decimal numbers\<close>

definition isdigit :: "char \<Rightarrow> bool" where
  "isdigit c \<longleftrightarrow> 48 \<le> char_code c \<and> char_code c \<le> 57"

definition digits_value :: "string \<Rightarrow> nat" where
  "digits_value s = foldl (\<lambda>v c. v * 10 + (char_code c - 48)) 0 s"

text \<open>
  \<open>std::from_chars\<close> for a signed integer type with the given bounds: the value and the unread rest,
  \<open>None\<close> when there is no number or it is out of range. A minus sign is only read for a type that
  has negative values; there is no plus sign and no white space.
\<close>

definition from_chars :: "int \<Rightarrow> int \<Rightarrow> string \<Rightarrow> (int \<times> string) option" where
  "from_chars lo hi s =
     (let neg = lo < 0 \<and> s \<noteq> [] \<and> hd s = CHR ''-'';
          t = (if neg then tl s else s);
          ds = takeWhile isdigit t;
          v = (if neg then - int (digits_value ds) else int (digits_value ds))
      in if ds = [] \<or> v < lo \<or> hi < v then None else Some (v, dropWhile isdigit t))"

definition digit_char :: "nat \<Rightarrow> char" where "digit_char n = char_of (48 + n)"

fun show_nat :: "nat \<Rightarrow> string" where
  "show_nat n = (if n < 10 then [digit_char n] else show_nat (n div 10) @ [digit_char (n mod 10)])"

declare show_nat.simps [simp del]

definition show_int :: "int \<Rightarrow> string" where
  "show_int i = (if i < 0 then CHR ''-'' # show_nat (nat (- i)) else show_nat (nat i))"

lemma digit_char_code: "n < 10 \<Longrightarrow> char_code (digit_char n) = 48 + n"
  by (simp add: char_code_def digit_char_def of_char_of)

lemma isdigit_digit_char [simp]: "n < 10 \<Longrightarrow> isdigit (digit_char n)"
  by (simp add: isdigit_def digit_char_code)

lemma isdigit_not_space: "isdigit c \<Longrightarrow> \<not> isspace c"
  by (auto simp: isdigit_def isspace_def)

lemma show_nat_digits: "\<forall>c \<in> set (show_nat n). isdigit c"
proof (induction n rule: show_nat.induct)
  case (1 n)
  then show ?case by (subst show_nat.simps) auto
qed

lemma show_nat_not_Nil [simp]: "show_nat n \<noteq> []"
  by (subst show_nat.simps) simp

lemma digits_value_show_nat [simp]: "digits_value (show_nat n) = n"
proof (induction n rule: show_nat.induct)
  case (1 n)
  then show ?case
    by (subst show_nat.simps) (auto simp: digits_value_def digit_char_code)
qed

lemma from_chars_digits:
  assumes "ds \<noteq> []" and "\<forall>c \<in> set ds. isdigit c" and "rest = [] \<or> \<not> isdigit (hd rest)"
    and "int (digits_value ds) \<le> hi" and "lo \<le> int (digits_value ds)"
  shows "from_chars lo hi (ds @ rest) = Some (int (digits_value ds), rest)"
proof -
  have "hd (ds @ rest) \<noteq> CHR ''-''"
    using assms by (cases ds) (auto simp: isdigit_def char_code_def)
  moreover have "takeWhile isdigit (ds @ rest) = ds" "dropWhile isdigit (ds @ rest) = rest"
    using assms by (cases rest; auto)+
  ultimately show ?thesis using assms by (simp add: from_chars_def Let_def)
qed

lemma from_chars_show_nat:
  assumes "rest = [] \<or> \<not> isdigit (hd rest)" and "int n \<le> hi" and "lo \<le> 0"
  shows "from_chars lo hi (show_nat n @ rest) = Some (int n, rest)"
  using from_chars_digits [of "show_nat n" rest hi lo] assms show_nat_digits by simp

lemma from_chars_bounds: "from_chars lo hi s = Some (v, rest) \<Longrightarrow> lo \<le> v \<and> v \<le> hi"
  by (auto simp: from_chars_def Let_def split: if_splits)

end
