(* ===== verification/Http.thy ===== *)
theory Http
  imports Text_Streams Errors
begin

section \<open>HTTP headers and their parser (HttpHeader.hpp, HttpParser.hpp)\<close>

text \<open>
  The header fields are the code's vector of key-value pairs. Printing is \<open>operator<<\<close>, parsing
  works on the stream state of \<open>Text_Streams\<close>: each parser returns its result with the text that is
  left unread.
\<close>

record http_status_line =
  protocol_version :: string
  status_code :: int
  reason :: string

record http_request_line =
  http_method :: string
  request_target :: string
  http_version :: string

type_synonym header_fields = "(string \<times> string) list"

record http_request_header =
  request_line :: http_request_line
  request_fields :: header_fields

record http_response_header =
  status_line :: http_status_line
  response_fields :: header_fields

subsection \<open>Operations on the fields\<close>

definition header_add :: "string \<Rightarrow> string \<Rightarrow> header_fields \<Rightarrow> header_fields" where
  "header_add key val fs = fs @ [(key, val)]"

definition header_contains_key :: "string \<Rightarrow> header_fields \<Rightarrow> bool" where
  "header_contains_key key fs = list_ex (\<lambda>h. equals_ci (fst h) key) fs"

definition header_add_if_missing :: "string \<Rightarrow> string \<Rightarrow> header_fields \<Rightarrow> header_fields" where
  "header_add_if_missing key val fs =
     (if \<not> header_contains_key key fs then header_add key val fs else fs)"

definition header_remove_key :: "string \<Rightarrow> header_fields \<Rightarrow> header_fields" where
  "header_remove_key key fs = filter (\<lambda>h. \<not> equals_ci (fst h) key) fs"

definition header_set :: "string \<Rightarrow> string \<Rightarrow> header_fields \<Rightarrow> header_fields" where
  "header_set key val fs = header_remove_key key fs @ [(key, val)]"

definition header_get :: "string \<Rightarrow> header_fields \<Rightarrow> string list" where
  "header_get key fs =
     foldl (\<lambda>result h. if equals_ci (fst h) key then result @ [snd h] else result) [] fs"

definition header_get_first :: "string \<Rightarrow> header_fields \<Rightarrow> string option" where
  "header_get_first key fs = map_option snd (find (\<lambda>h. equals_ci (fst h) key) fs)"

definition header_count_key :: "string \<Rightarrow> header_fields \<Rightarrow> nat" where
  "header_count_key key fs = length (filter (\<lambda>h. equals_ci (fst h) key) fs)"

lemma header_get_filter: "header_get key fs = List.map snd (filter (\<lambda>h. equals_ci (fst h) key) fs)"
proof -
  have "foldl (\<lambda>result h. if equals_ci (fst h) key then result @ [snd h] else result) acc fs =
      acc @ List.map snd (filter (\<lambda>h. equals_ci (fst h) key) fs)" for acc
    by (induction fs arbitrary: acc) auto
  then show ?thesis by (simp add: header_get_def)
qed

lemma header_get_empty: "header_get key [] = []"
  by (simp add: header_get_filter)

lemma header_get_add:
  "header_get key (header_add k v fs) = header_get key fs @ (if equals_ci k key then [v] else [])"
  by (simp add: header_get_filter header_add_def)

lemma header_get_remove:
  "header_get key (header_remove_key k fs) = (if equals_ci k key then [] else header_get key fs)"
proof -
  have "filter (\<lambda>h. equals_ci (fst h) key) (filter (\<lambda>h. \<not> equals_ci (fst h) k) fs) =
      (if equals_ci k key then [] else filter (\<lambda>h. equals_ci (fst h) key) fs)"
    by (induction fs) (auto dest: equals_ci_trans equals_ci_sym)
  then show ?thesis by (simp add: header_get_filter header_remove_key_def)
qed

lemma header_set_add: "header_set k v fs = header_add k v (header_remove_key k fs)"
  by (simp add: header_set_def header_add_def)

lemma header_get_set:
  "header_get key (header_set k v fs) = (if equals_ci k key then [v] else header_get key fs)"
  by (simp add: header_set_add header_get_add header_get_remove)

lemma header_contains_key_get: "header_contains_key key fs \<longleftrightarrow> header_get key fs \<noteq> []"
  by (auto simp: header_contains_key_def header_get_filter list_ex_iff filter_empty_conv)

lemma header_get_first_get:
  "header_get_first key fs = (case header_get key fs of [] \<Rightarrow> None | v # vs \<Rightarrow> Some v)"
  by (induction fs) (auto simp: header_get_first_def header_get_filter)

lemma header_count_key_get: "header_count_key key fs = length (header_get key fs)"
  by (simp add: header_count_key_def header_get_filter)

lemma header_get_add_if_missing:
  "header_get key (header_add_if_missing k v fs) =
     (if equals_ci k key \<and> header_get k fs = [] then [v] else header_get key fs)"
proof -
  have "equals_ci k key \<Longrightarrow> header_get key fs = header_get k fs"
    unfolding header_get_filter
    by (rule arg_cong [where f = "List.map snd"], rule filter_cong)
      (auto dest: equals_ci_trans equals_ci_sym)
  then show ?thesis
    by (auto simp: header_add_if_missing_def header_contains_key_get header_get_add)
qed

subsection \<open>The fields as a case-insensitive multimap\<close>

text \<open>
  What the handshake relies on: \<open>get\<close> determines every other query, and \<open>set\<close>, \<open>add\<close> and
  \<open>remove_key\<close> act on the values of the keys that are equal up to case.
\<close>

locale ci_multimap =
  fixes lookup :: "string \<Rightarrow> 'm \<Rightarrow> string list"
    and insert_new :: "string \<Rightarrow> string \<Rightarrow> 'm \<Rightarrow> 'm"
    and delete_all :: "string \<Rightarrow> 'm \<Rightarrow> 'm"
    and same_key :: "string \<Rightarrow> string \<Rightarrow> bool"
  assumes lookup_insert:
      "lookup key (insert_new k v m) = lookup key m @ (if same_key k key then [v] else [])"
    and lookup_delete: "lookup key (delete_all k m) = (if same_key k key then [] else lookup key m)"
    and same_key_refl: "same_key k k"
begin

definition replace_all :: "string \<Rightarrow> string \<Rightarrow> 'm \<Rightarrow> 'm" where
  "replace_all k v m = insert_new k v (delete_all k m)"

definition insert_all :: "(string \<times> string) list \<Rightarrow> 'm \<Rightarrow> 'm" where
  "insert_all kvs m = foldl (\<lambda>m kv. insert_new (fst kv) (snd kv) m) m kvs"

lemma lookup_replace: "lookup key (replace_all k v m) = (if same_key k key then [v] else lookup key m)"
  by (simp add: replace_all_def lookup_insert lookup_delete)

lemma lookup_insert_all:
  "lookup key (insert_all kvs m) =
     lookup key m @ List.map snd (filter (\<lambda>kv. same_key (fst kv) key) kvs)"
  by (induction kvs arbitrary: m) (auto simp: insert_all_def lookup_insert)

end

interpretation headers: ci_multimap header_get header_add header_remove_key equals_ci
  by unfold_locales (auto simp: header_get_add header_get_remove)

lemma header_set_replace: "header_set = headers.replace_all"
  by (intro ext) (simp add: headers.replace_all_def header_set_add)

text \<open>
  The header fields are a multimap with case-insensitive keys: after \<open>set\<close> a key has exactly the
  new value, after \<open>add\<close> one more, after \<open>add_if_missing\<close> a value it had or the new one, after
  \<open>remove_key\<close> none, every other key keeps its values in order, and \<open>contains_key\<close>, \<open>get_first\<close>
  and \<open>count_key\<close> agree with \<open>get\<close>.
\<close>

theorem header_fields_multimap:
  "header_get key (header_set k v fs) = (if equals_ci k key then [v] else header_get key fs) \<and>
   header_get key (header_add k v fs) = header_get key fs @ (if equals_ci k key then [v] else []) \<and>
   header_get key (header_add_if_missing k v fs) =
     (if equals_ci k key \<and> header_get k fs = [] then [v] else header_get key fs) \<and>
   header_get key (header_remove_key k fs) = (if equals_ci k key then [] else header_get key fs) \<and>
   header_contains_key key fs = (header_get key fs \<noteq> []) \<and>
   header_get_first key fs = (case header_get key fs of [] \<Rightarrow> None | v # vs \<Rightarrow> Some v) \<and>
   header_count_key key fs = length (header_get key fs)"
  unfolding header_set_replace
  by (intro conjI headers.lookup_replace headers.lookup_insert headers.lookup_delete
      header_get_add_if_missing header_contains_key_get header_get_first_get header_count_key_get)

subsection \<open>Printing a request\<close>

definition print_fields :: "header_fields \<Rightarrow> string" where
  "print_fields fs = concat (List.map (\<lambda>(key, val). key @ '': '' @ val @ crlf) fs)"

definition print_request_header :: "http_request_header \<Rightarrow> string" where
  "print_request_header h =
     http_method (request_line h) @ '' '' @ request_target (request_line h) @ '' '' @
     http_version (request_line h) @ crlf @ print_fields (request_fields h) @ crlf"

subsection \<open>Parsing a response\<close>

definition http_protocol_error :: "http_message \<Rightarrow> ws_error" where
  "http_protocol_error m = WSError Protocol_error (Http_msg m) not_set"

definition int_min :: int where "int_min = - 2147483648"
definition int_max :: int where "int_max = 2147483647"

definition parse_request_status_line :: "(string, http_status_line) st" where
  "parse_request_status_line s =
     (case stream_word s of
        None \<Rightarrow> (Err (http_protocol_error Msg_status_line), '''')
      | Some (version, s1) \<Rightarrow>
          (case stream_word s1 of
             None \<Rightarrow> (Err (http_protocol_error Msg_status_line), '''')
           | Some (temp_status_code, s2) \<Rightarrow>
               (case from_chars int_min int_max temp_status_code of
                  Some (code, []) \<Rightarrow>
                    (case stream_getline newline s2 of
                       None \<Rightarrow> (Ok \<lparr>protocol_version = version, status_code = code, reason = ''''\<rparr>, s2)
                     | Some (line, s3) \<Rightarrow>
                         (Ok \<lparr>protocol_version = version, status_code = code, reason = trim line\<rparr>, s3))
                | _ \<Rightarrow> (Err (http_protocol_error Msg_status_not_integer), s2))))"

function parse_fields_loop :: "header_fields \<Rightarrow> (string, header_fields) st" where
  "parse_fields_loop result s =
     (case stream_getline newline s of
        None \<Rightarrow> (Ok result, s)
      | Some (raw_line, s') \<Rightarrow>
          (let line = trim raw_line in
           if line = [] then (Ok result, s')
           else case find_char CHR '':'' line of
                  None \<Rightarrow> (Err (http_protocol_error (Msg_malformed_header line)), s')
                | Some colon_pos \<Rightarrow>
                    (let header_name = take colon_pos line;
                         header_value =
                           (if colon_pos < length line - 1 then drop (colon_pos + 1) line else '''');
                         header_value = trim header_value
                     in if header_name = []
                        then (Err (http_protocol_error (Msg_malformed_header line)), s')
                        else parse_fields_loop (header_add header_name header_value result) s')))"
  by pat_completeness auto

termination
  by (relation "measure (\<lambda>(result, s). length s)") (auto dest: stream_getline_shorter)

declare parse_fields_loop.simps [simp del]

definition parse_header_fields :: "(string, header_fields) st" where
  "parse_header_fields s = parse_fields_loop [] s"


subsection \<open>Parsing what was printed\<close>

definition no_outer_space :: "string \<Rightarrow> bool" where
  "no_outer_space s \<longleftrightarrow> s = [] \<or> (\<not> isspace (hd s) \<and> \<not> isspace (last s))"

definition field_ok :: "string \<times> string \<Rightarrow> bool" where
  "field_ok f \<longleftrightarrow> fst f \<noteq> [] \<and> CHR '':'' \<notin> set (fst f) \<and> newline \<notin> set (fst f) \<and>
     \<not> isspace (hd (fst f)) \<and> newline \<notin> set (snd f) \<and> no_outer_space (snd f)"

lemma isspace_chars [simp]:
  "isspace CHR 0x0D" "isspace CHR 0x0A" "isspace CHR '' ''" "\<not> isspace CHR '':''"
  by (simp_all add: isspace_def char_code_def)

lemma newline_neq [simp]: "CHR 0x0D \<noteq> newline" "CHR '':'' \<noteq> newline" "CHR '' '' \<noteq> newline"
    "newline \<noteq> CHR 0x0D" "newline \<noteq> CHR '':''" "newline \<noteq> CHR '' ''"
  by (simp_all add: newline_def)

lemma trim_field_line:
  assumes "field_ok (k, v)"
  shows "trim (k @ '': '' @ v @ [CHR 0x0D]) = k @ CHR '':'' # (if v = [] then [] else CHR '' '' # v)"
proof (cases "v = []")
  case True
  have "trim ([] @ (k @ '':'') @ '' '' @ [CHR 0x0D]) = k @ '':''"
    using assms by (intro trim_surrounded) (auto simp: field_ok_def)
  with True show ?thesis by simp
next
  case False
  have "trim ([] @ (k @ '': '' @ v) @ [CHR 0x0D]) = k @ '': '' @ v"
    using assms False by (intro trim_surrounded) (auto simp: field_ok_def no_outer_space_def)
  with False show ?thesis by simp
qed

lemma parse_fields_line:
  assumes ok: "field_ok (k, v)"
  shows "parse_fields_loop result (k @ '': '' @ v @ crlf @ rest) =
    parse_fields_loop (result @ [(k, v)]) rest"
proof -
  let ?line = "k @ CHR '':'' # (if v = [] then [] else CHR '' '' # v)"
  have "stream_getline newline ((k @ '': '' @ v @ [CHR 0x0D]) @ newline # rest) =
      Some (k @ '': '' @ v @ [CHR 0x0D], rest)"
    using ok by (intro stream_getline_line) (auto simp: field_ok_def)
  then have line: "stream_getline newline (k @ '': '' @ v @ crlf @ rest) =
      Some (k @ '': '' @ v @ [CHR 0x0D], rest)"
    by (simp add: crlf_def newline_def)
  have colon: "find_char CHR '':'' ?line = Some (length k)"
    using ok by (intro find_char_append) (simp add: field_ok_def)
  have val: "trim (if length k < length ?line - 1 then drop (length k + 1) ?line else '''') = v"
  proof (cases "v = []")
    case True
    then show ?thesis by (simp add: trim_id)
  next
    case False
    have "trim ('' '' @ v @ []) = v"
      using ok by (intro trim_surrounded) (auto simp: field_ok_def no_outer_space_def)
    with False show ?thesis by simp
  qed
  have ne: "(?line = []) = False" "take (length k) ?line = k" "(k = []) = False"
    using ok by (simp_all add: field_ok_def)
  show ?thesis
    by (subst parse_fields_loop.simps)
      (simp only: line option.case prod.case trim_field_line [OF ok] Let_def ne if_False colon val
        header_add_def)
qed

lemma parse_fields_end: "parse_fields_loop result (crlf @ rest) = (Ok result, rest)"
proof -
  have "stream_getline newline ([CHR 0x0D] @ newline # rest) = Some ([CHR 0x0D], rest)"
    by (intro stream_getline_line) auto
  then have "stream_getline newline (crlf @ rest) = Some ([CHR 0x0D], rest)"
    by (simp add: crlf_def newline_def)
  moreover have "trim [CHR 0x0D] = []" by (simp add: trim_def trim_left_def trim_right_def)
  ultimately show ?thesis by (subst parse_fields_loop.simps) simp
qed

lemma parse_printed_fields:
  "list_all field_ok fs \<Longrightarrow>
     parse_fields_loop result (print_fields fs @ crlf @ rest) = (Ok (result @ fs), rest)"
proof (induction fs arbitrary: result)
  case Nil
  then show ?case by (simp add: print_fields_def parse_fields_end)
next
  case (Cons f fs)
  then have "field_ok (fst f, snd f)" by simp
  from parse_fields_line [OF this, of result "print_fields fs @ crlf @ rest"] Cons
  show ?case by (simp add: print_fields_def case_prod_beta)
qed

text \<open>
  C30: Parsing is the inverse of printing for header fields: for any list of fields with a non-empty
  name without colon or leading space and a trimmed value, both on one line, the parser returns
  exactly this list, in order and with duplicates, and leaves the text behind the empty line unread.
\<close>

theorem header_fields_roundtrip:
  assumes "list_all field_ok fs"
  shows "parse_header_fields (print_fields fs @ crlf @ rest) = (Ok fs, rest)"
  using parse_printed_fields [OF assms, of "[]" rest] by (simp add: parse_header_fields_def)

theorem header_fields_roundtrip_witness:
  "parse_header_fields (print_fields [(''Upgrade'', ''websocket''), (''X'', '''')] @ crlf @ ''body'') =
     (Ok [(''Upgrade'', ''websocket''), (''X'', '''')], ''body'')"
  by (rule header_fields_roundtrip)
    (simp add: field_ok_def no_outer_space_def isspace_def char_code_def newline_def)

text \<open>
  A header line without a colon, or with nothing before it, is a protocol error, never a
  skipped or a guessed field; a line of white space ends the header.
\<close>

theorem parse_fields_malformed:
  assumes "newline \<notin> set raw_line" and "trim raw_line \<noteq> []"
    and "CHR '':'' \<notin> set (trim raw_line) \<or> hd (trim raw_line) = CHR '':''"
  shows "parse_header_fields (raw_line @ newline # rest) =
    (Err (http_protocol_error (Msg_malformed_header (trim raw_line))), rest)"
proof -
  have "find_char CHR '':'' (trim raw_line) = None \<or> find_char CHR '':'' (trim raw_line) = Some 0"
  proof (cases "CHR '':'' \<in> set (trim raw_line)")
    case False
    then show ?thesis by (simp add: find_char_None)
  next
    case True
    with assms obtain v where "trim raw_line = [] @ CHR '':'' # v"
      by (cases "trim raw_line") auto
    then show ?thesis using find_char_append [of "CHR '':''" "[]" v] by simp
  qed
  with assms show ?thesis
    unfolding parse_header_fields_def
    by (subst parse_fields_loop.simps) (auto simp: stream_getline_line Let_def)
qed

theorem parse_fields_malformed_witness:
  "parse_header_fields (''no colon'' @ newline # ''A: b'') =
     (Err (http_protocol_error (Msg_malformed_header ''no colon'')), ''A: b'')"
proof -
  have "trim ''no colon'' = ''no colon''" by code_simp
  with parse_fields_malformed [of "''no colon''" "''A: b''"] show ?thesis by (simp add: newline_def)
qed

lemma parse_status_line_printed:
  assumes v: "version \<noteq> []" "\<forall>c \<in> set version. \<not> isspace c" and n: "int n \<le> int_max"
    and r: "newline \<notin> set text" "no_outer_space text"
  shows "parse_request_status_line (version @ '' '' @ show_nat n @ '' '' @ text @ crlf @ rest) =
    (Ok \<lparr>protocol_version = version, status_code = int n, reason = text\<rparr>, rest)"
proof -
  let ?s = "'' '' @ text @ crlf @ rest"
  have w1: "stream_word (version @ '' '' @ show_nat n @ ?s) = Some (version, '' '' @ show_nat n @ ?s)"
    using stream_word_word [of version "CHR '' ''"] v by simp
  have w2: "stream_word ('' '' @ show_nat n @ ?s) = Some (show_nat n, ?s)"
    using stream_word_word [of "show_nat n" "CHR '' ''"] show_nat_digits isdigit_not_space
    by (simp add: stream_word_skip)
  have code: "from_chars int_min int_max (show_nat n) = Some (int n, [])"
    using from_chars_show_nat [of "[]" n int_max int_min] n by (simp add: int_min_def)
  have "stream_getline newline (('' '' @ text @ [CHR 0x0D]) @ newline # rest) =
      Some ('' '' @ text @ [CHR 0x0D], rest)"
    using r by (intro stream_getline_line) auto
  then have line: "stream_getline newline ?s = Some ('' '' @ text @ [CHR 0x0D], rest)"
    by (simp add: crlf_def newline_def)
  have "trim ('' '' @ text @ [CHR 0x0D]) = text"
    using r by (intro trim_surrounded) (auto simp: no_outer_space_def)
  with w1 w2 code line show ?thesis
    by (simp add: parse_request_status_line_def)
qed

text \<open>
  The status line parser returns the protocol version, the status code and the trimmed reason
  of every well-formed status line, for every status code an \<open>int\<close> holds, and leaves the rest of the
  response for the field parser.
\<close>

theorem status_line_roundtrip:
  assumes "version \<noteq> []" and "\<forall>c \<in> set version. \<not> isspace c" and "int n \<le> int_max"
    and "newline \<notin> set text" and "no_outer_space text" and "list_all field_ok fs"
  shows "st_try parse_request_status_line
      (\<lambda>line. st_try parse_header_fields (\<lambda>fs s. (Ok (line, fs), s)))
      (version @ '' '' @ show_nat n @ '' '' @ text @ crlf @ print_fields fs @ crlf @ rest) =
    (Ok (\<lparr>protocol_version = version, status_code = int n, reason = text\<rparr>, fs), rest)"
  using parse_status_line_printed [OF assms(1-5)] parse_printed_fields [OF assms(6), of "[]"]
  by (simp add: st_try_def parse_header_fields_def)

theorem status_line_roundtrip_witness:
  "st_try parse_request_status_line
      (\<lambda>line. st_try parse_header_fields (\<lambda>fs s. (Ok (line, fs), s)))
      (''HTTP/1.1'' @ '' '' @ show_nat 101 @ '' '' @ ''Switching Protocols'' @ crlf @
       print_fields [(''Upgrade'', ''websocket'')] @ crlf @ ''rest'') =
    (Ok (\<lparr>protocol_version = ''HTTP/1.1'', status_code = 101, reason = ''Switching Protocols''\<rparr>,
         [(''Upgrade'', ''websocket'')]), ''rest'')"
proof -
  have "\<forall>c \<in> set ''HTTP/1.1''. \<not> isspace c" "no_outer_space ''Switching Protocols''"
    "newline \<notin> set ''Switching Protocols''" "list_all field_ok [(''Upgrade'', ''websocket'')]"
    by (simp_all add: field_ok_def no_outer_space_def isspace_def char_code_def newline_def)
  from status_line_roundtrip [OF _ this(1) _ this(3,2,4), of 101 "''rest''"] show ?thesis
    by (simp add: int_max_def)
qed

end
