(* ===== verification/Permessage_Deflate.thy ===== *)
theory Permessage_Deflate
  imports Http
begin

section \<open>Negotiation of permessage-deflate (struct PermessageDeflate)\<close>

text \<open>
  The configuration record and the functions that offer it and adjust it to the response. The
  \<open>std::map\<close> of extension parameters is a HOL map; window bits are \<open>uint8_t\<close>s. Log output is left
  out: it does not change the state.
\<close>

record permessage_deflate =
  server_max_window_bits :: byte
  client_max_window_bits :: byte
  server_no_context_takeover :: bool
  client_no_context_takeover :: bool
  decompress_buffer_size :: u64
  compress_buffer_size :: u64
  deflate_memory_level :: int
  deflate_compression_level :: int

definition default_server_max_window_bits :: byte where "default_server_max_window_bits = 15"
definition default_client_max_window_bits :: byte where "default_client_max_window_bits = 15"

definition pmd_default :: permessage_deflate where
  "pmd_default =
     \<lparr>server_max_window_bits = default_server_max_window_bits,
      client_max_window_bits = default_client_max_window_bits,
      server_no_context_takeover = False, client_no_context_takeover = False,
      decompress_buffer_size = 102400, compress_buffer_size = 102400,
      deflate_memory_level = 8, deflate_compression_level = - 1\<rparr>"

type_synonym ext_params = "string \<Rightarrow> string option"

definition pmd_error :: "deflate_message \<Rightarrow> ws_error" where
  "pmd_error m = WSError Protocol_error (Deflate_msg m) not_set"

subsection \<open>The extension header\<close>

definition remove_spaces :: "string \<Rightarrow> string" where
  "remove_spaces s = filter (\<lambda>c. \<not> isspace c) s"

definition add_extension :: "string \<Rightarrow> ext_params \<Rightarrow> ext_params" where
  "add_extension ext m =
     (case stream_getline CHR ''='' ext of
        None \<Rightarrow> m(ext \<mapsto> '''')
      | Some (key, rest) \<Rightarrow>
          (case stream_getline newline rest of
             None \<Rightarrow> m(ext \<mapsto> '''')
           | Some (val, rest') \<Rightarrow> m(remove_spaces key \<mapsto> remove_spaces val)))"

function parse_extensions_loop :: "ext_params \<Rightarrow> string \<Rightarrow> ext_params" where
  "parse_extensions_loop m s =
     (case stream_getline CHR '';'' s of
        None \<Rightarrow> m
      | Some (ext, s') \<Rightarrow> parse_extensions_loop (add_extension (remove_spaces ext) m) s')"
  by pat_completeness auto

termination
  by (relation "measure (\<lambda>(m, s). length s)") (auto dest: stream_getline_shorter)

declare parse_extensions_loop.simps [simp del]

definition parse_WebSocketExtensions :: "string \<Rightarrow> ext_params" where
  "parse_WebSocketExtensions header = parse_extensions_loop Map.empty header"

definition get_SecWebSocketExtensions_value :: "permessage_deflate \<Rightarrow> string" where
  "get_SecWebSocketExtensions_value p =
     ''permessage-deflate'' @
     (if server_max_window_bits p > 0
      then ''; server_max_window_bits='' @ show_nat (unat (server_max_window_bits p)) else '''') @
     (if client_max_window_bits p > 0
      then ''; client_max_window_bits='' @ show_nat (unat (client_max_window_bits p)) else '''') @
     (if server_no_context_takeover p then ''; server_no_context_takeover'' else '''') @
     (if client_no_context_takeover p then ''; client_no_context_takeover'' else '''')"

definition parse_window_bits :: "string \<Rightarrow> byte ws_result" where
  "parse_window_bits bits_string =
     (case from_chars int_min int_max bits_string of
        Some (n, rest) \<Rightarrow>
          if rest \<noteq> [] \<or> n < 8 \<or> n > 15 then Err (pmd_error (Msg_window_bits bits_string))
          else Ok (word_of_int n)
      | None \<Rightarrow> Err (pmd_error (Msg_window_bits bits_string)))"

subsection \<open>Adjusting the configuration to the response\<close>

definition negotiate_server_no_context_takeover :: "ext_params \<Rightarrow> (permessage_deflate, unit) st" where
  "negotiate_server_no_context_takeover exts p =
     (if server_no_context_takeover p
      then if exts ''server_no_context_takeover'' = None
           then (Ok (), p\<lparr>server_no_context_takeover := False\<rparr>)
           else (Ok (), p)
      else if exts ''server_no_context_takeover'' \<noteq> None
           then (Ok (), p\<lparr>server_no_context_takeover := True\<rparr>)
           else (Ok (), p))"

definition negotiate_client_no_context_takeover :: "ext_params \<Rightarrow> (permessage_deflate, unit) st" where
  "negotiate_client_no_context_takeover exts p =
     (if client_no_context_takeover p then (Ok (), p)
      else if exts ''client_no_context_takeover'' \<noteq> None
           then (Ok (), p\<lparr>client_no_context_takeover := True\<rparr>)
           else (Ok (), p))"

definition negotiate_server_max_window_bits :: "ext_params \<Rightarrow> (permessage_deflate, unit) st" where
  "negotiate_server_max_window_bits exts p =
     (if server_max_window_bits p > 0
      then (case exts ''server_max_window_bits'' of
              None \<Rightarrow> (Ok (), p\<lparr>server_max_window_bits := default_server_max_window_bits\<rparr>)
            | Some s \<Rightarrow>
                (case parse_window_bits s of
                   Ok v \<Rightarrow>
                     if v < 8 \<or> v > 15
                     then (Err (pmd_error (Msg_bits_invalid ''server_max_window_bits'' (unat v))), p)
                     else if v > server_max_window_bits p
                     then (Err (pmd_error (Msg_bits_greater ''server_max_window_bits'' (unat v)
                             (unat (server_max_window_bits p)))), p)
                     else if server_max_window_bits p \<noteq> v then (Ok (), p\<lparr>server_max_window_bits := v\<rparr>)
                     else (Ok (), p)
                 | Err e \<Rightarrow> (Err e, p)
                 | Abort \<Rightarrow> (Abort, p)))
      else (case exts ''server_max_window_bits'' of
              Some s \<Rightarrow>
                (case parse_window_bits s of
                   Ok v \<Rightarrow>
                     if v < 8 \<or> v > 15
                     then (Err (pmd_error (Msg_bits_invalid ''server_max_window_bits'' (unat v))), p)
                     else (Ok (), p\<lparr>server_max_window_bits := v\<rparr>)
                 | Err e \<Rightarrow> (Err e, p)
                 | Abort \<Rightarrow> (Abort, p))
            | None \<Rightarrow> (Ok (), p\<lparr>server_max_window_bits := default_server_max_window_bits\<rparr>)))"

definition negotiate_client_max_window_bits :: "ext_params \<Rightarrow> (permessage_deflate, unit) st" where
  "negotiate_client_max_window_bits exts p =
     (if client_max_window_bits p > 0
      then (case exts ''client_max_window_bits'' of
              None \<Rightarrow> (Ok (), p\<lparr>client_max_window_bits := default_client_max_window_bits\<rparr>)
            | Some s \<Rightarrow>
                (case parse_window_bits s of
                   Ok v \<Rightarrow>
                     if v < 8 \<or> v > 15
                     then (Err (pmd_error (Msg_bits_invalid ''client_max_window_bits'' (unat v))), p)
                     else if v > client_max_window_bits p
                     then (Err (pmd_error (Msg_bits_greater ''client_max_window_bits'' (unat v)
                             (unat (client_max_window_bits p)))), p)
                     else if client_max_window_bits p \<noteq> v then (Ok (), p\<lparr>client_max_window_bits := v\<rparr>)
                     else (Ok (), p)
                 | Err e \<Rightarrow> (Err e, p)
                 | Abort \<Rightarrow> (Abort, p)))
      else (case exts ''client_max_window_bits'' of
              Some s \<Rightarrow>
                (case parse_window_bits s of
                   Ok v \<Rightarrow> (Ok (), p\<lparr>client_max_window_bits := v\<rparr>)
                 | Err e \<Rightarrow> (Err e, p)
                 | Abort \<Rightarrow> (Abort, p))
            | None \<Rightarrow> (Ok (), p\<lparr>client_max_window_bits := default_client_max_window_bits\<rparr>)))"

definition negotiate :: "http_response_header \<Rightarrow> (permessage_deflate, bool) st" where
  "negotiate response p =
     (case header_get_first ''Sec-WebSocket-Extensions'' (response_fields response) of
        None \<Rightarrow> (Ok False, p)
      | Some h_ext \<Rightarrow>
          (let exts = parse_WebSocketExtensions h_ext in
           if exts ''permessage-deflate'' = None then (Ok False, p)
           else st_try (negotiate_server_no_context_takeover exts) (\<lambda>_.
                st_try (negotiate_client_no_context_takeover exts) (\<lambda>_.
                st_try (negotiate_server_max_window_bits exts) (\<lambda>_.
                st_try (negotiate_client_max_window_bits exts) (\<lambda>_ p'. (Ok True, p'))))) p))"

subsection \<open>Lemmas\<close>

lemma unat_small_int: "0 \<le> a \<Longrightarrow> a < 256 \<Longrightarrow> unat (word_of_int a :: byte) = nat a"
  using take_bit_int_eq_self [of a 8] by (simp add: unsigned_of_int)

lemma parse_window_bits_Ok: "parse_window_bits s = Ok v \<Longrightarrow> 8 \<le> unat v \<and> unat v \<le> 15"
  by (auto simp: parse_window_bits_def unat_small_int split: option.splits if_splits)

lemma parse_window_bits_no_abort [simp]: "parse_window_bits s \<noteq> Abort"
  by (auto simp: parse_window_bits_def split: option.splits)

lemma parse_window_bits_show:
  "8 \<le> unat (v :: byte) \<Longrightarrow> unat v \<le> 15 \<Longrightarrow> parse_window_bits (show_nat (unat v)) = Ok v"
proof -
  assume v: "8 \<le> unat v" "unat v \<le> 15"
  have "from_chars int_min int_max (show_nat (unat v)) = Some (int (unat v), [])"
  proof -
    have "int (unat v) \<le> int_max" "int_min \<le> 0"
      using v(2) unfolding int_min_def int_max_def by linarith+
    from from_chars_show_nat [OF _ this, of "[]"] show ?thesis by simp
  qed
  moreover have "\<not> int (unat v) < 8" "\<not> int (unat v) > 15" using v by linarith+
  moreover have "word_of_int (int (unat v)) = v" by simp
  ultimately show ?thesis by (simp only: parse_window_bits_def option.case prod.case simp_thms if_False)
qed

definition bits_ok :: "byte \<Rightarrow> bool" where
  "bits_ok v \<longleftrightarrow> 8 \<le> unat v \<and> unat v \<le> 15"


text \<open>
  The tables in the comments of the four functions: what was requested, what the response says, and the
  result.
\<close>

definition table_server_takeover :: "bool \<Rightarrow> bool \<Rightarrow> bool" where
  "table_server_takeover requested response = (requested \<or> response)"

definition table_client_takeover :: "bool \<Rightarrow> bool \<Rightarrow> bool" where
  "table_client_takeover requested response = requested"

datatype bits_entry = Entry_none | Entry_bits byte | Entry_error

definition table_server_bits :: "byte option \<Rightarrow> byte option \<Rightarrow> bits_entry" where
  "table_server_bits requested response =
     (case requested of
        None \<Rightarrow> (case response of None \<Rightarrow> Entry_none | Some m \<Rightarrow> Entry_bits m)
      | Some n \<Rightarrow> (case response of None \<Rightarrow> Entry_bits 15 | Some m \<Rightarrow> if m \<le> n then Entry_bits m else Entry_error))"

definition table_client_bits :: "byte option \<Rightarrow> byte option \<Rightarrow> bits_entry" where
  "table_client_bits requested response =
     (case requested of
        None \<Rightarrow> (case response of None \<Rightarrow> Entry_none | Some m \<Rightarrow> Entry_error)
      | Some n \<Rightarrow> (case response of None \<Rightarrow> Entry_bits 15 | Some m \<Rightarrow> if m \<le> n then Entry_bits m else Entry_error))"

text \<open>The columns: a configured 0 is no request; a parameter must have a value between 8 and 15.\<close>

definition requested_bits :: "byte \<Rightarrow> byte option" where
  "requested_bits v = (if v > 0 then Some v else None)"

definition response_bits :: "string option \<Rightarrow> byte option" where
  "response_bits x =
     (case x of None \<Rightarrow> None | Some s \<Rightarrow> (case parse_window_bits s of Ok v \<Rightarrow> Some v | _ \<Rightarrow> None))"

definition malformed_bits :: "string option \<Rightarrow> bool" where
  "malformed_bits x = (x \<noteq> None \<and> response_bits x = None)"

lemma response_bits_ok: "response_bits x = Some v \<Longrightarrow> bits_ok v"
  by (auto simp: response_bits_def bits_ok_def split: option.splits ws_result.splits dest: parse_window_bits_Ok)

lemma parse_window_bits_Err: "parse_window_bits s = Err e \<Longrightarrow> err_code e = Protocol_error"
  by (auto simp: parse_window_bits_def pmd_error_def split: option.splits if_splits)

lemma parsed_in_range: "parse_window_bits s = Ok v \<Longrightarrow> \<not> v < 8 \<and> \<not> v > 15"
  using parse_window_bits_Ok [of s v] by (simp add: word_less_nat_alt)

lemma negotiate_server_bits_table:
  defines "t exts p \<equiv> table_server_bits (requested_bits (server_max_window_bits p)) (response_bits (exts ''server_max_window_bits''))"
  shows "if malformed_bits (exts ''server_max_window_bits'') \<or> t exts p = Entry_error
    then \<exists>e. negotiate_server_max_window_bits exts p = (Err e, p) \<and> err_code e = Protocol_error
    else negotiate_server_max_window_bits exts p =
      (Ok (), p\<lparr>server_max_window_bits := (case t exts p of Entry_bits v \<Rightarrow> v | _ \<Rightarrow> 15)\<rparr>)"
proof (cases "exts ''server_max_window_bits''")
  case None
  then show ?thesis
    by (simp add: negotiate_server_max_window_bits_def malformed_bits_def t_def table_server_bits_def requested_bits_def
        response_bits_def default_server_max_window_bits_def)
next
  case (Some s)
  then show ?thesis
    using parsed_in_range [of s] parse_window_bits_Err [of s] parse_window_bits_no_abort [of s]
    by (cases "parse_window_bits s")
      (auto simp: negotiate_server_max_window_bits_def malformed_bits_def t_def table_server_bits_def requested_bits_def
        response_bits_def pmd_error_def not_le)
qed

lemma negotiate_client_bits_table:
  defines "t exts p \<equiv> table_client_bits (requested_bits (client_max_window_bits p)) (response_bits (exts ''client_max_window_bits''))"
  shows "if malformed_bits (exts ''client_max_window_bits'') \<or>
      t exts p = Entry_error \<and> client_max_window_bits p > 0
    then \<exists>e. negotiate_client_max_window_bits exts p = (Err e, p) \<and> err_code e = Protocol_error
    else negotiate_client_max_window_bits exts p =
      (Ok (), p\<lparr>client_max_window_bits := (case t exts p of Entry_bits v \<Rightarrow> v | Entry_none \<Rightarrow> 15
         | Entry_error \<Rightarrow> the (response_bits (exts ''client_max_window_bits'')))\<rparr>)"
proof (cases "exts ''client_max_window_bits''")
  case None
  then show ?thesis
    by (simp add: negotiate_client_max_window_bits_def malformed_bits_def t_def table_client_bits_def requested_bits_def
        response_bits_def default_client_max_window_bits_def)
next
  case (Some s)
  then show ?thesis
    using parsed_in_range [of s] parse_window_bits_Err [of s] parse_window_bits_no_abort [of s]
    by (cases "parse_window_bits s")
      (auto simp: negotiate_client_max_window_bits_def malformed_bits_def t_def table_client_bits_def requested_bits_def
        response_bits_def pmd_error_def not_le)
qed

lemma negotiate_flags:
  "negotiate_server_no_context_takeover exts p =
     (Ok (), p\<lparr>server_no_context_takeover := exts ''server_no_context_takeover'' \<noteq> None\<rparr>)"
  "negotiate_client_no_context_takeover exts p =
     (Ok (), p\<lparr>client_no_context_takeover :=
        client_no_context_takeover p \<or> exts ''client_no_context_takeover'' \<noteq> None\<rparr>)"
  by (simp_all add: negotiate_server_no_context_takeover_def
      negotiate_client_no_context_takeover_def)

lemma negotiate_params:
  assumes h: "header_get_first ''Sec-WebSocket-Extensions'' (response_fields r) = Some h"
    and x: "exts = parse_WebSocketExtensions h" "exts ''permessage-deflate'' \<noteq> None"
  shows "negotiate r p =
    st_try (negotiate_server_max_window_bits exts) (\<lambda>_.
      st_try (negotiate_client_max_window_bits exts) (\<lambda>_ p'. (Ok True, p')))
      (p\<lparr>server_no_context_takeover := exts ''server_no_context_takeover'' \<noteq> None,
         client_no_context_takeover :=
           client_no_context_takeover p \<or> exts ''client_no_context_takeover'' \<noteq> None\<rparr>)"
  by (simp only: negotiate_def h option.case Let_def x(1) [symmetric] x(2) if_False)
    (simp add: st_try_def negotiate_flags)

lemma entry_bits_ok:
  "bits_ok (case table_server_bits n (response_bits x) of Entry_bits v \<Rightarrow> v | _ \<Rightarrow> 15)"
  "bits_ok (case table_client_bits n (response_bits x) of Entry_bits v \<Rightarrow> v | Entry_none \<Rightarrow> 15
     | Entry_error \<Rightarrow> the (response_bits x))"
  using response_bits_ok [of x]
  by (auto simp: table_server_bits_def table_client_bits_def bits_ok_def split: option.split)

text \<open>
  C29: For a response that names permessage-deflate, \<open>negotiate\<close> settles the four parameters by the tables
  in its comments, except in four rows. \<open>server_no_context_takeover\<close> offered and not answered becomes false
  (table: true). \<open>client_no_context_takeover\<close> answered without being offered becomes true (table: may use
  takeover). \<open>client_max_window_bits\<close> answered without being offered is accepted (table: error). Window sizes
  neither offered nor answered are 15 (table: none). In all other rows the result is the table's; it is a
  protocol error exactly in the table's other error rows, where a window is larger than the one offered,
  and for values that are no number between 8 and 15. On success both window sizes are between 8 and 15,
  which zlib accepts, and no other setting has changed.
\<close>

theorem negotiate_tables:
  assumes "header_get_first ''Sec-WebSocket-Extensions'' (response_fields r) = Some h"
    and "exts = parse_WebSocketExtensions h" and "exts ''permessage-deflate'' \<noteq> None"
    and "s_bits = exts ''server_max_window_bits''" and "c_bits = exts ''client_max_window_bits''"
    and "s_flag = (exts ''server_no_context_takeover'' \<noteq> None)" and "c_flag = (exts ''client_no_context_takeover'' \<noteq> None)"
    and "s_entry = table_server_bits (requested_bits (server_max_window_bits p)) (response_bits s_bits)"
    and "c_entry = table_client_bits (requested_bits (client_max_window_bits p)) (response_bits c_bits)"
  shows "if malformed_bits s_bits \<or> malformed_bits c_bits \<or> s_entry = Entry_error \<or>
      c_entry = Entry_error \<and> client_max_window_bits p > 0
    then \<exists>e p'. negotiate r p = (Err e, p') \<and> err_code e = Protocol_error
    else \<exists>p'. negotiate r p = (Ok True, p') \<and>
      bits_ok (server_max_window_bits p') \<and> bits_ok (client_max_window_bits p') \<and>
      p' = p\<lparr>server_max_window_bits := (case s_entry of Entry_bits v \<Rightarrow> v | _ \<Rightarrow> 15),
        client_max_window_bits := (case c_entry of Entry_bits v \<Rightarrow> v | Entry_none \<Rightarrow> 15 | Entry_error \<Rightarrow> the (response_bits c_bits)),
        server_no_context_takeover :=
          (if server_no_context_takeover p \<and> \<not> s_flag then False
           else table_server_takeover (server_no_context_takeover p) s_flag),
        client_no_context_takeover :=
          (if \<not> client_no_context_takeover p \<and> c_flag then True
           else table_client_takeover (client_no_context_takeover p) c_flag)\<rparr>"
proof -
  let ?p = "p\<lparr>server_no_context_takeover := s_flag, client_no_context_takeover := client_no_context_takeover p \<or> c_flag\<rparr>"
  have n: "negotiate r p = st_try (negotiate_server_max_window_bits exts)
      (\<lambda>_. st_try (negotiate_client_max_window_bits exts) (\<lambda>_ p'. (Ok True, p'))) ?p"
    unfolding assms(6,7) by (rule negotiate_params [OF assms(1-3)])
  note s = negotiate_server_bits_table [of exts ?p, folded assms(4)]
    and c = negotiate_client_bits_table [of exts "?p\<lparr>server_max_window_bits := w\<rparr>" for w, folded assms(5)]
  show ?thesis
  proof (cases "malformed_bits s_bits \<or> s_entry = Entry_error")
    case True
    then obtain e where "negotiate_server_max_window_bits exts ?p = (Err e, ?p)" "err_code e = Protocol_error"
      using s by (auto simp: assms(8))
    with True n show ?thesis by (auto simp: st_try_def)
  next
    case False
    define w where "w = (case s_entry of Entry_bits v \<Rightarrow> v | _ \<Rightarrow> 15)"
    have s1: "negotiate_server_max_window_bits exts ?p = (Ok (), ?p\<lparr>server_max_window_bits := w\<rparr>)"
      using False s by (simp add: assms(8) w_def)
    show ?thesis
    proof (cases "malformed_bits c_bits \<or> c_entry = Entry_error \<and> client_max_window_bits p > 0")
      case True
      then obtain e where "negotiate_client_max_window_bits exts (?p\<lparr>server_max_window_bits := w\<rparr>) =
          (Err e, ?p\<lparr>server_max_window_bits := w\<rparr>)" "err_code e = Protocol_error"
        using c [of w] by (auto simp: assms(9))
      with True n s1 show ?thesis by (auto simp: st_try_def)
    next
      case False2: False
      then have c1: "negotiate_client_max_window_bits exts (?p\<lparr>server_max_window_bits := w\<rparr>) =
          (Ok (), ?p\<lparr>server_max_window_bits := w, client_max_window_bits :=
            (case c_entry of Entry_bits v \<Rightarrow> v | Entry_none \<Rightarrow> 15 | Entry_error \<Rightarrow> the (response_bits c_bits))\<rparr>)"
        using c [of w] by (simp add: assms(9))
      have "bits_ok w" using False entry_bits_ok(1) by (simp add: w_def assms(8))
      moreover have "bits_ok (case c_entry of Entry_bits v \<Rightarrow> v | Entry_none \<Rightarrow> 15 | Entry_error \<Rightarrow> the (response_bits c_bits))"
        using False2 entry_bits_ok(2) by (simp add: assms(9))
      ultimately show ?thesis using n s1 c1 False False2
        by (auto simp: st_try_def w_def table_server_takeover_def table_client_takeover_def)
    qed
  qed
qed

theorem negotiate_tables_witness:
  "let r = \<lparr>status_line = \<lparr>protocol_version = ''HTTP/1.1'', status_code = 101, reason = ''''\<rparr>,
      response_fields = [(''sec-websocket-extensions'',
        ''permessage-deflate; server_max_window_bits=10; server_no_context_takeover'')]\<rparr>
   in \<exists>p'. negotiate r pmd_default = (Ok True, p') \<and> server_max_window_bits p' = 10 \<and>
        bits_ok (client_max_window_bits p') \<and> server_no_context_takeover p'"
proof -
  let ?h = "''permessage-deflate; server_max_window_bits=10; server_no_context_takeover''"
  let ?r = "\<lparr>status_line = \<lparr>protocol_version = ''HTTP/1.1'', status_code = 101, reason = ''''\<rparr>,
      response_fields = [(''sec-websocket-extensions'', ?h)]\<rparr>"
  have f: "header_get_first ''Sec-WebSocket-Extensions'' (response_fields ?r) = Some ?h"
    by (simp add: header_get_first_def equals_ci_def equals_ci_char_def tolower_def char_code_def)
  have x: "parse_WebSocketExtensions ?h = [''permessage-deflate'' \<mapsto> '''',
      ''server_max_window_bits'' \<mapsto> ''10'', ''server_no_context_takeover'' \<mapsto> '''']"
    by (simp add: parse_WebSocketExtensions_def parse_extensions_loop.simps stream_getline_def
        add_extension_def remove_spaces_def isspace_def char_code_def newline_def)
  have b: "parse_window_bits ''10'' = Ok 10"
    by (simp add: parse_window_bits_def from_chars_def isdigit_def char_code_def digits_value_def
        int_min_def int_max_def)
  obtain p' where n: "negotiate ?r pmd_default = (Ok True, p')"
    by (simp add: negotiate_params [OF f refl] x st_try_def negotiate_server_max_window_bits_def
        negotiate_client_max_window_bits_def b pmd_default_def default_server_max_window_bits_def
        default_client_max_window_bits_def)
  from negotiate_tables [OF f refl _ refl refl refl refl refl refl, of pmd_default] n
  have "bits_ok (client_max_window_bits p')" "server_no_context_takeover p'"
    "server_max_window_bits p' = 10"
    by (auto simp: x b malformed_bits_def response_bits_def requested_bits_def table_server_bits_def table_client_bits_def
        pmd_default_def default_server_max_window_bits_def default_client_max_window_bits_def table_server_takeover_def)
  with n show ?thesis by (simp add: Let_def)
qed

subsection \<open>An offer that is echoed\<close>

lemma add_extension_flag: "CHR ''='' \<notin> set k \<Longrightarrow> add_extension k m = m(k \<mapsto> '''')"
  by (simp add: add_extension_def stream_getline_def)

lemma remove_spaces_id: "(\<forall>c \<in> set s. \<not> isspace c) \<Longrightarrow> remove_spaces s = s"
  by (simp add: remove_spaces_def)

lemma add_extension_value:
  assumes "CHR ''='' \<notin> set k" and "\<forall>c \<in> set k. \<not> isspace c" and "v \<noteq> []"
    and "\<forall>c \<in> set v. \<not> isspace c"
  shows "add_extension (k @ CHR ''='' # v) m = m(k \<mapsto> v)"
proof -
  have "newline \<notin> set v" using assms(4) by (auto simp: newline_def)
  then have "stream_getline newline v = Some (v, [])"
    using assms(3) by (simp add: stream_getline_def)
  moreover have "stream_getline CHR ''='' (k @ CHR ''='' # v) = Some (k, v)"
    using assms(1) by (rule stream_getline_line)
  ultimately show ?thesis using assms by (simp add: add_extension_def remove_spaces_id)
qed

text \<open>The parameters of a printed offer, in order.\<close>

definition offer_segments :: "permessage_deflate \<Rightarrow> string list" where
  "offer_segments p =
     (if server_max_window_bits p > 0
      then [''server_max_window_bits='' @ show_nat (unat (server_max_window_bits p))] else []) @
     (if client_max_window_bits p > 0
      then [''client_max_window_bits='' @ show_nat (unat (client_max_window_bits p))] else []) @
     (if server_no_context_takeover p then [''server_no_context_takeover''] else []) @
     (if client_no_context_takeover p then [''client_no_context_takeover''] else [])"

lemma offer_value_segments:
  "get_SecWebSocketExtensions_value p =
     ''permessage-deflate'' @ concat (List.map (\<lambda>s. ''; '' @ s) (offer_segments p))"
  by (simp add: get_SecWebSocketExtensions_value_def offer_segments_def)

definition plain_segment :: "string \<Rightarrow> bool" where
  "plain_segment s \<longleftrightarrow> s \<noteq> [] \<and> (\<forall>c \<in> set s. \<not> isspace c \<and> c \<noteq> CHR '';'')"

lemma plain_segmentD:
  assumes "plain_segment s" and sp: "sp = [] \<or> sp = '' ''"
  shows "CHR '';'' \<notin> set (sp @ s)" "remove_spaces (sp @ s) = s" "sp @ s \<noteq> []"
proof -
  have "remove_spaces s = s" "CHR '';'' \<notin> set s" "s \<noteq> []"
    using assms(1) by (simp_all add: plain_segment_def remove_spaces_id) blast
  with sp show "CHR '';'' \<notin> set (sp @ s)" "remove_spaces (sp @ s) = s" "sp @ s \<noteq> []"
    by (elim disjE; simp add: remove_spaces_def)+
qed

lemma parse_extensions_loop_Nil: "parse_extensions_loop m [] = m"
  by (subst parse_extensions_loop.simps) (simp add: stream_getline_def)

lemma parse_extensions_segments:
  assumes "plain_segment s" and "list_all plain_segment segs" and "sp = [] \<or> sp = '' ''"
  shows "parse_extensions_loop m (sp @ s @ concat (List.map (\<lambda>s. ''; '' @ s) segs)) =
    fold add_extension (s # segs) m"
  using assms
proof (induction segs arbitrary: m s sp)
  case Nil
  note s = plain_segmentD [OF Nil(1,3)]
  have "stream_getline CHR '';'' (sp @ s) = Some (sp @ s, [])"
    unfolding stream_getline_def while_until(3,4) [OF s(1)] using s(3) by simp
  with s(2) show ?case
    by (subst parse_extensions_loop.simps) (simp add: parse_extensions_loop_Nil)
next
  case (Cons t segs)
  note s = plain_segmentD [OF Cons.prems(1,3)]
  define r where "r = concat (List.map (\<lambda>s. ''; '' @ s) segs)"
  have r: "concat (List.map (\<lambda>s. ''; '' @ s) (t # segs)) = CHR '';'' # '' '' @ t @ r"
    by (simp add: r_def)
  have "stream_getline CHR '';'' ((sp @ s) @ CHR '';'' # ('' '' @ t @ r)) = Some (sp @ s, '' '' @ t @ r)"
    using s(1) by (rule stream_getline_line)
  then have "parse_extensions_loop m (sp @ s @ CHR '';'' # '' '' @ t @ r) =
      parse_extensions_loop (add_extension s m) ('' '' @ t @ r)"
    by (subst parse_extensions_loop.simps) (simp add: s(2))
  also have "\<dots> = fold add_extension (t # segs) (add_extension s m)"
    unfolding r_def using Cons.prems by (intro Cons.IH) auto
  finally show ?case unfolding r by simp
qed

lemma show_nat_plain:
  "\<forall>c \<in> set (show_nat n). \<not> isspace c \<and> c \<noteq> CHR '';''"
  using show_nat_digits [of n] isdigit_not_space by (auto simp: isdigit_def char_code_def)

lemma parse_offer:
  "parse_WebSocketExtensions (get_SecWebSocketExtensions_value p) =
     (\<lambda>k. if k = ''permessage-deflate'' then Some ''''
          else if k = ''server_max_window_bits'' \<and> server_max_window_bits p > 0
          then Some (show_nat (unat (server_max_window_bits p)))
          else if k = ''client_max_window_bits'' \<and> client_max_window_bits p > 0
          then Some (show_nat (unat (client_max_window_bits p)))
          else if k = ''server_no_context_takeover'' \<and> server_no_context_takeover p then Some ''''
          else if k = ''client_no_context_takeover'' \<and> client_no_context_takeover p then Some ''''
          else None)"
proof -
  have "list_all plain_segment (offer_segments p)"
    using show_nat_plain by (simp add: offer_segments_def plain_segment_def isspace_def char_code_def)
  moreover have "plain_segment ''permessage-deflate''"
    by (simp add: plain_segment_def isspace_def char_code_def)
  ultimately have "parse_WebSocketExtensions (get_SecWebSocketExtensions_value p) =
      fold add_extension (''permessage-deflate'' # offer_segments p) Map.empty"
    using parse_extensions_segments [of "''permessage-deflate''" "offer_segments p" "''''"]
    by (simp add: parse_WebSocketExtensions_def offer_value_segments)
  moreover have "add_extension (''server_max_window_bits='' @ show_nat n) m =
      m(''server_max_window_bits'' \<mapsto> show_nat n)"
    "add_extension (''client_max_window_bits='' @ show_nat n) m =
      m(''client_max_window_bits'' \<mapsto> show_nat n)" for n m
    using add_extension_value [of "''server_max_window_bits''" "show_nat n"]
      add_extension_value [of "''client_max_window_bits''" "show_nat n"] show_nat_plain
    by (simp_all add: isspace_def char_code_def)
  ultimately show ?thesis
    by (auto simp: offer_segments_def add_extension_flag fun_eq_iff)
qed

text \<open>
  The offer the client prints and the parameters it understands fit together: a server that
  accepts the offer by sending it back is understood to have agreed to exactly the offered
  configuration (with 15 for a window size that was not requested).
\<close>

theorem negotiate_echo:
  assumes h: "header_get_first ''Sec-WebSocket-Extensions'' (response_fields r) =
      Some (get_SecWebSocketExtensions_value p)"
    and s: "server_max_window_bits p = 0 \<or> bits_ok (server_max_window_bits p)"
    and c: "client_max_window_bits p = 0 \<or> bits_ok (client_max_window_bits p)"
  shows "negotiate r p = (Ok True,
    p\<lparr>server_max_window_bits :=
        if server_max_window_bits p = 0 then 15 else server_max_window_bits p,
      client_max_window_bits :=
        if client_max_window_bits p = 0 then 15 else client_max_window_bits p\<rparr>)"
proof -
  have pos: "v > 0 \<longleftrightarrow> v \<noteq> 0" for v :: byte by (simp add: word_gt_0)
  have b: "\<not> v < 8 \<and> \<not> v > 15 \<and> v \<noteq> 0 \<and> parse_window_bits (show_nat (unat v)) = Ok v"
    if "bits_ok v" for v
    using that by (auto simp: bits_ok_def word_less_nat_alt parse_window_bits_show)
  show ?thesis
    using s c
    by (auto simp: negotiate_params [OF h refl] parse_offer st_try_def pos b
        negotiate_server_max_window_bits_def negotiate_client_max_window_bits_def
        default_server_max_window_bits_def default_client_max_window_bits_def)
qed

theorem negotiate_echo_witness:
  "negotiate \<lparr>status_line = \<lparr>protocol_version = ''HTTP/1.1'', status_code = 101, reason = ''''\<rparr>,
      response_fields = [(''Sec-WebSocket-Extensions'',
        get_SecWebSocketExtensions_value (pmd_default\<lparr>client_no_context_takeover := True\<rparr>))]\<rparr>
     (pmd_default\<lparr>client_no_context_takeover := True\<rparr>) =
   (Ok True, pmd_default\<lparr>client_no_context_takeover := True\<rparr>)"
proof -
  let ?p = "pmd_default\<lparr>client_no_context_takeover := True\<rparr>"
  let ?r = "\<lparr>status_line = \<lparr>protocol_version = ''HTTP/1.1'', status_code = 101, reason = ''''\<rparr>,
      response_fields = [(''Sec-WebSocket-Extensions'', get_SecWebSocketExtensions_value ?p)]\<rparr>"
  have "header_get_first ''Sec-WebSocket-Extensions'' (response_fields ?r) =
      Some (get_SecWebSocketExtensions_value ?p)"
    by (simp add: header_get_first_def)
  from negotiate_echo [OF this] show ?thesis
    by (simp add: pmd_default_def bits_ok_def default_server_max_window_bits_def
        default_client_max_window_bits_def)
qed

end
