(* ===== verification/Deflate_Context.thy ===== *)
theory Deflate_Context
  imports Permessage_Deflate Byte_Buffer
begin

section \<open>Compressing and decompressing messages (PermessageDeflate.hpp)\<close>

text \<open>
  \<open>PermessageDeflateContext\<close> owns a zlib decompressor and compressor and two buffers. zlib is a
  parameter: a record of the six functions the class calls. \<open>inflate\<close> and \<open>deflate\<close> get the input
  that is left (\<open>next_in\<close>, \<open>avail_in\<close>) and the size of the output span (\<open>avail_out\<close>), and return the
  return code, how much input they consumed, the bytes they wrote and the new stream state. The
  pointers \<open>istate_\<close>, \<open>ostate_\<close> and the two unique pointers are options; a use of a null pointer is
  \<open>Abort\<close>. \<open>avail_in\<close> is an \<open>unsigned int\<close>, so lengths are cut to 32 bits as the casts do.
\<close>

record 'z zlib =
  zl_inflate_init :: "int \<Rightarrow> int \<times> 'z"
  zl_inflate :: "'z \<Rightarrow> byte list \<Rightarrow> nat \<Rightarrow> int \<times> nat \<times> byte list \<times> 'z"
  zl_inflate_end :: "'z \<Rightarrow> int"
  zl_deflate_init :: "int \<Rightarrow> int \<Rightarrow> int \<Rightarrow> int \<times> 'z"
  zl_deflate :: "int \<Rightarrow> 'z \<Rightarrow> byte list \<Rightarrow> nat \<Rightarrow> int \<times> nat \<times> byte list \<times> 'z"
  zl_deflate_reset :: "'z \<Rightarrow> int \<times> 'z"

text \<open>The constants of zlib.h.\<close>

definition Z_OK :: int where "Z_OK = 0"
definition Z_STREAM_END :: int where "Z_STREAM_END = 1"
definition Z_BUF_ERROR :: int where "Z_BUF_ERROR = -5"
definition Z_SYNC_FLUSH :: int where "Z_SYNC_FLUSH = 2"
definition Z_FULL_FLUSH :: int where "Z_FULL_FLUSH = 3"

lemmas zlib_constants = Z_OK_def Z_STREAM_END_def Z_BUF_ERROR_def Z_SYNC_FLUSH_def Z_FULL_FLUSH_def

record 'z pmd_ctx =
  pc_def :: permessage_deflate
  pc_istate :: "'z option"
  pc_ostate :: "'z option"
  pc_decompress_buffer :: "buffer option"
  pc_compress_buffer :: "buffer option"

subsection \<open>Construction\<close>

definition make_error :: "string \<Rightarrow> ws_error" where
  "make_error desc = WSError Compression_error (Deflate_msg (Msg_zlib desc)) not_set"

definition pmd_ctx_new :: "permessage_deflate \<Rightarrow> 'z pmd_ctx" where
  "pmd_ctx_new d = \<lparr>pc_def = d, pc_istate = None, pc_ostate = None,
     pc_decompress_buffer = None, pc_compress_buffer = None\<rparr>"

definition pmd_ctx_init :: "'z zlib \<Rightarrow> allocator \<Rightarrow> ('z pmd_ctx, unit) st" where
  "pmd_ctx_init Z A c =
     (let d = pc_def c;
          decom_init_size = (if decompress_buffer_size d < 1024 then decompress_buffer_size d else 1024);
          comp_init_size = (if compress_buffer_size d < 1024 then compress_buffer_size d else 1024)
      in st_try (\<lambda>c. (buffer_create A decom_init_size (decompress_buffer_size d), c))
           (\<lambda>b c. let c = c\<lparr>pc_decompress_buffer := Some b\<rparr>
             in st_try (\<lambda>c. (buffer_create A comp_init_size (compress_buffer_size d), c))
                  (\<lambda>b c. let c = c\<lparr>pc_compress_buffer := Some b\<rparr>;
                            (ret, z) = zl_inflate_init Z (-1 * uint (server_max_window_bits d));
                            c = c\<lparr>pc_istate := Some z\<rparr>
                    in if ret \<noteq> Z_OK then (Err (make_error ''inflateInit2''), c)
                       else let (ret, z) = zl_deflate_init Z (deflate_compression_level d)
                                  (-1 * uint (client_max_window_bits d)) (deflate_memory_level d);
                                c = c\<lparr>pc_ostate := Some z\<rparr>
                            in if ret \<noteq> Z_OK then (Err (make_error ''deflateInit2''), c)
                               else (Ok (), c)) c) c)"

subsection \<open>Decompression\<close>

text \<open>
  One round of the loops: extend the output by a span, let zlib write into it, and drop the part it
  did not use. The result is the input left, \<open>avail_out\<close> after the call, and the number of bytes
  written. \<open>run\<close> is \<open>inflate\<close> or \<open>deflate\<close> with its flush mode.
\<close>

definition zlib_round ::
  "allocator \<Rightarrow> string \<Rightarrow> ('z \<Rightarrow> byte list \<Rightarrow> nat \<Rightarrow> int \<times> nat \<times> byte list \<times> 'z) \<Rightarrow> nat \<Rightarrow> byte list \<Rightarrow>
     (buffer \<times> 'z, byte list \<times> nat \<times> nat) st"
where
  "zlib_round A desc run grow inp s =
     (case buffer_append_n A (word_of_nat grow) (fst s) of
        (Err e, b) \<Rightarrow> (Err e, (b, snd s))
      | (Abort, b) \<Rightarrow> (Abort, (b, snd s))
      | (Ok (off, len), b) \<Rightarrow>
          (let (ret, used, ys, z) = run (snd s) inp len
           in case buffer_fill off ys b of
                (Ok _, b) \<Rightarrow>
                  (if ret \<noteq> Z_OK \<and> ret \<noteq> Z_STREAM_END \<and> ret \<noteq> Z_BUF_ERROR
                   then (Err (make_error desc), (b, z))
                   else let avail_out = len - length ys
                        in case buffer_discard_end (word_of_nat avail_out) b of
                             (Ok _, b) \<Rightarrow> (Ok (drop used inp, avail_out, length ys), (b, z))
                           | (Err e, b) \<Rightarrow> (Err e, (b, z))
                           | (Abort, b) \<Rightarrow> (Abort, (b, z)))
              | (Err e, b) \<Rightarrow> (Err e, (b, z))
              | (Abort, b) \<Rightarrow> (Abort, (b, z))))"

text \<open>\<open>std::max(min_output_size, avail_in * 5)\<close> and \<open>std::max(64U, avail_in)\<close>, in 32 bits.\<close>

definition inflate_grow :: "u32 \<Rightarrow> byte list \<Rightarrow> nat" where
  "inflate_grow min_output_size inp = unat (max min_output_size (word_of_nat (length inp) * 5))"

definition deflate_grow :: "byte list \<Rightarrow> nat" where
  "deflate_grow inp = unat (max 64 (word_of_nat (length inp)) :: u32)"

partial_function (option) zlib_loop ::
  "allocator \<Rightarrow> string \<Rightarrow> ('z \<Rightarrow> byte list \<Rightarrow> nat \<Rightarrow> int \<times> nat \<times> byte list \<times> 'z) \<Rightarrow>
     (byte list \<Rightarrow> nat) \<Rightarrow> byte list \<Rightarrow> nat \<Rightarrow> buffer \<times> 'z \<Rightarrow> (nat ws_result \<times> buffer \<times> 'z) option"
where
  "zlib_loop A desc run grow inp sz s =
     ws_try (ws_total (zlib_round A desc run (grow inp) inp))
       (\<lambda>(inp', avail_out, n) s.
          if avail_out = 0 then zlib_loop A desc run grow inp' (sz + n) s else Some (Ok (sz + n), s)) s"

declare zlib_loop.simps [code]

text \<open>The first \<open>static_cast<unsigned int>(size)\<close> bytes are what zlib sees of a span.\<close>

definition avail_input :: "byte list \<Rightarrow> byte list" where
  "avail_input xs = take (unat (word_of_nat (length xs) :: u32)) xs"

definition inflate_input ::
  "'z zlib \<Rightarrow> allocator \<Rightarrow> byte list \<Rightarrow> u32 \<Rightarrow> nat \<Rightarrow> (buffer \<times> 'z, nat) ws"
where
  "inflate_input Z A compressed min_output_size sz =
     zlib_loop A ''inflate'' (zl_inflate Z) (inflate_grow min_output_size) (avail_input compressed) sz"

definition trailer :: "byte list" where "trailer = [0x00, 0x00, 0xff, 0xff]"

definition on_inflate :: "(buffer \<times> 'z, 'r) ws \<Rightarrow> (buffer \<times> 'z pmd_ctx, 'r) ws" where
  "on_inflate m s =
     (case pc_istate (snd s) of
        None \<Rightarrow> Some (Abort, s)
      | Some z \<Rightarrow>
          (case m (fst s, z) of
             None \<Rightarrow> None
           | Some (r, (b, z')) \<Rightarrow> Some (r, (b, (snd s)\<lparr>pc_istate := Some z'\<rparr>))))"

definition inflate_reset :: "'z zlib \<Rightarrow> (buffer \<times> 'z pmd_ctx, unit) st" where
  "inflate_reset Z s =
     (let c = snd s
      in case pc_istate c of
           None \<Rightarrow> (Abort, s)
         | Some z \<Rightarrow>
             (if zl_inflate_end Z z \<noteq> Z_OK then (Err (make_error ''inflateEnd''), s)
              else let (ret, z') = zl_inflate_init Z (-1 * uint (server_max_window_bits (pc_def c)));
                       s = (fst s, c\<lparr>pc_istate := Some z'\<rparr>)
                   in if ret \<noteq> Z_OK then (Err (make_error ''inflateInit2''), s) else (Ok (), s)))"

definition decompress :: "'z zlib \<Rightarrow> allocator \<Rightarrow> (buffer \<times> 'z pmd_ctx, nat) ws" where
  "decompress Z A s =
     (case pc_decompress_buffer (snd s) of
        None \<Rightarrow> Some (Abort, s)
      | Some db \<Rightarrow>
          ws_try (on_inflate (inflate_input Z A (buffer_data db) 64 0))
            (\<lambda>sz. ws_try (on_inflate (inflate_input Z A trailer 1 sz))
              (\<lambda>sz s. if server_no_context_takeover (pc_def (snd s))
                       then ws_try (ws_total (inflate_reset Z)) (\<lambda>_ s. Some (Ok sz, s)) s
                       else Some (Ok sz, s))) s)"

subsection \<open>Compression\<close>

text \<open>The result is the compressed message as a span: its address and its bytes.\<close>

definition client_flush_mode :: "permessage_deflate \<Rightarrow> int" where
  "client_flush_mode d = (if client_no_context_takeover d then Z_FULL_FLUSH else Z_SYNC_FLUSH)"

definition deflate_loop ::
  "'z zlib \<Rightarrow> allocator \<Rightarrow> int \<Rightarrow> byte list \<Rightarrow> (buffer \<times> 'z, nat) ws"
where
  "deflate_loop Z A flush inp =
     zlib_loop A ''deflate'' (zl_deflate Z flush) deflate_grow (avail_input inp) 0"

definition strip_trailer :: "nat \<Rightarrow> nat" where
  "strip_trailer sz = (if sz \<ge> 4 then sz - 4 else sz)"

definition compress :: "'z zlib \<Rightarrow> allocator \<Rightarrow> byte list \<Rightarrow> ('z pmd_ctx, nat \<times> byte list) ws" where
  "compress Z A inp c =
     (case (pc_compress_buffer c, pc_ostate c) of
        (Some b, Some z) \<Rightarrow>
          (case deflate_loop Z A (client_flush_mode (pc_def c)) inp (b, z) of
             None \<Rightarrow> None
           | Some (r, (b, z)) \<Rightarrow>
               (let c = c\<lparr>pc_compress_buffer := Some b, pc_ostate := Some z\<rparr>
                in case r of
                     Err e \<Rightarrow> Some (Err e, c)
                   | Abort \<Rightarrow> Some (Abort, c)
                   | Ok sz \<Rightarrow>
                       (let (ret, z') = (if client_no_context_takeover (pc_def c)
                                         then zl_deflate_reset Z z else (Z_OK, z));
                            c = c\<lparr>pc_ostate := Some z'\<rparr>
                        in if ret \<noteq> Z_OK then Some (Err (make_error ''deflateReset''), c)
                           else Some (Ok (case buf_mem b of None \<Rightarrow> 0 | Some (a, bs) \<Rightarrow> a,
                                          take (strip_trailer sz) (buffer_data b)), c))))
      | _ \<Rightarrow> Some (Abort, c))"


subsection \<open>What zlib promises\<close>

text \<open>
  The documented behaviour of the two streams, as the manual of zlib states it. Of any call: it reads no
  more than it is given and writes no more than fits, and it may report any error.
\<close>

definition zlib_bounds :: "('z \<Rightarrow> byte list \<Rightarrow> nat \<Rightarrow> int \<times> nat \<times> byte list \<times> 'z) \<Rightarrow> bool" where
  "zlib_bounds run \<longleftrightarrow>
     (\<forall>z inp n ret used ys z'. run z inp n = (ret, used, ys, z') \<longrightarrow> used \<le> length inp \<and> length ys \<le> n)"

text \<open>
  Of \<open>deflate\<close> with a flush mode. \<open>midway z P E I W\<close> says that the stream in state \<open>z\<close> has encoded the
  plain bytes \<open>P\<close> as \<open>E\<close> up to the last completed flush, and since then has taken the input \<open>I\<close> and
  written \<open>W\<close>. The flush is complete when a call leaves room in the output; what was written for some
  input ends then with the empty stored block whose last four bytes are the \<open>trailer\<close>, and decodes to
  the input. (Nothing is said of a flush without input.) A flush that just filled the output may
  be repeated, so a state does not determine what the next call writes.
\<close>

locale deflate_streams =
  fixes Z :: "'z zlib" and flush :: int
    and midway :: "'z \<Rightarrow> byte list \<Rightarrow> byte list \<Rightarrow> byte list \<Rightarrow> byte list \<Rightarrow> bool"
    and decoded :: "byte list \<Rightarrow> byte list" and valid :: "byte list \<Rightarrow> bool"
  assumes deflate_ok: "midway z P E I W \<Longrightarrow> 0 < n \<Longrightarrow> zl_deflate Z flush z inp n = (ret, used, ys, z') \<Longrightarrow>
      (ret = Z_OK \<or> ret = Z_BUF_ERROR) \<and> used \<le> length inp \<and> length ys \<le> n \<and>
      midway z' P E (I @ take used inp) (W @ ys)"
    and flushed: "midway z P E I W \<Longrightarrow> 0 < n \<Longrightarrow> zl_deflate Z flush z inp n = (ret, used, ys, z') \<Longrightarrow>
      length ys < n \<Longrightarrow> I @ inp \<noteq> [] \<Longrightarrow>
      used = length inp \<and> (\<exists>body. W @ ys = body @ trailer) \<and> valid (E @ W @ ys) \<and>
      decoded (E @ W @ ys) = P @ I @ inp \<and> midway z' (P @ I @ inp) (E @ W @ ys) [] []"
    and deflate_reset_ok: "midway z P E I W \<Longrightarrow> zl_deflate_reset Z z = (Z_OK, z') \<Longrightarrow> midway z' [] [] [] []"

text \<open>
  Of \<open>inflate\<close>. \<open>reading z H W\<close>: since it was initialised the stream has taken the input \<open>H\<close> and written
  \<open>W\<close>. As long as the input is the beginning of a stream that \<open>deflate\<close> writes (\<open>valid\<close>), there is no data
  error and no end of the stream, and a call that leaves room in the output has taken all input and
  written all that is decoded by then. Of any other input nothing is said.
\<close>

locale inflate_streams =
  fixes Z :: "'z zlib" and bits :: int
    and reading :: "'z \<Rightarrow> byte list \<Rightarrow> byte list \<Rightarrow> bool"
    and decoded :: "byte list \<Rightarrow> byte list" and valid :: "byte list \<Rightarrow> bool"
  assumes inflate_ok: "reading z H W \<Longrightarrow> valid (H @ inp) \<Longrightarrow> 0 < n \<Longrightarrow>
      zl_inflate Z z inp n = (ret, used, ys, z') \<Longrightarrow>
      (ret = Z_OK \<or> ret = Z_BUF_ERROR) \<and> used \<le> length inp \<and> length ys \<le> n \<and>
      reading z' (H @ take used inp) (W @ ys)"
    and inflated: "reading z H W \<Longrightarrow> valid (H @ inp) \<Longrightarrow> 0 < n \<Longrightarrow>
      zl_inflate Z z inp n = (ret, used, ys, z') \<Longrightarrow> length ys < n \<Longrightarrow>
      used = length inp \<and> W @ ys = decoded (H @ inp)"
    and valid_prefix: "valid (xs @ ys) \<Longrightarrow> valid xs"
    and inflate_init_ok: "zl_inflate_init Z bits = (Z_OK, z') \<Longrightarrow> reading z' [] []"

text \<open>A buffer of a sane size, as the \<open>PermessageDeflate\<close> configuration gives it.\<close>

definition buf_ok :: "buffer \<Rightarrow> bool" where
  "buf_ok b \<longleftrightarrow> buffer_inv b \<and> buf_capacity b \<le> buf_max_size b \<and> unat (buf_max_size b) \<le> 2 ^ 63"

lemma buf_ok_len: "buf_ok b \<Longrightarrow> length (buffer_data b) \<le> unat (buf_max_size b)"
  by (auto simp: buf_ok_def buffer_inv_def word_le_nat_alt)

lemma internal_reserve_Err_code:
  "internal_reserve A n b = (Err e, b') \<Longrightarrow> err_code e = Buffer_error"
  by (auto simp: internal_reserve_def buffer_error_exceeds_def buffer_error_alloc_def
      split: if_splits option.splits)

lemma append_n_Err_code: "buffer_append_n A n b = (Err e, b') \<Longrightarrow> err_code e = Buffer_error"
  by (auto simp: buffer_append_n_def st_try_def Let_def split: if_splits prod.splits ws_result.splits
      dest: internal_reserve_Err_code)

lemma append_n_max:
  assumes "buf_capacity b \<le> buf_max_size b" and "buffer_append_n A n b = (Ok sp, b')"
  shows "buf_max_size b' = buf_max_size b \<and> buf_capacity b' \<le> buf_max_size b"
  using assms by (auto simp: buffer_append_n_def st_try_Ok Let_def internal_reserve_def
      split: if_splits option.splits)

lemma buffer_fill_fields:
  "buffer_fill off xs b = (r, b') \<Longrightarrow> buf_max_size b' = buf_max_size b \<and> buf_capacity b' = buf_capacity b"
  by (auto simp: buffer_fill_def split: if_splits option.splits)

text \<open>One round: the output cannot grow, or zlib reports an error, or its output has been added.\<close>

definition zlib_fine :: "int \<Rightarrow> bool" where
  "zlib_fine ret \<longleftrightarrow> ret = Z_OK \<or> ret = Z_STREAM_END \<or> ret = Z_BUF_ERROR"

lemma zlib_round_outcome:
  assumes b: "buf_ok b" and n: "0 < n" "n < 2 ^ 32"
    and run: "run z inp n = (ret, used, ys, z')" and ys: "length ys \<le> n"
  shows "(\<exists>e. zlib_round A desc run n inp (b, z) = (Err e, (b, z)) \<and> err_code e = Buffer_error) \<or>
    (\<exists>e b'. zlib_round A desc run n inp (b, z) = (Err e, (b', z')) \<and> err_code e = Compression_error \<and> \<not> zlib_fine ret) \<or>
    (\<exists>b'. zlib_round A desc run n inp (b, z) =
        (Ok (drop used inp, n - length ys, length ys), (b', z')) \<and> buf_ok b' \<and>
      buffer_data b' = buffer_data b @ ys \<and> buf_max_size b' = buf_max_size b \<and> zlib_fine ret)"
proof -
  have inv: "buffer_inv b" and cap: "buf_capacity b \<le> buf_max_size b"
    and mx: "unat (buf_max_size b) \<le> 2 ^ 63" using b by (auto simp: buf_ok_def)
  have n64: "unat (word_of_nat n :: u64) = n"
    using n by (simp add: unat_of_nat take_bit_nat_eq_self)
  have d64: "unat (word_of_nat (n - length ys) :: u64) = n - length ys"
    using n by (simp add: unat_of_nat take_bit_nat_eq_self)
  have fits: "length (buffer_data b) + unat (word_of_nat n :: u64) < 2 ^ 64"
    using buf_ok_len [OF b] mx n unfolding n64 by simp
  obtain r b1 where app: "buffer_append_n A (word_of_nat n) b = (r, b1)" by fastforce
  show ?thesis
  proof (cases r)
    case (Ok sp)
    then have ok: "buffer_append_n A (word_of_nat n) b = (Ok sp, b1)" using app by simp
    note o = buffer_append_n_Ok [OF inv fits ok] append_n_max [OF cap ok]
    have sp: "sp = (length (buffer_data b), n)" using o n64 by simp
    have "length (buffer_data b) + length ys \<le> length (buffer_data b1)" using o ys n64 by simp
    from buffer_fill_Ok [OF _ this] o obtain b2 where f:
      "buffer_fill (length (buffer_data b)) ys b1 = (Ok (), b2)" "buffer_inv b2"
      "buf_used b2 = buf_used b1" "buffer_data b2 = blit (length (buffer_data b)) ys (buffer_data b1)"
      by auto
    note ff = buffer_fill_fields [OF f(1)]
    show ?thesis
    proof (cases "zlib_fine ret")
      case True
      have used: "unat (buf_used b2) = length (buffer_data b) + n"
        using o f(3) n64 by (metis length_buffer_data)
      then have "word_of_nat (n - length ys) \<le> buf_used b2" by (simp add: word_le_nat_alt d64)
      from buffer_discard_end_Ok [OF f(2) this] obtain b3 where d:
        "buffer_discard_end (word_of_nat (n - length ys)) b2 = (Ok (), b3)" "buffer_inv b3"
        "buffer_data b3 = take (length (buffer_data b) + n - (n - length ys)) (buffer_data b2)"
        "buf_max_size b3 = buf_max_size b2" "buf_capacity b3 = buf_capacity b2"
        unfolding used d64 by blast
      have "length (buffer_data b) + n - (n - length ys) = length (buffer_data b) + length ys"
        using ys by simp
      then have "buffer_data b3 = buffer_data b @ ys"
        using d(3) f(4) o n64 ys by (simp add: blit_def)
      moreover have "buf_ok b3" using d o ff mx by (simp add: buf_ok_def)
      moreover have "zlib_round A desc run n inp (b, z) =
          (Ok (drop used inp, n - length ys, length ys), (b3, z'))"
        using True ok sp run f(1) d(1) unfolding zlib_fine_def by (elim disjE) (simp_all add: zlib_round_def)
      ultimately show ?thesis using d(4) ff o True by auto
    next
      case False
      then have "zlib_round A desc run n inp (b, z) = (Err (make_error desc), (b2, z'))"
        using ok sp run f(1) by (simp add: zlib_round_def zlib_fine_def)
      with False show ?thesis by (simp add: make_error_def)
    qed
  next
    case (Err e)
    then have "buffer_append_n A (word_of_nat n) b = (Err e, b1)" using app by simp
    with buffer_append_n_Err [OF this] append_n_Err_code [OF this] show ?thesis
      by (simp add: zlib_round_def)
  next
    case Abort
    with app buffer_append_n_no_abort [of A "word_of_nat n" b] show ?thesis by simp
  qed
qed

text \<open>
  The loop returns, because every round but the last adds to a bounded buffer. \<open>R\<close> is what holds
  of the input left, the stream and the output before a round, \<open>Q\<close> what a round makes of it that leaves
  room in its span. When \<open>R\<close> excludes errors of zlib (\<open>safe\<close>), those of the buffer are the only ones left.
\<close>

definition zlib_step ::
  "('z \<Rightarrow> byte list \<Rightarrow> nat \<Rightarrow> int \<times> nat \<times> byte list \<times> 'z) \<Rightarrow> bool \<Rightarrow>
     (byte list \<Rightarrow> 'z \<Rightarrow> byte list \<Rightarrow> bool) \<Rightarrow> ('z \<Rightarrow> byte list \<Rightarrow> bool) \<Rightarrow> bool"
where
  "zlib_step run safe R Q \<longleftrightarrow>
     (\<forall>inp z ws n ret used ys z'. R inp z ws \<longrightarrow> 0 < n \<longrightarrow> run z inp n = (ret, used, ys, z') \<longrightarrow>
        length ys \<le> n \<and> (safe \<longrightarrow> zlib_fine ret) \<and>
        (if length ys = n then R (drop used inp) z' (ws @ ys) else Q z' (ws @ ys)))"

lemma zlib_stepD:
  assumes "zlib_step run safe R Q" and "R inp z ws" and "0 < n" and "run z inp n = (ret, used, ys, z')"
  shows "length ys \<le> n" and "safe \<longrightarrow> zlib_fine ret"
    and "length ys = n \<Longrightarrow> R (drop used inp) z' (ws @ ys)" and "length ys < n \<Longrightarrow> Q z' (ws @ ys)"
  using assms unfolding zlib_step_def by (metis, metis, metis, metis less_irrefl)

lemma zlib_loop_rule:
  assumes grow: "\<And>xs. 0 < grow xs" "\<And>xs. grow xs < 2 ^ 32" and step: "zlib_step run safe R Q"
  shows "buf_ok b \<Longrightarrow> R inp z ws \<Longrightarrow>
    \<exists>r b' z'. zlib_loop A desc run grow inp sz (b, z) = Some (r, (b', z')) \<and>
      (case r of
         Ok n \<Rightarrow> \<exists>ys. n = sz + length ys \<and> buf_ok b' \<and> buffer_data b' = buffer_data b @ ys \<and>
           buf_max_size b' = buf_max_size b \<and> Q z' (ws @ ys)
       | Err e \<Rightarrow> err_code e = Buffer_error \<or> \<not> safe \<and> err_code e = Compression_error
       | Abort \<Rightarrow> False)"
proof (induction "unat (buf_max_size b) - length (buffer_data b)" arbitrary: b inp sz z ws rule: less_induct)
  case less
  define n where "n = grow inp"
  have n: "0 < n" "n < 2 ^ 32" using grow by (simp_all add: n_def)
  obtain ret used ys z1 where run: "run z inp n = (ret, used, ys, z1)" by (metis surj_pair)
  have len: "length ys \<le> n" and fine: "safe \<longrightarrow> zlib_fine ret" using zlib_stepD [OF step less.prems(2) n(1) run] by blast+
  have unf: "zlib_loop A desc run grow inp sz (b, z) =
      ws_try (ws_total (zlib_round A desc run n inp))
       (\<lambda>(inp', avail_out, n) s.
          if avail_out = 0 then zlib_loop A desc run grow inp' (sz + n) s else Some (Ok (sz + n), s)) (b, z)"
    unfolding n_def by (rule zlib_loop.simps)
  from zlib_round_outcome [where run = run and A = A and desc = desc, OF less.prems(1) n run len]
  consider (err) e s' where "ws_total (zlib_round A desc run n inp) (b, z) = Some (Err e, s')"
      "err_code e = Buffer_error \<or> \<not> safe \<and> err_code e = Compression_error"
    | (ok) b1 where "ws_total (zlib_round A desc run n inp) (b, z) =
        Some (Ok (drop used inp, n - length ys, length ys), (b1, z1))" "buf_ok b1"
      "buffer_data b1 = buffer_data b @ ys" "buf_max_size b1 = buf_max_size b"
    using fine by (elim disjE exE conjE) auto
  then show ?case
  proof cases
    case err
    then show ?thesis
      by (cases s') (simp add: unf ws_try_simps(2) [of "ws_total _"])
  next
    case ok
    show ?thesis
    proof (cases "length ys < n")
      case True
      with zlib_stepD(4) [OF step less.prems(2) n(1) run] ok show ?thesis
        by (auto simp: unf ws_try_simps(1) [of "ws_total _", OF ok(1)])
    next
      case False
      then have eq: "length ys = n" using len by simp
      have "length (buffer_data b1) \<le> unat (buf_max_size b1)" by (rule buf_ok_len [OF ok(2)])
      then have "unat (buf_max_size b1) - length (buffer_data b1) <
          unat (buf_max_size b) - length (buffer_data b)"
        using ok(3,4) eq n(1) by simp
      from less.hyps [OF this ok(2) zlib_stepD(3) [OF step less.prems(2) n(1) run eq], of "sz + length ys"] obtain r b' z' where
        run': "zlib_loop A desc run grow (drop used inp) (sz + length ys) (b1, z1) = Some (r, (b', z'))"
        and IH: "case r of
           Ok k \<Rightarrow> \<exists>ys'. k = sz + length ys + length ys' \<and> buf_ok b' \<and> buffer_data b' = buffer_data b1 @ ys' \<and>
             buf_max_size b' = buf_max_size b1 \<and> Q z' ((ws @ ys) @ ys')
         | Err e \<Rightarrow> err_code e = Buffer_error \<or> \<not> safe \<and> err_code e = Compression_error
         | Abort \<Rightarrow> False"
        by blast
      have "zlib_loop A desc run grow inp sz (b, z) = Some (r, (b', z'))"
        using run' eq by (simp add: unf ws_try_simps(1) [of "ws_total _", OF ok(1)])
      moreover have "case r of
           Ok k \<Rightarrow> \<exists>ys. k = sz + length ys \<and> buf_ok b' \<and> buffer_data b' = buffer_data b @ ys \<and>
             buf_max_size b' = buf_max_size b \<and> Q z' (ws @ ys)
         | Err e \<Rightarrow> err_code e = Buffer_error \<or> \<not> safe \<and> err_code e = Compression_error
         | Abort \<Rightarrow> False"
      proof (cases r)
        case (Ok k)
        with IH obtain ys' where y: "k = sz + length ys + length ys'" "buf_ok b'" "buffer_data b' = buffer_data b1 @ ys'"
          "buf_max_size b' = buf_max_size b1" "Q z' ((ws @ ys) @ ys')" by auto
        with Ok ok(3,4) show ?thesis by (auto intro!: exI [of _ "ys @ ys'"])
      qed (use IH in simp_all)
      ultimately show ?thesis by blast
    qed
  qed
qed

lemma inflate_grow_bounds: "0 < m \<Longrightarrow> 0 < inflate_grow m inp \<and> inflate_grow m inp < 2 ^ 32"
proof -
  assume m: "0 < m"
  have "m \<le> max m (word_of_nat (length inp) * 5)" by simp
  then have "unat m \<le> inflate_grow m inp" by (simp only: inflate_grow_def word_le_nat_alt)
  moreover have "0 < unat m" using m by (simp add: unat_gt_0)
  moreover have "inflate_grow m inp < 2 ^ 32"
    using unsigned_less [where 'a = nat, of "max m (word_of_nat (length inp) * 5)"]
    by (simp add: inflate_grow_def)
  ultimately show ?thesis by simp
qed

lemma deflate_grow_bounds: "0 < deflate_grow inp \<and> deflate_grow inp < 2 ^ 32"
proof -
  have "(64 :: u32) \<le> max 64 (word_of_nat (length inp))" by simp
  then have "unat (64 :: u32) \<le> deflate_grow inp" by (simp only: deflate_grow_def word_le_nat_alt)
  moreover have "deflate_grow inp < 2 ^ 32"
    using unsigned_less [where 'a = nat, of "max 64 (word_of_nat (length inp)) :: u32"]
    by (simp add: deflate_grow_def)
  ultimately show ?thesis by simp
qed

lemma avail_input_id: "length xs < 2 ^ 32 \<Longrightarrow> avail_input xs = xs"
  by (simp add: avail_input_def unat_of_nat take_bit_nat_eq_self)


lemma inflate_input_rule:
  assumes "0 < m" and "zlib_step (zl_inflate Z) safe R Q" and "buf_ok b" and "R (avail_input xs) z ws"
  shows "\<exists>r b' z'. inflate_input Z A xs m sz (b, z) = Some (r, (b', z')) \<and>
    (case r of
       Ok n \<Rightarrow> \<exists>ys. n = sz + length ys \<and> buf_ok b' \<and> buffer_data b' = buffer_data b @ ys \<and>
         buf_max_size b' = buf_max_size b \<and> Q z' (ws @ ys)
     | Err e \<Rightarrow> err_code e = Buffer_error \<or> \<not> safe \<and> err_code e = Compression_error
     | Abort \<Rightarrow> False)"
  unfolding inflate_input_def
  by (rule zlib_loop_rule [OF _ _ assms(2-4)]) (use inflate_grow_bounds [OF assms(1)] in simp_all)

lemma on_inflate_simp:
  "pc_istate c = Some z \<Longrightarrow> m (b, z) = Some (r, (b', z')) \<Longrightarrow>
     on_inflate m (b, c) = Some (r, (b', c\<lparr>pc_istate := Some z'\<rparr>))"
  by (simp add: on_inflate_def)

lemma inflate_reset_outcome:
  assumes "pc_istate c = Some z"
  shows "(\<exists>z'. inflate_reset Z (b, c) = (Ok (), (b, c\<lparr>pc_istate := Some z'\<rparr>)) \<and>
      zl_inflate_init Z (-1 * uint (server_max_window_bits (pc_def c))) = (Z_OK, z')) \<or>
    (\<exists>e c'. inflate_reset Z (b, c) = (Err e, (b, c')) \<and> err_code e = Compression_error)"
  using assms by (auto simp: inflate_reset_def make_error_def Let_def split: prod.splits)

lemma length_trailer [simp]: "length trailer = 4"
  by (simp add: trailer_def)

text \<open>Decompression as a whole: the message, then the trailer, then the reset.\<close>

lemma decompress_rule:
  assumes s1: "zlib_step (zl_inflate Z) safe R1 Q1" and s2: "zlib_step (zl_inflate Z) safe R2 Q2"
    and mid: "\<And>z ws. Q1 z ws \<Longrightarrow> R2 (avail_input trailer) z ws"
    and b: "buf_ok b" and c: "pc_istate c = Some z" "pc_decompress_buffer c = Some db"
    and start: "R1 (avail_input (buffer_data db)) z []"
  shows "\<exists>r b' c'. decompress Z A (b, c) = Some (r, (b', c')) \<and>
    (case r of
       Ok n \<Rightarrow> \<exists>ys zf. n = length ys \<and> buf_ok b' \<and> buffer_data b' = buffer_data b @ ys \<and>
         buf_max_size b' = buf_max_size b \<and> Q2 zf ys \<and>
         (if server_no_context_takeover (pc_def c)
          then \<exists>z'. zl_inflate_init Z (-1 * uint (server_max_window_bits (pc_def c))) = (Z_OK, z') \<and>
            pc_istate c' = Some z'
          else pc_istate c' = Some zf)
     | Err e \<Rightarrow> err_code e = Buffer_error \<or>
         err_code e = Compression_error \<and> (\<not> safe \<or> server_no_context_takeover (pc_def c))
     | Abort \<Rightarrow> False)"
proof -
  let ?in = "buffer_data db"
  have m: "(0 :: u32) < 64" "(0 :: u32) < 1" by (simp_all add: word_less_nat_alt)
  from inflate_input_rule [OF m(1) s1 b start, of A 0] obtain r1 b1 z1 where
    i1: "inflate_input Z A ?in 64 0 (b, z) = Some (r1, (b1, z1))"
    and o1: "case r1 of
       Ok n \<Rightarrow> \<exists>ys. n = 0 + length ys \<and> buf_ok b1 \<and> buffer_data b1 = buffer_data b @ ys \<and>
         buf_max_size b1 = buf_max_size b \<and> Q1 z1 ([] @ ys)
     | Err e \<Rightarrow> err_code e = Buffer_error \<or> \<not> safe \<and> err_code e = Compression_error
     | Abort \<Rightarrow> False" by blast
  define c1 where "c1 = c\<lparr>pc_istate := Some z1\<rparr>"
  have e1: "on_inflate (inflate_input Z A ?in 64 0) (b, c) = Some (r1, (b1, c1))"
    unfolding c1_def
    by (rule on_inflate_simp [where m = "inflate_input Z A ?in 64 0", OF c(1) i1])
  show ?thesis
  proof (cases r1)
    case (Ok n1)
    with o1 obtain ys1 where y1: "n1 = length ys1" "buf_ok b1" "buffer_data b1 = buffer_data b @ ys1"
      "buf_max_size b1 = buf_max_size b" "Q1 z1 ys1" by auto
    from inflate_input_rule [OF m(2) s2 y1(2) mid [OF y1(5)], of A n1] obtain r2 b2 z2 where
      i2: "inflate_input Z A trailer 1 n1 (b1, z1) = Some (r2, (b2, z2))"
      and o2: "case r2 of
         Ok n \<Rightarrow> \<exists>ys. n = n1 + length ys \<and> buf_ok b2 \<and> buffer_data b2 = buffer_data b1 @ ys \<and>
           buf_max_size b2 = buf_max_size b1 \<and> Q2 z2 (ys1 @ ys)
       | Err e \<Rightarrow> err_code e = Buffer_error \<or> \<not> safe \<and> err_code e = Compression_error
       | Abort \<Rightarrow> False" by blast
    define c2 where "c2 = c1\<lparr>pc_istate := Some z2\<rparr>"
    have e2: "on_inflate (inflate_input Z A trailer 1 n1) (b1, c1) = Some (r2, (b2, c2))"
      unfolding c2_def
      by (rule on_inflate_simp [where m = "inflate_input Z A trailer 1 n1", OF _ i2]) (simp add: c1_def)
    have dec: "decompress Z A (b, c) =
        ws_try (on_inflate (inflate_input Z A trailer 1 n1))
              (\<lambda>sz s. if server_no_context_takeover (pc_def (snd s))
                       then ws_try (ws_total (inflate_reset Z)) (\<lambda>_ s. Some (Ok sz, s)) s
                       else Some (Ok sz, s)) (b1, c1)"
      using e1 Ok c(2) by (simp add: decompress_def ws_try_simps(1) [of "on_inflate _"])
    have def2: "pc_def c2 = pc_def c" "pc_istate c2 = Some z2" by (simp_all add: c2_def c1_def)
    show ?thesis
    proof (cases r2)
      case ok2: (Ok n2)
      with o2 obtain ys2 where y2: "n2 = n1 + length ys2" "buf_ok b2" "buffer_data b2 = buffer_data b1 @ ys2"
        "buf_max_size b2 = buf_max_size b1" "Q2 z2 (ys1 @ ys2)" by auto
      have d: "n2 = length (ys1 @ ys2)" "buffer_data b2 = buffer_data b @ ys1 @ ys2" "buf_max_size b2 = buf_max_size b"
        using y1 y2 by simp_all
      have dec2: "decompress Z A (b, c) =
          (if server_no_context_takeover (pc_def c)
           then ws_try (ws_total (inflate_reset Z)) (\<lambda>_ s. Some (Ok n2, s)) (b2, c2)
           else Some (Ok n2, (b2, c2)))"
        using dec e2 ok2 def2 by (simp add: ws_try_simps(1) [of "on_inflate _"])
      show ?thesis
      proof (cases "server_no_context_takeover (pc_def c)")
        case False
        show ?thesis
          by (rule exI [of _ "Ok n2"], rule exI [of _ b2], rule exI [of _ c2])
            (use False dec2 d y2(2,5) def2(2) in \<open>auto intro!: exI [of _ "ys1 @ ys2"]\<close>)
      next
        case True
        from inflate_reset_outcome [OF def2(2), of Z b2] show ?thesis
        proof (elim disjE exE conjE)
          fix z' assume "inflate_reset Z (b2, c2) = (Ok (), (b2, c2\<lparr>pc_istate := Some z'\<rparr>))"
            and z': "zl_inflate_init Z (-1 * uint (server_max_window_bits (pc_def c2))) = (Z_OK, z')"
          then have "ws_total (inflate_reset Z) (b2, c2) =
              Some (Ok (), (b2, c2\<lparr>pc_istate := Some z'\<rparr>))" by simp
          with True dec2 have "decompress Z A (b, c) = Some (Ok n2, (b2, c2\<lparr>pc_istate := Some z'\<rparr>))"
            by (simp add: ws_try_simps(1) [of "ws_total _"])
          with True d y2(2,5) z' def2(1) show ?thesis by (auto intro!: exI [of _ "ys1 @ ys2"])
        next
          fix e c' assume "inflate_reset Z (b2, c2) = (Err e, (b2, c'))" "err_code e = Compression_error"
          then have "ws_total (inflate_reset Z) (b2, c2) = Some (Err e, (b2, c'))" by simp
          with True dec2 \<open>err_code e = Compression_error\<close> show ?thesis
            by (simp add: ws_try_simps(2) [of "ws_total _"])
        qed
      qed
    next
      case (Err e)
      with o2 dec e2 show ?thesis by (auto simp: ws_try_simps(2) [of "on_inflate _"])
    next
      case Abort
      with o2 show ?thesis by simp
    qed
  next
    case (Err e)
    with o1 e1 c(2) show ?thesis by (auto simp: decompress_def ws_try_simps(2) [of "on_inflate _"])
  next
    case Abort
    with o1 show ?thesis by simp
  qed
qed

text \<open>Any library: nothing is known of the output but its size.\<close>

lemma zlib_step_bounds: "zlib_bounds run \<Longrightarrow> zlib_step run False (\<lambda>_ _ _. True) (\<lambda>_ _. True)"
  unfolding zlib_bounds_def zlib_step_def by auto

context inflate_streams
begin

lemma inflate_step:
  assumes "valid H"
  shows "zlib_step (zl_inflate Z) True (\<lambda>inp z ws. \<exists>H'. reading z H' (W @ ws) \<and> H' @ inp = H)
    (\<lambda>z ws. reading z H (W @ ws) \<and> W @ ws = decoded H)"
  unfolding zlib_step_def
proof (intro allI impI)
  fix inp z ws n ret used ys z'
  assume "\<exists>H'. reading z H' (W @ ws) \<and> H' @ inp = H" and n: "0 < n"
    and run: "zl_inflate Z z inp n = (ret, used, ys, z')"
  then obtain H' where H': "reading z H' (W @ ws)" "H' @ inp = H" by blast
  with assms have v: "valid (H' @ inp)" by simp
  note ok = inflate_ok [OF H'(1) v n run] and fin = inflated [OF H'(1) v n run]
  show "length ys \<le> n \<and> (True \<longrightarrow> zlib_fine ret) \<and>
    (if length ys = n then \<exists>H'. reading z' H' (W @ ws @ ys) \<and> H' @ drop used inp = H
     else reading z' H (W @ ws @ ys) \<and> W @ ws @ ys = decoded H)"
  proof (cases "length ys = n")
    case True
    with ok H'(2) show ?thesis by (auto simp: zlib_fine_def intro!: exI [of _ "H' @ take used inp"])
  next
    case False
    with ok have "length ys < n" by simp
    with fin ok H'(2) False show ?thesis by (auto simp: zlib_fine_def)
  qed
qed

end

context deflate_streams
begin

lemma deflate_step:
  assumes "msg \<noteq> []"
  shows "zlib_step (zl_deflate Z flush) True (\<lambda>inp z ws. \<exists>I. midway z P E I ws \<and> I @ inp = msg)
    (\<lambda>z ws. (\<exists>body. ws = body @ trailer) \<and> valid (E @ ws) \<and> decoded (E @ ws) = P @ msg \<and>
       midway z (P @ msg) (E @ ws) [] [])"
  unfolding zlib_step_def
proof (intro allI impI)
  fix inp z ws n ret used ys z'
  assume "\<exists>I. midway z P E I ws \<and> I @ inp = msg" and n: "0 < n"
    and run: "zl_deflate Z flush z inp n = (ret, used, ys, z')"
  then obtain I where I: "midway z P E I ws" "I @ inp = msg" by blast
  note ok = deflate_ok [OF I(1) n run] and fin = flushed [OF I(1) n run, unfolded I(2)]
  show "length ys \<le> n \<and> (True \<longrightarrow> zlib_fine ret) \<and>
    (if length ys = n then \<exists>I. midway z' P E I (ws @ ys) \<and> I @ drop used inp = msg
     else (\<exists>body. ws @ ys = body @ trailer) \<and> valid (E @ ws @ ys) \<and> decoded (E @ ws @ ys) = P @ msg \<and>
       midway z' (P @ msg) (E @ ws @ ys) [] [])"
  proof (cases "length ys = n")
    case True
    with ok I(2) show ?thesis by (auto simp: zlib_fine_def intro!: exI [of _ "I @ take used inp"])
  next
    case False
    with ok have "length ys < n" by simp
    with fin ok False assms show ?thesis by (auto simp: zlib_fine_def)
  qed
qed

text \<open>What \<open>compress\<close> returns is the flushed output without its trailer.\<close>

lemma compress_outcome:
  assumes fl: "flush = client_flush_mode (pc_def c)"
    and c: "pc_ostate c = Some z" "pc_compress_buffer c = Some b" and z: "midway z P E [] []"
    and b: "buf_ok b" and e: "buffer_data b = []" and msg: "msg \<noteq> []" "length msg < 2 ^ 32"
  shows "\<exists>r c'. compress Z A msg c = Some (r, c') \<and>
    (case r of
       Ok (p, body) \<Rightarrow> \<exists>z'. valid (E @ body @ trailer) \<and> decoded (E @ body @ trailer) = P @ msg \<and>
         pc_ostate c' = Some z' \<and>
         (if client_no_context_takeover (pc_def c) then midway z' [] [] [] []
          else midway z' (P @ msg) (E @ body @ trailer) [] [])
     | Err e \<Rightarrow> err_code e = Buffer_error \<or>
         client_no_context_takeover (pc_def c) \<and> err_code e = Compression_error
     | Abort \<Rightarrow> False)"
proof -
  have g: "0 < deflate_grow xs" "deflate_grow xs < 2 ^ 32" for xs
    using deflate_grow_bounds by auto
  have "\<exists>I. midway z P E I [] \<and> I @ msg = msg" using z by auto
  from zlib_loop_rule [where grow = deflate_grow and A = A and desc = "''deflate''" and sz = 0, OF g deflate_step [OF msg(1)] b this]
  obtain r b' z' where
    "zlib_loop A ''deflate'' (zl_deflate Z flush) deflate_grow msg 0 (b, z) = Some (r, (b', z'))"
    and o: "case r of
       Ok n \<Rightarrow> \<exists>ys. n = 0 + length ys \<and> buf_ok b' \<and> buffer_data b' = buffer_data b @ ys \<and>
         buf_max_size b' = buf_max_size b \<and> (\<exists>body. [] @ ys = body @ trailer) \<and> valid (E @ [] @ ys) \<and>
         decoded (E @ [] @ ys) = P @ msg \<and> midway z' (P @ msg) (E @ [] @ ys) [] []
     | Err e \<Rightarrow> err_code e = Buffer_error \<or> \<not> True \<and> err_code e = Compression_error
     | Abort \<Rightarrow> False"
    by blast
  then have l: "deflate_loop Z A (client_flush_mode (pc_def c)) msg (b, z) = Some (r, (b', z'))"
    by (simp add: deflate_loop_def avail_input_id [OF msg(2)] fl)
  show ?thesis
  proof (cases r)
    case (Ok n)
    with o e obtain body where y: "n = length body + 4" "buffer_data b' = body @ trailer"
      "valid (E @ body @ trailer)" "decoded (E @ body @ trailer) = P @ msg"
      "midway z' (P @ msg) (E @ body @ trailer) [] []" by auto
    then have "take (strip_trailer n) (buffer_data b') = body" by (simp add: strip_trailer_def)
    with l Ok c y(3-5) deflate_reset_ok [OF y(5)] show ?thesis
      by (cases "client_no_context_takeover (pc_def c)"; cases "zl_deflate_reset Z z'")
        (auto simp: compress_def Let_def make_error_def)
  next
    case (Err e)
    with l o c show ?thesis by (simp add: compress_def Let_def)
  qed (use o in simp)
qed

end

subsection \<open>A codec to instantiate zlib with\<close>

text \<open>
  The smallest codec with the framing of a sync flush: every byte is sent as the token \<open>1, b\<close>, and
  two-byte tokens that start otherwise, such as those of the trailer, carry no data. The compressor
  keeps the bytes it could not write yet, the decompressor also the first byte of a split token.
\<close>

fun untoken :: "byte option \<Rightarrow> byte list \<Rightarrow> byte list \<times> byte option" where
  "untoken k [] = ([], k)"
| "untoken None (b # bs) = untoken (Some b) bs"
| "untoken (Some t) (b # bs) =
     (let (ys, k) = untoken None bs in (if t = 1 then b # ys else ys, k))"

lemma untoken_append:
  "untoken k (xs @ ys) = (fst (untoken k xs) @ fst (untoken (snd (untoken k xs)) ys),
     snd (untoken (snd (untoken k xs)) ys))"
  by (induction k xs rule: untoken.induct) (auto simp: case_prod_beta Let_def)

definition tokens :: "byte list \<Rightarrow> byte list" where
  "tokens xs = concat (map (\<lambda>b. [1, b]) xs)"

lemma untoken_tokens: "untoken None (tokens xs @ trailer) = (xs, None)"
  by (induction xs) (simp_all add: tokens_def trailer_def)

type_synonym token_state = "byte list \<times> byte option"

definition token_inflate_out :: "token_state \<Rightarrow> byte list \<Rightarrow> byte list" where
  "token_inflate_out z inp = fst z @ fst (untoken (snd z) inp)"

definition token_deflate_out :: "token_state \<Rightarrow> byte list \<Rightarrow> byte list" where
  "token_deflate_out z inp = (if inp = [] then fst z else fst z @ tokens inp @ trailer)"

definition token_zlib :: "token_state zlib" where
  "token_zlib =
     \<lparr>zl_inflate_init = (\<lambda>w. (Z_OK, ([], None))),
      zl_inflate = (\<lambda>z inp n. let ys = token_inflate_out z inp in
        (Z_OK, length inp, take n ys, (drop n ys, snd (untoken (snd z) inp)))),
      zl_inflate_end = (\<lambda>z. Z_OK),
      zl_deflate_init = (\<lambda>l w m. (Z_OK, ([], None))),
      zl_deflate = (\<lambda>flush z inp n. let ys = token_deflate_out z inp in
        (Z_OK, length inp, take n ys, (drop n ys, None))),
      zl_deflate_reset = (\<lambda>z. (Z_OK, ([], None)))\<rparr>"

definition token_midway :: "token_state \<Rightarrow> byte list \<Rightarrow> byte list \<Rightarrow> byte list \<Rightarrow> byte list \<Rightarrow> bool" where
  "token_midway z P E I W \<longleftrightarrow>
     untoken None E = (P, None) \<and> untoken None (W @ fst z) = (I, None) \<and>
     (if I = [] then W @ fst z = [] else \<exists>body. W @ fst z = body @ trailer)"

definition token_decoded :: "byte list \<Rightarrow> byte list" where
  "token_decoded xs = fst (untoken None xs)"

definition token_reading :: "token_state \<Rightarrow> byte list \<Rightarrow> byte list \<Rightarrow> bool" where
  "token_reading z H W \<longleftrightarrow> untoken None H = (W @ fst z, snd z)"

lemma untoken_None_append:
  "untoken None xs = (ys, None) \<Longrightarrow> untoken None xs' = (ys', k) \<Longrightarrow> untoken None (xs @ xs') = (ys @ ys', k)"
  by (simp add: untoken_append)

lemma token_midway_step:
  assumes "token_midway z P E I W"
  shows "token_midway (drop n (token_deflate_out z inp), None) P E (I @ inp) (W @ take n (token_deflate_out z inp))"
proof (cases "inp = []")
  case True
  with assms show ?thesis by (simp add: token_midway_def token_deflate_out_def)
next
  case False
  have "untoken None ((W @ fst z) @ (tokens inp @ trailer)) = (I @ inp, None)"
    using assms by (intro untoken_None_append untoken_tokens) (simp add: token_midway_def)
  moreover have "(W @ take n (token_deflate_out z inp)) @ drop n (token_deflate_out z inp) =
      (W @ fst z) @ (tokens inp @ trailer)"
    using False by (simp only: append_assoc append_take_drop_id token_deflate_out_def if_False)
  moreover have "\<exists>body. (W @ fst z) @ (tokens inp @ trailer) = body @ trailer"
    by (rule exI [of _ "(W @ fst z) @ tokens inp"]) simp
  ultimately show ?thesis using False assms by (simp only: token_midway_def fst_conv) simp
qed

lemma token_midway_flushed:
  assumes "token_midway (x, None) P E I W" and "x = []" and "I \<noteq> []"
  shows "(\<exists>body. W = body @ trailer) \<and> token_decoded (E @ W) = P @ I \<and> token_midway ([], None) (P @ I) (E @ W) [] []"
  using assms untoken_None_append [of E P W I None] by (auto simp: token_midway_def token_decoded_def)

interpretation token_deflate: deflate_streams token_zlib flush token_midway token_decoded "\<lambda>_. True"
proof unfold_locales
  fix z P E I W n inp ret used ys z'
  assume m: "token_midway z P E I W" and n: "0 < n"
    and run: "zl_deflate token_zlib flush z inp n = (ret, used, ys, z')"
  let ?out = "token_deflate_out z inp"
  have r: "ret = Z_OK" "used = length inp" "ys = take n ?out" "z' = (drop n ?out, None)"
    using run by (simp_all add: token_zlib_def Let_def)
  note step = token_midway_step [OF m, of n inp]
  show "(ret = Z_OK \<or> ret = Z_BUF_ERROR) \<and> used \<le> length inp \<and> length ys \<le> n \<and>
      token_midway z' P E (I @ take used inp) (W @ ys)"
    using r step by simp
  assume short: "length ys < n" and ne: "I @ inp \<noteq> []"
  have "drop n ?out = []" using short r(3) by simp
  from token_midway_flushed [OF step this ne] show "used = length inp \<and> (\<exists>body. W @ ys = body @ trailer) \<and> True \<and>
      token_decoded (E @ W @ ys) = P @ I @ inp \<and> token_midway z' (P @ I @ inp) (E @ W @ ys) [] []"
    using r short by simp
next
  fix z P E I W z'
  assume "zl_deflate_reset token_zlib z = (Z_OK, z')"
  then show "token_midway z' [] [] [] []" by (auto simp: token_zlib_def token_midway_def)
qed

interpretation token_inflate: inflate_streams token_zlib bits token_reading token_decoded "\<lambda>_. True"
proof unfold_locales
  fix z H W n inp ret used ys z'
  assume m: "token_reading z H W" and n: "0 < n" and run: "zl_inflate token_zlib z inp n = (ret, used, ys, z')"
  let ?out = "token_inflate_out z inp"
  have r: "ret = Z_OK" "used = length inp" "ys = take n ?out" "z' = (drop n ?out, snd (untoken (snd z) inp))"
    using run by (simp_all add: token_zlib_def Let_def)
  have all: "untoken None (H @ inp) = (W @ ?out, snd (untoken (snd z) inp))"
    using m by (simp add: token_reading_def untoken_append token_inflate_out_def)
  show "(ret = Z_OK \<or> ret = Z_BUF_ERROR) \<and> used \<le> length inp \<and> length ys \<le> n \<and>
      token_reading z' (H @ take used inp) (W @ ys)"
    using r all by (simp add: token_reading_def)
  assume "length ys < n"
  with r all show "used = length inp \<and> W @ ys = token_decoded (H @ inp)" by (simp add: token_decoded_def)
next
  fix z' assume "zl_inflate_init token_zlib bits = (Z_OK, z')"
  then show "token_reading z' [] []" by (auto simp: token_zlib_def token_reading_def)
qed simp

lemma token_zlib_bounds: "zlib_bounds (zl_inflate token_zlib)"
  by (simp add: zlib_bounds_def token_zlib_def Let_def)

subsection \<open>Properties\<close>

text \<open>
  C28: Decompression of a message always returns, whatever the peer sent and whatever return codes
  zlib gives: zlib need only stay inside the spans it is given. A success appends some bytes to the output
  buffer behind those already there, reports their number, never exceeds the buffer's maximum however much
  the message expands, and leaves a fresh stream when no context takeover was agreed; a failure is
  a buffer error or a compression error, never a failed assertion or a loop that grows for ever.
\<close>

theorem decompress_total:
  assumes "zlib_bounds (zl_inflate Z)" and "buf_ok b"
    and "pc_istate c = Some z" and "pc_decompress_buffer c = Some db"
  shows "\<exists>r b' c'. decompress Z A (b, c) = Some (r, (b', c')) \<and>
    (case r of
       Ok n \<Rightarrow> buf_ok b' \<and> (\<exists>ys. buffer_data b' = buffer_data b @ ys \<and> n = length ys) \<and>
         length (buffer_data b') \<le> unat (buf_max_size b) \<and>
         (server_no_context_takeover (pc_def c) \<longrightarrow>
            pc_istate c' = Some (snd (zl_inflate_init Z (-1 * uint (server_max_window_bits (pc_def c))))))
     | Err e \<Rightarrow> err_code e = Buffer_error \<or> err_code e = Compression_error
     | Abort \<Rightarrow> False)"
proof -
  note step = zlib_step_bounds [OF assms(1)]
  from decompress_rule [OF step step TrueI assms(2-4) TrueI, of A] obtain r b' c' where
    run: "decompress Z A (b, c) = Some (r, (b', c'))"
    and o: "case r of
       Ok n \<Rightarrow> \<exists>ys zf. n = length ys \<and> buf_ok b' \<and> buffer_data b' = buffer_data b @ ys \<and>
         buf_max_size b' = buf_max_size b \<and> True \<and>
         (if server_no_context_takeover (pc_def c)
          then \<exists>z'. zl_inflate_init Z (-1 * uint (server_max_window_bits (pc_def c))) = (Z_OK, z') \<and>
            pc_istate c' = Some z'
          else pc_istate c' = Some zf)
     | Err e \<Rightarrow> err_code e = Buffer_error \<or>
         err_code e = Compression_error \<and> (\<not> False \<or> server_no_context_takeover (pc_def c))
     | Abort \<Rightarrow> False" by blast
  have "case r of
       Ok n \<Rightarrow> buf_ok b' \<and> (\<exists>ys. buffer_data b' = buffer_data b @ ys \<and> n = length ys) \<and>
         length (buffer_data b') \<le> unat (buf_max_size b) \<and>
         (server_no_context_takeover (pc_def c) \<longrightarrow>
            pc_istate c' = Some (snd (zl_inflate_init Z (-1 * uint (server_max_window_bits (pc_def c))))))
     | Err e \<Rightarrow> err_code e = Buffer_error \<or> err_code e = Compression_error
     | Abort \<Rightarrow> False"
    using o buf_ok_len [of b'] by (cases r) auto
  with run show ?thesis by blast
qed

lemma buf_small_ok:
  "length xs = unat n \<Longrightarrow> 0 < n \<Longrightarrow> n \<le> m \<Longrightarrow> unat m \<le> 2 ^ 63 \<Longrightarrow>
     buf_ok \<lparr>buf_max_size = m, buf_capacity = n, buf_used = n, buf_mem = Some (a, xs)\<rparr> \<and>
     buffer_data \<lparr>buf_max_size = m, buf_capacity = n, buf_used = n, buf_mem = Some (a, xs)\<rparr> = xs"
  by (auto simp: buf_ok_def buffer_inv_def buffer_data_def max_def unat_gt_0 Suc_le_eq
      dest!: unat_gt_0 [THEN iffD2])

lemma buf_empty_ok:
  "unat m \<le> 2 ^ 63 \<Longrightarrow>
     buf_ok \<lparr>buf_max_size = m, buf_capacity = 0, buf_used = 0, buf_mem = None\<rparr> \<and>
     buffer_data \<lparr>buf_max_size = m, buf_capacity = 0, buf_used = 0, buf_mem = None\<rparr> = []"
  by (simp add: buf_ok_def buffer_inv_def buffer_data_def)

text \<open>The witness: a library that reports corrupt data for everything, as zlib does for a bad peer.\<close>

definition corrupt_zlib :: "token_state zlib" where
  "corrupt_zlib = token_zlib\<lparr>zl_inflate := (\<lambda>z inp n. (-3, 0, [], z))\<rparr>"

theorem decompress_total_witness:
  "\<exists>r b' c'. decompress corrupt_zlib (\<lambda>_. Some (0, \<lambda>_. 0))
      (\<lparr>buf_max_size = 1000, buf_capacity = 0, buf_used = 0, buf_mem = None\<rparr>,
       \<lparr>pc_def = pmd_default, pc_istate = Some ([], None), pc_ostate = None,
        pc_decompress_buffer = Some \<lparr>buf_max_size = 9, buf_capacity = 4, buf_used = 4,
          buf_mem = Some (64, [1, 72, 1, 105])\<rparr>, pc_compress_buffer = None\<rparr>) = Some (r, (b', c')) \<and>
    r \<noteq> Abort \<and> zlib_bounds (zl_inflate corrupt_zlib)"
proof -
  have "zlib_bounds (zl_inflate corrupt_zlib)" by (simp add: zlib_bounds_def corrupt_zlib_def)
  from decompress_total [OF this, of "\<lparr>buf_max_size = 1000, buf_capacity = 0, buf_used = 0, buf_mem = None\<rparr>"
      "\<lparr>pc_def = pmd_default, pc_istate = Some ([], None), pc_ostate = None,
        pc_decompress_buffer = Some \<lparr>buf_max_size = 9, buf_capacity = 4, buf_used = 4,
          buf_mem = Some (64, [1, 72, 1, 105])\<rparr>, pc_compress_buffer = None\<rparr>" _ _ "\<lambda>_. Some (0, \<lambda>_. 0)"]
    buf_empty_ok [of 1000] this
  show ?thesis by fastforce
qed

text \<open>Sender and receiver in step: the receiver has taken what the sender has written, and decoded it.\<close>

definition in_step ::
  "('z \<Rightarrow> byte list \<Rightarrow> byte list \<Rightarrow> byte list \<Rightarrow> byte list \<Rightarrow> bool) \<Rightarrow> ('y \<Rightarrow> byte list \<Rightarrow> byte list \<Rightarrow> bool) \<Rightarrow>
     'z pmd_ctx \<Rightarrow> 'y pmd_ctx \<Rightarrow> bool"
where
  "in_step midway reading c d \<longleftrightarrow>
     (\<exists>zo zi P E. pc_ostate c = Some zo \<and> pc_istate d = Some zi \<and> midway zo P E [] [] \<and> reading zi E P)"



end
