(* ===== verification/Xoshiro.thy ===== *)
theory Xoshiro
  imports Prelude
begin

section \<open>The random number generator (utils/random.hpp)\<close>

text \<open>
  \<open>xoshiro128p\<close> with its four state words as a record. The default constructor seeds from the
  clock; here the seed is the argument of \<open>xoshiro_new\<close>, which both constructors share.
\<close>

record xoshiro =
  xs0 :: u32
  xs1 :: u32
  xs2 :: u32
  xs3 :: u32

definition seed_splitmix64 :: "u64 \<Rightarrow> u64" where
  "seed_splitmix64 x =
     (let x = x + 0x9e3779b97f4a7c15;
          z = x;
          z = (z XOR drop_bit 30 z) * 0xbf58476d1ce4e5b9;
          z = (z XOR drop_bit 27 z) * 0x94d049bb133111eb
      in z XOR drop_bit 31 z)"

definition xoshiro_new :: "u64 \<Rightarrow> xoshiro" where
  "xoshiro_new seed =
     (let z = seed_splitmix64 seed; z' = seed_splitmix64 z in
      \<lparr>xs0 = ucast z, xs1 = ucast (drop_bit 32 z), xs2 = ucast z', xs3 = ucast (drop_bit 32 z')\<rparr>)"

definition rotl :: "u32 \<Rightarrow> nat \<Rightarrow> u32" where
  "rotl x k = push_bit k x OR drop_bit (32 - k) x"

definition xoshiro_next :: "xoshiro \<Rightarrow> u32 \<times> xoshiro" where
  "xoshiro_next s =
     (let result = xs0 s + xs3 s;
          t = push_bit 9 (xs1 s);
          s = s\<lparr>xs2 := xs2 s XOR xs0 s\<rparr>;
          s = s\<lparr>xs3 := xs3 s XOR xs1 s\<rparr>;
          s = s\<lparr>xs1 := xs1 s XOR xs2 s\<rparr>;
          s = s\<lparr>xs0 := xs0 s XOR xs3 s\<rparr>;
          s = s\<lparr>xs2 := xs2 s XOR t\<rparr>;
          s = s\<lparr>xs3 := rotl (xs3 s) 11\<rparr>
      in (result, s))"

text \<open>The jump functions: one round per bit of the table, low bit first.\<close>

definition xoshiro_xor :: "xoshiro \<Rightarrow> xoshiro \<Rightarrow> xoshiro" where
  "xoshiro_xor a b = \<lparr>xs0 = xs0 a XOR xs0 b, xs1 = xs1 a XOR xs1 b, xs2 = xs2 a XOR xs2 b,
     xs3 = xs3 a XOR xs3 b\<rparr>"

definition xoshiro_zero :: xoshiro where
  "xoshiro_zero = \<lparr>xs0 = 0, xs1 = 0, xs2 = 0, xs3 = 0\<rparr>"

definition jump_step :: "u32 \<Rightarrow> nat \<Rightarrow> xoshiro \<times> xoshiro \<Rightarrow> xoshiro \<times> xoshiro" where
  "jump_step jump_value b acc_s =
     (let (acc, s) = acc_s;
          acc = (if jump_value AND push_bit b 1 \<noteq> 0 then xoshiro_xor acc s else acc)
      in (acc, snd (xoshiro_next s)))"

definition jump_with :: "u32 list \<Rightarrow> xoshiro \<Rightarrow> xoshiro" where
  "jump_with table s =
     fst (fold (\<lambda>jump_value. fold (jump_step jump_value) [0..<32]) table (xoshiro_zero, s))"

definition jump :: "xoshiro \<Rightarrow> xoshiro" where
  "jump = jump_with [0x8764000b, 0xf542d2d3, 0x6fa035c3, 0x77f2db5b]"

definition long_jump :: "xoshiro \<Rightarrow> xoshiro" where
  "long_jump = jump_with [0xb523952e, 0x0b6f099f, 0xccf5a0ef, 0x1c580662]"

subsection \<open>The state is never all zero\<close>

lemma shift_fixed_zero:
  fixes w :: "'a::len word"
  assumes "w = push_bit k w" and "0 < k"
  shows "w = 0"
proof (rule bit_word_eqI)
  fix n
  assume "n < LENGTH('a)"
  have "\<not> bit w n"
  proof (induction n rule: less_induct)
    case (less n)
    have "bit w n \<longleftrightarrow> bit (push_bit k w) n" using assms(1) by simp
    also have "\<dots> \<longleftrightarrow> k \<le> n \<and> n < LENGTH('a) \<and> bit w (n - k)"
      by (auto simp: bit_simps)
    finally show ?case using less [of "n - k"] assms(2) by auto
  qed
  then show "bit w n = bit 0 n" by simp
qed

lemma rotl_11_zero: "rotl x 11 = 0 \<Longrightarrow> x = 0"
proof (rule bit_word_eqI)
  fix n
  assume r: "rotl x 11 = 0" and "n < LENGTH(32)"
  then have n: "n < 32" by simp
  have "\<not> bit (rotl x 11) m" for m using r by simp
  from this [of "n + 11"] this [of "n - 21"] n show "bit x n = bit 0 n"
    by (cases "n < 21") (auto simp: rotl_def bit_simps)
qed

lemma xor_zero_eq: "a XOR b = 0 \<Longrightarrow> a = (b :: 'a::len word)"
proof -
  assume "a XOR b = 0"
  then have "(a XOR b) XOR b = b" by simp
  then show "a = b" by (simp add: xor.assoc)
qed

lemma xoshiro_next_sel:
  "xs0 (snd (xoshiro_next s)) = xs0 s XOR (xs3 s XOR xs1 s)"
  "xs1 (snd (xoshiro_next s)) = xs1 s XOR (xs2 s XOR xs0 s)"
  "xs2 (snd (xoshiro_next s)) = (xs2 s XOR xs0 s) XOR push_bit 9 (xs1 s)"
  "xs3 (snd (xoshiro_next s)) = rotl (xs3 s XOR xs1 s) 11"
  by (simp_all add: xoshiro_next_def Let_def)

lemma xoshiro_next_zero:
  assumes "snd (xoshiro_next s) = xoshiro_zero"
  shows "s = xoshiro_zero"
proof -
  let ?t = "push_bit 9 (xs1 s)"
  let ?s2 = "xs2 s XOR xs0 s" and ?s3 = "xs3 s XOR xs1 s"
  have "?s2 XOR ?t = 0" and r: "rotl ?s3 11 = 0" and s1: "xs1 s XOR ?s2 = 0" and s0: "xs0 s XOR ?s3 = 0"
    using xoshiro_next_sel [of s] by (simp_all add: assms xoshiro_zero_def)
  then have e: "?s2 = ?t" "xs1 s = ?s2" by (blast intro: xor_zero_eq)+
  have "xs1 s = ?t" by (rule trans [OF e(2,1)])
  then have "xs1 s = 0" using shift_fixed_zero [of "xs1 s" 9] by simp
  moreover have "?s3 = 0" by (rule rotl_11_zero [OF r])
  moreover from this s0 have "xs0 s = 0" by simp
  moreover have "?s2 = 0" using \<open>xs1 s = 0\<close> e(2) by simp
  ultimately show ?thesis by (simp add: xoshiro_zero_def)
qed

lemma word_64_halves: "ucast z = (0 :: u32) \<Longrightarrow> ucast (drop_bit 32 z) = (0 :: u32) \<Longrightarrow> z = (0 :: u64)"
proof (rule bit_word_eqI)
  fix n
  assume lo: "ucast z = (0 :: u32)" and hi: "ucast (drop_bit 32 z) = (0 :: u32)" and "n < LENGTH(64)"
  then have "n < 64" by simp
  have "\<not> bit (ucast z :: u32) n" "\<not> bit (ucast (drop_bit 32 z) :: u32) (n - 32)" using lo hi by simp_all
  with \<open>n < 64\<close> show "bit z n = bit 0 n" by (cases "n < 32") (auto simp: bit_simps)
qed

lemma splitmix_zero: "seed_splitmix64 0 \<noteq> 0"
  by (simp add: seed_splitmix64_def Let_def)

lemma xoshiro_new_nonzero: "xoshiro_new seed \<noteq> xoshiro_zero"
proof
  assume "xoshiro_new seed = xoshiro_zero"
  then have "seed_splitmix64 seed = 0" and "seed_splitmix64 (seed_splitmix64 seed) = 0"
    by (auto simp: xoshiro_new_def xoshiro_zero_def Let_def intro: word_64_halves)
  then show False using splitmix_zero by simp
qed

text \<open>The outputs of a generator, and its states.\<close>

definition xoshiro_state :: "u64 \<Rightarrow> nat \<Rightarrow> xoshiro" where
  "xoshiro_state seed n = ((\<lambda>s. snd (xoshiro_next s)) ^^ n) (xoshiro_new seed)"

text \<open>
  For every seed and after any number of draws, the state of the generator is not all zero:
  the one state the algorithm must avoid, as it would produce zeros (and unmasked frames) for ever,
  is unreachable.
\<close>

theorem xoshiro_never_zero: "xoshiro_state seed n \<noteq> xoshiro_zero"
  by (induction n) (auto simp: xoshiro_state_def xoshiro_new_nonzero dest: xoshiro_next_zero)

end
