(* ===== verification/Mask_Key.thy ===== *)
theory Mask_Key
  imports Bytes Xoshiro
begin

section \<open>Frame masking (MaskKey.hpp)\<close>

text \<open>
  \<open>mask_aligned\<close> with the address of the data as an argument: the code masks the bytes before the
  next boundary one by one, then whole aligned chunks, then the rest. The chunk function is the one
  of the build: 16 bytes at once with SSE2 or NEON, else a 64-bit word. The key is a \<open>uint32_t\<close>
  whose object representation is XORed, so the byte order of the host is an argument. The key
  generators are a step on their state.
\<close>

type_synonym mask_key = u32

datatype mask_build = Simd128 | Word64

definition key_bytes :: "endian \<Rightarrow> mask_key \<Rightarrow> byte list" where
  "key_bytes native key = mem_bytes native key"

subsection \<open>The loops\<close>

text \<open>\<open>for (; i < n; ++i) data[i] ^= key_bytes[i & 3]\<close>\<close>

function mask_bytewise :: "byte list \<Rightarrow> nat \<Rightarrow> nat \<Rightarrow> byte list \<Rightarrow> byte list" where
  "mask_bytewise kb n i data =
     (if i < n then mask_bytewise kb n (i + 1) (data[i := data ! i XOR kb ! (i AND 3)]) else data)"
  by pat_completeness auto

termination
  by (relation "measure (\<lambda>(kb, n, i, data). n - i)") auto

text \<open>\<open>for (; i + align <= len; i += align) mask_func(data + i)\<close>, for a chunk size of at least 1.\<close>

function mask_chunks ::
  "nat \<Rightarrow> (byte list \<Rightarrow> byte list) \<Rightarrow> nat \<Rightarrow> nat \<Rightarrow> byte list \<Rightarrow> byte list \<times> nat" where
  "mask_chunks align f len i data =
     (if 0 < align \<and> i + align \<le> len
      then mask_chunks align f len (i + align) (blit i (f (subspan i align data)) data)
      else (data, i))"
  by pat_completeness auto

termination
  by (relation "measure (\<lambda>(align, f, len, i, data). len - i)") auto

declare mask_bytewise.simps [simp del] mask_chunks.simps [simp del]

definition mask_aligned ::
  "nat \<Rightarrow> nat \<Rightarrow> byte list \<Rightarrow> byte list \<Rightarrow> (byte list \<Rightarrow> byte list) \<Rightarrow> byte list" where
  "mask_aligned align ptr data kb mask_func =
     (let len = length data;
          unaligned = ptr AND (align - 1);
          unaligned = (if unaligned \<noteq> 0 then align - unaligned else unaligned);
          unaligned = (if unaligned > len then len else unaligned);
          data = mask_bytewise kb unaligned 0 data;
          (data, i) = mask_chunks align mask_func len unaligned data
      in mask_bytewise kb len i data)"

text \<open>The chunk functions of the builds.\<close>

definition mask_chunk_128 :: "byte list \<Rightarrow> byte list \<Rightarrow> byte list" where
  "mask_chunk_128 kb chunk = map2 (XOR) chunk (kb @ kb @ kb @ kb)"

definition mask_chunk_64 :: "endian \<Rightarrow> mask_key \<Rightarrow> byte list \<Rightarrow> byte list" where
  "mask_chunk_64 native key chunk =
     (let key_64 = push_bit 32 (ucast key) OR ucast key :: u64
      in mem_bytes native (from_mem native chunk XOR key_64))"

definition mask_fn :: "endian \<Rightarrow> mask_build \<Rightarrow> nat \<Rightarrow> mask_key \<Rightarrow> byte list \<Rightarrow> byte list" where
  "mask_fn native build ptr key data =
     (case build of
        Simd128 \<Rightarrow> mask_aligned 16 ptr data (key_bytes native key) (mask_chunk_128 (key_bytes native key))
      | Word64 \<Rightarrow> mask_aligned 8 ptr data (key_bytes native key) (mask_chunk_64 native key))"

text \<open>The generators.\<close>

definition constant_mask_key_gen :: "mask_key \<Rightarrow> mask_key \<times> mask_key" where
  "constant_mask_key_gen g = (g, g)"

definition default_mask_key_gen :: "xoshiro \<Rightarrow> mask_key \<times> xoshiro" where
  "default_mask_key_gen rng = xoshiro_next rng"

subsection \<open>What each loop does\<close>

lemma length_key_bytes [simp]: "length (key_bytes e k) = 4"
  by (simp add: key_bytes_def)

lemma and_3: "i AND 3 = i mod (4 :: nat)"
  using nat_and_pow2_mask [of i 2] by simp

lemma mask_bytewise_nth:
  "n \<le> length data \<Longrightarrow> length (mask_bytewise kb n i data) = length data \<and>
     (\<forall>j < length data. mask_bytewise kb n i data ! j =
        (if i \<le> j \<and> j < n then data ! j XOR kb ! (j mod 4) else data ! j))"
proof (induction kb n i data rule: mask_bytewise.induct)
  case (1 kb n i data)
  show ?case
  proof (cases "i < n")
    case True
    let ?d = "data[i := data ! i XOR kb ! (i mod 4)]"
    have step: "mask_bytewise kb n i data = mask_bytewise kb n (i + 1) ?d"
      using True by (subst mask_bytewise.simps) (simp add: and_3)
    have IH: "length (mask_bytewise kb n (i + 1) ?d) = length data \<and>
        (\<forall>j < length data. mask_bytewise kb n (i + 1) ?d ! j =
          (if i + 1 \<le> j \<and> j < n then ?d ! j XOR kb ! (j mod 4) else ?d ! j))"
      using 1 True by (simp add: and_3)
    have "mask_bytewise kb n i data ! j =
        (if i \<le> j \<and> j < n then data ! j XOR kb ! (j mod 4) else data ! j)" if "j < length data" for j
      using IH that True step by (cases "j = i") (auto simp: nth_list_update)
    with IH step show ?thesis by simp
  next
    case False
    then show ?thesis by (subst (1 2) mask_bytewise.simps) auto
  qed
qed

text \<open>A chunk function XORs with the key from its first byte on.\<close>

definition xors_key :: "nat \<Rightarrow> byte list \<Rightarrow> (byte list \<Rightarrow> byte list) \<Rightarrow> bool" where
  "xors_key align kb f \<longleftrightarrow>
     (\<forall>c. length c = align \<longrightarrow> length (f c) = align \<and> (\<forall>j < align. f c ! j = c ! j XOR kb ! (j mod 4)))"

lemma mask_chunks_nth:
  assumes "xors_key align kb f" and "4 dvd align" and "0 < align"
  shows "len = length data \<Longrightarrow> i \<le> len \<Longrightarrow>
     length (fst (mask_chunks align f len i data)) = len \<and>
     snd (mask_chunks align f len i data) = i + (len - i) div align * align \<and>
     (\<forall>j < len. fst (mask_chunks align f len i data) ! j =
        (if i \<le> j \<and> j < i + (len - i) div align * align
         then data ! j XOR kb ! ((j - i) mod 4) else data ! j))"
proof (induction "len - i" arbitrary: i data rule: less_induct)
  case less
  show ?case
  proof (cases "i + align \<le> len")
    case False
    then have "(len - i) div align = 0" using less.prems by simp
    with False less.prems show ?thesis by (subst (1 2 3) mask_chunks.simps) auto
  next
    case True
    let ?d = "blit i (f (subspan i align data)) data"
    have chunk: "length (subspan i align data) = align" using True less.prems by simp
    then have f: "length (f (subspan i align data)) = align"
      "\<And>j. j < align \<Longrightarrow> f (subspan i align data) ! j = data ! (i + j) XOR kb ! (j mod 4)"
      using assms(1) True less.prems by (auto simp: xors_key_def nth_subspan)
    have len: "length ?d = len" using f True less.prems by simp
    have d: "?d ! j = (if i \<le> j \<and> j < i + align then data ! j XOR kb ! ((j - i) mod 4) else data ! j)"
      if "j < len" for j
      using that f True less.prems by (auto simp: nth_blit)
    have IH: "length (fst (mask_chunks align f len (i + align) ?d)) = len \<and>
       snd (mask_chunks align f len (i + align) ?d)
         = i + align + (len - (i + align)) div align * align \<and>
       (\<forall>j < len. fst (mask_chunks align f len (i + align) ?d) ! j =
          (if i + align \<le> j \<and> j < i + align + (len - (i + align)) div align * align
           then ?d ! j XOR kb ! ((j - (i + align)) mod 4) else ?d ! j))"
      using True assms(3) len by (intro less.hyps) auto
    define x where "x = len - (i + align)"
    have "len - i = align + x" using True by (simp add: x_def)
    then have "(len - i) div align = Suc (x div align)"
      using assms(3) div_add_self1 [of align x] by simp
    then have q: "(len - i) div align = Suc ((len - (i + align)) div align)" by (simp only: x_def)
    have ph: "(j - (i + align)) mod 4 = (j - i) mod 4" if "i + align \<le> j" for j
    proof -
      from assms(2) obtain c where c: "align = 4 * c" by (auto simp: dvd_def)
      have "j - i = (j - (i + align)) + c * 4" using that by (simp add: c)
      then show ?thesis by (metis mod_mult_self1)
    qed
    have step: "mask_chunks align f len i data = mask_chunks align f len (i + align) ?d"
      using True assms(3) by (subst mask_chunks.simps) simp
    show ?thesis unfolding step q using IH d ph by auto
  qed
qed

lemma mask_chunk_128_xors: "length kb = 4 \<Longrightarrow> xors_key 16 kb (mask_chunk_128 kb)"
proof -
  assume "length kb = 4"
  then have "(kb @ kb @ kb @ kb) ! j = kb ! (j mod 4)" if "j < 16" for j
    using that by (cases "j < 4"; cases "j < 8"; cases "j < 12") (simp_all add: nth_append le_mod_geq)
  with \<open>length kb = 4\<close> show ?thesis by (simp add: xors_key_def mask_chunk_128_def)
qed

lemma le_bytes_xor_nth:
  "i < LENGTH('a::len) div 8 \<Longrightarrow> le_bytes (a XOR b :: 'a word) ! i = le_bytes a ! i XOR le_bytes b ! i"
  by (rule bit_word_eqI) (auto simp: bit_le_bytes_nth bit_simps)

lemma mem_bytes_xor_nth:
  "i < LENGTH('a::len) div 8 \<Longrightarrow>
     mem_bytes e (a XOR b :: 'a word) ! i = mem_bytes e a ! i XOR mem_bytes e b ! i"
  by (cases e) (auto simp: mem_bytes_def rev_nth le_bytes_xor_nth)

lemma mem_bytes_from_mem:
  "length bs * 8 = LENGTH('a::len) \<Longrightarrow> mem_bytes e (from_mem e bs :: 'a word) = bs"
  by (cases e) (simp_all add: mem_bytes_def from_mem_def le_bytes_le_word)

lemma mem_bytes_key_64:
  "mem_bytes e (push_bit 32 (ucast key) OR ucast key :: u64) = key_bytes e key @ key_bytes e key"
proof -
  have "le_bytes (push_bit 32 (ucast key) OR ucast key :: u64) = le_bytes key @ le_bytes key"
  proof (rule nth_equalityI)
    fix i
    assume "i < length (le_bytes (push_bit 32 (ucast key) OR ucast key :: u64))"
    then have i: "i < 8" by simp
    show "le_bytes (push_bit 32 (ucast key) OR ucast key :: u64) ! i = (le_bytes key @ le_bytes key) ! i"
    proof (rule bit_word_eqI)
      fix n
      assume "n < LENGTH(8)"
      then have "n < 8" by simp
      then show "bit (le_bytes (push_bit 32 (ucast key) OR ucast key :: u64) ! i) n =
          bit ((le_bytes key @ le_bytes key) ! i) n"
      proof (cases "i < 4")
        case True
        with \<open>n < 8\<close> show ?thesis by (simp add: nth_append bit_le_bytes_nth bit_simps)
      next
        case False
        then obtain k where k: "i = 4 + k" "k < 4" using i le_Suc_ex [of 4 i] by auto
        have "\<not> bit key (8 * i + n)" using k by (auto dest: bit_imp_le_length)
        with \<open>n < 8\<close> k show ?thesis by (simp add: nth_append bit_le_bytes_nth bit_simps algebra_simps)
      qed
    qed
  qed simp
  then show ?thesis by (cases e) (simp_all add: mem_bytes_def key_bytes_def)
qed

lemma mask_chunk_64_xors: "xors_key 8 (key_bytes e key) (mask_chunk_64 e key)"
proof -
  have "(key_bytes e key @ key_bytes e key) ! j = key_bytes e key ! (j mod 4)" if "j < 8" for j
    using that by (cases "j < 4") (simp_all add: nth_append le_mod_geq)
  then show ?thesis
    by (simp add: xors_key_def mask_chunk_64_def Let_def mem_bytes_xor_nth mem_bytes_from_mem
        mem_bytes_key_64)
qed


subsection \<open>The masked data\<close>

definition build_align :: "mask_build \<Rightarrow> nat" where
  "build_align build = (case build of Simd128 \<Rightarrow> 16 | Word64 \<Rightarrow> 8)"

text \<open>How many bytes come before the first aligned chunk, and which key byte position \<open>j\<close> gets.\<close>

definition mask_lead :: "mask_build \<Rightarrow> nat \<Rightarrow> nat \<Rightarrow> nat" where
  "mask_lead build ptr len =
     (let r = ptr mod build_align build in min len (if r \<noteq> 0 then build_align build - r else 0))"

definition mask_phase :: "mask_build \<Rightarrow> nat \<Rightarrow> nat \<Rightarrow> nat \<Rightarrow> nat" where
  "mask_phase build ptr len j =
     (let u = mask_lead build ptr len; c = (len - u) div build_align build * build_align build
      in if u \<le> j \<and> j < u + c then (j - u) mod 4 else j mod 4)"

lemma mask_aligned_nth:
  assumes f: "xors_key align kb f" and a: "align = 2 ^ k" "4 dvd align" and l: "len = length data"
    and u: "u = min len (if ptr mod align \<noteq> 0 then align - ptr mod align else 0)"
  shows "length (mask_aligned align ptr data kb f) = len \<and>
    (\<forall>j < len. mask_aligned align ptr data kb f ! j =
      data ! j XOR kb ! (if u \<le> j \<and> j < u + (len - u) div align * align then (j - u) mod 4 else j mod 4))"
proof -
  have r: "ptr AND (align - 1) = ptr mod align" using nat_and_pow2_mask [of ptr k] a by simp
  have uu: "(if (if ptr mod align \<noteq> 0 then align - ptr mod align else ptr mod align) > len then len
      else (if ptr mod align \<noteq> 0 then align - ptr mod align else ptr mod align)) = u"
    unfolding u by auto
  have pos: "0 < align" using a by simp
  have ul: "u \<le> len" by (simp add: u)
  define d1 where "d1 = mask_bytewise kb u 0 data"
  define d2 where "d2 = fst (mask_chunks align f len u d1)"
  define i2 where "i2 = snd (mask_chunks align f len u d1)"
  have m: "mask_aligned align ptr data kb f = mask_bytewise kb len i2 d2"
    unfolding mask_aligned_def Let_def r l [symmetric] uu case_prod_beta d1_def d2_def i2_def ..
  have d1: "length d1 = len" "\<forall>j < len. d1 ! j = (if j < u then data ! j XOR kb ! (j mod 4) else data ! j)"
    using mask_bytewise_nth [of u data kb 0] ul l by (simp_all add: d1_def)
  from mask_chunks_nth [OF f a(2) pos d1(1) [symmetric] ul]
  have d2: "length d2 = len" "i2 = u + (len - u) div align * align"
    "\<forall>j < len. d2 ! j = (if u \<le> j \<and> j < i2 then d1 ! j XOR kb ! ((j - u) mod 4) else d1 ! j)"
    by (simp_all add: d2_def i2_def)
  have "i2 \<le> len"
    using div_times_less_eq_dividend [of "len - u" align] ul unfolding d2(2) by linarith
  have fin: "length (mask_bytewise kb len i2 d2) = len"
    "\<forall>j < len. mask_bytewise kb len i2 d2 ! j = (if i2 \<le> j then d2 ! j XOR kb ! (j mod 4) else d2 ! j)"
    using mask_bytewise_nth [of len d2 kb i2] d2(1) by simp_all
  have "mask_bytewise kb len i2 d2 ! j =
      data ! j XOR kb ! (if u \<le> j \<and> j < i2 then (j - u) mod 4 else j mod 4)" if "j < len" for j
  proof -
    have "u \<le> i2" by (simp add: d2(2))
    consider "j < u" | "u \<le> j" "j < i2" | "i2 \<le> j" by linarith
    then show ?thesis
      using fin(2) d1(2) d2(3) that \<open>u \<le> i2\<close> by cases auto
  qed
  with fin(1) show ?thesis unfolding m d2(2) [symmetric] by blast
qed

lemma mask_fn_nth:
  "length (mask_fn e build ptr key data) = length data \<and>
   (\<forall>j < length data. mask_fn e build ptr key data ! j =
      data ! j XOR key_bytes e key ! mask_phase build ptr (length data) j)"
proof (cases build)
  case Simd128
  have "xors_key 16 (key_bytes e key) (mask_chunk_128 (key_bytes e key))"
    by (rule mask_chunk_128_xors) simp
  from mask_aligned_nth [OF this, of 4 "length data" data _ ptr, OF _ _ refl refl] Simd128
  show ?thesis by (simp add: mask_fn_def mask_phase_def mask_lead_def build_align_def Let_def)
next
  case Word64
  from mask_aligned_nth [OF mask_chunk_64_xors, of 3 "length data" data _ ptr e key, OF _ _ refl refl] Word64
  show ?thesis by (simp add: mask_fn_def mask_phase_def mask_lead_def build_align_def Let_def)
qed

lemma length_mask_fn [simp]: "length (mask_fn e build ptr key data) = length data"
  using mask_fn_nth by blast

text \<open>The transformation RFC 6455 defines (section 5.3).\<close>

definition rfc_mask :: "byte list \<Rightarrow> byte list \<Rightarrow> byte list" where
  "rfc_mask kb data = List.map (\<lambda>j. data ! j XOR kb ! (j mod 4)) [0..<length data]"

lemma length_rfc_mask [simp]: "length (rfc_mask kb data) = length data"
  by (simp add: rfc_mask_def)

lemma rfc_mask_involution [simp]: "rfc_mask kb (rfc_mask kb data) = data"
  by (rule nth_equalityI) (simp_all add: rfc_mask_def xor.assoc)

lemma mask_phase_aligned:
  assumes "ptr mod 4 = 0" and "j < len"
  shows "mask_phase build ptr len j = j mod 4"
proof -
  let ?a = "build_align build" and ?u = "mask_lead build ptr len"
  have a: "4 dvd ?a" "0 < ?a" by (cases build; simp add: build_align_def)+
  have "4 dvd ptr mod ?a" using assms(1) a(1) by (simp add: dvd_mod mod_eq_0_iff_dvd)
  then have "?u = len \<or> 4 dvd ?u"
    using a(1) by (auto simp: mask_lead_def Let_def min_def)
  then show ?thesis
  proof
    assume "?u = len"
    then show ?thesis using assms(2) by (simp add: mask_phase_def Let_def)
  next
    assume "4 dvd ?u"
    then have "(j - ?u) mod 4 = j mod 4" if "?u \<le> j"
      using that by (metis dvd_minus_mod le_add_diff_inverse mod_add_left_eq add_0 dvd_imp_mod_0)
    then show ?thesis by (simp add: mask_phase_def Let_def)
  qed
qed

lemma mask_fn_aligned:
  "ptr mod 4 = 0 \<Longrightarrow> mask_fn e build ptr key data = rfc_mask (key_bytes e key) data"
  using mask_fn_nth [of e build ptr key data]
  by (intro nth_equalityI) (simp_all add: rfc_mask_def mask_phase_aligned)

lemma mask_fn_twice: "mask_fn e build ptr key (mask_fn e build ptr key data) = data"
  using mask_fn_nth [of e build ptr key data]
    mask_fn_nth [of e build ptr key "mask_fn e build ptr key data"]
  by (intro nth_equalityI) (simp_all add: xor.assoc)

text \<open>
  C10: For data at an address divisible by four, the chunked masking of both builds is exactly the
  byte-wise masking of RFC 6455 with the key in memory order, for every length, and whatever the
  address is, masking twice gives the data back.
\<close>

theorem mask_fn_is_rfc_mask:
  assumes "ptr mod 4 = 0"
  shows "mask_fn e build ptr key data = rfc_mask (key_bytes e key) data \<and>
    mask_fn e build ptr' key (mask_fn e build ptr' key data) = data"
  using mask_fn_aligned [OF assms] mask_fn_twice by blast

theorem mask_fn_is_rfc_mask_witness:
  "mask_fn Little Simd128 4096 0x44332211 [0x61, 0x62, 0x63, 0x64, 0x65] =
     [0x70, 0x40, 0x50, 0x20, 0x74]"
proof -
  have "key_bytes Little 0x44332211 = [0x11, 0x22, 0x33, 0x44]"
    by (simp add: key_bytes_def mem_bytes_def le_bytes_def upt_small)
  then show ?thesis
    using mask_fn_is_rfc_mask [of 4096 Little Simd128 "0x44332211" "[0x61, 0x62, 0x63, 0x64, 0x65]"]
    by (simp add: rfc_mask_def)
qed

text \<open>
  C38: For data at an address that is not divisible by four, and long enough to contain an aligned
  chunk, the masking is wrong: the first chunk starts again with the first key byte, so the payload
  is sent with bytes that the peer, who follows the RFC, unmasks to something else whenever the key
  bytes differ.
\<close>

theorem mask_fn_misaligned:
  assumes "ptr mod 4 \<noteq> 0"
    and u: "u = build_align build - ptr mod build_align build"
    and long: "u + build_align build \<le> length data"
    and k: "key_bytes e key ! 0 \<noteq> key_bytes e key ! (u mod 4)"
  shows "rfc_mask (key_bytes e key) (mask_fn e build ptr key data) ! u \<noteq> data ! u \<and> u mod 4 \<noteq> 0"
proof -
  let ?a = "build_align build" and ?n = "length data"
  have a: "4 dvd ?a" "0 < ?a" by (cases build; simp add: build_align_def)+
  have r: "(ptr mod ?a) mod 4 \<noteq> 0" using assms(1) a(1) by (simp add: mod_mod_cancel)
  then have r0: "ptr mod ?a \<noteq> 0" by auto
  then have lead: "mask_lead build ptr ?n = u" using long by (simp add: mask_lead_def Let_def u)
  have "1 \<le> (?n - u) div ?a" using long a(2) by (simp add: Suc_le_eq div_greater_zero_iff)
  from mult_le_mono1 [OF this, of ?a] have "?a \<le> (?n - u) div ?a * ?a" by simp
  then have phase: "mask_phase build ptr ?n u = 0"
    using a(2) by (simp add: mask_phase_def Let_def lead)
  have "u < ?n" using long a(2) by simp
  then have m: "mask_fn e build ptr key data ! u = data ! u XOR key_bytes e key ! 0"
    using mask_fn_nth [of e build ptr key data] phase by auto
  have "(x XOR a) XOR b = x \<Longrightarrow> a = b" for x a b :: byte
  proof -
    assume "(x XOR a) XOR b = x"
    then have "x XOR ((x XOR a) XOR b) = 0" by simp
    then have "a XOR b = 0" by (simp add: xor.assoc)
    then show "a = b" by (rule xor_zero_eq)
  qed
  with k m \<open>u < ?n\<close>
  have ne: "rfc_mask (key_bytes e key) (mask_fn e build ptr key data) ! u \<noteq> data ! u"
    by (auto simp: rfc_mask_def)
  have "u mod 4 \<noteq> 0"
  proof
    assume "u mod 4 = 0"
    then have "4 dvd ?a - ptr mod ?a" by (simp add: u mod_eq_0_iff_dvd)
    then have "4 dvd ptr mod ?a"
      using a by (metis dvd_diffD1 mod_less_divisor nat_less_le)
    with r show False by (simp add: mod_eq_0_iff_dvd)
  qed
  with ne show ?thesis by blast
qed

theorem mask_fn_misaligned_witness:
  "rfc_mask (key_bytes Little 0x44332211) (mask_fn Little Simd128 4097 0x44332211 (replicate 40 0)) ! 15
     \<noteq> 0"
proof -
  have "key_bytes Little 0x44332211 = [0x11, 0x22, 0x33, 0x44]"
    by (simp add: key_bytes_def mem_bytes_def le_bytes_def upt_small)
  then show ?thesis
    using mask_fn_misaligned [of 4097 15 Simd128 "replicate 40 0" Little "0x44332211"]
    by (simp add: build_align_def)
qed

end
