(* ===== verification/Frame_IO.thy ===== *)
theory Frame_IO
  imports Frame Buffered_Socket Deflate_Context Mask_Key
begin

section \<open>The client object, and frames on the wire (WebSocketClient.hpp)\<close>

text \<open>
  The state of \<open>WebSocketClient\<close> and its two private functions \<open>read_frame\<close> and \<open>write_frame\<close>. The
  template parameters and the host are the record \<open>env\<close>: the transport, the mask key generator (a
  step on its state), zlib, the allocator, the byte order, the masking build, and what uninitialised
  memory holds. The logger is left out, and so is \<open>read_buffer_\<close>, which no function uses.

  \<open>write_frame\<close> masks the payload in place, so it runs on a pair of the payload memory and the
  client. The payload's address is an argument, as masking depends on its alignment.
\<close>

record ('s, 'g, 'z) env =
  e_transport :: "'s transport"
  e_mask_gen :: "'g \<Rightarrow> mask_key \<times> 'g"
  e_zlib :: "'z zlib"
  e_alloc :: allocator
  e_endian :: endian
  e_build :: mask_build
  e_junk :: "nat \<Rightarrow> byte"

record ('s, 'g, 'z) client =
  cl_closed :: bool
  cl_socket :: "'s bsock"
  cl_mask_key_gen :: 'g
  cl_pmd_ctx :: "'z pmd_ctx option"
  cl_write_buffer :: "byte list"
  cl_write_ptr :: nat
  cl_read_state :: message_read_state

definition client_new ::
  "('s, 'g, 'z) env \<Rightarrow> nat \<Rightarrow> 's \<Rightarrow> 'g \<Rightarrow> ('s, 'g, 'z) client ws_result"
where
  "client_new E ptr socket gen =
     res_try (bsock_new (e_junk E) socket)
       (\<lambda>s. Ok \<lparr>cl_closed = True, cl_socket = s, cl_mask_key_gen = gen, cl_pmd_ctx = None,
                cl_write_buffer = map (e_junk E) [0..<128], cl_write_ptr = ptr,
                cl_read_state = read_state_reset\<rparr>)"

definition is_open :: "('s, 'g, 'z) client \<Rightarrow> bool" where
  "is_open c = (\<not> cl_closed c)"

definition is_closed :: "('s, 'g, 'z) client \<Rightarrow> bool" where
  "is_closed c = cl_closed c"

text \<open>What every operation of a closed client returns.\<close>

definition closed_error :: ws_error where
  "closed_error = WSError Connection_closed (Client_msg Msg_closed_state) not_set"

definition on_sock :: "('s bsock, 'r) ws \<Rightarrow> (('s, 'g, 'z) client, 'r) ws" where
  "on_sock = on_part cl_socket (\<lambda>k c. c\<lparr>cl_socket := k\<rparr>)"

text \<open>\<open>Timeout timeout(timeout_ms)\<close> and \<open>timeout.is_expired()\<close> read the clock.\<close>

definition start_timeout :: "('s, 'g, 'z) env \<Rightarrow> int \<Rightarrow> (('s, 'g, 'z) client, timeout) ws" where
  "start_timeout E ms = on_sock (on_socket (ws_total (timeout_new (tr_now (e_transport E)) ms)))"

definition check_expired :: "('s, 'g, 'z) env \<Rightarrow> timeout \<Rightarrow> (('s, 'g, 'z) client, bool) ws" where
  "check_expired E to =
     on_sock (on_socket (ws_total (\<lambda>s. let (x, s) = is_expired (tr_now (e_transport E)) to s in (Ok x, s))))"

subsection \<open>Reading a frame\<close>

text \<open>Read into memory that holds \<open>dest\<close>, and into a local array of \<open>n\<close> bytes.\<close>

definition read_span :: "('s, 'g, 'z) env \<Rightarrow> byte list \<Rightarrow> timeout \<Rightarrow> ('s bsock, byte list) ws" where
  "read_span E dest to s =
     (case read_exact (e_transport E) to (dest, s) of
        None \<Rightarrow> None
      | Some (r, (dest', s')) \<Rightarrow>
          Some (case r of Ok _ \<Rightarrow> Ok dest' | Err e \<Rightarrow> Err e | Abort \<Rightarrow> Abort, s'))"

definition read_array :: "('s, 'g, 'z) env \<Rightarrow> nat \<Rightarrow> timeout \<Rightarrow> ('s bsock, byte list) ws" where
  "read_array E n = read_span E (map (e_junk E) [0..<n])"

definition frame_error :: "frame_message \<Rightarrow> ws_error" where
  "frame_error m = WSError Protocol_error (Frame_msg m) cc_protocol_error"

definition read_payload_size :: "('s, 'g, 'z) env \<Rightarrow> u64 \<Rightarrow> timeout \<Rightarrow> (('s, 'g, 'z) client, u64) ws" where
  "read_payload_size E payload_size to =
     (if payload_size \<le> 125 then ws_return payload_size
      else if payload_size = 126
      then ws_try (on_sock (read_array E 2 to))
             (\<lambda>tmp2. ws_return (ucast (network_to_host16 (e_endian E) (from_mem (e_endian E) tmp2))))
      else ws_try (on_sock (read_array E 8 to))
             (\<lambda>tmp3. ws_return (network_to_host64 (e_endian E) (from_mem (e_endian E) tmp3))))"

definition read_frame :: "('s, 'g, 'z) env \<Rightarrow> timeout \<Rightarrow> (('s, 'g, 'z) client, frame) ws" where
  "read_frame E to =
     ws_try (on_sock (read_array E 2 to))
       (\<lambda>tmp1.
          let h = \<lparr>hdr_b0 = tmp1 ! 0, hdr_b1 = tmp1 ! 1\<rparr>
          in if \<not> is_final h \<and> op_code h = Op_close then ws_fail (frame_error Msg_fragmented_close)
             else ws_try (read_payload_size E (get_basic_size h) to)
                    (\<lambda>sz. if is_masked h then ws_fail (frame_error Msg_masked_from_server)
                           else ws_return (frame_new\<lparr>fr_header := h, fr_payload_size := sz\<rparr>)))"

subsection \<open>Writing a frame\<close>

text \<open>The header is put together in the first bytes of \<open>write_buffer_\<close>; the result is its length.\<close>

definition put :: "nat \<Rightarrow> byte list \<Rightarrow> ('s, 'g, 'z) client \<Rightarrow> ('s, 'g, 'z) client" where
  "put p xs c = c\<lparr>cl_write_buffer := blit p xs (cl_write_buffer c)\<rparr>"

definition put_header :: "('s, 'g, 'z) env \<Rightarrow> frame \<Rightarrow> (('s, 'g, 'z) client, nat) ws" where
  "put_header E f c =
     (let sz = fr_payload_size f;
          c = put 1 [hdr_b1 (fr_header f)] (put 0 [hdr_b0 (fr_header f)] c);
          len = (if sz > 125 \<and> sz \<le> 0xFFFF
                 then mem_bytes (e_endian E) (host_to_network16 (e_endian E) (ucast sz))
                 else if sz > 0xFFFF
                 then mem_bytes (e_endian E) (host_to_network64 (e_endian E) sz)
                 else []);
          c = put 2 len c;
          offset = 2 + length len
      in if \<not> is_masked (fr_header f) then Some (Err (frame_error Msg_must_be_masked), c)
         else let c = put offset (key_bytes (e_endian E) (fr_mask_key f)) c
              in Some (Ok (offset + 4), c))"

definition write_frame ::
  "('s, 'g, 'z) env \<Rightarrow> frame \<Rightarrow> nat \<Rightarrow> timeout \<Rightarrow> (byte list \<times> ('s, 'g, 'z) client, unit) ws"
where
  "write_frame E f ptr to =
     ws_try (on_snd (put_header E f))
       (\<lambda>offset s.
          let payload = mask_fn (e_endian E) (e_build E) ptr (fr_mask_key f) (fst s);
              header = subspan 0 offset (cl_write_buffer (snd s))
          in ws_try (on_snd (on_sock (bs_write (e_transport E) header to)))
               (\<lambda>_. if fr_payload_size f > 0
                     then on_snd (on_sock (bs_write (e_transport E) payload to))
                     else ws_return ())
               (payload, snd s))"


subsection \<open>The wire format of RFC 6455 (section 5.2)\<close>

definition rfc_frame :: "bool \<Rightarrow> bool \<Rightarrow> opcode \<Rightarrow> byte list option \<Rightarrow> byte list \<Rightarrow> byte list" where
  "rfc_frame fin rsv1 op key payload =
     (let n = word_of_nat (length payload)
      in [first_byte fin rsv1 op, second_byte (key \<noteq> None) n] @ length_bytes n @
         (case key of None \<Rightarrow> payload | Some kb \<Rightarrow> kb @ rfc_mask kb payload))"

text \<open>The length of the extended length field that the second byte announces, and its value.\<close>

definition ext_len :: "byte \<Rightarrow> nat" where
  "ext_len b1 = (let n = b1 AND 0x7F in if n \<le> 125 then 0 else if n = 126 then 2 else 8)"

definition ext_size :: "byte \<Rightarrow> byte list \<Rightarrow> u64" where
  "ext_size b1 ext =
     (let n = b1 AND 0x7F
      in if n \<le> 125 then ucast n else if n = 126 then ucast (be_word ext :: u16) else be_word ext)"

lemma unat_ucast_up:
  fixes w :: "'a::len word"
  assumes "LENGTH('a) \<le> LENGTH('b::len)"
  shows "unat (ucast w :: 'b word) = unat w"
proof -
  have "unat w < 2 ^ LENGTH('a)" by (rule unsigned_less)
  also have "(2 :: nat) ^ LENGTH('a) \<le> 2 ^ LENGTH('b)" using assms by (rule power_increasing) simp
  finally show ?thesis by (simp add: unsigned_ucast_eq take_bit_nat_eq_self)
qed

lemma ucast_byte_le: "(ucast (b :: byte) :: u64) \<le> 125 \<longleftrightarrow> b \<le> 125"
  by (simp add: word_le_nat_alt unat_ucast_up)

lemma ucast_byte_eq: "(ucast (b :: byte) :: u64) = 126 \<longleftrightarrow> b = 126"
  by (simp add: word_unat_eq_iff unat_ucast_up)

lemma ext_second_byte:
  "ext_len (second_byte masked n) = length (length_bytes n)"
  "ext_size (second_byte masked n) (length_bytes n) = n"
proof -
  have f: "second_byte masked n AND 0x7F = size_field n"
    using small_byte_masks [OF size_field_less [of n]] by (simp add: second_byte_alt)
  have le: "n \<le> 125 \<Longrightarrow> size_field n \<le> 125"
    using unat_ucast_small [of n] by (simp add: size_field_def word_le_nat_alt)
  have u: "n \<le> 125 \<Longrightarrow> (ucast (size_field n) :: u64) = n"
    using second_byte_accessors(2) [of 0 masked n] f by (simp add: get_basic_size_def mask_payload_def)
  have h: "n \<le> 0xFFFF \<Longrightarrow> ucast (ucast n :: u16) = n"
    by (rule word_unat_eq_iff [THEN iffD2])
      (simp add: unat_ucast_up, simp add: unsigned_ucast_eq word_le_nat_alt take_bit_nat_eq_self)
  show "ext_len (second_byte masked n) = length (length_bytes n)"
    unfolding ext_len_def f Let_def using le by (auto simp: size_field_def length_bytes_def)
  show "ext_size (second_byte masked n) (length_bytes n) = n"
    unfolding ext_size_def f Let_def using le u h
    by (auto simp: size_field_def length_bytes_def be_word_be_bytes)
qed

text \<open>A decoder for one frame with a payload of at most \<open>2\<^sup>6\<^sup>4\<close> bytes: the parts and what follows.\<close>

definition rfc_decode ::
  "byte list \<Rightarrow> ((bool \<times> bool \<times> opcode \<times> byte list option \<times> byte list) \<times> byte list) option"
where
  "rfc_decode bs =
     (case bs of
        b0 # b1 # rest \<Rightarrow>
          (let h = \<lparr>hdr_b0 = b0, hdr_b1 = b1\<rparr>;
               ext = take (ext_len b1) rest; n = unat (ext_size b1 ext);
               rest = drop (ext_len b1) rest;
               key = (if is_masked h then Some (take 4 rest) else None);
               rest = (if is_masked h then drop 4 rest else rest);
               payload = (case key of None \<Rightarrow> take n rest | Some kb \<Rightarrow> rfc_mask kb (take n rest))
           in if length rest < n then None
              else Some ((is_final h, rsv1_bit h, op_code h, key, payload), drop n rest))
      | _ \<Rightarrow> None)"

lemma rfc_decode_frame:
  assumes op: "op \<noteq> Op_not_set" and n: "length payload < 2 ^ 64"
    and key: "\<forall>kb. key = Some kb \<longrightarrow> length kb = 4"
  shows "rfc_decode (rfc_frame fin rsv1 op key payload @ rest) = Some ((fin, rsv1, op, key, payload), rest)"
proof -
  let ?n = "word_of_nat (length payload) :: u64"
  have un: "unat ?n = length payload" using n by (rule word_of_nat_64)
  show ?thesis
    using key
    by (cases key)
      (simp_all add: rfc_decode_def rfc_frame_def Let_def ext_second_byte un first_byte_accessors [OF op]
        second_byte_accessors)
qed

subsection \<open>Lifted contracts\<close>

definition cl_stream :: "('s \<Rightarrow> byte list) \<Rightarrow> ('s, 'g, 'z) client \<Rightarrow> byte list" where
  "cl_stream pend c = bs_stream pend (cl_socket c)"

definition cl_sent :: "('s \<Rightarrow> byte list) \<Rightarrow> ('s, 'g, 'z) client \<Rightarrow> byte list" where
  "cl_sent sent c = bs_sent sent (cl_socket c)"

definition cl_ready :: "('s \<Rightarrow> bool) \<Rightarrow> ('s, 'g, 'z) client \<Rightarrow> bool" where
  "cl_ready I c \<longleftrightarrow> bs_ready I (cl_socket c)"

lemmas cl_defs = cl_stream_def cl_sent_def cl_ready_def

lemma on_sock_Some [result_simps]:
  "on_sock m c = Some (r, c') \<longleftrightarrow> (\<exists>k. m (cl_socket c) = Some (r, k) \<and> c' = c\<lparr>cl_socket := k\<rparr>)"
  by (auto simp: on_sock_def on_part_Some)

lemma frame_header_size:
  "ucast (hdr_b1 h AND 0x7F) = get_basic_size h"
  by (simp add: get_basic_size_def mask_payload_def)

context delivering_socket
begin

lemma clock_tick:
  assumes "bs_ready inv k" and "tr_now T (bs_socket k) = (t, s')"
  shows "consumes [] k (k\<lparr>bs_socket := s'\<rparr>)"
  using assms now_ok [of "bs_socket k" t s'] by (simp add: consumes_def bs_defs)

lemma start_timeout_ok:
  assumes E: "e_transport E = T" and c: "cl_ready inv c" and ms: "0 < ms"
  shows "\<exists>s'. start_timeout E ms c = Some (Ok \<lparr>to_start = fst (tr_now T (bs_socket (cl_socket c))), to_timeout = ms\<rparr>,
      c\<lparr>cl_socket := s'\<rparr>) \<and> consumes [] (cl_socket c) s' \<and> bs_ring s' = bs_ring (cl_socket c)"
proof -
  obtain t s' where now: "tr_now T (bs_socket (cl_socket c)) = (t, s')" by fastforce
  have "start_timeout E ms c =
      Some (Ok \<lparr>to_start = t, to_timeout = ms\<rparr>, c\<lparr>cl_socket := (cl_socket c)\<lparr>bs_socket := s'\<rparr>\<rparr>)"
    using E ms now by (simp add: start_timeout_def on_sock_Some on_socket_Some timeout_new_def timeout_at_def)
  then show ?thesis using clock_tick [OF _ now] c now by (auto simp: cl_defs)
qed

lemma read_exact_take:
  assumes s: "bs_ready inv s" and n: "length dest \<le> length (bs_stream pend s)"
  shows "\<exists>s'. read_exact T to (dest, s) = Some (Ok (length dest), (take (length dest) (bs_stream pend s), s')) \<and>
    consumes (take (length dest) (bs_stream pend s)) s s'"
proof -
  from read_exact_live [OF s, of to dest] n obtain k st where
    run: "read_exact T to (dest, s) = Some (Ok k, st)" by auto
  obtain dest' s' where st: "st = (dest', s')" by fastforce
  from read_exact_outcome [OF s run [unfolded st]] have
    o: "consumes dest' s s'" "length dest' = length dest" "k = length dest" by simp_all
  then have "dest' = take (length dest) (bs_stream pend s)" by (auto simp: consumes_def)
  with run st o show ?thesis by auto
qed

lemma read_span_live:
  assumes E: "e_transport E = T" and s: "bs_ready inv s" and n: "length dest \<le> length (bs_stream pend s)"
  shows "\<exists>s'. read_span E dest to s = Some (Ok (take (length dest) (bs_stream pend s)), s') \<and>
    consumes (take (length dest) (bs_stream pend s)) s s'"
  using read_exact_take [OF s n, of to] E by (auto simp: read_span_def)

lemma read_array_live:
  assumes E: "e_transport E = T" and s: "bs_ready inv s" and n: "n \<le> length (bs_stream pend s)"
  shows "\<exists>s'. read_array E n to s = Some (Ok (take n (bs_stream pend s)), s') \<and>
    consumes (take n (bs_stream pend s)) s s'"
  using read_span_live [OF E s, of "map (e_junk E) [0..<n]" to] n by (simp add: read_array_def)

text \<open>The error a header deserves, if any, and the frame it announces.\<close>

lemma read_payload_size_live:
  assumes E: "e_transport E = T" and c: "cl_ready inv c"
    and str: "cl_stream pend c = ext @ rest" and len: "length ext = ext_len b1"
  shows "\<exists>s'. read_payload_size E (ucast (b1 AND 0x7F)) to c = Some (Ok (ext_size b1 ext), c\<lparr>cl_socket := s'\<rparr>) \<and>
    consumes ext (cl_socket c) s'"
proof -
  let ?n = "b1 AND 0x7F"
  have rd: "\<exists>s'. read_array E (length ext) to (cl_socket c) = Some (Ok ext, s') \<and> consumes ext (cl_socket c) s'"
    using read_array_live [OF E, of "cl_socket c" "length ext" to] c str by (simp add: cl_defs)
  consider "?n \<le> 125" | "\<not> ?n \<le> 125" "?n = 126" | "\<not> ?n \<le> 125" "?n \<noteq> 126" by blast
  then show ?thesis
  proof cases
    case 1
    then show ?thesis
      using c len by (intro exI [of _ "cl_socket c"])
        (simp add: read_payload_size_def ucast_byte_le ext_len_def ext_size_def Let_def consumes_refl cl_ready_def)
  next
    case 2
    then have l: "length ext = 2" using len by (simp add: ext_len_def)
    with rd obtain s' where s': "read_array E 2 to (cl_socket c) = Some (Ok ext, s')" "consumes ext (cl_socket c) s'"
      by auto
    then have "on_sock (read_array E 2 to) c = Some (Ok ext, c\<lparr>cl_socket := s'\<rparr>)" by (simp add: on_sock_Some)
    with 2 l s'(2) show ?thesis
      by (auto simp: read_payload_size_def ext_size_def ws_try_simps(1) [of "on_sock _"] network_to_host16_mem)
  next
    case 3
    then have l: "length ext = 8" using len by (simp add: ext_len_def)
    with rd obtain s' where s': "read_array E 8 to (cl_socket c) = Some (Ok ext, s')" "consumes ext (cl_socket c) s'"
      by auto
    then have "on_sock (read_array E 8 to) c = Some (Ok ext, c\<lparr>cl_socket := s'\<rparr>)" by (simp add: on_sock_Some)
    with 3 l s'(2) show ?thesis
      by (auto simp: read_payload_size_def ext_size_def ws_try_simps(1) [of "on_sock _"] network_to_host64_mem
          ucast_byte_le ucast_byte_eq)
  qed
qed

lemma read_frame_live:
  fixes b0 b1 defines "h \<equiv> \<lparr>hdr_b0 = b0, hdr_b1 = b1\<rparr>"
  assumes E: "e_transport E = T" and c: "cl_ready inv c"
    and str: "cl_stream pend c = [b0, b1] @ ext @ rest" and len: "length ext = ext_len b1"
  shows "\<exists>s'. read_frame E to c =
      Some (if \<not> is_final h \<and> op_code h = Op_close then Err (frame_error Msg_fragmented_close)
            else if is_masked h then Err (frame_error Msg_masked_from_server)
            else Ok (frame_new\<lparr>fr_header := h, fr_payload_size := ext_size b1 ext\<rparr>), c\<lparr>cl_socket := s'\<rparr>) \<and>
    consumes (if \<not> is_final h \<and> op_code h = Op_close then [b0, b1] else [b0, b1] @ ext) (cl_socket c) s'"
proof -
  have "bs_ready inv (cl_socket c)" "2 \<le> length (bs_stream pend (cl_socket c))"
    using c str by (simp_all add: cl_defs)
  from read_array_live [OF E this, of to] str obtain s1 where
    s1: "read_array E 2 to (cl_socket c) = Some (Ok [b0, b1], s1)" "consumes [b0, b1] (cl_socket c) s1"
    by (auto simp: cl_stream_def)
  then have a: "on_sock (read_array E 2 to) c = Some (Ok [b0, b1], c\<lparr>cl_socket := s1\<rparr>)"
    by (simp add: on_sock_Some)
  show ?thesis
  proof (cases "\<not> is_final h \<and> op_code h = Op_close")
    case True
    with a s1(2) show ?thesis
      by (auto simp: read_frame_def ws_try_simps(1) [of "on_sock _"] h_def [symmetric] Let_def)
  next
    case False
    let ?c = "c\<lparr>cl_socket := s1\<rparr>"
    have "cl_ready inv ?c" "cl_stream pend ?c = ext @ rest"
      using s1(2) str by (simp_all add: cl_defs consumes_def)
    from read_payload_size_live [OF E this len, of to] obtain s' where
      s': "read_payload_size E (get_basic_size h) to ?c = Some (Ok (ext_size b1 ext), c\<lparr>cl_socket := s'\<rparr>)"
        "consumes ext s1 s'"
      using frame_header_size [of h] by (auto simp: h_def)
    have "read_frame E to c = Some (if is_masked h then Err (frame_error Msg_masked_from_server)
            else Ok (frame_new\<lparr>fr_header := h, fr_payload_size := ext_size b1 ext\<rparr>), c\<lparr>cl_socket := s'\<rparr>)"
      using a False s'(1)
      by (auto simp: read_frame_def ws_try_simps(1) [of "on_sock _"] h_def [symmetric] Let_def
          ws_try_simps(1) [of "read_payload_size _ _ _"])
    with False consumes_trans [OF s1(2) s'(2)] show ?thesis by auto
  qed
qed

end


subsection \<open>What a written frame looks like\<close>

text \<open>The header bytes of a frame, as \<open>put_header\<close> lays them out.\<close>

definition header_bytes :: "endian \<Rightarrow> frame \<Rightarrow> byte list" where
  "header_bytes native f =
     [hdr_b0 (fr_header f), hdr_b1 (fr_header f)] @ length_bytes (fr_payload_size f) @
     key_bytes native (fr_mask_key f)"

lemma length_length_bytes: "length (length_bytes n) \<le> 8"
  by (simp add: length_bytes_def)

lemma length_header_bytes: "length (header_bytes e f) \<le> 14"
  using length_length_bytes [of "fr_payload_size f"] by (simp add: header_bytes_def)

lemma blit_0_append:
  "length xs + length ys \<le> length m \<Longrightarrow> blit (length xs) ys (blit 0 xs m) = blit 0 (xs @ ys) m"
  using blit_extend [of 0 xs ys m] by simp

lemma put_header_masked:
  assumes wb: "length (cl_write_buffer c) = 128" and m: "is_masked (fr_header f)"
  shows "put_header E f c = Some (Ok (length (header_bytes (e_endian E) f)),
    put 0 (header_bytes (e_endian E) f) c)"
proof -
  let ?e = "e_endian E" and ?sz = "fr_payload_size f"
  let ?len = "if ?sz > 125 \<and> ?sz \<le> 0xFFFF then mem_bytes ?e (host_to_network16 ?e (ucast ?sz))
     else if ?sz > 0xFFFF then mem_bytes ?e (host_to_network64 ?e ?sz) else []"
  have len: "?len = length_bytes ?sz"
    by (auto simp: length_bytes_def mem_host_to_network16 mem_host_to_network64 not_le not_less
        word_le_nat_alt word_less_nat_alt)
  let ?b = "[hdr_b0 (fr_header f), hdr_b1 (fr_header f)]"
  have l8: "length (length_bytes ?sz) \<le> 8" by (rule length_length_bytes)
  have "put 1 [hdr_b1 (fr_header f)] (put 0 [hdr_b0 (fr_header f)] c) = put 0 ?b c"
    using blit_0_append [of "[hdr_b0 (fr_header f)]" "[hdr_b1 (fr_header f)]" "cl_write_buffer c"] wb
    by (simp add: put_def)
  moreover have "put 2 (length_bytes ?sz) (put 0 ?b c) = put 0 (?b @ length_bytes ?sz) c"
    using blit_0_append [of ?b "length_bytes ?sz" "cl_write_buffer c"] wb l8
    by (simp add: put_def numeral_2_eq_2)
  moreover have "put (2 + length (length_bytes ?sz)) (key_bytes ?e (fr_mask_key f))
      (put 0 (?b @ length_bytes ?sz) c) = put 0 (header_bytes ?e f) c"
    using blit_0_append [of "?b @ length_bytes ?sz" "key_bytes ?e (fr_mask_key f)" "cl_write_buffer c"] wb l8
    by (simp add: put_def header_bytes_def)
  ultimately show ?thesis
    using m unfolding put_header_def Let_def len by (simp add: header_bytes_def)
qed

context live_socket
begin

lemma write_frame_live:
  assumes E: "e_transport E = T" and c: "cl_ready inv c" and wb: "length (cl_write_buffer c) = 128"
    and m: "is_masked (fr_header f)" and sz: "unat (fr_payload_size f) = length payload"
  shows "\<exists>s'. let masked = mask_fn (e_endian E) (e_build E) ptr (fr_mask_key f) payload;
        hdr = header_bytes (e_endian E) f
    in write_frame E f ptr to (payload, c) = Some (Ok (), (masked, (put 0 hdr c)\<lparr>cl_socket := s'\<rparr>)) \<and>
      sends (hdr @ masked) (cl_socket c) s'"
proof -
  define hdr where "hdr = header_bytes (e_endian E) f"
  define masked where "masked = mask_fn (e_endian E) (e_build E) ptr (fr_mask_key f) payload"
  have l: "length hdr \<le> length (cl_write_buffer c)"
    using length_header_bytes [of "e_endian E" f] wb by (simp add: hdr_def)
  have "on_snd (put_header E f) (payload, c) = Some (Ok (length hdr), (payload, put 0 hdr c))"
    using put_header_masked [OF wb m, of E] by (simp add: on_snd_Some hdr_def)
  then have w: "write_frame E f ptr to (payload, c) =
      ws_try (on_snd (on_sock (bs_write T hdr to)))
        (\<lambda>_. if fr_payload_size f > 0 then on_snd (on_sock (bs_write T masked to)) else ws_return ())
        (masked, put 0 hdr c)"
    using E l by (simp add: write_frame_def ws_try_simps(1) [of "on_snd _"] masked_def put_def
        subspan_def blit_def Let_def)
  have s: "inv (bs_socket (cl_socket (put 0 hdr c)))"
    using c by (simp add: cl_ready_def bs_ready_def bs_inv_def put_def)
  from bs_write_live [OF s, of hdr to] obtain s1 where
    s1: "bs_write T hdr to (cl_socket c) = Some (Ok (), s1)" "sends hdr (cl_socket c) s1"
    by (auto simp: put_def)
  then have a: "on_snd (on_sock (bs_write T hdr to)) (masked, put 0 hdr c) =
      Some (Ok (), (masked, (put 0 hdr c)\<lparr>cl_socket := s1\<rparr>))"
    by (simp add: on_snd_Some on_sock_Some put_def)
  have "\<exists>s'. write_frame E f ptr to (payload, c) = Some (Ok (), (masked, (put 0 hdr c)\<lparr>cl_socket := s'\<rparr>)) \<and>
      sends (hdr @ masked) (cl_socket c) s'"
  proof (cases "fr_payload_size f > 0")
    case True
    have "inv (bs_socket s1)" using s1(2) by (simp add: sends_def)
    from bs_write_live [OF this, of masked to] obtain s2 where
      s2: "bs_write T masked to s1 = Some (Ok (), s2)" "sends masked s1 s2" by auto
    then have "on_snd (on_sock (bs_write T masked to)) (masked, (put 0 hdr c)\<lparr>cl_socket := s1\<rparr>) =
        Some (Ok (), (masked, (put 0 hdr c)\<lparr>cl_socket := s2\<rparr>))"
      by (simp add: on_snd_Some on_sock_Some put_def)
    with True a sends_trans [OF s1(2) s2(2)] show ?thesis
      by (auto simp: w ws_try_simps(1) [of "on_snd _"])
  next
    case False
    then have "payload = []" using sz by (simp add: word_less_nat_alt)
    then have "masked = []" by (simp add: masked_def length_mask_fn flip: length_0_conv)
    with False a s1(2) show ?thesis by (auto simp: w ws_try_simps(1) [of "on_snd _"])
  qed
  then show ?thesis unfolding Let_def hdr_def masked_def .
qed

end

subsection \<open>A client on the scripted socket\<close>

text \<open>The environment of the witnesses: scripted socket, constant mask key, token codec.\<close>

definition script_env :: "(script, mask_key, token_state) env" where
  "script_env =
     \<lparr>e_transport = script_socket, e_mask_gen = constant_mask_key_gen, e_zlib = token_zlib,
      e_alloc = (\<lambda>n. Some (4096, \<lambda>_. 0)), e_endian = Little,
      e_build = Simd128, e_junk = (\<lambda>_. 0)\<rparr>"

lemma script_env_sel [simp]:
  "e_transport script_env = script_socket" "e_mask_gen script_env = constant_mask_key_gen"
  "e_zlib script_env = token_zlib" "e_alloc script_env n = Some (4096, \<lambda>_. 0)"
  by (simp_all add: script_env_def)

lemma script_client:
  "\<exists>c. client_new script_env 64 k key = Ok c \<and> cl_ready (\<lambda>_. True) c \<and> cl_stream sc_in c = sc_in k \<and>
     cl_sent sc_out c = sc_out k \<and> cl_pmd_ctx c = None \<and> cl_mask_key_gen c = key \<and> cl_write_ptr c = 64 \<and>
     length (cl_write_buffer c) = 128 \<and> cl_read_state c = read_state_reset \<and> is_closed c \<and>
     cb_content (bs_ring (cl_socket c)) = [] \<and> cb_capacity (bs_ring (cl_socket c)) = 4096"
proof -
  obtain s where new: "bsock_new (e_junk script_env) k = Ok s" using bsock_new_Ok [of "e_junk script_env" k] by blast
  have "cb_content (bs_ring s) = []"
    using bsock_new_ready [OF new, of "\<lambda>_. True" "\<lambda>_. []" sc_out] by (simp add: bs_stream_def)
  with bsock_new_ready [OF new, of "\<lambda>_. True" sc_in sc_out] new show ?thesis
    by (simp add: client_new_def cl_defs cl_sent_def is_closed_def)
qed

subsection \<open>Properties\<close>

text \<open>
  C27: What \<open>read_frame\<close> makes of the bytes on a delivering socket, for every header: it consumes exactly the
  header (two bytes and the 0, 2 or 8 bytes of extended length that the second byte announces, in
  network byte order) and reports the announced size, rejects a fragmented close frame before it reads
  the length and a masked frame after it, both as protocol errors with close code 1002, and accepts
  everything else. The payload and what follows stay in the stream.
\<close>

theorem read_frame_verdict:
  fixes b0 b1 defines "h \<equiv> \<lparr>hdr_b0 = b0, hdr_b1 = b1\<rparr>"
  assumes "delivering_socket (e_transport E) I pend sent" and "cl_ready I c"
    and "cl_stream pend c = [b0, b1] @ ext @ rest" and "length ext = ext_len b1"
  shows "\<exists>r c'. read_frame E to c = Some (r, c') \<and> cl_ready I c' \<and> cl_sent sent c' = cl_sent sent c \<and>
    (if \<not> is_final h \<and> op_code h = Op_close
     then r = Err (frame_error Msg_fragmented_close) \<and> cl_stream pend c' = ext @ rest
     else cl_stream pend c' = rest \<and>
       r = (if is_masked h then Err (frame_error Msg_masked_from_server)
            else Ok \<lparr>fr_header = h, fr_mask_key = 0, fr_payload_size = ext_size b1 ext\<rparr>))"
proof -
  have ss: "stream_socket (e_transport E) I pend sent" using assms(2) by (simp add: delivering_socket_def)
  from delivering_socket.read_frame_live [OF assms(2) refl assms(3-5), of to] obtain s' where
    s: "read_frame E to c = Some (if \<not> is_final h \<and> op_code h = Op_close then Err (frame_error Msg_fragmented_close)
            else if is_masked h then Err (frame_error Msg_masked_from_server)
            else Ok (frame_new\<lparr>fr_header := h, fr_payload_size := ext_size b1 ext\<rparr>), c\<lparr>cl_socket := s'\<rparr>)"
      "stream_socket.consumes I pend sent (if \<not> is_final h \<and> op_code h = Op_close then [b0, b1] else [b0, b1] @ ext)
        (cl_socket c) s'" unfolding h_def by blast
  let ?c = "c\<lparr>cl_socket := s'\<rparr>"
  have "cl_ready I ?c \<and> cl_sent sent ?c = cl_sent sent c \<and>
    cl_stream pend ?c = (if \<not> is_final h \<and> op_code h = Op_close then ext @ rest else rest)"
    using s(2) assms(4) unfolding stream_socket.consumes_def [OF ss] by (auto simp: cl_defs cl_sent_def)
  with s(1) show ?thesis by (auto simp: frame_new_def)
qed

theorem read_frame_verdict_witness:
  "\<exists>c r c'. cl_stream sc_in (c :: (script, mask_key, token_state) client) = [0x82, 126, 1, 2, 9] \<and>
     read_frame script_env \<lparr>to_start = 0, to_timeout = 5\<rparr> c = Some (Ok r, c') \<and>
     fr_payload_size r = 258 \<and> cl_stream sc_in c' = [9]"
proof -
  obtain c where c: "cl_ready (\<lambda>_. True) (c :: (script, mask_key, token_state) client)"
      "cl_stream sc_in c = [0x82, 126, 1, 2, 9]"
    using script_client [of "\<lparr>sc_in = [0x82, 126, 1, 2, 9], sc_out = [], sc_chunks = [1, 2], sc_closed = False\<rparr>"]
    by auto
  have live: "delivering_socket (e_transport script_env) (\<lambda>_. True) sc_in sc_out" by (simp add: script.delivering_socket_axioms)
  have "op_code \<lparr>hdr_b0 = 0x82, hdr_b1 = 126\<rparr> = Op_binary" "\<not> is_masked \<lparr>hdr_b0 = 0x82, hdr_b1 = 126\<rparr>"
    "ext_len 126 = 2" "ext_size 126 [1, 2] = 258"
    by code_simp+
  with read_frame_verdict [OF live c(1), of "0x82" 126 "[1, 2]" "[9]"] c show ?thesis by fastforce
qed

end
