(* ===== verification/Client_Receive.thy ===== *)
theory Client_Receive
  imports Frame_IO
begin

section \<open>Receiving messages (WebSocketClient.hpp, read_message)\<close>

text \<open>
  \<open>handle_control_frame\<close> and \<open>read_message\<close>. Both work on the message buffer of the caller and the
  client; the variant they return is \<open>read_result\<close> or an error. A call returns at the first control
  frame; \<open>cl_read_state\<close> keeps what a later call needs to go on with a fragmented message.
\<close>

datatype read_result =
    Rd_message message
  | Rd_ping control_frame
  | Rd_pong control_frame
  | Rd_close control_frame

definition client_error :: "client_message \<Rightarrow> close_code \<Rightarrow> ws_error" where
  "client_error m cc = WSError Protocol_error (Client_msg m) cc"

definition opcode_number :: "opcode \<Rightarrow> nat" where
  "opcode_number op = unat (opcode_value op)"

subsection \<open>Control frames\<close>

text \<open>Read the payload of a control frame into its array.\<close>

definition read_control_payload ::
  "('s, 'g, 'z) env \<Rightarrow> control_frame \<Rightarrow> timeout \<Rightarrow> (('s, 'g, 'z) client, control_frame) ws" where
  "read_control_payload E f to =
     ws_try (on_sock (read_span E (payload_bytes f) to))
       (\<lambda>xs. ws_return (f\<lparr>cf_payload := blit 0 xs (cf_payload f)\<rparr>))"

definition check_close_frame :: "('s, 'g, 'z) env \<Rightarrow> control_frame \<Rightarrow> unit ws_result" where
  "check_close_frame E f =
     (let code = get_close_code (e_endian E) f
      in if has_close_code f \<and> \<not> is_valid_close_code code
         then Err (frame_error (Msg_invalid_close_code (unat code)))
         else if \<not> is_reason_valid_utf8 f
         then Err (WSError Protocol_error (Frame_msg Msg_invalid_utf8_reason) invalid_frame_payload_data)
         else Ok ())"

definition handle_control_frame ::
  "('s, 'g, 'z) env \<Rightarrow> frame \<Rightarrow> timeout \<Rightarrow> (('s, 'g, 'z) client, read_result) ws" where
  "handle_control_frame E frame to =
     (let h = fr_header frame; size = fr_payload_size frame; n = unat size
      in if \<not> is_final h then ws_fail (frame_error Msg_fragmented_control)
         else if has_rsv_bits h then ws_fail (frame_error Msg_control_rsv)
         else if size > 125 then ws_fail (frame_error (Msg_control_too_large n))
         else case op_code h of
           Op_close \<Rightarrow>
             (let f = close_frame_new (e_junk E) n
              in if size > 0
                 then if size = 1 then ws_fail (frame_error Msg_close_size_one)
                      else ws_try (read_control_payload E f to)
                             (\<lambda>f. ws_try (ws_result (check_close_frame E f)) (\<lambda>_. ws_return (Rd_close f)))
                 else ws_return (Rd_close f))
         | Op_ping \<Rightarrow>
             (let f = ping_frame_new (e_junk E) n
              in if size > 0 then ws_try (read_control_payload E f to) (\<lambda>f. ws_return (Rd_ping f))
                 else ws_return (Rd_ping f))
         | Op_pong \<Rightarrow>
             (let f = pong_frame_new (e_junk E) n
              in if size > 0 then ws_try (read_control_payload E f to) (\<lambda>f. ws_return (Rd_pong f))
                 else ws_return (Rd_pong f))
         | _ \<Rightarrow> ws_fail (frame_error (Msg_unexpected_control_opcode (opcode_number (op_code h)))))"

subsection \<open>Payloads of data frames\<close>

text \<open>\<open>buffer.append(n)\<close>, then \<open>read_exact\<close> into the span, which is memory of the buffer's block.\<close>

definition read_appended ::
  "('s, 'g, 'z) env \<Rightarrow> u64 \<Rightarrow> timeout \<Rightarrow> (buffer \<times> ('s, 'g, 'z) client, unit) ws" where
  "read_appended E n to =
     ws_try (on_fst (ws_total (buffer_append_n (e_alloc E) n)))
       (\<lambda>(off, len) (b, c).
          if off + len > length (buf_block b) then Some (Abort, (b, c))
          else case read_exact (e_transport E) to (subspan off len (buf_block b), cl_socket c) of
                 None \<Rightarrow> None
               | Some (r, (dest, k)) \<Rightarrow>
                   (case buffer_fill off dest b of
                      (r', b') \<Rightarrow>
                        Some (res_try r (\<lambda>_. r'), (b', c\<lparr>cl_socket := k\<rparr>))))"

text \<open>The same with the decompression buffer of \<open>permessage_deflate_ctx_\<close>.\<close>

definition on_decompress_buffer ::
  "(buffer \<times> ('s, 'g, 'z) client, 'r) ws \<Rightarrow> (('s, 'g, 'z) client, 'r) ws" where
  "on_decompress_buffer m c =
     (case cl_pmd_ctx c of
        None \<Rightarrow> Some (Abort, c)
      | Some x \<Rightarrow>
          (case pc_decompress_buffer x of
             None \<Rightarrow> Some (Abort, c)
           | Some b \<Rightarrow>
               (case m (b, c) of
                  None \<Rightarrow> None
                | Some (r, (b', c')) \<Rightarrow>
                    Some (r, c'\<lparr>cl_pmd_ctx := Some (x\<lparr>pc_decompress_buffer := Some b'\<rparr>)\<rparr>))))"

definition read_payload ::
  "('s, 'g, 'z) env \<Rightarrow> u64 \<Rightarrow> timeout \<Rightarrow> (buffer \<times> ('s, 'g, 'z) client, unit) ws" where
  "read_payload E n to s =
     (if n > 0
      then if rs_is_compressed (cl_read_state (snd s))
           then on_snd (on_decompress_buffer (read_appended E n to)) s
           else read_appended E n to s
      else Some (Ok (), s))"

subsection \<open>Data frames\<close>

definition set_read_state :: "message_read_state \<Rightarrow> ('s, 'g, 'z) client \<Rightarrow> ('s, 'g, 'z) client" where
  "set_read_state rs c = c\<lparr>cl_read_state := rs\<rparr>"

definition begin_message :: "frame_header \<Rightarrow> (('s, 'g, 'z) client, unit) ws" where
  "begin_message h c =
     (let rs = (cl_read_state c)\<lparr>rs_is_first := False, rs_op_code := op_code h\<rparr>;
          rs = (if rsv1_bit h then rs\<lparr>rs_is_compressed := True\<rparr> else rs);
          c = set_read_state rs c
      in if rsv1_bit h \<and> cl_pmd_ctx c = None
         then ws_fail (client_error Msg_compressed_not_enabled cc_protocol_error) c
         else ws_try (if rsv1_bit h
                      then on_decompress_buffer (\<lambda>(b, c). Some (Ok (), (buffer_clear b, c)))
                      else ws_return ())
                (\<lambda>_. if rsv2_bit h \<or> rsv3_bit h
                      then ws_fail (client_error Msg_rsv23_set cc_protocol_error)
                      else ws_return ()) c)"

definition continue_message :: "frame_header \<Rightarrow> (('s, 'g, 'z) client, unit) ws" where
  "continue_message h =
     (if op_code h \<noteq> Op_continuation
      then ws_fail (client_error (Msg_expected_continuation (opcode_number (op_code h))) cc_protocol_error)
      else if has_rsv_bits h
      then ws_fail (client_error Msg_rsv_on_continuation cc_protocol_error)
      else ws_return ())"

definition accept_data_frame ::
  "frame \<Rightarrow> (buffer \<times> ('s, 'g, 'z) client, unit) ws" where
  "accept_data_frame f s =
     (let first = rs_is_first (cl_read_state (snd s));
          b = (if first then buffer_clear (fst s) else fst s);
          room = buf_max_size b - buf_used b; h = fr_header f
      in if room < fr_payload_size f
         then Some (Err (WSError Buffer_error
                (Client_msg (Msg_payload_too_large (unat (fr_payload_size f)) (unat room))) message_too_big),
              (b, snd s))
         else ws_try (on_snd (if first then begin_message h else continue_message h))
           (\<lambda>_ s. let op = rs_op_code (cl_read_state (snd s))
             in if op \<noteq> Op_continuation \<and> op \<noteq> Op_text \<and> op \<noteq> Op_binary
                then ws_fail (client_error (Msg_unexpected_opcode (opcode_number op)) cc_protocol_error) s
                else ws_return () s) (b, snd s))"

subsection \<open>The loop\<close>

datatype round_result = Got read_result | Last_frame | More_frames

definition read_message_round ::
  "('s, 'g, 'z) env \<Rightarrow> timeout \<Rightarrow> (buffer \<times> ('s, 'g, 'z) client, round_result) ws" where
  "read_message_round E to =
     ws_try (on_snd (read_frame E to))
       (\<lambda>f. let h = fr_header f
         in if is_reserved (op_code h)
            then ws_fail (client_error (Msg_reserved_opcode (opcode_number (op_code h))) cc_protocol_error)
            else if is_control h
            then ws_try (on_snd (handle_control_frame E f to)) (\<lambda>r. ws_return (Got r))
            else ws_try (accept_data_frame f)
                   (\<lambda>_. ws_try (read_payload E (fr_payload_size f) to)
                     (\<lambda>_. ws_return (if is_final h then Last_frame else More_frames))))"

text \<open>The \<open>while\<close> loop: a result for the caller, or \<open>None\<close> when it ends and the message is complete.\<close>

partial_function (option) read_message_loop ::
  "('s, 'g, 'z) env \<Rightarrow> timeout \<Rightarrow> buffer \<times> ('s, 'g, 'z) client \<Rightarrow>
     (read_result option ws_result \<times> buffer \<times> ('s, 'g, 'z) client) option"
where
  "read_message_loop E to s =
     ws_try (on_snd (check_expired E to))
       (\<lambda>expired s.
          if expired then Some (Ok None, s)
          else ws_try (read_message_round E to)
                 (\<lambda>r s. case r of
                           Got x \<Rightarrow> Some (Ok (Some x), s)
                         | Last_frame \<Rightarrow> Some (Ok None, s)
                         | More_frames \<Rightarrow> read_message_loop E to s) s) s"

declare read_message_loop.simps [code]

subsection \<open>Completing a message\<close>

text \<open>\<open>permessage_deflate_ctx_.value().decompress(buffer)\<close>.\<close>

definition decompress_message :: "('s, 'g, 'z) env \<Rightarrow> (buffer \<times> ('s, 'g, 'z) client, unit) ws" where
  "decompress_message E s =
     (case cl_pmd_ctx (snd s) of
        None \<Rightarrow> Some (Abort, s)
      | Some x \<Rightarrow>
          (case decompress (e_zlib E) (e_alloc E) (fst s, x) of
             None \<Rightarrow> None
           | Some (r, (b, x')) \<Rightarrow>
               Some (res_try r (\<lambda>_. Ok ()), (b, (snd s)\<lparr>cl_pmd_ctx := Some x'\<rparr>))))"

definition deliver :: "message_type \<Rightarrow> (buffer \<times> ('s, 'g, 'z) client, read_result) ws" where
  "deliver t s =
     (let b = fst s;
          msg = \<lparr>msg_type = t, msg_ptr = (case buf_mem b of None \<Rightarrow> 0 | Some (a, bs) \<Rightarrow> a),
                 msg_data = buffer_data b\<rparr>
      in Some (Ok (Rd_message msg), (b, set_read_state read_state_reset (snd s))))"

definition finish_message ::
  "('s, 'g, 'z) env \<Rightarrow> timeout \<Rightarrow> (buffer \<times> ('s, 'g, 'z) client, read_result) ws" where
  "finish_message E to =
     ws_try (on_snd (check_expired E to))
       (\<lambda>expired.
          if expired then ws_fail (WSError Timeout_error (Client_msg Msg_read_timeout) not_set)
          else ws_try (\<lambda>s. if rs_is_compressed (cl_read_state (snd s)) then decompress_message E s
                            else ws_return () s)
                 (\<lambda>_ s. let data = buffer_data (fst s); op = rs_op_code (cl_read_state (snd s))
                   in case op of
                        Op_text \<Rightarrow>
                          (if \<not> is_valid_utf8 data (narrow_len (length data))
                           then ws_fail (client_error Msg_invalid_utf8_text invalid_frame_payload_data) s
                           else deliver Mt_text s)
                      | Op_binary \<Rightarrow> deliver Mt_binary s
                      | _ \<Rightarrow> ws_fail (client_error (Msg_unexpected_message_opcode (opcode_number op))
                               cc_protocol_error) s))"

definition read_message ::
  "('s, 'g, 'z) env \<Rightarrow> int \<Rightarrow> (buffer \<times> ('s, 'g, 'z) client, read_result) ws" where
  "read_message E ms s =
     (if cl_closed (snd s) then Some (Err closed_error, s)
      else ws_try (on_snd (start_timeout E ms))
             (\<lambda>to. ws_try (read_message_loop E to)
               (\<lambda>r. case r of Some x \<Rightarrow> ws_return x | None \<Rightarrow> finish_message E to)) s)"

end
