(* ===== verification/Client_Send.thy ===== *)
theory Client_Send
  imports Frame_IO
begin

section \<open>Sending and closing (WebSocketClient.hpp: send_message, send_pong_frame, close)\<close>

text \<open>
  \<open>write_frame\<close> masks the payload where it lies, so every sender runs on the memory it lies in: the
  caller's message or payload (a pair with the client), the compression buffer, or the last bytes of
  \<open>write_buffer_\<close>. The address of the caller's memory is an argument.
\<close>

definition draw_mask_key :: "('s, 'g, 'z) env \<Rightarrow> (('s, 'g, 'z) client, mask_key) ws" where
  "draw_mask_key E c =
     (let (k, g) = e_mask_gen E (cl_mask_key_gen c) in Some (Ok k, c\<lparr>cl_mask_key_gen := g\<rparr>))"

text \<open>\<open>Frame frame; set_opcode(op); set_is_final(true); set_is_masked(true)\<close>.\<close>

definition client_frame :: "opcode \<Rightarrow> frame" where
  "client_frame op = set_is_masked True (set_is_final True (set_opcode op frame_new))"

subsection \<open>Messages\<close>

text \<open>The tail of \<open>send_message\<close>: size, timeout, \<open>write_frame\<close>.\<close>

definition send_payload ::
  "('s, 'g, 'z) env \<Rightarrow> frame \<Rightarrow> nat \<Rightarrow> int \<Rightarrow> (byte list \<times> ('s, 'g, 'z) client, unit) ws" where
  "send_payload E frame ptr ms s =
     (let frame = set_payload_size (word_of_nat (length (fst s))) frame
      in ws_try (on_snd (start_timeout E ms)) (\<lambda>to. write_frame E frame ptr to) s)"

text \<open>The payload is a span of the compression buffer, whose bytes \<open>write_frame\<close> masks.\<close>

definition mask_compress_buffer :: "byte list \<Rightarrow> 'z pmd_ctx \<Rightarrow> 'z pmd_ctx" where
  "mask_compress_buffer masked x =
     (case pc_compress_buffer x of
        None \<Rightarrow> x
      | Some b \<Rightarrow> x\<lparr>pc_compress_buffer := Some (snd (buffer_fill 0 masked b))\<rparr>)"

definition send_compressed ::
  "('s, 'g, 'z) env \<Rightarrow> frame \<Rightarrow> byte list \<Rightarrow> int \<Rightarrow> (('s, 'g, 'z) client, unit) ws" where
  "send_compressed E frame data ms c =
     (case cl_pmd_ctx c of
        None \<Rightarrow> Some (Abort, c)
      | Some x \<Rightarrow>
          (case pc_compress_buffer x of
             None \<Rightarrow> Some (Abort, c)
           | Some b \<Rightarrow>
               (case compress (e_zlib E) (e_alloc E) data (x\<lparr>pc_compress_buffer := Some (buffer_clear b)\<rparr>) of
                  None \<Rightarrow> None
                | Some (r, x) \<Rightarrow>
                    (let c = c\<lparr>cl_pmd_ctx := Some x\<rparr>
                     in case r of
                          Err e \<Rightarrow> Some (Err e, c)
                        | Abort \<Rightarrow> Some (Abort, c)
                        | Ok (ptr, payload) \<Rightarrow>
                            (case send_payload E frame ptr ms (payload, c) of
                               None \<Rightarrow> None
                             | Some (r, (masked, c)) \<Rightarrow>
                                 Some (r, c\<lparr>cl_pmd_ctx := map_option (mask_compress_buffer masked) (cl_pmd_ctx c)\<rparr>))))))"

definition send_message ::
  "('s, 'g, 'z) env \<Rightarrow> message_type \<Rightarrow> nat \<Rightarrow> send_options \<Rightarrow> (byte list \<times> ('s, 'g, 'z) client, unit) ws"
where
  "send_message E type ptr options s =
     (if cl_closed (snd s) then Some (Err closed_error, s)
      else ws_try (on_snd (draw_mask_key E))
             (\<lambda>key s.
                let frame = (client_frame (message_opcode type))\<lparr>fr_mask_key := key\<rparr>
                in if cl_pmd_ctx (snd s) \<noteq> None \<and> opt_compress options
                   then on_snd (send_compressed E (set_is_compressed True frame) (fst s) (opt_timeout options)) s
                   else send_payload E frame ptr (opt_timeout options) s) s)"

subsection \<open>Control frames\<close>

definition send_pong_frame ::
  "('s, 'g, 'z) env \<Rightarrow> nat \<Rightarrow> int \<Rightarrow> (byte list \<times> ('s, 'g, 'z) client, unit) ws"
where
  "send_pong_frame E ptr ms s =
     (if cl_closed (snd s) then Some (Err closed_error, s)
      else let frame = set_payload_size (word_of_nat (length (fst s))) (client_frame Op_pong)
           in ws_try (on_snd (draw_mask_key E))
                (\<lambda>key. ws_try (on_snd (start_timeout E ms))
                  (\<lambda>to. write_frame E (frame\<lparr>fr_mask_key := key\<rparr>) ptr to)) s)"

text \<open>The status code lies in the last bytes of the write buffer, from offset 125.\<close>

definition send_close_frame ::
  "('s, 'g, 'z) env \<Rightarrow> close_code \<Rightarrow> timeout \<Rightarrow> (('s, 'g, 'z) client, unit) ws"
where
  "send_close_frame E code to =
     ws_try (draw_mask_key E)
       (\<lambda>key c.
          let frame = (client_frame Op_close)\<lparr>fr_mask_key := key\<rparr>
          in if code \<noteq> not_set
             then let c = put 125 (mem_bytes (e_endian E) (host_to_network16 (e_endian E) code)) c;
                      payload = subspan 125 2 (cl_write_buffer c);
                      frame = set_payload_size (word_of_nat (length payload)) frame
                  in (case write_frame E frame (cl_write_ptr c + 125) to (payload, c) of
                        None \<Rightarrow> None
                      | Some (r, (masked, c)) \<Rightarrow> Some (r, put 125 masked c))
             else (case write_frame E (set_payload_size 0 frame) 0 to ([], c) of
                     None \<Rightarrow> None
                   | Some (r, (_, c)) \<Rightarrow> Some (r, c)))"

subsection \<open>Closing\<close>

definition fails_connection :: "close_code \<Rightarrow> bool" where
  "fails_connection code \<longleftrightarrow>
     code = not_set \<or> code = cc_protocol_error \<or> code = unacceptable_data_type \<or>
     code = invalid_frame_payload_data \<or> code = policy_violation \<or> code = message_too_big \<or>
     code = missing_extension \<or> code = unexpected_condition"

text \<open>Whether the connection is failed after the attempt to send the close frame.\<close>

definition try_close_frame ::
  "('s, 'g, 'z) env \<Rightarrow> close_code \<Rightarrow> timeout \<Rightarrow> (('s, 'g, 'z) client, bool) ws" where
  "try_close_frame E code to c =
     (if fails_connection code then Some (Ok True, c)
      else case send_close_frame E code to c of
             None \<Rightarrow> None
           | Some (r, c) \<Rightarrow>
               (case r of Ok _ \<Rightarrow> Some (Ok False, c) | Err e \<Rightarrow> Some (Ok True, c) | Abort \<Rightarrow> Some (Abort, c)))"

text \<open>\<open>this->socket_.underlying().shutdown(fail_conn, timeout)\<close>, whose result is not looked at.\<close>

definition shutdown_socket :: "('s, 'g, 'z) env \<Rightarrow> bool \<Rightarrow> timeout \<Rightarrow> (('s, 'g, 'z) client, unit) ws" where
  "shutdown_socket E fail_conn to c =
     (case on_sock (on_socket (tr_shutdown (e_transport E) fail_conn to)) c of
        None \<Rightarrow> None
      | Some (r, c) \<Rightarrow> Some (if r = Abort then Abort else Ok (), c))"

definition client_close :: "('s, 'g, 'z) env \<Rightarrow> close_code \<Rightarrow> int \<Rightarrow> (('s, 'g, 'z) client, unit) ws" where
  "client_close E code ms c =
     (if cl_closed c then Some (Ok (), c)
      else ws_try (start_timeout E ms)
             (\<lambda>to. ws_try (try_close_frame E code to)
               (\<lambda>fail_conn c.
                  let c = c\<lparr>cl_closed := True\<rparr>
                  in ws_try (shutdown_socket E fail_conn to)
                       (\<lambda>_. on_sock (on_socket (tr_close (e_transport E) fail_conn))) c)) c)"

subsection \<open>What a sent frame looks like to the peer\<close>

lemma mask_fn_short:
  assumes "length data < 8"
  shows "mask_fn e build ptr key data = rfc_mask (key_bytes e key) data"
proof -
  have "mask_phase build ptr (length data) j = j mod 4" for j
    using assms by (cases build) (simp_all add: mask_phase_def build_align_def Let_def)
  then show ?thesis
    using mask_fn_nth [of e build ptr key data]
    by (intro nth_equalityI) (simp_all add: rfc_mask_def)
qed

text \<open>The addresses for which the masking is the one of RFC 6455.\<close>

definition masks_right :: "nat \<Rightarrow> byte list \<Rightarrow> bool" where
  "masks_right ptr data \<longleftrightarrow> ptr mod 4 = 0 \<or> length data < 8"

lemma masks_right_rfc: "masks_right ptr data \<Longrightarrow> mask_fn e build ptr key data = rfc_mask (key_bytes e key) data"
  using mask_fn_aligned mask_fn_short by (auto simp: masks_right_def)

lemma client_frame_header:
  assumes "op \<noteq> Op_not_set"
  shows "hdr_b0 (fr_header (client_frame op)) = first_byte True False op"
    and "hdr_b0 (fr_header (set_is_compressed True (client_frame op))) = first_byte True True op"
    and "hdr_b1 (fr_header (client_frame op)) = 0x80"
proof -
  show "hdr_b0 (fr_header (client_frame op)) = first_byte True False op"
    using first_byte_setters(1) [OF assms, of True] by (simp add: client_frame_def frame_simps)
  show "hdr_b0 (fr_header (set_is_compressed True (client_frame op))) = first_byte True True op"
    using first_byte_setters(2) [OF assms, of True]
    by (simp add: client_frame_def frame_simps set_is_compressed_def)
  show "hdr_b1 (fr_header (client_frame op)) = 0x80"
    by (simp add: client_frame_def frame_simps set_is_masked_new frame_new_def)
qed

text \<open>The bytes of the frame that the senders build.\<close>

definition built_frame :: "bool \<Rightarrow> opcode \<Rightarrow> mask_key \<Rightarrow> nat \<Rightarrow> frame \<Rightarrow> bool" where
  "built_frame rsv1 op key n f \<longleftrightarrow>
     hdr_b0 (fr_header f) = first_byte True rsv1 op \<and> hdr_b1 (fr_header f) = second_byte True (word_of_nat n) \<and>
     fr_payload_size f = word_of_nat n \<and> fr_mask_key f = key"

lemma built_plain:
  "op \<noteq> Op_not_set \<Longrightarrow>
     built_frame False op key n (set_payload_size (word_of_nat n) ((client_frame op)\<lparr>fr_mask_key := key\<rparr>))"
  "op \<noteq> Op_not_set \<Longrightarrow>
     built_frame False op key n ((set_payload_size (word_of_nat n) (client_frame op))\<lparr>fr_mask_key := key\<rparr>)"
  using client_frame_header set_payload_size_b1 [where masked = True]
  by (simp_all add: built_frame_def frame_simps)

lemma built_compressed:
  "op \<noteq> Op_not_set \<Longrightarrow>
     built_frame True op key n
       (set_payload_size (word_of_nat n) (set_is_compressed True ((client_frame op)\<lparr>fr_mask_key := key\<rparr>)))"
  using client_frame_header [of op]
  by (simp add: built_frame_def frame_simps set_payload_size_b1 [where masked = True] set_is_compressed_def)

lemma built_bytes:
  assumes "built_frame rsv1 op key (length payload) f"
  shows "header_bytes e f @ rfc_mask (key_bytes e key) payload =
    rfc_frame True rsv1 op (Some (key_bytes e key)) payload"
  using assms by (simp add: built_frame_def header_bytes_def rfc_frame_def Let_def)

lemma built_masked: "built_frame rsv1 op key n f \<Longrightarrow> is_masked (fr_header f)"
proof -
  assume "built_frame rsv1 op key n f"
  then have "fr_header f = \<lparr>hdr_b0 = hdr_b0 (fr_header f), hdr_b1 = second_byte True (word_of_nat n)\<rparr>"
    by (simp add: built_frame_def)
  then show ?thesis using second_byte_accessors(1) by metis
qed

context live_socket
begin

text \<open>What sending leaves behind: exactly these bytes sent, nothing received, the client as it was.\<close>

definition wrote :: "byte list \<Rightarrow> ('a, 'g, 'z) client \<Rightarrow> ('a, 'g, 'z) client \<Rightarrow> bool" where
  "wrote xs c c' \<longleftrightarrow>
     cl_ready inv c' \<and> cl_stream pend c' = cl_stream pend c \<and> cl_sent sent c' = cl_sent sent c @ xs \<and>
     cl_closed c' = cl_closed c \<and> cl_pmd_ctx c' = cl_pmd_ctx c \<and> cl_read_state c' = cl_read_state c \<and>
     cl_write_ptr c' = cl_write_ptr c \<and> length (cl_write_buffer c') = length (cl_write_buffer c)"

lemma wrote_trans: "wrote xs c c1 \<Longrightarrow> wrote ys c1 c2 \<Longrightarrow> wrote (xs @ ys) c c2"
  by (simp add: wrote_def)

lemma wrote_socket:
  "consumes [] (cl_socket c) k \<Longrightarrow> wrote [] c (c\<lparr>cl_socket := k\<rparr>)"
  by (simp add: wrote_def consumes_def cl_defs cl_sent_def)

lemma wrote_put:
  "wrote xs c c' \<Longrightarrow> p + length ys \<le> length (cl_write_buffer c) \<Longrightarrow> wrote xs c (put p ys c')"
  by (simp add: wrote_def put_def cl_defs cl_sent_def)

lemma write_built_frame:
  assumes E: "e_transport E = T" and c: "cl_ready inv c" and wb: "length (cl_write_buffer c) = 128"
    and f: "built_frame rsv1 op key (length data) f" and len: "length data < 2 ^ 64"
    and ptr: "masks_right ptr data"
  shows "\<exists>c'. write_frame E f ptr to (data, c) = Some (Ok (), (rfc_mask (key_bytes (e_endian E) key) data, c')) \<and>
    wrote (rfc_frame True rsv1 op (Some (key_bytes (e_endian E) key)) data) c c'"
proof -
  have key: "fr_mask_key f = key" and sz: "unat (fr_payload_size f) = length data"
    using f len by (simp_all add: built_frame_def word_of_nat_64)
  note m = masks_right_rfc [OF ptr, of "e_endian E" "e_build E" key]
  from write_frame_live [OF E c wb built_masked [OF f] sz, of ptr to] obtain s' where
    w: "write_frame E f ptr to (data, c) = Some (Ok (), (rfc_mask (key_bytes (e_endian E) key) data,
        (put 0 (header_bytes (e_endian E) f) c)\<lparr>cl_socket := s'\<rparr>))"
      "sends (rfc_frame True rsv1 op (Some (key_bytes (e_endian E) key)) data) (cl_socket c) s'"
    by (auto simp: Let_def key m built_bytes [OF f])
  have "wrote (rfc_frame True rsv1 op (Some (key_bytes (e_endian E) key)) data) c
      ((put 0 (header_bytes (e_endian E) f) c)\<lparr>cl_socket := s'\<rparr>)"
    using sends_ready [OF w(2)] w(2) c wb length_header_bytes [of "e_endian E" f]
    by (simp add: wrote_def put_def cl_defs cl_sent_def sends_def)
  with w(1) show ?thesis by blast
qed

lemma send_payload_live:
  assumes E: "e_transport E = T" and c: "cl_ready inv c" and wb: "length (cl_write_buffer c) = 128"
    and f: "built_frame rsv1 op key (length data) (set_payload_size (word_of_nat (length data)) f)"
    and len: "length data < 2 ^ 64" and ptr: "masks_right ptr data" and ms: "0 < ms"
  shows "\<exists>c'. send_payload E f ptr ms (data, c) =
      Some (Ok (), (rfc_mask (key_bytes (e_endian E) key) data, c')) \<and>
    wrote (rfc_frame True rsv1 op (Some (key_bytes (e_endian E) key)) data) c c'"
proof -
  from start_timeout_ok [OF E c ms] obtain to k where
    "start_timeout E ms c = Some (Ok to, c\<lparr>cl_socket := k\<rparr>)" and k: "consumes [] (cl_socket c) k" by blast
  then have s: "on_snd (start_timeout E ms) (data, c) = Some (Ok to, (data, c\<lparr>cl_socket := k\<rparr>))"
    by (simp add: on_snd_Some)
  note w0 = wrote_socket [OF k]
  have "cl_ready inv (c\<lparr>cl_socket := k\<rparr>)" using w0 by (simp add: wrote_def)
  from write_built_frame [OF E this _ f len ptr, of to] wb obtain c' where
    w: "write_frame E (set_payload_size (word_of_nat (length data)) f) ptr to (data, c\<lparr>cl_socket := k\<rparr>) =
      Some (Ok (), (rfc_mask (key_bytes (e_endian E) key) data, c'))"
      "wrote (rfc_frame True rsv1 op (Some (key_bytes (e_endian E) key)) data) (c\<lparr>cl_socket := k\<rparr>) c'"
    by auto
  with wrote_trans [OF w0 w(2)] show ?thesis
    by (simp add: send_payload_def Let_def ws_try_simps(1) [of "on_snd _", OF s])
qed

lemma draw_wrote:
  assumes c: "cl_ready inv c"
  shows "\<exists>key g. draw_mask_key E c = Some (Ok key, c\<lparr>cl_mask_key_gen := g\<rparr>) \<and> wrote [] c (c\<lparr>cl_mask_key_gen := g\<rparr>)"
  using c by (auto simp: draw_mask_key_def wrote_def cl_defs cl_sent_def split: prod.splits)

text \<open>A message without compression.\<close>

lemma send_message_live:
  assumes E: "e_transport E = T" and c: "cl_ready inv c" and wb: "length (cl_write_buffer c) = 128"
    and o: "\<not> cl_closed c" and plain: "cl_pmd_ctx c = None \<or> \<not> opt_compress opts"
    and len: "length data < 2 ^ 64" and ptr: "masks_right ptr data" and ms: "0 < opt_timeout opts"
  shows "\<exists>kb c'. length kb = 4 \<and> send_message E t ptr opts (data, c) = Some (Ok (), (rfc_mask kb data, c')) \<and>
    wrote (rfc_frame True False (message_opcode t) (Some kb) data) c c'"
proof -
  from draw_wrote [OF c, of E] obtain key g where
    g: "draw_mask_key E c = Some (Ok key, c\<lparr>cl_mask_key_gen := g\<rparr>)" "wrote [] c (c\<lparr>cl_mask_key_gen := g\<rparr>)"
    by blast
  then have d: "on_snd (draw_mask_key E) (data, c) = Some (Ok key, (data, c\<lparr>cl_mask_key_gen := g\<rparr>))"
    by (simp add: on_snd_Some)
  have c': "cl_ready inv (c\<lparr>cl_mask_key_gen := g\<rparr>)" "length (cl_write_buffer (c\<lparr>cl_mask_key_gen := g\<rparr>)) = 128"
    using g(2) wb by (simp_all add: wrote_def)
  have "message_opcode t \<noteq> Op_not_set" by (cases t) simp_all
  from send_payload_live [OF E c' built_plain(1) [OF this] len ptr ms, of key] obtain c'' where
    w: "send_payload E ((client_frame (message_opcode t))\<lparr>fr_mask_key := key\<rparr>) ptr (opt_timeout opts)
        (data, c\<lparr>cl_mask_key_gen := g\<rparr>) = Some (Ok (), (rfc_mask (key_bytes (e_endian E) key) data, c''))"
      "wrote (rfc_frame True False (message_opcode t) (Some (key_bytes (e_endian E) key)) data)
        (c\<lparr>cl_mask_key_gen := g\<rparr>) c''"
    by blast
  have nc: "\<not> (cl_pmd_ctx (c\<lparr>cl_mask_key_gen := g\<rparr>) \<noteq> None \<and> opt_compress opts)" using plain by auto
  have "send_message E t ptr opts (data, c) = Some (Ok (), (rfc_mask (key_bytes (e_endian E) key) data, c''))"
    unfolding send_message_def using o
    by (simp only: snd_conv if_False ws_try_simps(1) [of "on_snd _", OF d] Let_def nc w(1))
  with wrote_trans [OF g(2) w(2)] show ?thesis by (intro exI [of _ "key_bytes (e_endian E) key"]) auto
qed

lemma send_pong_live:
  assumes E: "e_transport E = T" and c: "cl_ready inv c" and wb: "length (cl_write_buffer c) = 128"
    and o: "\<not> cl_closed c" and len: "length data < 2 ^ 64" and ptr: "masks_right ptr data" and ms: "0 < ms"
  shows "\<exists>kb c'. length kb = 4 \<and> send_pong_frame E ptr ms (data, c) = Some (Ok (), (rfc_mask kb data, c')) \<and>
    wrote (rfc_frame True False Op_pong (Some kb) data) c c'"
proof -
  from draw_wrote [OF c, of E] obtain key g where
    g: "draw_mask_key E c = Some (Ok key, c\<lparr>cl_mask_key_gen := g\<rparr>)" "wrote [] c (c\<lparr>cl_mask_key_gen := g\<rparr>)"
    by blast
  let ?c1 = "c\<lparr>cl_mask_key_gen := g\<rparr>"
  have d: "on_snd (draw_mask_key E) (data, c) = Some (Ok key, (data, ?c1))"
    using g(1) by (simp add: on_snd_Some)
  have c1: "cl_ready inv ?c1" using g(2) by (simp add: wrote_def)
  from start_timeout_ok [OF E c1 ms] obtain to k where
    "start_timeout E ms ?c1 = Some (Ok to, ?c1\<lparr>cl_socket := k\<rparr>)" and k: "consumes [] (cl_socket ?c1) k" by blast
  then have s: "on_snd (start_timeout E ms) (data, ?c1) = Some (Ok to, (data, ?c1\<lparr>cl_socket := k\<rparr>))"
    by (simp add: on_snd_Some)
  note w0 = wrote_trans [OF g(2) wrote_socket [OF k]]
  have c2: "cl_ready inv (?c1\<lparr>cl_socket := k\<rparr>)" "length (cl_write_buffer (?c1\<lparr>cl_socket := k\<rparr>)) = 128"
    using w0 wb by (simp_all add: wrote_def)
  from write_built_frame [OF E c2 built_plain(2) len ptr, of Op_pong key to] obtain c' where
    w: "write_frame E ((set_payload_size (word_of_nat (length data)) (client_frame Op_pong))\<lparr>fr_mask_key := key\<rparr>)
        ptr to (data, ?c1\<lparr>cl_socket := k\<rparr>) = Some (Ok (), (rfc_mask (key_bytes (e_endian E) key) data, c'))"
      "wrote (rfc_frame True False Op_pong (Some (key_bytes (e_endian E) key)) data) (?c1\<lparr>cl_socket := k\<rparr>) c'"
    by blast
  have "send_pong_frame E ptr ms (data, c) = Some (Ok (), (rfc_mask (key_bytes (e_endian E) key) data, c'))"
    unfolding send_pong_frame_def using o
    by (simp only: snd_conv fst_conv if_False Let_def ws_try_simps(1) [of "on_snd _", OF d]
        ws_try_simps(1) [of "on_snd _", OF s] w(1))
  with wrote_trans [OF w0 w(2)] show ?thesis by (intro exI [of _ "key_bytes (e_endian E) key"]) auto
qed

end

subsection \<open>Closing a connection\<close>

lemma subspan_put: "p + length xs \<le> length (cl_write_buffer c) \<Longrightarrow> subspan p (length xs) (cl_write_buffer (put p xs c)) = xs"
  by (simp add: subspan_def put_def blit_def)

lemma length_be_bytes16: "length (be_bytes (w :: u16)) = 2"
  by (simp add: be_bytes_def le_bytes_def)

context live_socket
begin

lemma send_close_live:
  assumes E: "e_transport E = T" and c: "cl_ready inv c" and wb: "length (cl_write_buffer c) = 128"
    and code: "code \<noteq> not_set"
  shows "\<exists>kb c'. length kb = 4 \<and> send_close_frame E code to c = Some (Ok (), c') \<and>
    wrote (rfc_frame True False Op_close (Some kb) (be_bytes code)) c c'"
proof -
  let ?p = "be_bytes code"
  note l2 = length_be_bytes16 [of code]
  from draw_wrote [OF c, of E] obtain key g where
    g: "draw_mask_key E c = Some (Ok key, c\<lparr>cl_mask_key_gen := g\<rparr>)" "wrote [] c (c\<lparr>cl_mask_key_gen := g\<rparr>)"
    by blast
  let ?c1 = "put 125 ?p (c\<lparr>cl_mask_key_gen := g\<rparr>)"
  have w1: "wrote [] c ?c1" using wrote_put [OF g(2), of 125 ?p] wb l2 by simp
  have c1: "cl_ready inv ?c1" "length (cl_write_buffer ?c1) = 128" using w1 wb by (simp_all add: wrote_def)
  have pay: "subspan 125 2 (cl_write_buffer ?c1) = ?p"
    using subspan_put [of 125 ?p "c\<lparr>cl_mask_key_gen := g\<rparr>"] wb l2 by simp
  have len: "length ?p < 2 ^ 64" and ptr: "masks_right (cl_write_ptr ?c1 + 125) ?p"
    using l2 by (simp_all add: masks_right_def)
  from write_built_frame [OF E c1 built_plain(1) len ptr, of Op_close key to] obtain c2 where
    w2: "write_frame E (set_payload_size (word_of_nat (length ?p)) ((client_frame Op_close)\<lparr>fr_mask_key := key\<rparr>))
        (cl_write_ptr ?c1 + 125) to (?p, ?c1) = Some (Ok (), (rfc_mask (key_bytes (e_endian E) key) ?p, c2))"
      "wrote (rfc_frame True False Op_close (Some (key_bytes (e_endian E) key)) ?p) ?c1 c2"
    by blast
  have w: "wrote (rfc_frame True False Op_close (Some (key_bytes (e_endian E) key)) ?p) c
      (put 125 (rfc_mask (key_bytes (e_endian E) key) ?p) c2)"
    using wrote_put [OF wrote_trans [OF w1 w2(2)], of 125 "rfc_mask (key_bytes (e_endian E) key) ?p"] wb l2
    by simp
  have "send_close_frame E code to c = Some (Ok (), put 125 (rfc_mask (key_bytes (e_endian E) key) ?p) c2)"
    unfolding send_close_frame_def ws_try_simps(1) [of "draw_mask_key E", OF g(1)] Let_def
      mem_host_to_network16 pay w2(1) using code by simp
  with w show ?thesis by (intro exI [of _ "key_bytes (e_endian E) key"]) auto
qed

lemma shutdown_close_live:
  assumes E: "e_transport E = T" and c: "cl_ready inv c"
  shows "\<exists>r c'. ws_try (shutdown_socket E fail to) (\<lambda>_. on_sock (on_socket (tr_close T fail))) c = Some (r, c') \<and>
    r \<noteq> Abort \<and> cl_closed c' = cl_closed c \<and> cl_sent sent c' = cl_sent sent c"
proof -
  let ?k = "bs_socket (cl_socket c)"
  have i: "inv ?k" using c by (simp add: cl_defs bs_defs)
  from shutdown_live [OF i] obtain r1 k1 where s1: "tr_shutdown T fail to ?k = Some (r1, k1)" by blast
  note q1 = shutdown_quiet [OF i s1]
  let ?c1 = "c\<lparr>cl_socket := (cl_socket c)\<lparr>bs_socket := k1\<rparr>\<rparr>"
  have "on_sock (on_socket (tr_shutdown T fail to)) c = Some (r1, ?c1)"
    using s1 by (simp add: on_sock_Some on_socket_Some)
  then have a: "shutdown_socket E fail to c = Some (Ok (), ?c1)" using q1 E by (simp add: shutdown_socket_def)
  from close_live [of k1] q1 obtain r2 k2 where s2: "tr_close T fail k1 = Some (r2, k2)" by blast
  note q2 = close_quiet [of k1, OF _ s2]
  have "on_sock (on_socket (tr_close T fail)) ?c1 =
      Some (r2, ?c1\<lparr>cl_socket := (cl_socket ?c1)\<lparr>bs_socket := k2\<rparr>\<rparr>)"
    using s2 by (simp add: on_sock_Some on_socket_Some)
  with a q1 q2 show ?thesis
    by (auto simp: ws_try_simps(1) [of "shutdown_socket _ _ _"] cl_sent_def bs_sent_def)
qed

lemma client_close_live:
  assumes E: "e_transport E = T" and c: "cl_ready inv c" and wb: "length (cl_write_buffer c) = 128"
    and o: "\<not> cl_closed c" and ms: "0 < ms"
  shows "\<exists>kb r c'. length kb = 4 \<and> client_close E code ms c = Some (r, c') \<and> r \<noteq> Abort \<and> cl_closed c' \<and>
    cl_sent sent c' = cl_sent sent c @
      (if fails_connection code then [] else rfc_frame True False Op_close (Some kb) (be_bytes code))"
proof -
  from start_timeout_ok [OF E c ms] obtain to k where
    s: "start_timeout E ms c = Some (Ok to, c\<lparr>cl_socket := k\<rparr>)" and k: "consumes [] (cl_socket c) k" by blast
  let ?c = "c\<lparr>cl_socket := k\<rparr>"
  note w0 = wrote_socket [OF k]
  have c0: "cl_ready inv ?c" "length (cl_write_buffer ?c) = 128" using w0 wb by (simp_all add: wrote_def)
  have "\<exists>kb c1. length kb = 4 \<and> try_close_frame E code to ?c = Some (Ok (fails_connection code), c1) \<and>
      wrote (if fails_connection code then [] else rfc_frame True False Op_close (Some kb) (be_bytes code)) ?c c1"
  proof (cases "fails_connection code")
    case True
    with c0(1) show ?thesis
      by (intro exI [of _ "replicate 4 0"] exI [of _ ?c]) (simp add: try_close_frame_def wrote_def)
  next
    case False
    then have "code \<noteq> not_set" by (simp add: fails_connection_def)
    from send_close_live [OF E c0 this, of to] False show ?thesis by (auto simp: try_close_frame_def)
  qed
  then obtain kb c1 where t: "length kb = 4" "try_close_frame E code to ?c = Some (Ok (fails_connection code), c1)"
    "wrote (if fails_connection code then [] else rfc_frame True False Op_close (Some kb) (be_bytes code)) ?c c1"
    by blast
  let ?c2 = "c1\<lparr>cl_closed := True\<rparr>"
  have "cl_ready inv ?c2" using t(3) by (simp add: wrote_def cl_ready_def)
  from shutdown_close_live [OF E this, of "fails_connection code" to] obtain r c' where
    f: "ws_try (shutdown_socket E (fails_connection code) to)
        (\<lambda>_. on_sock (on_socket (tr_close T (fails_connection code)))) ?c2 = Some (r, c')"
      "r \<noteq> Abort" "cl_closed c'" "cl_sent sent c' = cl_sent sent c1"
    by (auto simp: cl_sent_def)
  have "client_close E code ms c = Some (r, c')"
    unfolding client_close_def using o
    by (simp only: if_False ws_try_simps(1) [of "start_timeout _ _", OF s]
        ws_try_simps(1) [of "try_close_frame _ _ _", OF t(2)] Let_def E f(1))
  moreover have "cl_sent sent c1 = cl_sent sent c @
      (if fails_connection code then [] else rfc_frame True False Op_close (Some kb) (be_bytes code))"
    using wrote_trans [OF w0 t(3)] by (simp add: wrote_def)
  ultimately show ?thesis using t(1) f by auto
qed

end

subsection \<open>Properties\<close>

lemma length_rfc_decode_frame:
  "op \<noteq> Op_not_set \<Longrightarrow> length payload < 2 ^ 64 \<Longrightarrow> length kb = 4 \<Longrightarrow>
     rfc_decode (rfc_frame fin rsv1 op (Some kb) payload @ rest) = Some ((fin, rsv1, op, Some kb, payload), rest)"
  by (rule rfc_decode_frame) simp_all

text \<open>
  C2: An uncompressed message sent on a live socket arrives: the bytes written are one complete frame
  that a receiver following RFC 6455 decodes, whatever comes behind it, to a final, masked frame with the
  message's opcode and exactly its payload, for every payload length (7, 16 and 64 bit lengths) at an
  address where the masking is right. Nothing that was received is lost, and the caller's memory is
  left masked with the key that was sent.
\<close>

theorem send_message_decodes:
  assumes "live_socket (e_transport E) I pend sent" and "cl_ready I c" and "length (cl_write_buffer c) = 128"
    and "is_open c" and "cl_pmd_ctx c = None \<or> \<not> opt_compress opts"
    and "length payload < 2 ^ 64" and "masks_right ptr payload" and "0 < opt_timeout opts"
  shows "\<exists>kb c' w. send_message E t ptr opts (payload, c) = Some (Ok (), (rfc_mask kb payload, c')) \<and>
    cl_sent sent c' = cl_sent sent c @ w \<and>
    (\<forall>rest. rfc_decode (w @ rest) = Some ((True, False, message_opcode t, Some kb, payload), rest)) \<and>
    cl_ready I c' \<and> is_open c' \<and> cl_stream pend c' = cl_stream pend c"
proof -
  have o: "\<not> cl_closed c" using assms(4) by (simp add: is_open_def)
  have op: "message_opcode t \<noteq> Op_not_set" by (cases t) simp_all
  from live_socket.send_message_live [OF assms(1) refl assms(2,3) o assms(5-8), of t] obtain kb c' where
    "length kb = 4" "send_message E t ptr opts (payload, c) = Some (Ok (), (rfc_mask kb payload, c'))"
    "live_socket.wrote I pend sent (rfc_frame True False (message_opcode t) (Some kb) payload) c c'" by blast
  with length_rfc_decode_frame [OF op assms(6)] o show ?thesis
    unfolding live_socket.wrote_def [OF assms(1)] is_open_def
    by (intro exI [of _ kb] exI [of _ c'] exI [of _ "rfc_frame True False (message_opcode t) (Some kb) payload"]) auto
qed

lemma script_open_client:
  fixes k :: script
  shows "\<exists>c. cl_ready (\<lambda>_. True) (c :: (script, mask_key, token_state) client) \<and> cl_stream sc_in c = sc_in k \<and>
     cl_sent sc_out c = sc_out k \<and> cl_pmd_ctx c = None \<and> length (cl_write_buffer c) = 128 \<and> is_open c"
proof -
  from script_client [of k] obtain c where
    c: "cl_ready (\<lambda>_. True) (c :: (script, mask_key, token_state) client)" "cl_stream sc_in c = sc_in k"
       "cl_sent sc_out c = sc_out k" "cl_pmd_ctx c = None" "length (cl_write_buffer c) = 128" by blast
  then show ?thesis
    by (intro exI [of _ "c\<lparr>cl_closed := False\<rparr>"]) (simp add: cl_defs cl_sent_def is_open_def)
qed

theorem send_message_decodes_witness:
  "\<exists>c kb c' w. send_message script_env Mt_text 4096 send_options_default ([72, 105], c) =
       Some (Ok (), (rfc_mask kb [72, 105], c')) \<and>
     cl_sent sc_out c = [1] \<and> cl_sent sc_out c' = [1] @ w \<and>
     rfc_decode w = Some ((True, False, Op_text, Some kb, [72, 105]), [])"
proof -
  let ?k = "\<lparr>sc_in = [], sc_out = [1], sc_chunks = [3, 1], sc_closed = False\<rparr>"
  from script_open_client [of ?k] obtain c where
    c: "cl_ready (\<lambda>_. True) (c :: (script, mask_key, token_state) client)" "cl_sent sc_out c = [1]"
       "cl_pmd_ctx c = None" "length (cl_write_buffer c) = 128" "is_open c" by auto
  have live: "live_socket (e_transport script_env) (\<lambda>_. True) sc_in sc_out" by (simp add: script.live_socket_axioms)
  have len: "length [72, 105 :: byte] < 2 ^ 64" and ptr: "masks_right 4096 [72, 105]"
    and to: "0 < opt_timeout send_options_default"
    by (simp_all add: masks_right_def send_options_default_def)
  from send_message_decodes [OF live c(1,4,5) disjI1 [OF c(3)] len ptr to, of Mt_text] obtain kb c' w where
    "send_message script_env Mt_text 4096 send_options_default ([72, 105], c) = Some (Ok (), (rfc_mask kb [72, 105], c'))"
    "cl_sent sc_out c' = [1] @ w"
    "\<forall>rest. rfc_decode (w @ rest) = Some ((True, False, Op_text, Some kb, [72, 105]), rest)"
    using c(2) by auto
  moreover from this(3) have "rfc_decode w = Some ((True, False, Op_text, Some kb, [72, 105]), [])"
    by (metis append_Nil2)
  ultimately show ?thesis using c(2) by blast
qed

text \<open>
  C4: \<open>close\<close> on an open client of a live socket: the call returns, the client is closed and stays so,
  further calls of \<open>close\<close> do nothing, and what it sent is one close frame that decodes to the status
  code, unless the code is one that fails the connection, when it sent nothing.
\<close>

theorem client_close_outcome:
  assumes "live_socket (e_transport E) I pend sent" and "cl_ready I c" and "length (cl_write_buffer c) = 128"
    and "is_open c" and "0 < ms"
  shows "\<exists>kb r c' w. client_close E code ms c = Some (r, c') \<and> r \<noteq> Abort \<and> is_closed c' \<and>
    cl_sent sent c' = cl_sent sent c @ w \<and>
    (if fails_connection code then w = []
     else rfc_decode w = Some ((True, False, Op_close, Some kb, be_bytes code), []) \<and>
       be_word (take 2 (be_bytes code)) = code) \<and>
    (\<forall>code' ms'. client_close E code' ms' c' = Some (Ok (), c'))"
proof -
  have o: "\<not> cl_closed c" using assms(4) by (simp add: is_open_def)
  from live_socket.client_close_live [OF assms(1) refl assms(2,3) o assms(5), of code] obtain kb r c' where
    k: "length kb = 4" "client_close E code ms c = Some (r, c')" "r \<noteq> Abort" "cl_closed c'"
      "cl_sent sent c' = cl_sent sent c @
        (if fails_connection code then [] else rfc_frame True False Op_close (Some kb) (be_bytes code))" by blast
  have "rfc_decode (rfc_frame True False Op_close (Some kb) (be_bytes code) @ []) =
      Some ((True, False, Op_close, Some kb, be_bytes code), [])"
    by (rule length_rfc_decode_frame) (simp_all add: k(1))
  moreover have "take 2 (be_bytes code) = be_bytes code" by simp
  ultimately show ?thesis using k
    by (intro exI [of _ kb] exI [of _ r] exI [of _ c'] exI [of _ "if fails_connection code then []
          else rfc_frame True False Op_close (Some kb) (be_bytes code)"])
      (auto simp: is_closed_def client_close_def be_word_be_bytes)
qed

theorem client_close_outcome_witness:
  "\<exists>c kb r c'. client_close script_env normal_closure 5000 c = Some (r, c') \<and> is_open c \<and> is_closed c' \<and>
     rfc_decode (cl_sent sc_out c') = Some ((True, False, Op_close, Some kb, be_bytes normal_closure), [])"
proof -
  let ?k = "\<lparr>sc_in = [], sc_out = [], sc_chunks = [4], sc_closed = False\<rparr>"
  from script_open_client [of ?k] obtain c where
    c: "cl_ready (\<lambda>_. True) (c :: (script, mask_key, token_state) client)" "cl_sent sc_out c = []"
       "length (cl_write_buffer c) = 128" "is_open c" by auto
  have live: "live_socket (e_transport script_env) (\<lambda>_. True) sc_in sc_out" by (simp add: script.live_socket_axioms)
  have "\<not> fails_connection normal_closure" by (simp add: fails_connection_def close_code_defs)
  with client_close_outcome [OF live c(1,3,4), of 5000 normal_closure] c(2,4) show ?thesis by auto
qed

end
