(* ===== verification/Url.thy ===== *)
theory Url
  imports Text_Streams Errors
begin

section \<open>URLs (URL.hpp)\<close>

text \<open>
  The four fields of class \<open>URL\<close> and its parser, branch by branch: positions in the input are
  indices, \<open>std::string::npos\<close> is \<open>None\<close>. The table of default ports is its initial value.
\<close>

record url =
  url_protocol :: string
  url_host :: string
  url_port :: int
  url_resource :: string

definition protocol_port_map :: "(string \<times> int) list" where
  "protocol_port_map =
     [(''https'', 443), (''wss'', 443), (''http'', 80), (''ws'', 80), (''ftp'', 21), (''ssh'', 22)]"

definition url_error :: "url_message \<Rightarrow> 'a ws_result" where
  "url_error m = Err (WSError Url_error (Url_msg m) not_set)"

definition get_default_port :: "string \<Rightarrow> int ws_result" where
  "get_default_port protocol =
     (case map_of protocol_port_map protocol of
        Some p \<Rightarrow> Ok p
      | None \<Rightarrow> url_error (Msg_unknown_protocol protocol))"

definition parse_port :: "string \<Rightarrow> int ws_result" where
  "parse_port input =
     (case from_chars (- 2147483648) 2147483647 input of
        Some (port, rest) \<Rightarrow>
          if rest \<noteq> [] \<or> port < 1 \<or> port > 65535 then url_error (Msg_port input) else Ok port
      | None \<Rightarrow> url_error (Msg_port input))"

definition tolower_char :: "char \<Rightarrow> char" where
  "tolower_char c = char_of (tolower (char_code c))"

text \<open>\<open>find\<close> and \<open>find_first_of\<close> from a position, and \<open>substr\<close>.\<close>

definition find_from :: "(char \<Rightarrow> bool) \<Rightarrow> nat \<Rightarrow> string \<Rightarrow> nat option" where
  "find_from P off s =
     (let n = length (takeWhile (\<lambda>c. \<not> P c) (drop off s)) in
      if off + n < length s then Some (off + n) else None)"

definition path_start :: "char \<Rightarrow> bool" where
  "path_start c \<longleftrightarrow> c \<in> set ''/?#''"

definition substr :: "string \<Rightarrow> nat \<Rightarrow> nat \<Rightarrow> string" where
  "substr s pos n = take n (drop pos s)"

definition url_end :: "nat option \<Rightarrow> string \<Rightarrow> nat" where
  "url_end p s = (case p of Some n \<Rightarrow> n | None \<Rightarrow> length s)"

text \<open>A host in brackets: the host, the port and the end of the authority.\<close>

definition parse_ipv6_host :: "string \<Rightarrow> nat \<Rightarrow> int \<Rightarrow> (string \<times> int \<times> nat option) ws_result" where
  "parse_ipv6_host s offset default_port =
     (case find_from ((=) CHR '']'') offset s of
        None \<Rightarrow> url_error (Msg_ipv6_bracket s)
      | Some ipv6_end_pos \<Rightarrow>
          (let host = substr s (offset + 1) (ipv6_end_pos - offset - 1);
               port_start = ipv6_end_pos + 1;
               host_end_pos = find_from path_start port_start s
           in if port_start < length s \<and> s ! port_start = CHR '':''
              then let port_end = url_end host_end_pos s;
                       port_str = substr s (port_start + 1) (port_end - port_start - 1)
                   in if port_str = [] then Ok (host, default_port, host_end_pos)
                      else res_try (parse_port port_str) (\<lambda>port. Ok (host, port, host_end_pos))
              else if port_start < length s \<and> s ! port_start \<noteq> CHR ''/'' \<and> s ! port_start \<noteq> CHR ''?'' \<and>
                      s ! port_start \<noteq> CHR ''#''
              then url_error (Msg_ipv6_trailing s)
              else Ok (host, default_port, host_end_pos)))"

definition parse_plain_host :: "string \<Rightarrow> nat \<Rightarrow> int \<Rightarrow> (string \<times> int \<times> nat option) ws_result" where
  "parse_plain_host s offset default_port =
     (let host_end_pos = find_from path_start offset s;
          no_port = Ok (substr s offset (url_end host_end_pos s - offset), default_port, host_end_pos)
      in case find_from ((=) CHR '':'') offset s of
           None \<Rightarrow> no_port
         | Some colon_pos \<Rightarrow>
             if host_end_pos = None \<or> colon_pos < the host_end_pos
             then let host = substr s offset (colon_pos - offset);
                      port_end = url_end host_end_pos s;
                      port_str = substr s (colon_pos + 1) (port_end - colon_pos - 1)
                  in if port_str = [] then Ok (host, default_port, host_end_pos)
                     else res_try (parse_port port_str) (\<lambda>port. Ok (host, port, host_end_pos))
             else no_port)"

definition url_request_target :: "string \<Rightarrow> nat option \<Rightarrow> string" where
  "url_request_target s host_end_pos =
     (case host_end_pos of
        None \<Rightarrow> ''/''
      | Some n \<Rightarrow>
          if s ! n = CHR ''#'' then ''/''
          else let resource_end = url_end (find_from ((=) CHR ''#'') n s) s;
                   resource = substr s n (resource_end - n)
               in if take 1 resource = ''?'' then CHR ''/'' # resource else resource)"

definition url_parse :: "string \<Rightarrow> url ws_result" where
  "url_parse s =
     (case find_sub ''://'' s of
        None \<Rightarrow> url_error (Msg_no_protocol s)
      | Some protocol_end_pos \<Rightarrow>
          (let protocol = List.map tolower_char (substr s 0 protocol_end_pos) in
           res_try (get_default_port protocol) (\<lambda>default_port.
             let offset = protocol_end_pos + 3 in
             res_try
               (if offset < length s \<and> s ! offset = CHR ''[''
                then parse_ipv6_host s offset default_port
                else parse_plain_host s offset default_port)
               (\<lambda>(host, port, host_end_pos).
                  if host = [] then url_error (Msg_empty_host s)
                  else Ok \<lparr>url_protocol = protocol, url_host = host, url_port = port,
                           url_resource = url_request_target s host_end_pos\<rparr>))))"

definition url_authority :: "url \<Rightarrow> string" where
  "url_authority u =
     (if find_char CHR '':'' (url_host u) \<noteq> None
      then ''['' @ url_host u @ '']:'' @ show_int (url_port u)
      else url_host u @ '':'' @ show_int (url_port u))"

definition url_to_string :: "url \<Rightarrow> string" where
  "url_to_string u = url_protocol u @ ''://'' @ url_authority u @ url_resource u"

subsection \<open>Searching\<close>

lemma find_from_append:
  assumes "\<forall>c \<in> set mid. \<not> P c" and "P d"
  shows "find_from P (length pre) (pre @ mid @ d # rest) = Some (length pre + length mid)"
proof -
  have "takeWhile (\<lambda>c. \<not> P c) (mid @ d # rest) = mid" using assms by (induction mid) auto
  then show ?thesis by (simp add: find_from_def)
qed

lemma find_from_absent:
  assumes "\<forall>c \<in> set mid. \<not> P c"
  shows "find_from P (length pre) (pre @ mid) = None"
proof -
  have "length (takeWhile (\<lambda>c. \<not> P c) mid) = length mid" using assms by (induction mid) auto
  then show ?thesis by (simp add: find_from_def Let_def)
qed

lemma takeWhile_shorter: "x \<in> set xs \<Longrightarrow> \<not> P x \<Longrightarrow> length (takeWhile P xs) < length xs"
  by (induction xs) auto

lemma find_from_None:
  assumes "find_from P off s = None" and k: "off \<le> k" "k < length s"
  shows "\<not> P (s ! k)"
proof
  assume "P (s ! k)"
  moreover have "s ! k \<in> set (drop off s)"
    using k nth_mem [of "k - off" "drop off s"] by simp
  ultimately have "length (takeWhile (\<lambda>c. \<not> P c) (drop off s)) < length (drop off s)"
    by (intro takeWhile_shorter) auto
  with assms show False by (auto simp: find_from_def Let_def split: if_splits)
qed

lemma find_from_Some:
  assumes "find_from P off s = Some n"
  shows "off \<le> n \<and> n < length s \<and> P (s ! n) \<and> (\<forall>k. off \<le> k \<and> k < n \<longrightarrow> \<not> P (s ! k))"
proof -
  let ?w = "takeWhile (\<lambda>c. \<not> P c) (drop off s)"
  from assms have n: "n = off + length ?w" and l: "n < length s"
    by (auto simp: find_from_def Let_def split: if_splits)
  then have "length ?w < length (drop off s)" by simp
  from nth_length_takeWhile [OF this] n l have "P (s ! n)" by simp
  moreover have "\<not> P (s ! k)" if "off \<le> k" "k < n" for k
  proof -
    have "k - off < length ?w" using that n by simp
    with set_takeWhileD [OF nth_mem [OF this]] have "\<not> P (?w ! (k - off))" by blast
    with \<open>k - off < length ?w\<close> that l show ?thesis by (simp add: takeWhile_nth)
  qed
  ultimately show ?thesis using n l by simp
qed


subsection \<open>What the parser accepts\<close>

definition known_protocol :: "string \<Rightarrow> bool" where
  "known_protocol p \<longleftrightarrow> p \<in> fst ` set protocol_port_map"

definition printable_host :: "string \<Rightarrow> bool" where
  "printable_host h \<longleftrightarrow> h \<noteq> [] \<and>
     (if CHR '':'' \<in> set h then CHR '']'' \<notin> set h
      else (\<forall>c \<in> set h. \<not> path_start c) \<and> hd h \<noteq> CHR ''['')"

definition url_ok :: "url \<Rightarrow> bool" where
  "url_ok u \<longleftrightarrow> known_protocol (url_protocol u) \<and> url_host u \<noteq> [] \<and>
     1 \<le> url_port u \<and> url_port u \<le> 65535 \<and>
     (\<exists>r. url_resource u = CHR ''/'' # r \<and> CHR ''#'' \<notin> set r)"

lemma parse_port_Ok: "parse_port p = Ok n \<Longrightarrow> 1 \<le> n \<and> n \<le> 65535"
  by (auto simp: parse_port_def url_error_def split: option.splits if_splits)

lemma parse_port_show: "1 \<le> n \<Longrightarrow> n \<le> 65535 \<Longrightarrow> parse_port (show_int n) = Ok n"
  using from_chars_show_nat [of "[]" "nat n" 2147483647 "- 2147483648"]
  by (simp add: parse_port_def show_int_def)

lemma get_default_port_Ok:
  "get_default_port p = Ok n \<Longrightarrow> known_protocol p \<and> 1 \<le> n \<and> n \<le> 65535"
  by (auto simp: get_default_port_def url_error_def known_protocol_def protocol_port_map_def
      split: option.splits if_splits)

lemma res_try_Ok: "res_try r k = Ok v \<longleftrightarrow> (\<exists>x. r = Ok x \<and> k x = Ok v)"
  by (cases r) auto

lemma parse_ipv6_host_Ok:
  assumes "parse_ipv6_host s off d = Ok (h, n, e)" and "1 \<le> d" "d \<le> 65535"
  shows "1 \<le> n \<and> n \<le> 65535 \<and> (\<exists>k. find_from path_start k s = e)"
  using assms
  by (auto simp: parse_ipv6_host_def url_error_def Let_def res_try_Ok split: option.splits if_splits
      dest: parse_port_Ok)

lemma parse_plain_host_Ok:
  assumes "parse_plain_host s off d = Ok (h, n, e)" and "1 \<le> d" "d \<le> 65535"
  shows "1 \<le> n \<and> n \<le> 65535 \<and> (\<exists>k. find_from path_start k s = e)"
  using assms
  by (auto simp: parse_plain_host_def url_error_def Let_def res_try_Ok split: option.splits if_splits
      dest: parse_port_Ok)

lemma url_request_target_ok:
  "\<exists>r. url_request_target s (find_from path_start k s) = CHR ''/'' # r \<and> CHR ''#'' \<notin> set r"
proof (cases "find_from path_start k s")
  case None
  then show ?thesis by (simp add: url_request_target_def)
next
  case (Some n)
  from find_from_Some [OF Some] have n: "n < length s" "path_start (s ! n)" by auto
  show ?thesis
  proof (cases "s ! n = CHR ''#''")
    case True
    with Some show ?thesis by (simp add: url_request_target_def)
  next
    case False
    define e where "e = url_end (find_from ((=) CHR ''#'') n s) s"
    have e: "n \<le> e" "e \<le> length s" "\<forall>k. n \<le> k \<and> k < e \<longrightarrow> s ! k \<noteq> CHR ''#''"
    proof -
      show "n \<le> e" "e \<le> length s"
        using find_from_Some [of "(=) CHR ''#''" n s] n
        by (auto simp: e_def url_end_def split: option.splits)
      show "\<forall>k. n \<le> k \<and> k < e \<longrightarrow> s ! k \<noteq> CHR ''#''"
      proof (cases "find_from ((=) CHR ''#'') n s")
        case (Some m)
        then show ?thesis using find_from_Some [OF Some] by (auto simp: e_def url_end_def)
      next
        case None
        then have "CHR ''#'' \<noteq> s ! k" if "n \<le> k" "k < e" for k
          using that by (intro find_from_None [OF None]) (simp_all add: e_def url_end_def)
        then show ?thesis by fastforce
      qed
    qed
    let ?r = "substr s n (e - n)"
    have "n < e"
    proof (rule ccontr)
      assume "\<not> n < e"
      with e(1) have "e = n" by simp
      with n False show False
        using find_from_Some [of "(=) CHR ''#''" n s]
        by (auto simp: e_def url_end_def split: option.splits)
    qed
    with e have r: "?r \<noteq> []" "hd ?r = s ! n" "CHR ''#'' \<notin> set ?r"
      by (auto simp: substr_def hd_drop_conv_nth hd_take in_set_conv_nth)
    have "hd ?r = CHR ''/'' \<or> hd ?r = CHR ''?''"
      using n False by (auto simp: r path_start_def)
    then show ?thesis
      using r Some False
      by (cases ?r) (auto simp: url_request_target_def Let_def e_def [symmetric])
  qed
qed

text \<open>
  Whatever text is parsed as a URL, an accepted result has a known protocol, a non-empty host, a
  port between 1 and 65535 and a request target that starts with a slash and carries no fragment.
\<close>

theorem url_parse_sound:
  "url_parse s = Ok u \<Longrightarrow> url_ok u"
proof -
  assume "url_parse s = Ok u"
  then obtain p d h n e off c where d: "get_default_port p = Ok d" and h: "h \<noteq> []"
    and r: "(if c then parse_ipv6_host s off d else parse_plain_host s off d) = Ok (h, n, e)"
    and u: "u = \<lparr>url_protocol = p, url_host = h, url_port = n,
      url_resource = url_request_target s e\<rparr>"
    unfolding url_parse_def url_error_def Let_def
    by (cases "find_sub ''://'' s") (simp, fastforce simp: res_try_Ok split: if_split_asm)
  note d = get_default_port_Ok [OF d]
  with r have "1 \<le> n \<and> n \<le> 65535 \<and> (\<exists>k. find_from path_start k s = e)"
    using parse_ipv6_host_Ok [of s off d h n e] parse_plain_host_Ok [of s off d h n e]
    by (cases c) auto
  with d h url_request_target_ok [of s] show ?thesis by (auto simp: url_ok_def u)
qed


theorem url_parse_sound_witness:
  "\<exists>u. url_parse ''WSS://[::1]:9001?x#y'' = Ok u \<and> url_ok u \<and> url_resource u = ''/?x'' \<and>
     url_port u = 9001 \<and> url_host u = ''::1''"
proof -
  have "url_parse ''WSS://[::1]:9001?x#y'' =
      Ok \<lparr>url_protocol = ''wss'', url_host = ''::1'', url_port = 9001, url_resource = ''/?x''\<rparr>"
    by (simp add: url_parse_def substr_def get_default_port_def protocol_port_map_def
        tolower_char_def tolower_def char_code_def parse_ipv6_host_def find_from_def Let_def
        path_start_def url_end_def parse_port_def from_chars_def isdigit_def digits_value_def
        url_request_target_def char_of_def bit_iff_odd)
  from this url_parse_sound [OF this] show ?thesis by simp
qed

subsection \<open>Printing and parsing\<close>

lemma substr_append: "substr (pre @ mid @ post) (length pre) (length mid) = mid"
  by (simp add: substr_def)

lemma known_protocol_lower:
  "known_protocol p \<Longrightarrow> List.map tolower_char p = p \<and> (\<exists>d. get_default_port p = Ok d) \<and>
     find_sub ''://'' (p @ ''://'' @ rest) = Some (length p)"
  unfolding known_protocol_def protocol_port_map_def
  by (simp, elim disjE)
    (simp_all add: get_default_port_def protocol_port_map_def tolower_char_def tolower_def
      char_code_def char_of_def bit_iff_odd)

lemma path_start_chars: "\<not> path_start CHR '':''" "path_start CHR ''/''"
  by (simp_all add: path_start_def)

lemma find_path_start:
  assumes "\<forall>c \<in> set mid. \<not> path_start c"
  shows "find_from path_start (length pre) (pre @ mid @ CHR ''/'' # rest) =
    Some (length pre + length mid)"
  by (rule find_from_append [OF assms path_start_chars(2)])

lemma show_int_port:
  "1 \<le> n \<Longrightarrow> show_int n \<noteq> [] \<and> (\<forall>c \<in> set (show_int n). isdigit c)"
  using show_nat_digits by (simp add: show_int_def)

lemma isdigit_not_special:
  "isdigit c \<Longrightarrow> \<not> path_start c \<and> c \<noteq> CHR '':'' \<and> c \<noteq> CHR '']'' \<and> c \<noteq> CHR ''#''"
  by (auto simp: isdigit_def path_start_def char_code_def)

lemma request_target_printed:
  assumes "CHR ''#'' \<notin> set r"
  shows "url_request_target (pre @ CHR ''/'' # r) (Some (length pre)) = CHR ''/'' # r"
proof -
  have "find_from ((=) CHR ''#'') (length pre) (pre @ CHR ''/'' # r) = None"
    using assms by (intro find_from_absent) auto
  then show ?thesis
    by (simp add: url_request_target_def url_end_def substr_def Let_def nth_append)
qed

lemma parse_ipv6_printed:
  assumes h: "CHR '']'' \<notin> set h" and n: "1 \<le> n" "n \<le> 65535"
  shows "parse_ipv6_host (pre @ ''['' @ h @ '']:'' @ show_int n @ CHR ''/'' # r) (length pre) d =
    Ok (h, n, Some (length (pre @ ''['' @ h @ '']:'' @ show_int n)))"
proof -
  let ?s = "pre @ ''['' @ h @ '']:'' @ show_int n @ CHR ''/'' # r"
  let ?p = "show_int n"
  have digits: "?p \<noteq> []" "\<forall>c \<in> set ?p. isdigit c" using show_int_port [OF n(1)] by auto
  have br: "find_from ((=) CHR '']'') (length pre) ?s = Some (length pre + 1 + length h)"
    using find_from_append [of "''['' @ h" "(=) CHR '']''" "CHR '']''" pre "'':'' @ ?p @ CHR ''/'' # r"] h
    by auto
  have he: "find_from path_start (length pre + 1 + length h + 1) ?s =
      Some (length pre + 1 + length h + 2 + length ?p)"
  proof -
    have "\<forall>c \<in> set ('':'' @ ?p). \<not> path_start c"
      using digits(2) isdigit_not_special path_start_chars by auto
    from find_path_start [OF this, of "pre @ ''['' @ h @ '']''" r] show ?thesis by simp
  qed
  have hs: "substr ?s (length pre + 1) (length pre + 1 + length h - length pre - 1) = h"
    using substr_append [of "pre @ ''[''" h "'']:'' @ ?p @ CHR ''/'' # r"] by simp
  have len: "length pre + 1 + length h + 2 + length ?p - (length pre + 1 + length h + 1) - 1 = length ?p"
    by simp
  have ps: "substr ?s (length pre + 1 + length h + 1 + 1) (length ?p) = ?p"
    using substr_append [of "pre @ ''['' @ h @ '']:''" ?p "CHR ''/'' # r"] by simp
  have co: "?s ! (length pre + 1 + length h + 1) = CHR '':''" by (simp add: nth_append)
  have lt: "length pre + 1 + length h + 1 < length ?s" by simp
  have "Some (length pre + 1 + length h + 2 + length ?p) = Some (length (pre @ ''['' @ h @ '']:'' @ ?p))"
    by simp
  then show ?thesis
    unfolding parse_ipv6_host_def br option.case Let_def he url_end_def hs len ps co
    using digits lt parse_port_show [OF n] by (simp only: simp_thms if_True if_False res_try.simps)
qed

lemma parse_plain_printed:
  assumes h: "\<forall>c \<in> set h. \<not> path_start c" "CHR '':'' \<notin> set h" and n: "1 \<le> n" "n \<le> 65535"
  shows "parse_plain_host (pre @ h @ '':'' @ show_int n @ CHR ''/'' # r) (length pre) d =
    Ok (h, n, Some (length (pre @ h @ '':'' @ show_int n)))"
proof -
  let ?s = "pre @ h @ '':'' @ show_int n @ CHR ''/'' # r"
  let ?p = "show_int n"
  have digits: "?p \<noteq> []" "\<forall>c \<in> set ?p. isdigit c" using show_int_port [OF n(1)] by auto
  have co: "find_from ((=) CHR '':'') (length pre) ?s = Some (length pre + length h)"
    using find_from_append [of h "(=) CHR '':''" "CHR '':''" pre "?p @ CHR ''/'' # r"] h by auto
  have he: "find_from path_start (length pre) ?s = Some (length pre + length h + 1 + length ?p)"
  proof -
    have "\<forall>c \<in> set (h @ '':'' @ ?p). \<not> path_start c"
      using digits(2) isdigit_not_special path_start_chars h(1) by auto
    from find_path_start [OF this, of pre r] show ?thesis by simp
  qed
  have hs: "substr ?s (length pre) (length pre + length h - length pre) = h"
    using substr_append [of pre h "'':'' @ ?p @ CHR ''/'' # r"] by simp
  have len: "length pre + length h + 1 + length ?p - (length pre + length h) - 1 = length ?p"
    by simp
  have ps: "substr ?s (length pre + length h + 1) (length ?p) = ?p"
    using substr_append [of "pre @ h @ '':''" ?p "CHR ''/'' # r"] by simp
  have lt: "length pre + length h < the (Some (length pre + length h + 1 + length ?p))" by simp
  have "Some (length pre + length h + 1 + length ?p) = Some (length (pre @ h @ '':'' @ ?p))"
    by simp
  then show ?thesis
    unfolding parse_plain_host_def co he option.case Let_def url_end_def hs len ps
    using digits lt parse_port_show [OF n] by (simp only: simp_thms if_True if_False res_try.simps)
qed

text \<open>
  C31: Printing a URL and parsing the text gives the same URL again, for every URL the parser can
  produce whose host is an address in brackets that contains a colon, or a name without the
  characters that end a host. In particular the printed text is in a normal form.
\<close>

theorem url_roundtrip:
  assumes ok: "url_ok u" and host: "printable_host (url_host u)"
  shows "url_parse (url_to_string u) = Ok u"
proof -
  obtain r where r: "url_resource u = CHR ''/'' # r" "CHR ''#'' \<notin> set r"
    and n: "1 \<le> url_port u" "url_port u \<le> 65535" and k: "known_protocol (url_protocol u)"
    using ok by (auto simp: url_ok_def)
  let ?p = "url_protocol u" and ?h = "url_host u" and ?n = "url_port u"
  let ?s = "url_to_string u" and ?pre = "url_protocol u @ ''://''"
  obtain d where d: "get_default_port ?p = Ok d" and lower: "List.map tolower_char ?p = ?p"
    and find: "find_sub ''://'' ?s = Some (length ?p)"
    using known_protocol_lower [OF k, of "url_authority u @ url_resource u"]
    by (auto simp: url_to_string_def)
  have p: "substr ?s 0 (length ?p) = ?p" by (simp add: substr_def url_to_string_def)
  have off: "length ?p + 3 = length ?pre" by simp
  show ?thesis
  proof (cases "CHR '':'' \<in> set ?h")
    case True
    then have s: "?s = ?pre @ ''['' @ ?h @ '']:'' @ show_int ?n @ CHR ''/'' # r"
      using find_char_None [of "CHR '':''" ?h] by (simp add: url_to_string_def url_authority_def r)
    have "?s ! length ?pre = CHR ''[''" "length ?pre < length ?s" by (simp_all add: s nth_append)
    moreover have "parse_ipv6_host ?s (length ?pre) d =
        Ok (?h, ?n, Some (length (?pre @ ''['' @ ?h @ '']:'' @ show_int ?n)))"
      unfolding s using host True n by (intro parse_ipv6_printed) (auto simp: printable_host_def)
    moreover have "url_request_target ?s (Some (length (?pre @ ''['' @ ?h @ '']:'' @ show_int ?n)))
        = url_resource u"
      using request_target_printed [OF r(2), of "?pre @ ''['' @ ?h @ '']:'' @ show_int ?n"] s r
      by simp
    ultimately show ?thesis using host
      unfolding url_parse_def find option.case Let_def p lower d res_try.simps off
      by (simp add: printable_host_def)
  next
    case False
    then have s: "?s = ?pre @ ?h @ '':'' @ show_int ?n @ CHR ''/'' # r"
      using find_char_None [of "CHR '':''" ?h] by (simp add: url_to_string_def url_authority_def r)
    have "?s ! length ?pre \<noteq> CHR ''[''"
      using host False by (cases ?h) (auto simp: s nth_append printable_host_def)
    moreover have "parse_plain_host ?s (length ?pre) d =
        Ok (?h, ?n, Some (length (?pre @ ?h @ '':'' @ show_int ?n)))"
      unfolding s using host False n by (intro parse_plain_printed) (auto simp: printable_host_def)
    moreover have "url_request_target ?s (Some (length (?pre @ ?h @ '':'' @ show_int ?n)))
        = url_resource u"
      using request_target_printed [OF r(2), of "?pre @ ?h @ '':'' @ show_int ?n"] s r by simp
    ultimately show ?thesis using host
      unfolding url_parse_def find option.case Let_def p lower d res_try.simps off
      by (simp add: printable_host_def)
  qed
qed

theorem url_roundtrip_witness:
  "url_parse ''ws://[fe80::1]:8080/chat?room=1'' =
     Ok \<lparr>url_protocol = ''ws'', url_host = ''fe80::1'', url_port = 8080, url_resource = ''/chat?room=1''\<rparr>"
proof -
  let ?u = "\<lparr>url_protocol = ''ws'', url_host = ''fe80::1'', url_port = 8080,
    url_resource = ''/chat?room=1''\<rparr>"
  have "url_ok ?u" "printable_host (url_host ?u)"
    by (simp_all add: url_ok_def known_protocol_def protocol_port_map_def printable_host_def)
  moreover have "url_to_string ?u = ''ws://[fe80::1]:8080/chat?room=1''"
    by (simp add: url_to_string_def url_authority_def find_char_def show_int_def show_nat.simps
        digit_char_def char_of_def bit_iff_odd)
  ultimately show ?thesis using url_roundtrip [of ?u] by simp
qed

end
