(* ===== verification/Base64.thy ===== *)
theory Base64
  imports Prelude
begin

section \<open>Base64 encoding (utils/base64.hpp)\<close>

text \<open>
  The encoder of the handshake key. \<open>base64_loop\<close> is the loop over the input in steps of three
  bytes, with the 32-bit \<open>triple\<close> kept at its width. The reference is a decoder after RFC 4648.
\<close>

definition encode_table :: string where
  "encode_table = ''ABCDEFGHIJKLMNOPQRSTUVWXYZabcdefghijklmnopqrstuvwxyz0123456789+/''"

function base64_loop :: "byte list \<Rightarrow> nat \<Rightarrow> string" where
  "base64_loop data i =
     (if i < length data then
        let octet_a = (if i < length data then ucast (data ! i) else 0) :: u32;
            octet_b = (if i + 1 < length data then ucast (data ! (i + 1)) else 0) :: u32;
            octet_c = (if i + 2 < length data then ucast (data ! (i + 2)) else 0) :: u32;
            triple = push_bit 16 octet_a + push_bit 8 octet_b + octet_c
        in [encode_table ! unat (drop_bit 18 triple AND 0x3F),
            encode_table ! unat (drop_bit 12 triple AND 0x3F),
            (if i + 1 < length data then encode_table ! unat (drop_bit 6 triple AND 0x3F) else CHR ''=''),
            (if i + 2 < length data then encode_table ! unat (triple AND 0x3F) else CHR ''='')]
           @ base64_loop data (i + 3)
      else [])"
  by pat_completeness auto

termination
  by (relation "measure (\<lambda>(data, i). length data - i)") auto

declare base64_loop.simps [simp del]

definition base64_encode :: "byte list \<Rightarrow> string" where
  "base64_encode data = base64_loop data 0"

subsection \<open>The reference decoder\<close>

definition base64_value :: "char \<Rightarrow> nat option" where
  "base64_value c =
     (let n = of_char c :: nat in
      if 65 \<le> n \<and> n \<le> 90 then Some (n - 65)
      else if 97 \<le> n \<and> n \<le> 122 then Some (n - 71)
      else if 48 \<le> n \<and> n \<le> 57 then Some (n + 4)
      else if n = 43 then Some 62
      else if n = 47 then Some 63
      else None)"

fun base64_group :: "char \<Rightarrow> char \<Rightarrow> char \<Rightarrow> char \<Rightarrow> byte list option" where
  "base64_group w x y z =
     (case (base64_value w, base64_value x) of
        (Some a, Some b) \<Rightarrow>
          (case (base64_value y, base64_value z) of
             (Some c, Some d) \<Rightarrow>
               Some [word_of_nat (a * 4 + b div 16), word_of_nat (b mod 16 * 16 + c div 4),
                     word_of_nat (c mod 4 * 64 + d)]
           | (Some c, None) \<Rightarrow>
               if z = CHR ''='' then Some [word_of_nat (a * 4 + b div 16), word_of_nat (b mod 16 * 16 + c div 4)]
               else None
           | _ \<Rightarrow> if y = CHR ''='' \<and> z = CHR ''='' then Some [word_of_nat (a * 4 + b div 16)] else None)
      | _ \<Rightarrow> None)"

fun base64_decode :: "string \<Rightarrow> byte list option" where
  "base64_decode [] = Some []"
| "base64_decode (w # x # y # z # cs) =
     (case base64_group w x y z of
        None \<Rightarrow> None
      | Some bs \<Rightarrow> map_option (\<lambda>r. bs @ r) (base64_decode cs))"
| "base64_decode _ = None"

subsection \<open>Groups of three bytes\<close>

lemma base64_value_table: "n < 64 \<Longrightarrow> base64_value (encode_table ! n) = Some n"
proof -
  have "List.map base64_value encode_table = List.map Some [0..<64]"
    by (simp add: encode_table_def base64_value_def upt_rec [of 0 64] upt_rec [of "Suc 0" 64]
        upt_rec_numeral numeral_2_eq_2 [symmetric])
  moreover have "length encode_table = 64" by (simp add: encode_table_def)
  ultimately show "n < 64 \<Longrightarrow> base64_value (encode_table ! n) = Some n"
    by (metis (no_types, lifting) add_0 length_map length_upt nth_map nth_upt diff_zero)
qed

lemma base64_value_pad: "base64_value CHR ''='' = None"
  by code_simp

definition sextets :: "nat \<Rightarrow> nat \<Rightarrow> nat \<Rightarrow> nat list" where
  "sextets a b c = [a div 4, a mod 4 * 16 + b div 16, b mod 16 * 4 + c div 64, c mod 64]"

lemma unat_and_3F: "unat (w AND 0x3F) = unat w mod 64" for w :: u32
  using nat_and_pow2_mask [of "unat w" 6] by (simp add: unsigned_and_eq)

lemma base64_digits:
  assumes "x2 < 64" "x1 < 64" "x0 < 64"
  shows "(((x3 * 64 + x2) * 64 + x1) * 64 + x0) mod 64 = (x0 :: nat)"
    "(((x3 * 64 + x2) * 64 + x1) * 64 + x0) div 64 mod 64 = x1"
    "(((x3 * 64 + x2) * 64 + x1) * 64 + x0) div 4096 mod 64 = x2"
    "(((x3 * 64 + x2) * 64 + x1) * 64 + x0) div 262144 = x3"
proof -
  let ?n = "((x3 * 64 + x2) * 64 + x1) * 64 + x0"
  have d: "?n div 64 = (x3 * 64 + x2) * 64 + x1"
    using assms by (simp only: div_mult_self3; simp)
  have "?n div 4096 = ?n div 64 div 64" using div_mult2_eq [of ?n 64 64] by simp
  also have "\<dots> = x3 * 64 + x2" using assms by (simp only: d div_mult_self3; simp)
  finally have d': "?n div 4096 = x3 * 64 + x2" .
  have "?n div 262144 = ?n div 4096 div 64" using div_mult2_eq [of ?n 4096 64] by simp
  also have "\<dots> = x3" using assms by (simp only: d' div_mult_self3; simp)
  finally show "?n div 262144 = x3" .
  show "?n mod 64 = x0" using assms by (simp only: mod_mult_self3 mod_less)
  show "?n div 64 mod 64 = x1" using assms by (simp only: d mod_mult_self3 mod_less)
  show "?n div 4096 mod 64 = x2" using assms by (simp only: d' mod_mult_self3 mod_less)
qed

lemma triple_sextets:
  assumes "a < 256" "b < 256" "c < 256"
    and t: "t = push_bit 16 (word_of_nat a) + push_bit 8 (word_of_nat b) + (word_of_nat c :: u32)"
  shows "[unat (drop_bit 18 t AND 0x3F), unat (drop_bit 12 t AND 0x3F),
     unat (drop_bit 6 t AND 0x3F), unat (t AND 0x3F)] = sextets a b c"
proof -
  have "t = word_of_nat (a * 65536 + b * 256 + c)"
    by (simp add: t push_bit_eq_mult mult.commute)
  then have u: "unat t = a * 65536 + b * 256 + c"
    using assms by (simp only: unat_of_nat take_bit_eq_mod) simp
  define p q r s where "p = a div 4" and "q = a mod 4" and "r = b div 16" and "s = b mod 16"
  define v w where "v = c div 64" and "w = c mod 64"
  have abc: "a = p * 4 + q" "b = r * 16 + s" "c = v * 64 + w"
    by (simp_all add: p_def q_def r_def s_def v_def w_def)
  have lt: "p < 64" "q < 4" "r < 16" "s < 16" "v < 4" "w < 64"
    using assms by (simp_all add: p_def q_def r_def s_def v_def w_def div_less_iff_less_mult)
  have n: "unat t = ((p * 64 + (q * 16 + r)) * 64 + (s * 4 + v)) * 64 + w"
    by (simp add: u abc)
  note dig = base64_digits [of "q * 16 + r" "s * 4 + v" w p, folded n]
  have "unat t div 64 mod 64 = s * 4 + v" "unat t div 4096 mod 64 = q * 16 + r"
    "unat t mod 64 = w" "unat t div 262144 mod 64 = p"
    using dig lt by simp_all
  moreover have "take_bit 32 (unat t) = unat t"
    using unsigned_less [where 'a = nat, of t] by (simp add: take_bit_nat_eq_self)
  ultimately show ?thesis
    by (simp add: sextets_def unat_and_3F unsigned_drop_bit_eq drop_bit_eq_div [where 'a = nat]
        p_def q_def r_def s_def v_def w_def)
qed

lemma sextets_less: "a < 256 \<Longrightarrow> list_all (\<lambda>n. n < 64) (sextets a b c)" if "b < 256" "c < 256"
  using that by (simp add: sextets_def div_less_iff_less_mult) (intro conjI; linarith?)

lemma byte_of_parts:
  assumes "(a :: nat) < 256" "b < 256" "c < 256"
  shows "a div 4 * 4 + (a mod 4 * 16 + b div 16) div 16 = a"
    "(a mod 4 * 16 + b div 16) mod 16 * 16 + (b mod 16 * 4 + c div 64) div 4 = b"
    "(b mod 16 * 4 + c div 64) mod 4 * 64 + c mod 64 = c"
proof -
  have l: "b div 16 < 16" "c div 64 < 4" using assms by (simp_all add: div_less_iff_less_mult)
  have "(a mod 4 * 16 + b div 16) div 16 = a mod 4"
    using l by (simp only: div_mult_self3; simp)
  then show "a div 4 * 4 + (a mod 4 * 16 + b div 16) div 16 = a" by simp
  have "(a mod 4 * 16 + b div 16) mod 16 = b div 16" using l by (simp only: mod_mult_self3 mod_less)
  moreover have "(b mod 16 * 4 + c div 64) div 4 = b mod 16"
    using l by (simp only: div_mult_self3; simp)
  ultimately show "(a mod 4 * 16 + b div 16) mod 16 * 16 + (b mod 16 * 4 + c div 64) div 4 = b" by simp
  have "(b mod 16 * 4 + c div 64) mod 4 = c div 64" using l by (simp only: mod_mult_self3 mod_less)
  then show "(b mod 16 * 4 + c div 64) mod 4 * 64 + c mod 64 = c" by simp
qed

lemma base64_group_inverse:
  assumes bytes: "a < 256" "b < 256" "c < 256" and s: "sextets a b c = [p, q, r, s]"
  shows "base64_group (encode_table ! p) (encode_table ! q) (encode_table ! r) (encode_table ! s) =
      Some [word_of_nat a, word_of_nat b, word_of_nat c]"
    "base64_group (encode_table ! p) (encode_table ! q) (encode_table ! r) CHR ''='' =
      Some [word_of_nat a, word_of_nat b]"
    "base64_group (encode_table ! p) (encode_table ! q) CHR ''='' CHR ''='' = Some [word_of_nat a]"
proof -
  have v: "p = a div 4" "q = a mod 4 * 16 + b div 16" "r = b mod 16 * 4 + c div 64" "s = c mod 64"
    using s by (simp_all add: sextets_def)
  have parts: "p * 4 + q div 16 = a" "q mod 16 * 16 + r div 4 = b" "r mod 4 * 64 + s = c"
    unfolding v by (rule byte_of_parts [OF bytes])+
  have lt: "p < 64" "q < 64" "r < 64" "s < 64"
    using sextets_less [OF bytes(2,3,1)] s by simp_all
  show "base64_group (encode_table ! p) (encode_table ! q) (encode_table ! r) (encode_table ! s) =
      Some [word_of_nat a, word_of_nat b, word_of_nat c]"
    by (simp only: base64_group.simps base64_value_table lt prod.case option.case parts)
  show "base64_group (encode_table ! p) (encode_table ! q) (encode_table ! r) CHR ''='' =
      Some [word_of_nat a, word_of_nat b]"
    by (simp only: base64_group.simps base64_value_table base64_value_pad lt prod.case option.case
        parts if_True simp_thms)
  show "base64_group (encode_table ! p) (encode_table ! q) CHR ''='' CHR ''='' = Some [word_of_nat a]"
    by (simp only: base64_group.simps base64_value_table base64_value_pad lt prod.case option.case
        parts if_True simp_thms)
qed

text \<open>One round of the loop, with the bytes as numbers.\<close>

definition octet :: "byte list \<Rightarrow> nat \<Rightarrow> nat" where
  "octet data i = (if i < length data then unat (data ! i) else 0)"

lemma octet_less: "octet data i < 256"
  using unsigned_less [where 'a = nat, of "data ! i"] by (simp add: octet_def)

lemma base64_loop_step:
  assumes i: "i < length data"
    and s: "sextets (octet data i) (octet data (i + 1)) (octet data (i + 2)) = [p, q, r, s]"
  shows "base64_loop data i =
    [encode_table ! p, encode_table ! q,
     if i + 1 < length data then encode_table ! r else CHR ''='',
     if i + 2 < length data then encode_table ! s else CHR ''=''] @ base64_loop data (i + 3)"
proof -
  have o: "(if j < length data then ucast (data ! j) else 0 :: u32) = word_of_nat (octet data j)" for j
    by (simp add: octet_def)
  note t = triple_sextets [OF octet_less octet_less octet_less refl, of data i data "i + 1" data "i + 2"]
  show ?thesis
    unfolding base64_loop.simps [of data i] o Let_def
    using t [unfolded s list.inject] by (simp only: i if_True simp_thms)
qed

lemma base64_decode_loop: "base64_decode (base64_loop data i) = Some (drop i data)"
proof (induction data i rule: base64_loop.induct)
  case (1 data i)
  show ?case
  proof (cases "i < length data")
    case False
    then show ?thesis by (subst base64_loop.simps) simp
  next
    case True
    then have IH: "base64_decode (base64_loop data (i + 3)) = Some (drop (i + 3) data)"
      by (rule 1 [OF _ refl refl refl refl])
    obtain p q r s where s: "sextets (octet data i) (octet data (i + 1)) (octet data (i + 2)) = [p, q, r, s]"
      by (simp add: sextets_def)
    note g = base64_group_inverse [OF octet_less octet_less octet_less s]
    have w: "word_of_nat (octet data j) = data ! j" if "j < length data" for j
      using that by (simp add: octet_def)
    consider "i + 2 < length data" | "length data = i + 2" | "length data = i + 1"
      using True by linarith
    then show ?thesis
    proof cases
      case 1
      then have "drop i data = [data ! i, data ! (i + 1), data ! (i + 2)] @ drop (i + 3) data"
        by (simp add: Cons_nth_drop_Suc numeral_eq_Suc)
      with 1 g(1) IH show ?thesis by (simp add: base64_loop_step [OF True s] w)
    next
      case 2
      then have "drop i data = [data ! i, data ! (i + 1)]" by (simp add: Cons_nth_drop_Suc [symmetric])
      with 2 g(2) IH show ?thesis
        by (simp add: base64_loop_step [OF True s] w)
    next
      case 3
      then have "drop i data = [data ! i]" by (simp add: Cons_nth_drop_Suc [symmetric])
      with 3 g(3) IH show ?thesis
        by (simp add: base64_loop_step [OF True s] w)
    qed
  qed
qed

lemma length_base64_loop:
  "i \<le> length data \<Longrightarrow> length (base64_loop data i) = 4 * ((length data - i + 2) div 3)"
proof (induction data i rule: base64_loop.induct)
  case (1 data i)
  show ?case
  proof (cases "i < length data")
    case False
    with 1 show ?thesis by (subst base64_loop.simps) simp
  next
    case True
    obtain p q r s where s: "sextets (octet data i) (octet data (i + 1)) (octet data (i + 2)) = [p, q, r, s]"
      by (simp add: sextets_def)
    have "length (base64_loop data (i + 3)) = 4 * ((length data - (i + 3) + 2) div 3)"
    proof (cases "i + 3 \<le> length data")
      case True
      with 1 \<open>i < length data\<close> show ?thesis by simp
    next
      case False
      then show ?thesis by (subst base64_loop.simps) simp
    qed
    moreover have "(length data - i + 2) div 3 = Suc ((length data - (i + 3) + 2) div 3)"
      using True by presburger
    ultimately show ?thesis by (simp add: base64_loop_step [OF True s])
  qed
qed

text \<open>
  C34: Base64 encoding is correct for every byte string: decoding the output after RFC 4648 gives
  the input back, and the output has four characters for every started group of three bytes.
\<close>

theorem base64_roundtrip:
  "base64_decode (base64_encode data) = Some data \<and>
   length (base64_encode data) = 4 * ((length data + 2) div 3)"
  using base64_decode_loop [of data 0] length_base64_loop [of 0 data]
  by (simp add: base64_encode_def)


lemma base64_loop_chars: "\<forall>c \<in> set (base64_loop data i). c \<in> insert CHR ''='' (set encode_table)"
proof (induction data i rule: base64_loop.induct)
  case (1 data i)
  show ?case
  proof (cases "i < length data")
    case False
    then show ?thesis by (subst base64_loop.simps) simp
  next
    case True
    obtain p q r s where s: "sextets (octet data i) (octet data (i + 1)) (octet data (i + 2)) = [p, q, r, s]"
      by (simp add: sextets_def)
    have "p < 64 \<and> q < 64 \<and> r < 64 \<and> s < 64"
      using sextets_less [where a = "octet data i" and b = "octet data (i + 1)" and
          c = "octet data (i + 2)", OF octet_less octet_less octet_less] s by simp
    moreover have "length encode_table = 64" by (simp add: encode_table_def)
    ultimately have "encode_table ! p \<in> set encode_table" "encode_table ! q \<in> set encode_table"
      "encode_table ! r \<in> set encode_table" "encode_table ! s \<in> set encode_table" by simp_all
    moreover have "\<forall>c \<in> set (base64_loop data (i + 3)). c \<in> insert CHR ''='' (set encode_table)"
      by (rule 1 [OF True refl refl refl refl])
    ultimately show ?thesis by (simp add: base64_loop_step [OF True s])
  qed
qed

end
