(* ===== verification/Sha1.thy ===== *)
theory Sha1
  imports Bytes
begin

section \<open>SHA-1 (utils/SHA1.hpp)\<close>

text \<open>
  The hash of the handshake. The code unrolls the 80 rounds into 80 calls of \<open>R0\<close> to \<open>R4\<close> on rotated
  working variables, and keeps the message schedule in a ring of 16 words that it rewrites on the
  way; \<open>sha1_calls\<close> is that list of calls. The reference is FIPS 180-4: an 80-word schedule, the
  round functions Ch, Parity and Maj, and padding of the whole message.
\<close>

record sha1 =
  sha_digest :: "u32 list"
  sha_buffer :: "byte list"
  sha_transforms :: u64

definition sha1_reset :: sha1 where
  "sha1_reset =
     \<lparr>sha_digest = [0x67452301, 0xefcdab89, 0x98badcfe, 0x10325476, 0xc3d2e1f0],
      sha_buffer = [], sha_transforms = 0\<rparr>"

definition rol :: "u32 \<Rightarrow> nat \<Rightarrow> u32" where
  "rol v bits = push_bit bits v OR drop_bit (32 - bits) v"

definition blk :: "u32 list \<Rightarrow> nat \<Rightarrow> u32" where
  "blk block i =
     rol (block ! ((i + 13) AND 15) XOR block ! ((i + 8) AND 15) XOR block ! ((i + 2) AND 15)
          XOR block ! i) 1"

subsection \<open>The round operations\<close>

text \<open>Each returns the block with the new values of \<open>w\<close> and \<open>z\<close>.\<close>

definition R0 :: "u32 list \<Rightarrow> u32 \<Rightarrow> u32 \<Rightarrow> u32 \<Rightarrow> u32 \<Rightarrow> u32 \<Rightarrow> nat \<Rightarrow> u32 list \<times> u32 \<times> u32" where
  "R0 block v w x y z i =
     (block, rol w 30, z + (((w AND (x XOR y)) XOR y) + block ! i + 0x5a827999 + rol v 5))"

definition R1 :: "u32 list \<Rightarrow> u32 \<Rightarrow> u32 \<Rightarrow> u32 \<Rightarrow> u32 \<Rightarrow> u32 \<Rightarrow> nat \<Rightarrow> u32 list \<times> u32 \<times> u32" where
  "R1 block v w x y z i =
     (let block = block[i := blk block i] in
      (block, rol w 30, z + (((w AND (x XOR y)) XOR y) + block ! i + 0x5a827999 + rol v 5)))"

definition R2 :: "u32 list \<Rightarrow> u32 \<Rightarrow> u32 \<Rightarrow> u32 \<Rightarrow> u32 \<Rightarrow> u32 \<Rightarrow> nat \<Rightarrow> u32 list \<times> u32 \<times> u32" where
  "R2 block v w x y z i =
     (let block = block[i := blk block i] in
      (block, rol w 30, z + ((w XOR x XOR y) + block ! i + 0x6ed9eba1 + rol v 5)))"

definition R3 :: "u32 list \<Rightarrow> u32 \<Rightarrow> u32 \<Rightarrow> u32 \<Rightarrow> u32 \<Rightarrow> u32 \<Rightarrow> nat \<Rightarrow> u32 list \<times> u32 \<times> u32" where
  "R3 block v w x y z i =
     (let block = block[i := blk block i] in
      (block, rol w 30, z + ((((w OR x) AND y) OR (w AND x)) + block ! i + 0x8f1bbcdc + rol v 5)))"

definition R4 :: "u32 list \<Rightarrow> u32 \<Rightarrow> u32 \<Rightarrow> u32 \<Rightarrow> u32 \<Rightarrow> u32 \<Rightarrow> nat \<Rightarrow> u32 list \<times> u32 \<times> u32" where
  "R4 block v w x y z i =
     (let block = block[i := blk block i] in
      (block, rol w 30, z + ((w XOR x XOR y) + block ! i + 0xca62c1d6 + rol v 5)))"

datatype round_op = Op0 | Op1 | Op2 | Op3 | Op4

fun round_fun :: "round_op \<Rightarrow> u32 list \<Rightarrow> u32 \<Rightarrow> u32 \<Rightarrow> u32 \<Rightarrow> u32 \<Rightarrow> u32 \<Rightarrow> nat \<Rightarrow> u32 list \<times> u32 \<times> u32" where
  "round_fun Op0 = R0"
| "round_fun Op1 = R1"
| "round_fun Op2 = R2"
| "round_fun Op3 = R3"
| "round_fun Op4 = R4"

text \<open>
  The unrolled calls of \<open>transform\<close>: the operation, which of the variables \<open>a\<close> to \<open>e\<close> (0 to 4) stand
  for \<open>v\<close>, \<open>w\<close>, \<open>x\<close>, \<open>y\<close>, \<open>z\<close>, and the index into the block.
\<close>

type_synonym round_call = "round_op \<times> nat \<times> nat \<times> nat \<times> nat \<times> nat \<times> nat"

definition sha1_calls :: "round_call list" where
  "sha1_calls = [
    (Op0, 0, 1, 2, 3, 4, 0), (Op0, 4, 0, 1, 2, 3, 1), (Op0, 3, 4, 0, 1, 2, 2), (Op0, 2, 3, 4, 0, 1, 3),
    (Op0, 1, 2, 3, 4, 0, 4), (Op0, 0, 1, 2, 3, 4, 5), (Op0, 4, 0, 1, 2, 3, 6), (Op0, 3, 4, 0, 1, 2, 7),
    (Op0, 2, 3, 4, 0, 1, 8), (Op0, 1, 2, 3, 4, 0, 9), (Op0, 0, 1, 2, 3, 4, 10), (Op0, 4, 0, 1, 2, 3, 11),
    (Op0, 3, 4, 0, 1, 2, 12), (Op0, 2, 3, 4, 0, 1, 13), (Op0, 1, 2, 3, 4, 0, 14), (Op0, 0, 1, 2, 3, 4, 15),
    (Op1, 4, 0, 1, 2, 3, 0), (Op1, 3, 4, 0, 1, 2, 1), (Op1, 2, 3, 4, 0, 1, 2), (Op1, 1, 2, 3, 4, 0, 3),
    (Op2, 0, 1, 2, 3, 4, 4), (Op2, 4, 0, 1, 2, 3, 5), (Op2, 3, 4, 0, 1, 2, 6), (Op2, 2, 3, 4, 0, 1, 7),
    (Op2, 1, 2, 3, 4, 0, 8), (Op2, 0, 1, 2, 3, 4, 9), (Op2, 4, 0, 1, 2, 3, 10), (Op2, 3, 4, 0, 1, 2, 11),
    (Op2, 2, 3, 4, 0, 1, 12), (Op2, 1, 2, 3, 4, 0, 13), (Op2, 0, 1, 2, 3, 4, 14), (Op2, 4, 0, 1, 2, 3, 15),
    (Op2, 3, 4, 0, 1, 2, 0), (Op2, 2, 3, 4, 0, 1, 1), (Op2, 1, 2, 3, 4, 0, 2), (Op2, 0, 1, 2, 3, 4, 3),
    (Op2, 4, 0, 1, 2, 3, 4), (Op2, 3, 4, 0, 1, 2, 5), (Op2, 2, 3, 4, 0, 1, 6), (Op2, 1, 2, 3, 4, 0, 7),
    (Op3, 0, 1, 2, 3, 4, 8), (Op3, 4, 0, 1, 2, 3, 9), (Op3, 3, 4, 0, 1, 2, 10), (Op3, 2, 3, 4, 0, 1, 11),
    (Op3, 1, 2, 3, 4, 0, 12), (Op3, 0, 1, 2, 3, 4, 13), (Op3, 4, 0, 1, 2, 3, 14), (Op3, 3, 4, 0, 1, 2, 15),
    (Op3, 2, 3, 4, 0, 1, 0), (Op3, 1, 2, 3, 4, 0, 1), (Op3, 0, 1, 2, 3, 4, 2), (Op3, 4, 0, 1, 2, 3, 3),
    (Op3, 3, 4, 0, 1, 2, 4), (Op3, 2, 3, 4, 0, 1, 5), (Op3, 1, 2, 3, 4, 0, 6), (Op3, 0, 1, 2, 3, 4, 7),
    (Op3, 4, 0, 1, 2, 3, 8), (Op3, 3, 4, 0, 1, 2, 9), (Op3, 2, 3, 4, 0, 1, 10), (Op3, 1, 2, 3, 4, 0, 11),
    (Op4, 0, 1, 2, 3, 4, 12), (Op4, 4, 0, 1, 2, 3, 13), (Op4, 3, 4, 0, 1, 2, 14), (Op4, 2, 3, 4, 0, 1, 15),
    (Op4, 1, 2, 3, 4, 0, 0), (Op4, 0, 1, 2, 3, 4, 1), (Op4, 4, 0, 1, 2, 3, 2), (Op4, 3, 4, 0, 1, 2, 3),
    (Op4, 2, 3, 4, 0, 1, 4), (Op4, 1, 2, 3, 4, 0, 5), (Op4, 0, 1, 2, 3, 4, 6), (Op4, 4, 0, 1, 2, 3, 7),
    (Op4, 3, 4, 0, 1, 2, 8), (Op4, 2, 3, 4, 0, 1, 9), (Op4, 1, 2, 3, 4, 0, 10), (Op4, 0, 1, 2, 3, 4, 11),
    (Op4, 4, 0, 1, 2, 3, 12), (Op4, 3, 4, 0, 1, 2, 13), (Op4, 2, 3, 4, 0, 1, 14), (Op4, 1, 2, 3, 4, 0, 15)]"

definition call_round :: "round_call \<Rightarrow> u32 list \<times> u32 list \<Rightarrow> u32 list \<times> u32 list" where
  "call_round c s =
     (let (f, v, w, x, y, z, i) = c; (vars, block) = s;
          (block', w', z') = round_fun f block (vars ! v) (vars ! w) (vars ! x) (vars ! y) (vars ! z) i
      in (vars[w := w', z := z'], block'))"

definition transform :: "u32 list \<Rightarrow> u32 list \<Rightarrow> u64 \<Rightarrow> u32 list \<times> u32 list \<times> u64" where
  "transform digest block transforms =
     (let (vars, block') = fold call_round sha1_calls (digest, block)
      in (map2 (+) digest vars, block', transforms + 1))"

definition buffer_to_block :: "byte list \<Rightarrow> u32 list" where
  "buffer_to_block buffer =
     List.map (\<lambda>i. ucast (buffer ! (4 * i + 3)) OR push_bit 8 (ucast (buffer ! (4 * i + 2))) OR
                   push_bit 16 (ucast (buffer ! (4 * i + 1))) OR push_bit 24 (ucast (buffer ! (4 * i + 0))))
       [0..<16]"

text \<open>\<open>update\<close> reads from the stream until it can no longer fill a block.\<close>

function sha1_update :: "byte list \<Rightarrow> sha1 \<Rightarrow> sha1" where
  "sha1_update is s =
     (let n = 64 - length (sha_buffer s);
          buffer = sha_buffer s @ take n is
      in if length buffer \<noteq> 64 then s\<lparr>sha_buffer := buffer\<rparr>
         else let (digest, block, transforms) =
                    transform (sha_digest s) (buffer_to_block buffer) (sha_transforms s)
              in sha1_update (drop n is)
                   (s\<lparr>sha_digest := digest, sha_buffer := [], sha_transforms := transforms\<rparr>))"
  by pat_completeness auto

termination
  by (relation "measure (\<lambda>(is, s). length is + length (sha_buffer s))") auto

declare sha1_update.simps [simp del]

definition word_bytes_be :: "u32 \<Rightarrow> byte list" where
  "word_bytes_be d =
     [ucast (drop_bit 24 d AND 0xFF), ucast (drop_bit 16 d AND 0xFF), ucast (drop_bit 8 d AND 0xFF),
      ucast (d AND 0xFF)]"

definition sha1_final_bytes :: "sha1 \<Rightarrow> byte list \<times> sha1" where
  "sha1_final_bytes s =
     (let total_bits = (sha_transforms s * 64 + word_of_nat (length (sha_buffer s))) * 8;
          buffer = sha_buffer s @ [0x80];
          orig_size = length buffer;
          buffer = buffer @ replicate (64 - orig_size) 0;
          block = buffer_to_block buffer;
          (digest, block, transforms) =
            (if orig_size > 64 - 8
             then let (digest, block, transforms) = transform (sha_digest s) block (sha_transforms s)
                  in (digest, replicate 14 0 @ drop 14 block, transforms)
             else (sha_digest s, block, sha_transforms s));
          block = block[15 := ucast total_bits];
          block = block[14 := ucast (drop_bit 32 total_bits)];
          (digest, block, transforms) = transform digest block transforms
      in (concat (List.map word_bytes_be digest), sha1_reset))"


subsection \<open>The reference: FIPS 180-4\<close>

fun fips_W :: "u32 list \<Rightarrow> nat \<Rightarrow> u32" where
  "fips_W M t =
     (if t < 16 then M ! t
      else rol (fips_W M (t - 3) XOR fips_W M (t - 8) XOR fips_W M (t - 14) XOR fips_W M (t - 16)) 1)"

declare fips_W.simps [simp del]

definition fips_f :: "nat \<Rightarrow> u32 \<Rightarrow> u32 \<Rightarrow> u32 \<Rightarrow> u32" where
  "fips_f t x y z =
     (if t < 20 then (x AND y) XOR (NOT x AND z)
      else if t < 40 then x XOR y XOR z
      else if t < 60 then (x AND y) XOR (x AND z) XOR (y AND z)
      else x XOR y XOR z)"

definition fips_K :: "nat \<Rightarrow> u32" where
  "fips_K t = (if t < 20 then 0x5a827999 else if t < 40 then 0x6ed9eba1
     else if t < 60 then 0x8f1bbcdc else 0xca62c1d6)"

fun fips_round :: "u32 \<Rightarrow> nat \<Rightarrow> u32 list \<Rightarrow> u32 list" where
  "fips_round wt t [a, b, c, d, e] = [rol a 5 + fips_f t b c d + e + fips_K t + wt, a, rol b 30, c, d]"
| "fips_round wt t vs = vs"

definition fips_rounds :: "u32 list \<Rightarrow> nat \<Rightarrow> u32 list \<Rightarrow> u32 list" where
  "fips_rounds M n H = fold (\<lambda>t. fips_round (fips_W M t) t) [0..<n] H"

definition fips_compress :: "u32 list \<Rightarrow> u32 list \<Rightarrow> u32 list" where
  "fips_compress H M = map2 (+) H (fips_rounds M 80 H)"

subsection \<open>One call is one round\<close>

definition op_at :: "nat \<Rightarrow> round_op" where
  "op_at t = (if t < 16 then Op0 else if t < 20 then Op1 else if t < 40 then Op2
     else if t < 60 then Op3 else Op4)"

definition call_at :: "nat \<Rightarrow> round_call" where
  "call_at t = (op_at t, (5 - t mod 5) mod 5, (6 - t mod 5) mod 5, (7 - t mod 5) mod 5,
     (8 - t mod 5) mod 5, (9 - t mod 5) mod 5, t mod 16)"

lemma sha1_calls_at: "sha1_calls = List.map call_at [0..<80]"
  by (simp add: sha1_calls_def call_at_def op_at_def upt_rec [of 0 80] upt_rec [of "Suc 0" 80]
      numeral_2_eq_2 [symmetric] upt_rec_numeral)

text \<open>The working variables in the order of the standard after \<open>t\<close> rounds.\<close>

definition unrotate :: "nat \<Rightarrow> u32 list \<Rightarrow> u32 list" where
  "unrotate t vs = rotate ((5 - t mod 5) mod 5) vs"

lemma ch_eq: "(w AND (x XOR y)) XOR y = (w AND x) XOR (NOT w AND y)" for w :: u32
  by (rule bit_word_eqI) (auto simp: bit_simps)

lemma maj_eq: "((w OR x) AND y) OR (w AND x) = (w AND x) XOR (w AND y) XOR (x AND y)" for w :: u32
  by (rule bit_word_eqI) (auto simp: bit_simps)

definition next_block :: "nat \<Rightarrow> u32 list \<Rightarrow> u32 list" where
  "next_block t block = (if t < 16 then block else block[t mod 16 := blk block (t mod 16)])"

lemma round_fun_at:
  "round_fun (op_at t) block v w x y z (t mod 16) =
     (next_block t block, rol w 30,
      rol v 5 + fips_f t w x y + z + fips_K t + next_block t block ! (t mod 16))"
  by (simp add: op_at_def R0_def R1_def R2_def R3_def R4_def Let_def next_block_def fips_f_def
      fips_K_def ch_eq maj_eq)

lemma mod_5_cases: "t mod 5 = 0 \<or> t mod 5 = 1 \<or> t mod 5 = 2 \<or> t mod 5 = 3 \<or> t mod 5 = (4 :: nat)"
  by presburger

lemma rotate_5:
  "rotate 0 [a, b, c, d, e] = [a, b, c, d, e]" "rotate (Suc 0) [a, b, c, d, e] = [b, c, d, e, a]"
  "rotate 2 [a, b, c, d, e] = [c, d, e, a, b]" "rotate 3 [a, b, c, d, e] = [d, e, a, b, c]"
  "rotate 4 [a, b, c, d, e] = [e, a, b, c, d]"
  by (simp_all add: numeral_eq_Suc)

lemma list_update_5:
  "[a, b, c, d, e][0 := x] = [x, b, c, d, e]" "[a, b, c, d, e][Suc 0 := x] = [a, x, c, d, e]"
  "[a, b, c, d, e][2 := x] = [a, b, x, d, e]" "[a, b, c, d, e][3 := x] = [a, b, c, x, e]"
  "[a, b, c, d, e][4 := x] = [a, b, c, d, x]"
  by (simp_all add: numeral_eq_Suc)


lemma call_round_tuple:
  "call_round (f, v, w, x, y, z, i) (vars, block) =
     (case round_fun f block (vars ! v) (vars ! w) (vars ! x) (vars ! y) (vars ! z) i of
        (block', w', z') \<Rightarrow> (vars[w := w', z := z'], block'))"
  by (simp add: call_round_def)

lemma unrotate_mod:
  "t mod 5 = 0 \<Longrightarrow> unrotate t vs = vs"
  "t mod 5 = 1 \<Longrightarrow> unrotate t vs = rotate 4 vs"
  "t mod 5 = 2 \<Longrightarrow> unrotate t vs = rotate 3 vs"
  "t mod 5 = 3 \<Longrightarrow> unrotate t vs = rotate 2 vs"
  "t mod 5 = 4 \<Longrightarrow> unrotate t vs = rotate (Suc 0) vs"
  by (simp_all only: unrotate_def) simp_all

lemma call_at_mod:
  "t mod 5 = 0 \<Longrightarrow> call_at t = (op_at t, 0, 1, 2, 3, 4, t mod 16)"
  "t mod 5 = 1 \<Longrightarrow> call_at t = (op_at t, 4, 0, 1, 2, 3, t mod 16)"
  "t mod 5 = 2 \<Longrightarrow> call_at t = (op_at t, 3, 4, 0, 1, 2, t mod 16)"
  "t mod 5 = 3 \<Longrightarrow> call_at t = (op_at t, 2, 3, 4, 0, 1, t mod 16)"
  "t mod 5 = 4 \<Longrightarrow> call_at t = (op_at t, 1, 2, 3, 4, 0, t mod 16)"
  by (simp_all only: call_at_def) simp_all

lemma nth_5:
  "[a, b, c, d, e] ! 0 = a" "[a, b, c, d, e] ! 1 = b" "[a, b, c, d, e] ! 2 = c"
  "[a, b, c, d, e] ! 3 = d" "[a, b, c, d, e] ! 4 = e"
  by simp_all

lemma call_round_at:
  assumes "length vs = 5"
  shows "snd (call_round (call_at t) (vs, block)) = next_block t block \<and>
    length (fst (call_round (call_at t) (vs, block))) = 5 \<and>
    unrotate (Suc t) (fst (call_round (call_at t) (vs, block))) =
      fips_round (next_block t block ! (t mod 16)) t (unrotate t vs)"
proof -
  obtain a b c d e where vs: "vs = [a, b, c, d, e]"
    using assms by (auto simp: numeral_eq_Suc length_Suc_conv)
  have s: "Suc t mod 5 = (if t mod 5 = 4 then 0 else Suc (t mod 5))" by (simp add: mod_Suc)
  note facts = call_round_tuple round_fun_at prod.case fst_conv snd_conv vs nth_5 list_update_5 [unfolded One_nat_def [symmetric]]
  have l: "length [p, q, r, s, u :: u32] = 5" for p q r s u by simp
  consider "t mod 5 = 0" "Suc t mod 5 = 1" | "t mod 5 = 1" "Suc t mod 5 = 2" | "t mod 5 = 2" "Suc t mod 5 = 3"
    | "t mod 5 = 3" "Suc t mod 5 = 4" | "t mod 5 = 4" "Suc t mod 5 = 0"
    using mod_5_cases [of t] s by auto
  then show ?thesis
  proof cases
    case 1
    show ?thesis
      by (simp only: facts call_at_mod(1) [OF 1(1)] unrotate_mod(1) [OF 1(1)] unrotate_mod(2) [OF 1(2)] rotate_5 fips_round.simps l simp_thms)
  next
    case 2
    show ?thesis
      by (simp only: facts call_at_mod(2) [OF 2(1)] unrotate_mod(2) [OF 2(1)] unrotate_mod(3) [OF 2(2)] rotate_5 fips_round.simps l simp_thms)
  next
    case 3
    show ?thesis
      by (simp only: facts call_at_mod(3) [OF 3(1)] unrotate_mod(3) [OF 3(1)] unrotate_mod(4) [OF 3(2)] rotate_5 fips_round.simps l simp_thms)
  next
    case 4
    show ?thesis
      by (simp only: facts call_at_mod(4) [OF 4(1)] unrotate_mod(4) [OF 4(1)] unrotate_mod(5) [OF 4(2)] rotate_5 fips_round.simps l simp_thms)
  next
    case 5
    show ?thesis
      by (simp only: facts call_at_mod(5) [OF 5(1)] unrotate_mod(5) [OF 5(1)] unrotate_mod(1) [OF 5(2)] rotate_5 fips_round.simps l simp_thms)
  qed
qed


subsection \<open>The message schedule in the ring of sixteen words\<close>

definition schedule_inv :: "u32 list \<Rightarrow> nat \<Rightarrow> u32 list \<Rightarrow> bool" where
  "schedule_inv M t block \<longleftrightarrow> length block = 16 \<and>
     (if t < 16 then block = M else (\<forall>k < 16. block ! ((t + k) mod 16) = fips_W M (t - 16 + k)))"

lemma and_15: "i AND 15 = i mod (16 :: nat)"
  using nat_and_pow2_mask [of i 4] by simp

lemma schedule_start: "length M = 16 \<Longrightarrow> schedule_inv M 0 M"
  by (simp add: schedule_inv_def)

lemma schedule_16: "length M = 16 \<Longrightarrow> schedule_inv M 16 M"
  by (simp add: schedule_inv_def fips_W.simps)

lemma blk_W:
  assumes "schedule_inv M t block" and t: "16 \<le> t"
  shows "blk block (t mod 16) = fips_W M t"
proof -
  have r: "block ! ((t + k) mod 16) = fips_W M (t - 16 + k)" if "k < 16" for k
    using assms that by (simp add: schedule_inv_def)
  have i: "(t mod 16 + 13) AND 15 = (t + 13) mod 16" "(t mod 16 + 8) AND 15 = (t + 8) mod 16"
    "(t mod 16 + 2) AND 15 = (t + 2) mod 16" "t mod 16 = (t + 0) mod 16"
    by (simp_all only: and_15 mod_add_left_eq add_0_right)
  have e: "t - 16 + 13 = t - 3" "t - 16 + 8 = t - 8" "t - 16 + 2 = t - 14" "t - 16 + 0 = t - 16"
    using t by simp_all
  have "blk block (t mod 16) =
      rol (fips_W M (t - 3) XOR fips_W M (t - 8) XOR fips_W M (t - 14) XOR fips_W M (t - 16)) 1"
    using r [of 13] r [of 8] r [of 2] r [of 0] by (simp only: blk_def i(1-3) e) simp
  with t show ?thesis by (subst fips_W.simps) simp
qed

lemma schedule_step:
  assumes inv: "schedule_inv M t block" and M: "length M = 16"
  shows "schedule_inv M (Suc t) (next_block t block) \<and> next_block t block ! (t mod 16) = fips_W M t"
proof (cases "t < 16")
  case True
  then have "block = M" using inv by (simp add: schedule_inv_def)
  with True M show ?thesis
    by (cases "t = 15") (auto simp: next_block_def schedule_inv_def fips_W.simps)
next
  case False
  have l: "length block = 16" using inv by (simp add: schedule_inv_def)
  have r: "block ! ((t + k) mod 16) = fips_W M (t - 16 + k)" if "k < 16" for k
    using inv that False by (simp add: schedule_inv_def)
  have "next_block t block ! ((Suc t + k) mod 16) = fips_W M (Suc t - 16 + k)" if "k < 16" for k
  proof (cases "k = 15")
    case True
    then have "(Suc t + k) mod 16 = t mod 16" by simp
    with True False l blk_W [OF inv] show ?thesis by (simp add: next_block_def)
  next
    case False
    then have k: "Suc k < 16" using that by simp
    have "(Suc t + k) mod 16 \<noteq> t mod 16"
    proof
      assume "(Suc t + k) mod 16 = t mod 16"
      then have "16 dvd (Suc t + k) - t" by (subst (asm) mod_eq_dvd_iff_nat) simp_all
      moreover have "(Suc t + k) - t = Suc k" by simp
      ultimately have "16 \<le> Suc k" by (simp only: dvd_imp_le zero_less_Suc)
      with k show False by simp
    qed
    moreover have "t - 16 + Suc k = Suc t - 16 + k" using \<open>\<not> t < 16\<close> by simp
    moreover have "next_block t block = block[t mod 16 := blk block (t mod 16)]"
      using \<open>\<not> t < 16\<close> by (simp add: next_block_def)
    ultimately show ?thesis using r [OF k] by (simp only: nth_list_update_neq add_Suc_right add_Suc)
  qed
  with False l blk_W [OF inv] show ?thesis
    by (simp add: schedule_inv_def next_block_def)
qed

lemma fold_calls:
  assumes vs: "length vs = 5" and M: "length M = 16"
  shows "schedule_inv M n (snd (fold (\<lambda>t. call_round (call_at t)) [0..<n] (vs, M))) \<and>
    length (fst (fold (\<lambda>t. call_round (call_at t)) [0..<n] (vs, M))) = 5 \<and>
    unrotate n (fst (fold (\<lambda>t. call_round (call_at t)) [0..<n] (vs, M))) = fips_rounds M n vs"
proof (induction n)
  case 0
  then show ?case using assms by (simp add: schedule_start fips_rounds_def unrotate_def)
next
  case (Suc n)
  obtain vs' block where f: "fold (\<lambda>t. call_round (call_at t)) [0..<n] (vs, M) = (vs', block)" by fastforce
  with Suc have IH: "schedule_inv M n block" "length vs' = 5" "unrotate n vs' = fips_rounds M n vs"
    by simp_all
  from call_round_at [OF IH(2), of n block] schedule_step [OF IH(1) M] IH(3)
  show ?case by (simp add: f fips_rounds_def)
qed

lemma transform_compress:
  assumes "length H = 5" and "length M = 16"
  obtains block where "transform H M n = (fips_compress H M, block, n + 1)" and "length block = 16"
proof -
  let ?r = "fold (\<lambda>t. call_round (call_at t)) [0..<80] (H, M)"
  have "fold call_round sha1_calls (H, M) = ?r" by (simp only: sha1_calls_at fold_map comp_def)
  moreover have "unrotate 80 vs = vs" for vs by (rule unrotate_mod(1)) simp
  ultimately have "transform H M n = (fips_compress H M, snd ?r, n + 1)"
    using fold_calls [OF assms, of 80] by (simp add: transform_def fips_compress_def case_prod_beta)
  moreover have "length (snd ?r) = 16" using fold_calls [OF assms, of 80] by (simp add: schedule_inv_def)
  ultimately show ?thesis by (rule that)
qed

lemma length_fips_round [simp]: "length (fips_round w t vs) = length vs"
  by (induction w t vs rule: fips_round.induct) simp_all

lemma length_fips_compress [simp]: "length (fips_compress H M) = length H"
proof -
  have "length (fips_rounds M n H) = length H" for n
    by (induction n) (simp_all add: fips_rounds_def)
  then show ?thesis by (simp add: fips_compress_def)
qed


subsection \<open>Blocks of bytes\<close>

definition block_words :: "byte list \<Rightarrow> u32 list" where
  "block_words chunk = List.map (\<lambda>i. be_word (take 4 (drop (4 * i) chunk))) [0..<16]"

lemma length_block_words [simp]: "length (block_words chunk) = 16"
  by (simp add: block_words_def)

lemma take_4_drop:
  "i + 4 \<le> length bs \<Longrightarrow> take 4 (drop i bs) = [bs ! i, bs ! (i + 1), bs ! (i + 2), bs ! (i + 3)]"
  by (rule nth_equalityI) (auto simp: less_Suc_eq numeral_eq_Suc)

lemma be_word_4:
  "be_word [a, b, c, d] =
     (ucast d OR push_bit 8 (ucast c) OR push_bit 16 (ucast b) OR push_bit 24 (ucast a) :: u32)"
  by (simp add: be_word_def push_bit_or)

lemma buffer_to_block_words:
  "length buf = 64 \<Longrightarrow> buffer_to_block buf = block_words buf"
  by (auto simp: buffer_to_block_def block_words_def take_4_drop be_word_4)

lemma word_bytes_be_eq: "word_bytes_be d = be_bytes d"
  apply (simp add: word_bytes_be_def be_bytes_def le_bytes_def upt_small)
  apply (simp only: byte_eq_bits bit_simps)
  apply (simp add: bit_simps)
  done

lemma be_bytes_64_split:
  "be_bytes (w :: u64) = be_bytes (ucast (drop_bit 32 w) :: u32) @ be_bytes (ucast w :: u32)"
  apply (simp add: be_bytes_def le_bytes_def upt_small)
  apply (simp only: byte_eq_bits bit_simps)
  apply (simp add: bit_simps)
  done

lemma upt_16_split: "[0..<16] = [0..<14] @ [14, 15 :: nat]"
  by (simp add: upt_rec_numeral upt_rec [of 0 14] upt_rec [of 0 16] upt_rec [of "Suc 0" 14]
      upt_rec [of "Suc 0" 16] numeral_2_eq_2 [symmetric])

lemma block_words_tail:
  assumes "length p = 56"
  shows "block_words (p @ be_bytes hi @ be_bytes lo) =
    List.map (\<lambda>i. be_word (take 4 (drop (4 * i) p))) [0..<14] @ [hi, lo]"
  using assms by (simp add: block_words_def upt_16_split be_word_be_bytes)

lemma block_words_head:
  assumes "length p = 56"
  shows "take 14 (block_words (p @ q)) = List.map (\<lambda>i. be_word (take 4 (drop (4 * i) p))) [0..<14]"
  using assms by (simp add: block_words_def upt_16_split take_map)

lemma set_length_words:
  assumes "length block = 16"
  shows "block[15 := lo, 14 := hi] = take 14 block @ [hi, lo]"
  using assms by (intro nth_equalityI) (auto simp: nth_list_update nth_append less_Suc_eq numeral_eq_Suc)

subsection \<open>Hashing a message\<close>

function fips_blocks :: "u32 list \<Rightarrow> byte list \<Rightarrow> u32 list" where
  "fips_blocks H bs =
     (if length bs < 64 then H
      else fips_blocks (fips_compress H (block_words (take 64 bs))) (drop 64 bs))"
  by pat_completeness auto

termination
  by (relation "measure (\<lambda>(H, bs). length bs)") auto

declare fips_blocks.simps [simp del]

definition fips_H0 :: "u32 list" where
  "fips_H0 = [0x67452301, 0xefcdab89, 0x98badcfe, 0x10325476, 0xc3d2e1f0]"

definition fips_pad :: "byte list \<Rightarrow> byte list" where
  "fips_pad msg =
     msg @ [0x80] @ replicate ((119 - length msg mod 64) mod 64) 0 @
     be_bytes (word_of_nat (8 * length msg) :: u64)"

definition fips_sha1 :: "byte list \<Rightarrow> byte list" where
  "fips_sha1 msg = concat (List.map be_bytes (fips_blocks fips_H0 (fips_pad msg)))"

lemma fips_blocks_append:
  "64 dvd length a \<Longrightarrow> fips_blocks H (a @ b) = fips_blocks (fips_blocks H a) b"
proof (induction H a rule: fips_blocks.induct)
  case (1 H a)
  show ?case
  proof (cases "length a < 64")
    case True
    with 1(2) have "a = []" by (auto dest: dvd_imp_le)
    then show ?thesis by (simp add: fips_blocks.simps [of H "[]"])
  next
    case False
    then have "64 dvd length (drop 64 a)" using 1(2) by (simp add: dvd_diff_nat)
    from 1(1) [OF False this] False show ?thesis
      by (simp add: fips_blocks.simps [of H "a @ b"] fips_blocks.simps [of H a])
  qed
qed

lemma fips_blocks_small: "length b < 64 \<Longrightarrow> fips_blocks H b = H"
  by (simp add: fips_blocks.simps)

lemma fips_blocks_one:
  "length b = 64 \<Longrightarrow> fips_blocks H b = fips_compress H (block_words b)"
  by (subst fips_blocks.simps) (simp add: fips_blocks_small)

lemma length_fips_blocks [simp]: "length (fips_blocks H bs) = length H"
proof (induction H bs rule: fips_blocks.induct)
  case (1 H bs)
  then show ?case by (subst fips_blocks.simps) simp
qed

text \<open>The state of the hash after the bytes of \<open>msg\<close>.\<close>

definition sha1_state :: "byte list \<Rightarrow> sha1 \<Rightarrow> bool" where
  "sha1_state msg s \<longleftrightarrow>
     (\<exists>full. msg = full @ sha_buffer s \<and> 64 dvd length full \<and> length (sha_buffer s) < 64 \<and>
        sha_digest s = fips_blocks fips_H0 full \<and>
        sha_transforms s = word_of_nat (length full div 64))"

lemma sha1_state_reset: "sha1_state [] sha1_reset"
  by (simp add: sha1_state_def sha1_reset_def fips_blocks_small fips_H0_def)

lemma length_H0 [simp]: "length fips_H0 = 5"
  by (simp add: fips_H0_def)

lemma sha1_update_state: "sha1_state msg s \<Longrightarrow> sha1_state (msg @ is) (sha1_update is s)"
proof (induction "is" s arbitrary: msg rule: sha1_update.induct)
  case (1 "is" s)
  from 1(2) obtain full where full: "msg = full @ sha_buffer s" "64 dvd length full"
    "length (sha_buffer s) < 64" "sha_digest s = fips_blocks fips_H0 full"
    "sha_transforms s = word_of_nat (length full div 64)"
    by (auto simp: sha1_state_def)
  let ?n = "64 - length (sha_buffer s)"
  let ?buf = "sha_buffer s @ take ?n is"
  show ?case
  proof (cases "length ?buf = 64")
    case False
    then have short: "length is < ?n" using full(3) by (auto simp: min_def split: if_splits)
    then have "sha1_update is s = s\<lparr>sha_buffer := sha_buffer s @ is\<rparr>"
      by (subst sha1_update.simps) (simp add: Let_def)
    with full short show ?thesis by (auto simp: sha1_state_def)
  next
    case True
    obtain block where t: "transform (sha_digest s) (buffer_to_block ?buf) (sha_transforms s) =
        (fips_compress (sha_digest s) (buffer_to_block ?buf), block, sha_transforms s + 1)"
      by (rule transform_compress [of "sha_digest s" "buffer_to_block ?buf" "sha_transforms s"])
        (simp_all add: full(4) buffer_to_block_def)
    let ?s = "s\<lparr>sha_digest := fips_compress (sha_digest s) (buffer_to_block ?buf),
      sha_buffer := [], sha_transforms := sha_transforms s + 1\<rparr>"
    have u: "sha1_update is s = sha1_update (drop ?n is) ?s"
      using True by (subst sha1_update.simps) (simp add: t Let_def)
    have "fips_blocks fips_H0 (full @ ?buf) = fips_compress (sha_digest s) (buffer_to_block ?buf)"
      using full True by (simp only: fips_blocks_append fips_blocks_one buffer_to_block_words)
    moreover have "64 dvd length (full @ ?buf)" using full(2) True by simp
    moreover have "length (full @ ?buf) div 64 = length full div 64 + 1" using True by simp
    ultimately have "sha1_state (full @ ?buf) ?s"
      unfolding sha1_state_def using full(5) by (intro exI [of _ "full @ ?buf"]) simp
    then have "sha1_state ((full @ ?buf) @ drop ?n is) (sha1_update (drop ?n is) ?s)"
      using True by (intro 1(1) [OF refl refl _ t [symmetric] refl refl]) (simp_all add: t)
    then show ?thesis by (simp add: u full(1))
  qed
qed


subsection \<open>The final blocks\<close>

lemma total_bits:
  "(word_of_nat q * 64 + word_of_nat r) * 8 = (word_of_nat (8 * (64 * q + r)) :: u64)"
  by (simp add: algebra_simps)

lemma sha1_final_state:
  assumes "sha1_state msg s"
  shows "sha1_final_bytes s = (fips_sha1 msg, sha1_reset)"
proof -
  from assms obtain full where full: "msg = full @ sha_buffer s" "64 dvd length full"
    "length (sha_buffer s) < 64" "sha_digest s = fips_blocks fips_H0 full"
    "sha_transforms s = word_of_nat (length full div 64)"
    by (auto simp: sha1_state_def)
  let ?buf = "sha_buffer s" and ?H = "sha_digest s"
  let ?r = "length ?buf"
  define bits where "bits = (word_of_nat (8 * length msg) :: u64)"
  define hi lo where "hi = (ucast (drop_bit 32 bits) :: u32)" and "lo = (ucast bits :: u32)"
  have len: "64 * (length full div 64) + ?r = length msg" using full(1,2) by simp
  have bits: "(sha_transforms s * 64 + word_of_nat ?r) * 8 = bits"
    unfolding full(5) total_bits len bits_def ..
  have lenH: "length ?H = 5" by (simp add: full(4))
  have mod: "length msg mod 64 = ?r" using full(1-3) by (simp add: mod_add_left_eq dvd_imp_mod_0 flip: mod_add_left_eq)
  define padded where "padded = ?buf @ [0x80] @ replicate (64 - Suc ?r) (0 :: byte)"
  have len64: "length padded = 64" using full(3) by (simp add: padded_def)
  define pad where "pad = replicate ((119 - ?r) mod 64) (0 :: byte)"
  have "fips_pad msg = msg @ [0x80] @ pad @ be_bytes hi @ be_bytes lo"
    unfolding fips_pad_def mod bits_def [symmetric] pad_def [symmetric] be_bytes_64_split
      hi_def [symmetric] lo_def [symmetric] by simp
  also have "\<dots> = full @ ?buf @ [0x80] @ pad @ be_bytes hi @ be_bytes lo"
    by (subst full(1)) simp
  finally have tail: "fips_blocks fips_H0 (fips_pad msg) =
      fips_blocks ?H (?buf @ [0x80] @ pad @ be_bytes hi @ be_bytes lo)"
    by (simp only: fips_blocks_append [OF full(2)] full(4))
  have words: "word_bytes_be = be_bytes" by (rule ext) (rule word_bytes_be_eq)
  show ?thesis
  proof (cases "?r < 56")
    case True
    then have p: "pad = replicate (55 - ?r) 0" by (simp add: pad_def le_mod_geq)
    let ?p = "?buf @ [0x80] @ pad"
    have l56: "length ?p = 56" using True by (simp add: p)
    have "64 - Suc ?r = (55 - ?r) + 8" using True by simp
    then have pd: "padded = ?p @ replicate 8 0" by (simp only: padded_def p replicate_add append_assoc)
    have b: "buffer_to_block padded = block_words (?p @ replicate 8 0)"
      using buffer_to_block_words [OF len64] unfolding arg_cong [OF pd, of block_words] .
    have blk: "(buffer_to_block padded)[15 := lo, 14 := hi] = block_words (?p @ be_bytes hi @ be_bytes lo)"
      unfolding b set_length_words [OF length_block_words] block_words_head [OF l56]
        block_words_tail [OF l56] ..
    obtain block where t: "transform ?H (block_words (?p @ be_bytes hi @ be_bytes lo)) (sha_transforms s)
        = (fips_compress ?H (block_words (?p @ be_bytes hi @ be_bytes lo)), block, sha_transforms s + 1)"
      by (rule transform_compress [OF lenH length_block_words])
    have "fips_blocks ?H (?p @ be_bytes hi @ be_bytes lo) =
        fips_compress ?H (block_words (?p @ be_bytes hi @ be_bytes lo))"
      by (rule fips_blocks_one) (simp add: l56 [simplified])
    then have res: "fips_sha1 msg = concat (List.map be_bytes
        (fips_compress ?H (block_words (?p @ be_bytes hi @ be_bytes lo))))"
      by (simp add: fips_sha1_def tail)
    have "\<not> 64 - 8 < length (?buf @ [0x80])" using True by simp
    moreover have "(?buf @ [0x80]) @ replicate (64 - length (?buf @ [0x80])) 0 = padded"
      by (simp add: padded_def)
    ultimately show ?thesis
      unfolding sha1_final_bytes_def Let_def bits
      by (simp only: if_False prod.case blk [unfolded hi_def lo_def] t [unfolded hi_def lo_def] words res [unfolded hi_def lo_def])
  next
    case False
    then have p: "pad = replicate (63 - ?r) 0 @ replicate 56 0"
      using full(3) by (simp add: pad_def replicate_add [symmetric])
    let ?z = "replicate 56 (0 :: byte)"
    have l56: "length ?z = 56" by simp
    have "64 - Suc ?r = 63 - ?r" by simp
    then have pd: "?buf @ [0x80] @ pad @ be_bytes hi @ be_bytes lo = padded @ ?z @ be_bytes hi @ be_bytes lo"
      by (simp add: padded_def p)
    obtain block where t: "transform ?H (buffer_to_block padded) (sha_transforms s) =
        (fips_compress ?H (block_words padded), block, sha_transforms s + 1)" and lb: "length block = 16"
      by (rule transform_compress [of ?H "buffer_to_block padded" "sha_transforms s"])
        (simp_all add: lenH buffer_to_block_words [OF len64])
    have z: "List.map (\<lambda>i. be_word (take 4 (drop (4 * i) ?z))) [0..<14] = replicate 14 (0 :: u32)"
      by (intro nth_equalityI) (simp_all add: min_def be_word_4 numeral_eq_Suc be_word_def)
    have "(replicate 14 0 @ drop 14 block)[15 := lo, 14 := hi] =
        take 14 (replicate 14 0 @ drop 14 block) @ [hi, lo]"
      by (rule set_length_words) (simp add: lb)
    then have blk: "(replicate 14 0 @ drop 14 block)[15 := lo, 14 := hi] = block_words (?z @ be_bytes hi @ be_bytes lo)"
      unfolding block_words_tail [OF l56] z by simp
    let ?H1 = "fips_compress ?H (block_words padded)"
    have lenH1: "length ?H1 = 5" using lenH by simp
    obtain block' where t': "transform ?H1 (block_words (?z @ be_bytes hi @ be_bytes lo)) (sha_transforms s + 1)
        = (fips_compress ?H1 (block_words (?z @ be_bytes hi @ be_bytes lo)), block', sha_transforms s + 1 + 1)"
      by (rule transform_compress [OF lenH1 length_block_words])
    have "fips_blocks ?H (padded @ ?z @ be_bytes hi @ be_bytes lo) =
        fips_compress ?H1 (block_words (?z @ be_bytes hi @ be_bytes lo))"
      by (simp only: fips_blocks_append len64 dvd_refl fips_blocks_one) (simp add: fips_blocks_one)
    then have res: "fips_sha1 msg = concat (List.map be_bytes
        (fips_compress ?H1 (block_words (?z @ be_bytes hi @ be_bytes lo))))"
      by (simp only: fips_sha1_def tail pd)
    have "64 - 8 < length (?buf @ [0x80])" using False by simp
    moreover have "(?buf @ [0x80]) @ replicate (64 - length (?buf @ [0x80])) 0 = padded"
      by (simp add: padded_def)
    ultimately show ?thesis
      unfolding sha1_final_bytes_def Let_def bits
      by (simp only: if_True prod.case t blk [unfolded hi_def lo_def] t' [unfolded hi_def lo_def] words
          res [unfolded hi_def lo_def])
  qed
qed

text \<open>
  C25: The hash is SHA-1: whatever bytes are passed to \<open>update\<close>, in one call or split over two,
  \<open>final_bytes\<close> returns the digest that FIPS 180-4 defines for all of them, and resets the hash for
  the next use. (The length is counted modulo \<open>2\<^sup>6\<^sup>4\<close> bits, as in the standard.)
\<close>

theorem sha1_correct:
  "sha1_final_bytes (sha1_update msg2 (sha1_update msg1 sha1_reset)) =
     (fips_sha1 (msg1 @ msg2), sha1_reset)"
proof -
  have "sha1_state (msg1 @ msg2) (sha1_update msg2 (sha1_update msg1 sha1_reset))"
    using sha1_update_state [OF sha1_update_state [OF sha1_state_reset, of msg1], of msg2] by simp
  then show ?thesis by (rule sha1_final_state)
qed

end
