(* ===== verification/Handshake.thy ===== *)
theory Handshake
  imports Url Permessage_Deflate Base64 Sha1 Xoshiro
begin

section \<open>The opening handshake (Handshake.hpp)\<close>

text \<open>
  The fields of class \<open>Handshake\<close> (without the logger) as a record, the request it writes and the
  checks of the response, in the order of the code. The nonce is drawn from the generator and goes
  through memory, so the byte order of the host is an argument. Strings are hashed as bytes.
\<close>

record handshake =
  hs_url :: url
  hs_rnd :: xoshiro
  hs_key :: string
  hs_request :: http_request_header
  hs_response :: http_response_header
  hs_pmd :: "permessage_deflate option"
  hs_negotiated :: bool
  hs_success :: bool

definition handshake_new :: "url \<Rightarrow> u64 \<Rightarrow> handshake" where
  "handshake_new u clock =
     \<lparr>hs_url = u, hs_rnd = xoshiro_new clock, hs_key = '''',
      hs_request = \<lparr>request_line = \<lparr>http_method = '''', request_target = '''', http_version = ''''\<rparr>,
                    request_fields = []\<rparr>,
      hs_response = \<lparr>status_line = \<lparr>protocol_version = '''', status_code = 0, reason = ''''\<rparr>,
                     response_fields = []\<rparr>,
      hs_pmd = None, hs_negotiated = False, hs_success = False\<rparr>"

definition is_compression_negotiated :: "handshake \<Rightarrow> bool" where
  "is_compression_negotiated h = hs_negotiated h"

definition is_compression_requested :: "handshake \<Rightarrow> bool" where
  "is_compression_requested h \<longleftrightarrow> hs_pmd h \<noteq> None"

definition is_success :: "handshake \<Rightarrow> bool" where
  "is_success h = hs_success h"

definition set_permessage_deflate :: "permessage_deflate \<Rightarrow> handshake \<Rightarrow> handshake" where
  "set_permessage_deflate p h = h\<lparr>hs_pmd := Some p\<rparr>"

subsection \<open>The request\<close>

definition generate_SecWebSocketKey :: "endian \<Rightarrow> xoshiro \<Rightarrow> string \<times> xoshiro" where
  "generate_SecWebSocketKey native rnd =
     (let (part1, rnd1) = xoshiro_next rnd;
          (part2, rnd2) = xoshiro_next rnd1;
          key = mem_bytes native (ucast part1 :: u64) @ mem_bytes native (ucast part2 :: u64)
      in (base64_encode key, rnd2))"

definition get_request_message :: "endian \<Rightarrow> handshake \<Rightarrow> string \<times> handshake" where
  "get_request_message native h =
     (let fields = request_fields (hs_request h);
          line = \<lparr>http_method = ''GET'', request_target = url_resource (hs_url h),
                  http_version = ''HTTP/1.1''\<rparr>;
          fields = header_add_if_missing ''Host'' (url_authority (hs_url h)) fields;
          fields = header_add_if_missing ''Upgrade'' ''websocket'' fields;
          fields = header_add_if_missing ''Connection'' ''Upgrade'' fields;
          fields = header_add_if_missing ''Sec-WebSocket-Version'' ''13'' fields;
          (key, rnd) = generate_SecWebSocketKey native (hs_rnd h);
          fields = header_set ''Sec-WebSocket-Key'' key fields;
          fields =
            (case hs_pmd h of
               Some p \<Rightarrow>
                 if \<not> header_contains_key ''Sec-WebSocket-Extensions'' fields
                 then header_set ''Sec-WebSocket-Extensions'' (get_SecWebSocketExtensions_value p) fields
                 else fields
             | None \<Rightarrow> fields);
          fields = header_add_if_missing ''User-Agent'' ''websocketclient-cpp'' fields;
          request = \<lparr>request_line = line, request_fields = fields\<rparr>
      in (print_request_header request, h\<lparr>hs_request := request, hs_key := key, hs_rnd := rnd\<rparr>))"

subsection \<open>The checks of the response\<close>

function token_loop :: "string \<Rightarrow> string \<Rightarrow> bool" where
  "token_loop remaining expected =
     (let comma = find_char CHR '','' remaining;
          token = trim (case comma of None \<Rightarrow> remaining | Some n \<Rightarrow> take n remaining)
      in if equals_ci token expected then True
         else case comma of
                None \<Rightarrow> False
              | Some n \<Rightarrow> token_loop (drop (n + 1) remaining) expected)"
  by pat_completeness auto

termination
  by (relation "measure (\<lambda>(remaining, expected). length remaining)")
    (auto dest!: find_char_Some [OF sym])

declare token_loop.simps [simp del]

definition header_contains_token :: "header_fields \<Rightarrow> string \<Rightarrow> string \<Rightarrow> bool" where
  "header_contains_token fs name expected =
     list_ex (\<lambda>(key, val). equals_ci key name \<and> token_loop val expected) fs"

definition validate_UpgradeWebsocket :: "handshake \<Rightarrow> unit ws_result" where
  "validate_UpgradeWebsocket h =
     (let fields = response_fields (hs_response h) in
      if \<not> header_contains_key ''Upgrade'' fields
      then Err (http_protocol_error (Msg_missing_header ''Upgrade''))
      else if \<not> header_contains_token fields ''Upgrade'' ''websocket''
      then Err (http_protocol_error (Msg_header_lacks_token ''Upgrade'' ''websocket''))
      else Ok ())"

definition validate_ConnectionUpgrade :: "handshake \<Rightarrow> unit ws_result" where
  "validate_ConnectionUpgrade h =
     (let fields = response_fields (hs_response h) in
      if \<not> header_contains_key ''Connection'' fields
      then Err (http_protocol_error (Msg_missing_header ''Connection''))
      else if \<not> header_contains_token fields ''Connection'' ''Upgrade''
      then Err (http_protocol_error (Msg_header_lacks_token ''Connection'' ''Upgrade''))
      else Ok ())"

definition validate_SecWebSocketVersion :: "handshake \<Rightarrow> unit ws_result" where
  "validate_SecWebSocketVersion h =
     (case header_get_first ''Sec-WebSocket-Version'' (response_fields (hs_response h)) of
        None \<Rightarrow> Ok ()
      | Some v \<Rightarrow>
          if v \<noteq> ''13'' then Err (http_protocol_error (Msg_header_value ''Sec-WebSocket-Version'' ''13'' v))
          else Ok ())"

definition websocket_guid :: string where
  "websocket_guid = ''258EAFA5-E914-47DA-95CA-C5AB0DC85B11''"

definition expected_accept :: "string \<Rightarrow> string" where
  "expected_accept key =
     (let checksum = sha1_update (bytes_of_string (key @ websocket_guid)) sha1_reset;
          (sha1_bytes, checksum) = sha1_final_bytes checksum
      in base64_encode sha1_bytes)"

definition validate_SecWebSocketAccept :: "handshake \<Rightarrow> unit ws_result" where
  "validate_SecWebSocketAccept h =
     (case header_get_first ''Sec-WebSocket-Accept'' (response_fields (hs_response h)) of
        None \<Rightarrow> Err (http_protocol_error (Msg_missing_header ''Sec-WebSocket-Accept''))
      | Some v \<Rightarrow>
          if v \<noteq> expected_accept (hs_key h)
          then Err (http_protocol_error
                 (Msg_header_value ''Sec-WebSocket-Accept'' (expected_accept (hs_key h)) v))
          else Ok ())"

definition negotiate_extension :: "(handshake, unit) st" where
  "negotiate_extension h =
     (case hs_pmd h of
        None \<Rightarrow> (Ok (), h)
      | Some p \<Rightarrow>
          (case negotiate (hs_response h) p of
             (Ok b, p') \<Rightarrow> (Ok (), h\<lparr>hs_pmd := Some p', hs_negotiated := b\<rparr>)
           | (Err e, p') \<Rightarrow> (Err e, h\<lparr>hs_pmd := Some p'\<rparr>)
           | (Abort, p') \<Rightarrow> (Abort, h)))"

definition process_response :: "string \<Rightarrow> (handshake, unit) st" where
  "process_response header_str h =
     (case parse_request_status_line header_str of
        (Ok line, stream) \<Rightarrow>
          if status_code line \<noteq> 101
          then (Err (http_protocol_error (Msg_http_status (status_code line) (reason line))), h)
          else (case parse_header_fields stream of
                  (Ok fs, stream') \<Rightarrow>
                    st_try (\<lambda>h. (validate_UpgradeWebsocket h, h)) (\<lambda>_.
                    st_try (\<lambda>h. (validate_ConnectionUpgrade h, h)) (\<lambda>_.
                    st_try (\<lambda>h. (validate_SecWebSocketAccept h, h)) (\<lambda>_.
                    st_try (\<lambda>h. (validate_SecWebSocketVersion h, h)) (\<lambda>_.
                    st_try negotiate_extension (\<lambda>_ h. (Ok (), h\<lparr>hs_success := True\<rparr>))))))
                    (h\<lparr>hs_response := \<lparr>status_line = line, response_fields = fs\<rparr>\<rparr>)
                | (Err e, stream') \<Rightarrow> (Err e, h)
                | (Abort, stream') \<Rightarrow> (Abort, h))
      | (Err e, stream) \<Rightarrow> (Err e, h)
      | (Abort, stream) \<Rightarrow> (Abort, h))"

subsection \<open>Tokens of a header\<close>

text \<open>The comma-separated elements of a header value.\<close>

function split_commas :: "string \<Rightarrow> string list" where
  "split_commas s =
     (case find_char CHR '','' s of None \<Rightarrow> [s] | Some n \<Rightarrow> take n s # split_commas (drop (n + 1) s))"
  by pat_completeness auto

termination
  by (relation "measure length") (auto dest!: find_char_Some)

declare split_commas.simps [simp del]

lemma token_loop_split:
  "token_loop s t \<longleftrightarrow> (\<exists>x \<in> set (split_commas s). equals_ci (trim x) t)"
proof (induction s rule: split_commas.induct)
  case (1 s)
  show ?case
  proof (cases "find_char CHR '','' s")
    case None
    then show ?thesis by (subst token_loop.simps, subst split_commas.simps) (simp add: Let_def)
  next
    case (Some n)
    with 1 [OF Some] show ?thesis
      by (subst token_loop.simps, subst split_commas.simps) (simp add: Let_def)
  qed
qed

definition has_token :: "header_fields \<Rightarrow> string \<Rightarrow> string \<Rightarrow> bool" where
  "has_token fs name t \<longleftrightarrow>
     (\<exists>v \<in> set (header_get name fs). \<exists>x \<in> set (split_commas v). equals_ci (trim x) t)"

lemma header_contains_token_has: "header_contains_token fs name t \<longleftrightarrow> has_token fs name t"
  by (auto simp: header_contains_token_def has_token_def list_ex_iff token_loop_split header_get_filter)

lemma has_token_contains: "has_token fs name t \<Longrightarrow> header_contains_key name fs"
  by (auto simp: has_token_def header_contains_key_get)


subsection \<open>When the handshake succeeds\<close>

lemma sha1_of_bytes: "fst (sha1_final_bytes (sha1_update bs sha1_reset)) = fips_sha1 bs"
  using sha1_final_state [OF sha1_update_state [OF sha1_state_reset, of bs]] by simp

lemma expected_accept_fips:
  "expected_accept key = base64_encode (fips_sha1 (bytes_of_string (key @ websocket_guid)))"
  using sha1_of_bytes [of "bytes_of_string (key @ websocket_guid)"]
  by (simp add: expected_accept_def Let_def case_prod_beta)

text \<open>
  What the client checks of the things that RFC 6455 section 4.1 asks of the response to the request with
  this key. (It does not check that no extension and no subprotocol is named that was not requested.)
\<close>

definition response_ok :: "string \<Rightarrow> int \<Rightarrow> header_fields \<Rightarrow> bool" where
  "response_ok key code fs \<longleftrightarrow>
     code = 101 \<and> has_token fs ''Upgrade'' ''websocket'' \<and> has_token fs ''Connection'' ''Upgrade'' \<and>
     header_get_first ''Sec-WebSocket-Accept'' fs =
       Some (base64_encode (fips_sha1 (bytes_of_string (key @ websocket_guid)))) \<and>
     (header_get_first ''Sec-WebSocket-Version'' fs = None \<or>
      header_get_first ''Sec-WebSocket-Version'' fs = Some ''13'')"

lemma validate_iff:
  "validate_UpgradeWebsocket h = Ok () \<longleftrightarrow> has_token (response_fields (hs_response h)) ''Upgrade'' ''websocket''"
  "validate_ConnectionUpgrade h = Ok () \<longleftrightarrow>
     has_token (response_fields (hs_response h)) ''Connection'' ''Upgrade''"
  "validate_SecWebSocketVersion h = Ok () \<longleftrightarrow>
     header_get_first ''Sec-WebSocket-Version'' (response_fields (hs_response h)) \<in> {None, Some ''13''}"
  "validate_SecWebSocketAccept h = Ok () \<longleftrightarrow>
     header_get_first ''Sec-WebSocket-Accept'' (response_fields (hs_response h)) =
       Some (base64_encode (fips_sha1 (bytes_of_string (hs_key h @ websocket_guid))))"
  by (auto simp: validate_UpgradeWebsocket_def validate_ConnectionUpgrade_def Let_def
      validate_SecWebSocketVersion_def validate_SecWebSocketAccept_def header_contains_token_has
      expected_accept_fips split: option.splits dest: has_token_contains)

lemma validate_not_abort:
  "validate_UpgradeWebsocket h \<noteq> Abort" "validate_ConnectionUpgrade h \<noteq> Abort"
  "validate_SecWebSocketVersion h \<noteq> Abort" "validate_SecWebSocketAccept h \<noteq> Abort"
  by (simp_all add: validate_UpgradeWebsocket_def validate_ConnectionUpgrade_def Let_def
      validate_SecWebSocketVersion_def validate_SecWebSocketAccept_def split: option.splits)

lemma process_response_parsed:
  assumes l: "parse_request_status_line s = (Ok line, rest)"
    and f: "parse_header_fields rest = (Ok fs, rest')"
  shows "(\<exists>h'. process_response s h = (Ok (), h')) \<longleftrightarrow>
    response_ok (hs_key h) (status_code line) fs \<and>
    (\<forall>p. hs_pmd h = Some p \<longrightarrow>
      (\<exists>b. fst (negotiate \<lparr>status_line = line, response_fields = fs\<rparr> p) = Ok b))"
  and "process_response s h = (Ok (), h') \<Longrightarrow> hs_success h' \<and>
    hs_response h' = \<lparr>status_line = line, response_fields = fs\<rparr>"
proof -
  let ?h = "h\<lparr>hs_response := \<lparr>status_line = line, response_fields = fs\<rparr>\<rparr>"
  have p: "process_response s h = (Ok (), h') \<longleftrightarrow> status_code line = 101 \<and>
      validate_UpgradeWebsocket ?h = Ok () \<and> validate_ConnectionUpgrade ?h = Ok () \<and>
      validate_SecWebSocketAccept ?h = Ok () \<and> validate_SecWebSocketVersion ?h = Ok () \<and>
      (\<exists>h1. negotiate_extension ?h = (Ok (), h1) \<and> h' = h1\<lparr>hs_success := True\<rparr>)" for h'
    by (auto simp: process_response_def l f st_try_Ok)
  have n: "(\<exists>h1. negotiate_extension ?h = (Ok (), h1)) \<longleftrightarrow> (\<forall>p. hs_pmd h = Some p \<longrightarrow>
      (\<exists>b. fst (negotiate \<lparr>status_line = line, response_fields = fs\<rparr> p) = Ok b))"
    by (cases "hs_pmd h"; cases "negotiate \<lparr>status_line = line, response_fields = fs\<rparr> (the (hs_pmd h))")
      (auto simp: negotiate_extension_def split: ws_result.splits)
  show "(\<exists>h'. process_response s h = (Ok (), h')) \<longleftrightarrow>
    response_ok (hs_key h) (status_code line) fs \<and>
    (\<forall>p. hs_pmd h = Some p \<longrightarrow>
      (\<exists>b. fst (negotiate \<lparr>status_line = line, response_fields = fs\<rparr> p) = Ok b))"
    unfolding p response_ok_def n [symmetric] by (auto simp: validate_iff)
  show "hs_success h' \<and> hs_response h' = \<lparr>status_line = line, response_fields = fs\<rparr>"
    if "process_response s h = (Ok (), h')"
  proof -
    from that p obtain h1 where "negotiate_extension ?h = (Ok (), h1)" "h' = h1\<lparr>hs_success := True\<rparr>"
      by blast
    then show ?thesis
      by (auto simp: negotiate_extension_def split: option.splits prod.splits ws_result.splits)
  qed
qed

text \<open>
  C11: The client accepts a response, printed in the canonical form of status line and header fields,
  exactly when it passes these checks: status 101, an \<open>Upgrade\<close> header with the token \<open>websocket\<close> and a
  \<open>Connection\<close> header with the token \<open>Upgrade\<close> (compared without case), the accept value that SHA-1 and
  Base64 give for its own key, no other version than 13 and, when compression was offered, a
  negotiation without error. The text behind the empty line does not matter, and the response is
  recorded. (RFC 6455 section 4.1 also makes a client refuse extensions and subprotocols that it did not
  ask for: those checks are not made.)
\<close>

theorem handshake_accepts_iff:
  assumes v: "version \<noteq> []" "\<forall>c \<in> set version. \<not> isspace c" and n: "int n \<le> int_max"
    and r: "newline \<notin> set text" "no_outer_space text" and fs: "list_all field_ok fs"
  shows "(\<exists>h'. process_response
        (version @ '' '' @ show_nat n @ '' '' @ text @ crlf @ print_fields fs @ crlf @ rest) h = (Ok (), h') \<and>
      hs_success h' \<and> response_fields (hs_response h') = fs) \<longleftrightarrow>
    response_ok (hs_key h) (int n) fs \<and>
    (\<forall>p. hs_pmd h = Some p \<longrightarrow> (\<exists>b. fst (negotiate
      \<lparr>status_line = \<lparr>protocol_version = version, status_code = int n, reason = text\<rparr>,
       response_fields = fs\<rparr> p) = Ok b))"
proof -
  let ?s = "version @ '' '' @ show_nat n @ '' '' @ text @ crlf @ print_fields fs @ crlf @ rest"
  have l: "parse_request_status_line ?s =
      (Ok \<lparr>protocol_version = version, status_code = int n, reason = text\<rparr>, print_fields fs @ crlf @ rest)"
    by (rule parse_status_line_printed [OF v n r])
  have f: "parse_header_fields (print_fields fs @ crlf @ rest) = (Ok fs, rest)"
    using parse_printed_fields [OF fs, of "[]" rest] by (simp add: parse_header_fields_def)
  from process_response_parsed [OF l f, of h] show ?thesis by auto
qed

theorem handshake_accepts_iff_witness:
  "\<exists>h'. process_response (''HTTP/1.1'' @ '' '' @ show_nat 101 @ '' '' @ ''Switching'' @ crlf @
      print_fields [(''upgrade'', ''WebSocket''), (''Connection'', ''keep-alive, upgrade''),
        (''Sec-WebSocket-Accept'', expected_accept '''')] @ crlf @ ''x'')
      (handshake_new \<lparr>url_protocol = ''ws'', url_host = ''h'', url_port = 80, url_resource = ''/''\<rparr> 1)
    = (Ok (), h')"
proof -
  let ?a = "expected_accept ''''"
  let ?fs = "[(''upgrade'', ''WebSocket''), (''Connection'', ''keep-alive, upgrade''), (''Sec-WebSocket-Accept'', ?a)]"
  let ?h = "handshake_new \<lparr>url_protocol = ''ws'', url_host = ''h'', url_port = 80, url_resource = ''/''\<rparr> 1"
  have chars: "\<forall>c \<in> set ?a. c \<in> insert CHR ''='' (set encode_table)"
    unfolding expected_accept_fips base64_encode_def by (rule base64_loop_chars)
  have plain: "list_all (\<lambda>c. \<not> isspace c) (CHR ''='' # encode_table)" by code_simp
  have sp: "\<forall>c \<in> set ?a. \<not> isspace c"
  proof
    fix c
    assume "c \<in> set ?a"
    with chars have "c \<in> set (CHR ''='' # encode_table)" by (simp only: list.set)
    with plain show "\<not> isspace c" unfolding list_all_iff by (rule bspec)
  qed
  then have nl: "newline \<notin> set ?a" by (auto simp: newline_def)
  have "no_outer_space ?a" using sp by (cases "?a = []") (auto simp: no_outer_space_def)
  with nl have fs: "list_all field_ok ?fs"
    by (simp add: field_ok_def no_outer_space_def isspace_def char_code_def newline_def)
  have tok: "has_token ?fs ''Upgrade'' ''websocket''" "has_token ?fs ''Connection'' ''Upgrade''"
  proof -
    have ci: "equals_ci ''upgrade'' ''Upgrade''" "equals_ci ''Connection'' ''Connection''"
      "\<not> equals_ci ''Connection'' ''Upgrade''" "\<not> equals_ci ''Sec-WebSocket-Accept'' ''Upgrade''"
      "\<not> equals_ci ''upgrade'' ''Connection''" "\<not> equals_ci ''Sec-WebSocket-Accept'' ''Connection''"
      "equals_ci ''WebSocket'' ''websocket''" "equals_ci ''upgrade'' ''Upgrade''"
      by (simp_all add: equals_ci_def equals_ci_char_def char_code_def tolower_def)
    have g: "header_get ''Upgrade'' ?fs = [''WebSocket'']"
      "header_get ''Connection'' ?fs = [''keep-alive, upgrade'']"
      by (simp_all add: header_get_filter ci)
    have c: "split_commas ''WebSocket'' = [''WebSocket'']" "split_commas '' upgrade'' = ['' upgrade'']"
      by (subst split_commas.simps, simp add: find_char_def)+
    have "split_commas ''keep-alive, upgrade'' = ''keep-alive'' # split_commas '' upgrade''"
      by (subst split_commas.simps) (simp add: find_char_def)
    moreover have "trim ''WebSocket'' = ''WebSocket''" "trim '' upgrade'' = ''upgrade''"
      by (simp_all add: trim_def trim_left_def trim_right_def isspace_def char_code_def)
    ultimately show "has_token ?fs ''Upgrade'' ''websocket''" "has_token ?fs ''Connection'' ''Upgrade''"
      using ci(7,8) c by (simp_all only: has_token_def g) simp_all
  qed
  have "response_ok (hs_key ?h) 101 ?fs"
    using tok by (simp add: response_ok_def header_get_first_def equals_ci_def equals_ci_char_def
        char_code_def tolower_def expected_accept_fips handshake_new_def)
  moreover have "hs_pmd ?h = None" by (simp add: handshake_new_def)
  ultimately show ?thesis
    using handshake_accepts_iff [of "''HTTP/1.1''" 101 "''Switching''" ?fs "''x''" ?h] fs
    by (auto simp: int_max_def isspace_def char_code_def newline_def no_outer_space_def)
qed


subsection \<open>The request that is sent\<close>

lemma header_get_same_key:
  "header_get key (header_add_if_missing k v fs) =
     (if equals_ci k key then (if header_get key fs = [] then [v] else header_get key fs)
      else header_get key fs)"
proof -
  have "equals_ci k key \<Longrightarrow> header_get k fs = header_get key fs"
    unfolding header_get_filter
    by (rule arg_cong [where f = "List.map snd"], rule filter_cong)
      (auto dest: equals_ci_trans equals_ci_sym)
  then show ?thesis by (auto simp: header_get_add_if_missing)
qed

lemma request_keys_distinct:
  "\<not> equals_ci ''Host'' ''Upgrade''" "\<not> equals_ci ''Host'' ''Connection''"
  "\<not> equals_ci ''Host'' ''Sec-WebSocket-Version''" "\<not> equals_ci ''Host'' ''Sec-WebSocket-Key''"
  "\<not> equals_ci ''Upgrade'' ''Host''" "\<not> equals_ci ''Upgrade'' ''Connection''"
  "\<not> equals_ci ''Upgrade'' ''Sec-WebSocket-Version''" "\<not> equals_ci ''Upgrade'' ''Sec-WebSocket-Key''"
  "\<not> equals_ci ''Connection'' ''Host''" "\<not> equals_ci ''Connection'' ''Upgrade''"
  "\<not> equals_ci ''Connection'' ''Sec-WebSocket-Version''"
  "\<not> equals_ci ''Connection'' ''Sec-WebSocket-Key''"
  "\<not> equals_ci ''Sec-WebSocket-Version'' ''Host''" "\<not> equals_ci ''Sec-WebSocket-Version'' ''Upgrade''"
  "\<not> equals_ci ''Sec-WebSocket-Version'' ''Connection''"
  "\<not> equals_ci ''Sec-WebSocket-Version'' ''Sec-WebSocket-Key''"
  "\<not> equals_ci ''Sec-WebSocket-Key'' ''Host''" "\<not> equals_ci ''Sec-WebSocket-Key'' ''Upgrade''"
  "\<not> equals_ci ''Sec-WebSocket-Key'' ''Connection''"
  "\<not> equals_ci ''Sec-WebSocket-Key'' ''Sec-WebSocket-Version''"
  "\<not> equals_ci ''Sec-WebSocket-Extensions'' ''Host''" "\<not> equals_ci ''Sec-WebSocket-Extensions'' ''Upgrade''"
  "\<not> equals_ci ''Sec-WebSocket-Extensions'' ''Connection''"
  "\<not> equals_ci ''Sec-WebSocket-Extensions'' ''Sec-WebSocket-Version''"
  "\<not> equals_ci ''Sec-WebSocket-Extensions'' ''Sec-WebSocket-Key''"
  "\<not> equals_ci ''User-Agent'' ''Host''" "\<not> equals_ci ''User-Agent'' ''Upgrade''"
  "\<not> equals_ci ''User-Agent'' ''Connection''" "\<not> equals_ci ''User-Agent'' ''Sec-WebSocket-Version''"
  "\<not> equals_ci ''User-Agent'' ''Sec-WebSocket-Key''"
  by (simp_all add: equals_ci_def equals_ci_char_def char_code_def tolower_def)

text \<open>
  The request message is the printed request line \<open>GET\<close> with the resource of the URL and the
  header fields, which always contain \<open>Host\<close>, \<open>Upgrade\<close>, \<open>Connection\<close> and the version (the caller's
  values where the caller set them, else the defaults) and exactly one key: the fresh one that the
  response is later checked against, whatever the caller had put there.
\<close>

theorem request_message_fields:
  assumes "get_request_message native h = (msg, h')"
  shows "let fs = request_fields (hs_request h'); user = request_fields (hs_request h);
      dflt = (\<lambda>key v. if header_get key user = [] then [v] else header_get key user)
    in msg = ''GET '' @ url_resource (hs_url h) @ '' HTTP/1.1'' @ crlf @ print_fields fs @ crlf \<and>
      header_get ''Sec-WebSocket-Key'' fs = [hs_key h'] \<and>
      header_get ''Host'' fs = dflt ''Host'' (url_authority (hs_url h)) \<and>
      header_get ''Upgrade'' fs = dflt ''Upgrade'' ''websocket'' \<and>
      header_get ''Connection'' fs = dflt ''Connection'' ''Upgrade'' \<and>
      header_get ''Sec-WebSocket-Version'' fs = dflt ''Sec-WebSocket-Version'' ''13''"
proof -
  obtain key rnd where k: "generate_SecWebSocketKey native (hs_rnd h) = (key, rnd)" by fastforce
  define ext where "ext fs = (case hs_pmd h of
      Some p \<Rightarrow>
        if \<not> header_contains_key ''Sec-WebSocket-Extensions'' fs
        then header_set ''Sec-WebSocket-Extensions'' (get_SecWebSocketExtensions_value p) fs
        else fs
    | None \<Rightarrow> fs)" for fs
  have ext: "header_get key (ext fs) = header_get key fs"
    if "\<not> equals_ci ''Sec-WebSocket-Extensions'' key" for key fs
    using that by (simp add: ext_def header_get_set split: option.splits)
  define F where "F = header_add_if_missing ''User-Agent'' ''websocketclient-cpp''
    (ext (header_set ''Sec-WebSocket-Key'' key
      (header_add_if_missing ''Sec-WebSocket-Version'' ''13''
        (header_add_if_missing ''Connection'' ''Upgrade''
          (header_add_if_missing ''Upgrade'' ''websocket''
            (header_add_if_missing ''Host'' (url_authority (hs_url h))
              (request_fields (hs_request h))))))))"
  have r: "request_fields (hs_request h') = F" "hs_key h' = key"
    "msg = ''GET '' @ url_resource (hs_url h) @ '' HTTP/1.1'' @ crlf @ print_fields F @ crlf"
    using assms unfolding get_request_message_def k Let_def prod.case F_def ext_def [symmetric]
    by (auto simp: print_request_header_def)
  have "header_get ''Sec-WebSocket-Key'' F = [key]"
    "header_get ''Host'' F = (if header_get ''Host'' (request_fields (hs_request h)) = []
       then [url_authority (hs_url h)] else header_get ''Host'' (request_fields (hs_request h)))"
    "header_get ''Upgrade'' F = (if header_get ''Upgrade'' (request_fields (hs_request h)) = []
       then [''websocket''] else header_get ''Upgrade'' (request_fields (hs_request h)))"
    "header_get ''Connection'' F = (if header_get ''Connection'' (request_fields (hs_request h)) = []
       then [''Upgrade''] else header_get ''Connection'' (request_fields (hs_request h)))"
    "header_get ''Sec-WebSocket-Version'' F =
       (if header_get ''Sec-WebSocket-Version'' (request_fields (hs_request h)) = []
        then [''13''] else header_get ''Sec-WebSocket-Version'' (request_fields (hs_request h)))"
    by (simp_all only: F_def header_get_same_key header_get_set ext request_keys_distinct equals_ci_refl
        if_True if_False not_False_eq_True)
  with r show ?thesis by (simp only: Let_def simp_thms)
qed

theorem request_message_fields_witness:
  "let h = handshake_new \<lparr>url_protocol = ''ws'', url_host = ''h'', url_port = 80, url_resource = ''/x''\<rparr> 7;
       h' = snd (get_request_message Little h)
   in header_get ''Host'' (request_fields (hs_request h')) = [''h:80''] \<and>
      header_get ''Sec-WebSocket-Key'' (request_fields (hs_request h')) = [hs_key h']"
proof -
  let ?h = "handshake_new \<lparr>url_protocol = ''ws'', url_host = ''h'', url_port = 80, url_resource = ''/x''\<rparr> 7"
  obtain msg h' where m: "get_request_message Little ?h = (msg, h')" by fastforce
  have "url_authority (hs_url ?h) = ''h:80''"
    by (simp add: handshake_new_def url_authority_def find_char_def show_int_def show_nat.simps
        digit_char_def char_of_def bit_iff_odd)
  moreover have "request_fields (hs_request ?h) = []" by (simp add: handshake_new_def)
  ultimately show ?thesis
    using request_message_fields [OF m] by (simp add: m Let_def header_get_empty)
qed

lemma mem_bytes_upper:
  "drop 4 (mem_bytes Little (ucast (w :: u32) :: u64)) = replicate 4 0"
proof (rule nth_equalityI)
  fix i
  assume "i < length (drop 4 (mem_bytes Little (ucast w :: u64)))"
  then have i: "i < 4" by simp
  have "le_bytes (ucast w :: u64) ! (4 + i) = 0"
  proof (rule bit_word_eqI)
    fix n
    assume "n < LENGTH(8)"
    with i show "bit (le_bytes (ucast w :: u64) ! (4 + i)) n = bit 0 n"
      by (auto simp: bit_le_bytes_nth bit_simps dest: bit_imp_le_length)
  qed
  with i show "drop 4 (mem_bytes Little (ucast w :: u64)) ! i = replicate 4 0 ! i"
    by (simp add: mem_bytes_def)
qed simp

text \<open>
  The nonce of the handshake has half the entropy it should have. Each half of the 16 bytes is
  filled from a 64-bit variable that holds one 32-bit draw, so on a little-endian host the bytes 4 to
  7 and 12 to 15 of every key are zero, for every state of the generator.
\<close>

theorem handshake_key_zero_bytes:
  assumes "generate_SecWebSocketKey Little rnd = (key, rnd')"
  shows "\<exists>a b. base64_decode key = Some (a @ replicate 4 0 @ b @ replicate 4 0) \<and>
    length a = 4 \<and> length b = 4 \<and> length key = 24"
proof -
  define p q where "p = fst (xoshiro_next rnd)" and "q = fst (xoshiro_next (snd (xoshiro_next rnd)))"
  let ?m = "\<lambda>w. mem_bytes Little (ucast (w :: u32) :: u64)"
  have "key = base64_encode (?m p @ ?m q)"
    using assms by (simp add: generate_SecWebSocketKey_def case_prod_beta p_def q_def Let_def)
  moreover have "?m w = take 4 (?m w) @ replicate 4 0" for w
    using append_take_drop_id [of 4 "?m w"] mem_bytes_upper [of w] by simp
  ultimately have "base64_decode key = Some (take 4 (?m p) @ replicate 4 0 @ take 4 (?m q) @ replicate 4 0)"
    using base64_decode_loop [of "?m p @ ?m q" 0]
    by (simp add: base64_encode_def)
  moreover have "length key = 24"
    using \<open>key = base64_encode (?m p @ ?m q)\<close> length_base64_loop [of 0 "?m p @ ?m q"]
    by (simp add: base64_encode_def)
  ultimately show ?thesis
    by (intro exI [of _ "take 4 (?m p)"] exI [of _ "take 4 (?m q)"]) simp
qed

theorem handshake_key_zero_bytes_witness:
  "\<exists>key rnd' a b. generate_SecWebSocketKey Little (xoshiro_new 1) = (key, rnd') \<and>
     base64_decode key = Some (a @ replicate 4 0 @ b @ replicate 4 0)"
proof -
  obtain key rnd' where k: "generate_SecWebSocketKey Little (xoshiro_new 1) = (key, rnd')" by fastforce
  from handshake_key_zero_bytes [OF k] k show ?thesis by blast
qed

end
