(* ===== verification/Client.thy ===== *)
theory Client
  imports Client_Receive Client_Send Handshake
begin

section \<open>Opening a connection (WebSocketClient.hpp: handshake, wait_message)\<close>

text \<open>
  The opening handshake runs on the caller's \<open>Handshake\<close> object and the client: it writes the request,
  reads the head of the response up to the empty line, lets \<open>process_response\<close> judge it, sets up the
  compression that was negotiated, and opens the client. The local header buffer is a value of the
  function.
\<close>

definition crlf_crlf :: "byte list" where "crlf_crlf = [13, 10, 13, 10]"

definition on_buffer :: "buffer \<Rightarrow> (buffer \<times> 's bsock, unit) ws \<Rightarrow> ('s bsock, buffer) ws" where
  "on_buffer b m k =
     (case m (b, k) of
        None \<Rightarrow> None
      | Some (r, (b', k')) \<Rightarrow> Some (res_try r (\<lambda>_. Ok b'), k'))"

text \<open>Everything before the empty line; the four bytes of the delimiter are read and discarded.\<close>

definition read_response_head :: "('s, 'g, 'z) env \<Rightarrow> buffer \<Rightarrow> timeout \<Rightarrow> ('s bsock, string) ws" where
  "read_response_head E b to =
     ws_try (on_buffer b (read_until (e_transport E) (e_alloc E) crlf_crlf to))
       (\<lambda>b. ws_try (read_span E crlf_crlf to) (\<lambda>_. ws_return (string_from_bytes (buffer_data b))))"

definition init_compression ::
  "('s, 'g, 'z) env \<Rightarrow> (handshake \<times> ('s, 'g, 'z) client, unit) ws" where
  "init_compression E s =
     (if is_compression_negotiated (fst s)
      then case hs_pmd (fst s) of
             None \<Rightarrow> Some (Abort, s)
           | Some d \<Rightarrow>
               (let (r, x) = pmd_ctx_init (e_zlib E) (e_alloc E) (pmd_ctx_new d)
                in Some (r, (fst s, (snd s)\<lparr>cl_pmd_ctx := Some x\<rparr>)))
      else Some (Ok (), s))"

definition client_handshake ::
  "('s, 'g, 'z) env \<Rightarrow> int \<Rightarrow> (handshake \<times> ('s, 'g, 'z) client, unit) ws" where
  "client_handshake E ms s =
     (if \<not> cl_closed (snd s) then Some (Err (WSError Logic_error (Client_msg Msg_already_open) not_set), s)
      else ws_try (on_snd (start_timeout E ms))
        (\<lambda>to s.
           let (req_str, hs) = get_request_message (e_endian E) (fst s)
           in ws_try (on_snd (on_sock (bs_write (e_transport E) (bytes_of_string req_str) to)))
                (\<lambda>_. ws_try (ws_result (buffer_create (e_alloc E) 1024 (1024 * 1024)))
                  (\<lambda>headers_buffer. ws_try (on_snd (on_sock (read_response_head E headers_buffer to)))
                    (\<lambda>header_str. ws_try (on_fst (ws_total (process_response header_str)))
                      (\<lambda>_. ws_try (init_compression E)
                        (\<lambda>_ s. Some (Ok (), (fst s, (snd s)\<lparr>cl_closed := False\<rparr>)))))))
                (hs, snd s)) s)"

definition wait_message :: "('s, 'g, 'z) env \<Rightarrow> int \<Rightarrow> (('s, 'g, 'z) client, bool) ws" where
  "wait_message E ms c =
     (if cl_closed c then Some (Err closed_error, c)
      else ws_try (start_timeout E ms) (\<lambda>to. on_sock (bs_wait_readable (e_transport E) to)) c)"

subsection \<open>Reading the head of the response returns\<close>

text \<open>A buffer that can take \<open>k\<close> more bytes.\<close>

definition has_room :: "nat \<Rightarrow> buffer \<Rightarrow> bool" where
  "has_room k b \<longleftrightarrow>
     buffer_inv b \<and> buf_capacity b \<le> buf_max_size b \<and> unat (buf_used b) + k \<le> unat (buf_max_size b)"

lemma has_room_append:
  assumes "\<forall>n. A n \<noteq> None" and "has_room k b" and "n \<le> k"
  shows "\<exists>off len b'. buffer_append_n A (word_of_nat n) b = (Ok (off, len), b')"
    and "length (buffer_data b) + n < 2 ^ 64" and "unat (word_of_nat n :: u64) = n"
proof -
  have "length (buffer_data b) + n \<le> unat (buf_max_size b)"
    using assms(2,3) by (simp add: has_room_def)
  also have "\<dots> < 2 ^ 64" using unsigned_less [where 'a = nat, of "buf_max_size b"] by simp
  finally show l: "length (buffer_data b) + n < 2 ^ 64" .
  then show n: "unat (word_of_nat n :: u64) = n" by (intro word_of_nat_64) linarith
  have "buf_used b + word_of_nat n \<le> buf_max_size b"
    using assms(2,3) l by (simp add: has_room_def word_le_nat_alt u64_add_no_wrap n)
  from append_n_live [OF assms(1) this]
  show "\<exists>off len b'. buffer_append_n A (word_of_nat n) b = (Ok (off, len), b')" .
qed

lemma drain_ring_live:
  assumes A: "\<forall>n. A n \<noteq> None" and b: "has_room (cb_size (bs_ring s)) b" and r: "cb_inv (bs_ring s)"
    and ne: "cb_size (bs_ring s) \<noteq> 0"
  shows "\<exists>b' s'. drain_ring A (b, s) = Some (Ok (), (b', s')) \<and> buf_capacity b' \<le> buf_max_size b' \<and>
    buf_max_size b' = buf_max_size b"
proof -
  let ?n = "cb_size (bs_ring s)"
  note room = has_room_append [OF A b order_refl]
  from room(1) obtain off len b1 where a: "buffer_append_n A (word_of_nat ?n) b = (Ok (off, len), b1)" by blast
  have inv: "buffer_inv b" "buf_capacity b \<le> buf_max_size b" using b by (simp_all add: has_room_def)
  have fits: "length (buffer_data b) + unat (word_of_nat ?n :: u64) < 2 ^ 64" using room(2,3) by simp
  have len: "len = ?n" using buf.append_ok [OF inv(1) fits a] room(3) by simp
  from cb_pop_not_full [OF r _ order_refl] ne obtain c where
    c: "cb_pop ?n (bs_ring s) = (Ok (cb_content (bs_ring s)), c)" by auto
  from buf.append_fill [OF inv(1) fits a, of "cb_content (bs_ring s)"] len obtain b2 where
    f: "buffer_fill off (cb_content (bs_ring s)) b1 = (Ok (), b2)" by auto
  have "drain_ring A (b, s) = Some (Ok (), (b2, s\<lparr>bs_ring := c\<rparr>))"
    using a c f by (simp add: drain_ring_def len ws_try_def on_fst_def on_snd_def on_ring_def on_part_def)
  with append_n_max [OF inv(2) a] buffer_fill_fields [OF f] show ?thesis by auto
qed

lemma search_live:
  assumes A: "\<forall>n. A n \<noteq> None" and b: "has_room 0 b"
    and r: "cb_inv (bs_ring s)" "cb_content (bs_ring s) = []" and delim: "delim \<noteq> []"
    and cap: "length (buffer_data b) \<le> cb_capacity (bs_ring s)"
  shows "\<exists>found st. read_until_search A delim off (b, s) = Some (Ok found, st) \<and> (\<not> found \<longrightarrow> st = (b, s))"
proof (cases "find_sub delim (drop (off - min off (length delim - 1)) (buffer_data b))")
  case None
  then show ?thesis
    by (intro exI [of _ False] exI [of _ "(b, s)"]) (simp add: read_until_search_def Let_def)
next
  case (Some j)
  let ?k = "off - min off (length delim - 1)" and ?d = "buffer_data b"
  define i where "i = ?k + j"
  have j: "j + length delim \<le> length (drop ?k ?d)" by (rule find_sub_fits [OF Some])
  then have i: "i < length ?d" using delim by (cases delim) (auto simp: i_def)
  have n: "unat (buf_used b) = length ?d" "length ?d \<le> unat (buf_max_size b)"
    using b by (simp_all add: has_room_def)
  have "length ?d < 2 ^ 64" using unsigned_less [where 'a = nat, of "buf_used b"] n by simp
  then have i64: "unat (word_of_nat i :: u64) = i" using i by (intro word_of_nat_64) linarith
  have "length (drop i ?d) \<le> cb_available (bs_ring s)" "drop i ?d \<noteq> []"
    using cap i r(2) length_content [of "bs_ring s"] by (simp_all add: cb_available_def)
  from cb_push_content [OF r(1) this(2,1)] obtain c where "cb_push (drop i ?d) (bs_ring s) = (Ok (), c)" by blast
  moreover from resize_live [OF A, of "word_of_nat i" b] obtain b' where
    "buffer_resize A (word_of_nat i) b = (Ok (), b')"
    using i n by (auto simp: word_le_nat_alt i64)
  ultimately show ?thesis
    using Some
    by (intro exI [of _ True])
      (simp add: read_until_search_def Let_def i_def ws_try_def on_snd_def on_fst_def on_ring_def on_part_def)
qed

context live_socket
begin

lemma read_until_loop_live:
  assumes A: "\<forall>n. A n \<noteq> None" and delim: "delim \<noteq> []"
  shows "bs_ready inv s \<Longrightarrow> cb_content (bs_ring s) = [] \<Longrightarrow> has_room (length (bs_stream pend s)) b \<Longrightarrow>
    length (buffer_data b) + length (bs_stream pend s) \<le> cb_capacity (bs_ring s) \<Longrightarrow>
    find_sub delim (buffer_data b) = None \<Longrightarrow> find_sub delim (buffer_data b @ bs_stream pend s) = Some i \<Longrightarrow>
    \<exists>st. read_until_loop T A delim to (length (buffer_data b)) (b, s) = Some (Ok (), st)"
proof (induction "length (bs_stream pend s)" arbitrary: s b rule: less_induct)
  case less
  let ?c = "cb_capacity (bs_ring s)" and ?off = "length (buffer_data b)"
  have inv: "bs_inv inv s" "buffer_inv b" using less.prems(1,3) by (simp_all add: bs_ready_def has_room_def)
  have c: "0 < ?c" using inv cb_capacity_pos by (auto simp: bs_inv_def)
  have "pend (bs_socket s) \<noteq> []"
    using less.prems(2,5,6) by (auto simp: bs_stream_def)
  with fill_live_pend [OF less.prems(1) c, of to] obtain k s1 where
    f: "fill_read_buffer T ?c to s = Some (Ok k, s1)" by blast
  from fill_outcome [OF inv(1) c _ f] have
    s1: "bs_inv inv s1" "bs_stream pend s1 = bs_stream pend s" "cb_capacity (bs_ring s1) = ?c"
      "0 < k" "k = min ?c (cb_size (bs_ring s1))" by auto
  have r1: "cb_inv (bs_ring s1)" "cb_size (bs_ring s1) \<noteq> 0" using s1 by (simp_all add: bs_inv_def)
  have le: "cb_size (bs_ring s1) \<le> length (bs_stream pend s)"
    unfolding s1(2) [symmetric] by (simp add: bs_stream_def)
  then have "has_room (cb_size (bs_ring s1)) b" using less.prems(3) by (simp add: has_room_def)
  from drain_ring_live [OF A this r1] obtain b2 s2 where
    d: "drain_ring A (b, s1) = Some (Ok (), (b2, s2))" "buf_capacity b2 \<le> buf_max_size b2"
      "buf_max_size b2 = buf_max_size b" by blast
  have small: "?off + length (bs_stream pend s) < 2 ^ 64"
    using has_room_append(2) [OF A less.prems(3) order_refl] .
  with le have "?off + cb_size (bs_ring s1) < 2 ^ 64" by simp
  from drain_ring_outcome [OF inv(2) r1 this d(1)] have
    d2: "buffer_inv b2" "buffer_data b2 = buffer_data b @ cb_content (bs_ring s1)" "cb_inv (bs_ring s2)"
      "cb_content (bs_ring s2) = []" "\<not> cb_full (bs_ring s2)" "cb_capacity (bs_ring s2) = ?c"
      "bs_socket s2 = bs_socket s1" using s1 by auto
  have u2: "unat (buf_used b2) = unat (buf_used b) + cb_size (bs_ring s1)"
    using length_buffer_data [OF d2(1)] d2(2) inv(2) by simp
  have "has_room 0 b2" using d d2(1) u2 le less.prems(3) by (simp add: has_room_def)
  moreover have "length (buffer_data b2) \<le> cb_capacity (bs_ring s2)" using d2 le less.prems(4) by simp
  ultimately obtain found st where
    r: "read_until_search A delim ?off (b2, s2) = Some (Ok found, st)" "\<not> found \<longrightarrow> st = (b2, s2)"
    using search_live [OF A _ d2(3,4) delim] by blast
  have step: "read_until_step T A delim to ?off (b, s) = Some (Ok found, st)"
    using f d(1) r(1) by (simp add: read_until_step_drain ws_try_def on_snd_def)
  show ?case
  proof (cases found)
    case True
    then show ?thesis
      by (subst read_until_loop.simps) (simp add: ws_try_simps(1) [of "read_until_step _ _ _ _ _", OF step])
  next
    case False
    with r have st: "st = (b2, s2)" and step': "read_until_step T A delim to ?off (b, s) = Some (Ok False, (b2, s2))"
      using step by auto
    from read_until_step_outcome [OF inv delim _ _ _ small step'] less.prems(5) obtain xs where
      xs: "xs \<noteq> []" "bs_stream pend s = xs @ bs_stream pend s2" "buffer_data b2 = buffer_data b @ xs"
        "find_sub delim (buffer_data b @ xs) = None" "bs_inv inv s2" by auto
    have "length (bs_stream pend s2) < length (bs_stream pend s)" using xs(1,2) by simp
    moreover have "bs_ready inv s2" using xs(5) d2(5) by (simp add: bs_ready_def)
    moreover have "has_room (length (bs_stream pend s2)) b2"
      using d d2(1) xs(2) length_buffer_data [OF d2(1)] xs(3) inv(2) less.prems(3) by (simp add: has_room_def)
    ultimately obtain st' where
      "read_until_loop T A delim to (length (buffer_data b2)) (b2, s2) = Some (Ok (), st')"
      using less.hyps [of s2 b2] less.prems(4,6) d2(4,6) xs by auto
    then show ?thesis
      using d2(1) by (subst read_until_loop.simps)
        (simp add: ws_try_simps(1) [of "read_until_step _ _ _ _ _", OF step'])
  qed
qed

lemma read_until_live:
  assumes A: "\<forall>n. A n \<noteq> None" and delim: "delim \<noteq> []"
    and s: "bs_ready inv s" "cb_content (bs_ring s) = []"
    and b: "has_room (length (bs_stream pend s)) b" "buffer_data b = []"
    and cap: "length (bs_stream pend s) \<le> cb_capacity (bs_ring s)"
    and i: "find_sub delim (bs_stream pend s) = Some i"
  shows "\<exists>b' s'. read_until T A delim to (b, s) = Some (Ok (), (b', s')) \<and> bs_inv inv s' \<and>
    buffer_data b' = take i (bs_stream pend s) \<and> bs_stream pend s' = drop i (bs_stream pend s) \<and>
    bs_sent sent s' = bs_sent sent s"
proof -
  have "find_sub delim (buffer_data b) = None" using b(2) delim by simp
  with read_until_loop_live [OF A delim s b(1), of i to] cap i b(2) obtain st where
    run: "read_until T A delim to (b, s) = Some (Ok (), st)" by (auto simp: read_until_def)
  obtain b' s' where st: "st = (b', s')" by fastforce
  have l: "length (buffer_data b) + length (bs_stream pend s) < 2 ^ 64"
    using has_room_append(2) [OF A b(1) order_refl] .
  have "bs_inv inv s" "buffer_inv b" using s(1) b(1) by (simp_all add: bs_ready_def has_room_def)
  from read_until_loop_outcome [OF this delim _ _ l, of 0 A to "Ok ()" b' s'] run st i b(2) delim
  show ?thesis by (auto simp: read_until_def)
qed

end

subsection \<open>The handshake\<close>

lemma create_live:
  assumes "\<forall>n. A n \<noteq> None" and "i \<le> m" and "0 < i"
  shows "\<exists>b. buffer_create A i m = Ok b \<and> buffer_data b = [] \<and> buffer_inv b \<and> buf_used b = 0 \<and>
    buf_capacity b \<le> buf_max_size b \<and> buf_max_size b = m"
proof -
  let ?b = "\<lparr>buf_max_size = m, buf_capacity = 0, buf_used = 0, buf_mem = None\<rparr>"
  have i0: "i > 0" using assms(3) .
  from internal_reserve_live [OF assms(1), of i ?b] assms(2) obtain b where
    b: "internal_reserve A i ?b = (Ok (), b)" by auto
  have "buffer_inv ?b" by (simp add: buffer_inv_def)
  from internal_reserve_Ok [OF this b] have
    o: "buffer_inv b" "buf_capacity b = i" "buf_max_size b = m" "buf_used b = 0" by (simp_all add: min_def)
  then have "buffer_data b = []" by (simp add: buffer_data_block)
  with o b assms(2) i0 show ?thesis by (simp add: buffer_create_def buffer_reserve_def)
qed

context live_socket
begin

lemma read_response_head_live:
  assumes E: "e_transport E = T" and A: "\<forall>n. e_alloc E n \<noteq> None"
    and s: "bs_ready inv s" "cb_content (bs_ring s) = []"
    and b: "has_room (length (bs_stream pend s)) b" "buffer_data b = []"
    and cap: "length (bs_stream pend s) < cb_capacity (bs_ring s)"
    and str: "bs_stream pend s = head @ crlf_crlf @ rest"
    and i: "find_sub crlf_crlf (bs_stream pend s) = Some (length head)"
  shows "\<exists>s'. read_response_head E b to s = Some (Ok (string_from_bytes head), s') \<and>
    bs_ready inv s' \<and> bs_stream pend s' = rest \<and> bs_sent sent s' = bs_sent sent s"
proof -
  have d: "crlf_crlf \<noteq> []" by (simp add: crlf_crlf_def)
  from read_until_live [OF A d s b _ i, of to] cap obtain b' s1 where
    r: "read_until T (e_alloc E) crlf_crlf to (b, s) = Some (Ok (), (b', s1))" "bs_inv inv s1"
      "buffer_data b' = head" "bs_stream pend s1 = crlf_crlf @ rest" "bs_sent sent s1 = bs_sent sent s"
    using str by auto
  have cap1: "cb_capacity (bs_ring s1) = cb_capacity (bs_ring s)"
  proof -
    have l: "length (buffer_data b) + length (bs_stream pend s) < 2 ^ 64"
      using has_room_append(2) [OF A b(1) order_refl] .
    have "bs_inv inv s" "buffer_inv b" using s(1) b(1) by (simp_all add: bs_ready_def has_room_def)
    from read_until_loop_outcome [OF this d _ _ l, of 0 "e_alloc E" to "Ok ()" b' s1] r(1) b(2) d
    show ?thesis by (auto simp: read_until_def)
  qed
  have "cb_size (bs_ring s1) \<le> length (bs_stream pend s1)" by (simp add: bs_stream_def)
  also have "\<dots> < cb_capacity (bs_ring s1)" using cap cap1 str r(4) by simp
  finally have "\<not> cb_full (bs_ring s1)" using cb_size_full [of "bs_ring s1"] r(2) by (auto simp: bs_inv_def)
  then have "bs_ready inv s1" using r(2) by (simp add: bs_ready_def)
  from read_span_live [OF E this, of crlf_crlf to] r(4) obtain s2 where
    s2: "read_span E crlf_crlf to s1 = Some (Ok crlf_crlf, s2)" "consumes crlf_crlf s1 s2" by auto
  have "on_buffer b (read_until T (e_alloc E) crlf_crlf to) s = Some (Ok b', s1)"
    using r(1) by (simp add: on_buffer_def)
  then have "read_response_head E b to s = Some (Ok (string_from_bytes head), s2)"
    using s2(1) r(3) E by (simp add: read_response_head_def ws_try_simps(1) [of "on_buffer _ _"]
        ws_try_simps(1) [of "read_span _ _ _"])
  with s2(2) r(4,5) show ?thesis by (auto simp: consumes_def)
qed

lemma client_handshake_live:
  assumes E: "e_transport E = T" and A: "\<forall>n. e_alloc E n \<noteq> None" and ms: "0 < ms"
    and c: "cl_ready inv c" "cl_closed c" "cb_content (bs_ring (cl_socket c)) = []"
    and cap: "length (cl_stream pend c) < min (cb_capacity (bs_ring (cl_socket c))) (2 ^ 20)"
    and str: "cl_stream pend c = bytes_of_string head @ crlf_crlf @ rest"
    and i: "find_sub crlf_crlf (cl_stream pend c) = Some (length head)"
    and req: "get_request_message (e_endian E) hs = (req, hs1)"
    and res: "process_response head hs1 = (r, hs2)"
  shows "\<exists>k. bs_ready inv k \<and> bs_stream pend k = rest \<and> bs_sent sent k = cl_sent sent c @ bytes_of_string req \<and>
    client_handshake E ms (hs, c) =
      ws_try (ws_result r) (\<lambda>_. ws_try (init_compression E)
        (\<lambda>_ s. Some (Ok (), (fst s, (snd s)\<lparr>cl_closed := False\<rparr>)))) (hs2, c\<lparr>cl_socket := k\<rparr>)"
proof -
  let ?crlf = "bytes_of_string head @ crlf_crlf @ rest"
  from start_timeout_ok [OF E c(1) ms] obtain to k0 where
    t: "start_timeout E ms c = Some (Ok to, c\<lparr>cl_socket := k0\<rparr>)" "consumes [] (cl_socket c) k0"
      "bs_ring k0 = bs_ring (cl_socket c)" by blast
  have k0: "bs_ready inv k0" "inv (bs_socket k0)" "bs_stream pend k0 = ?crlf" "bs_sent sent k0 = cl_sent sent c"
    using t(2) str by (simp_all add: consumes_def cl_stream_def cl_sent_def bs_ready_def bs_inv_def)
  from bs_write_live [OF k0(2), of "bytes_of_string req" to] obtain k1 where
    w: "bs_write T (bytes_of_string req) to k0 = Some (Ok (), k1)" "sends (bytes_of_string req) k0 k1" by blast
  have k1: "bs_ready inv k1" "bs_stream pend k1 = ?crlf" "bs_ring k1 = bs_ring (cl_socket c)"
      "bs_sent sent k1 = cl_sent sent c @ bytes_of_string req"
    using sends_ready [OF w(2) k0(1)] k0 t(3) w(2) by (simp_all add: sends_def)
  have l: "length (bs_stream pend k1) < 2 ^ 20" "length (bs_stream pend k1) < cb_capacity (bs_ring k1)"
    using cap k1(2,3) str by simp_all
  from create_live [OF A, of 1024 "1024 * 1024"] obtain b where
    b: "buffer_create (e_alloc E) 1024 (1024 * 1024) = Ok b" "buffer_data b = []" "buffer_inv b" "buf_used b = 0"
      "buf_capacity b \<le> buf_max_size b" "buf_max_size b = 1024 * 1024" by auto
  have room: "has_room (length (bs_stream pend k1)) b" using b(3-6) l(1) by (simp add: has_room_def)
  have empty: "cb_content (bs_ring k1) = []" using k1(3) c(3) by simp
  have i': "find_sub crlf_crlf (bs_stream pend k1) = Some (length (bytes_of_string head))"
    using i k1(2) str by simp
  from read_response_head_live [OF E A k1(1) empty room b(2) l(2) k1(2) i', of to] obtain k where
    h: "read_response_head E b to k1 = Some (Ok head, k)" "bs_ready inv k" "bs_stream pend k = rest"
      "bs_sent sent k = cl_sent sent c @ bytes_of_string req"
    using k1(4) by auto
  let ?C = "\<lambda>k. c\<lparr>cl_socket := k\<rparr>"
  have s: "on_snd (start_timeout E ms) (hs, c) = Some (Ok to, (hs, ?C k0))"
    "on_snd (on_sock (bs_write T (bytes_of_string req) to)) (hs1, ?C k0) = Some (Ok (), (hs1, ?C k1))"
    "on_snd (on_sock (read_response_head E b to)) (hs1, ?C k1) = Some (Ok head, (hs1, ?C k))"
    "on_fst (ws_total (process_response head)) (hs1, ?C k) = Some (r, (hs2, ?C k))"
    "ws_result (Ok b) (hs1, ?C k1) = Some (Ok b, (hs1, ?C k1))"
    using t(1) w(1) h(1) res by (simp_all add: on_snd_Some on_sock_Some on_fst_Some)
  have p: "ws_try (on_fst (ws_total (process_response head))) K (hs1, ?C k) = ws_try (ws_result r) K (hs2, ?C k)"
    for K :: "unit \<Rightarrow> (handshake \<times> ('a, 'b, 'c) client, unit) ws"
    using s(4) by (simp add: ws_try_def)
  have "client_handshake E ms (hs, c) = ws_try (ws_result r) (\<lambda>_. ws_try (init_compression E)
      (\<lambda>_ s. Some (Ok (), (fst s, (snd s)\<lparr>cl_closed := False\<rparr>)))) (hs2, ?C k)"
    unfolding client_handshake_def using c(2)
    by (simp only: snd_conv fst_conv not_True_eq_False if_False ws_try_simps(1) [of "on_snd _", OF s(1)] Let_def req prod.case E
        ws_try_simps(1) [of "on_snd _", OF s(2)] b(1) ws_try_simps(1) [of "ws_result _", OF s(5)]
        ws_try_simps(1) [of "on_snd _", OF s(3)] p)
  with h(2-4) show ?thesis by blast
qed

end

text \<open>Compression was not negotiated, or its set-up succeeds.\<close>

definition compression_ready :: "('s, 'g, 'z) env \<Rightarrow> handshake \<Rightarrow> bool" where
  "compression_ready E hs \<longleftrightarrow>
     (is_compression_negotiated hs \<longrightarrow>
       (\<exists>d x. hs_pmd hs = Some d \<and> pmd_ctx_init (e_zlib E) (e_alloc E) (pmd_ctx_new d) = (Ok (), x)))"

lemma init_compression_outcome:
  "\<exists>res x. init_compression E (hs, c) = Some (res, (hs, c\<lparr>cl_pmd_ctx := x\<rparr>)) \<and>
     (res = Ok () \<longleftrightarrow> compression_ready E hs)"
proof (cases "is_compression_negotiated hs")
  case False
  then show ?thesis
    by (intro exI [of _ "Ok ()"] exI [of _ "cl_pmd_ctx c"]) (simp add: init_compression_def compression_ready_def)
next
  case neg: True
  show ?thesis
  proof (cases "hs_pmd hs")
    case None
    with neg show ?thesis
      by (intro exI [of _ Abort] exI [of _ "cl_pmd_ctx c"]) (simp add: init_compression_def compression_ready_def)
  next
    case (Some d)
    obtain r x where "pmd_ctx_init (e_zlib E) (e_alloc E) (pmd_ctx_new d) = (r, x)" by fastforce
    with neg Some show ?thesis by (simp add: init_compression_def compression_ready_def) blast
  qed
qed

definition demo_handshake :: handshake where
  "demo_handshake =
     handshake_new \<lparr>url_protocol = ''ws'', url_host = ''h'', url_port = 80, url_resource = ''/''\<rparr> 1"

text \<open>
  C3: The opening handshake on a live connection: the client sends exactly the request message, takes
  exactly the response up to and including the empty line, and hands its head to the checks of the
  handshake. It is open exactly when they accept the head (and compression, if negotiated, can be set
  up), and then the call succeeded; the bytes behind the empty line, the first frames of a fast server,
  are the stream of the connection. When the checks refuse the head, their error is returned. (The whole
  available response has to fit the ring of 4096 bytes, into which the rest is pushed back.)
\<close>

theorem client_handshake_outcome:
  assumes "live_socket (e_transport E) I pend sent" and "\<forall>n. e_alloc E n \<noteq> None" and "0 < ms"
    and "cl_ready I c" and "is_closed c" and "cb_content (bs_ring (cl_socket c)) = []"
    and "length (cl_stream pend c) < min (cb_capacity (bs_ring (cl_socket c))) (2 ^ 20)"
    and "cl_stream pend c = bytes_of_string head @ crlf_crlf @ rest"
    and "find_sub crlf_crlf (cl_stream pend c) = Some (length head)"
    and "get_request_message (e_endian E) hs = (req, hs1)" and "process_response head hs1 = (r, hs2)"
  shows "\<exists>res c'. client_handshake E ms (hs, c) = Some (res, (hs2, c')) \<and>
    cl_sent sent c' = cl_sent sent c @ bytes_of_string req \<and> cl_stream pend c' = rest \<and> cl_ready I c' \<and>
    (is_open c' \<longleftrightarrow> r = Ok () \<and> compression_ready E hs2) \<and> (is_open c' \<longleftrightarrow> res = Ok ()) \<and>
    (\<forall>e. r = Err e \<longrightarrow> res = Err e)"
proof -
  from live_socket.client_handshake_live [OF assms(1) refl assms(2-4) assms(5) [unfolded is_closed_def] assms(6-11)]
  obtain k where k: "bs_ready I k" "bs_stream pend k = rest" "bs_sent sent k = cl_sent sent c @ bytes_of_string req"
    "client_handshake E ms (hs, c) = ws_try (ws_result r) (\<lambda>_. ws_try (init_compression E)
        (\<lambda>_ s. Some (Ok (), (fst s, (snd s)\<lparr>cl_closed := False\<rparr>)))) (hs2, c\<lparr>cl_socket := k\<rparr>)" by blast
  have cl: "cl_closed c" using assms(5) by (simp add: is_closed_def)
  show ?thesis
  proof (cases r)
    case (Ok u)
    from init_compression_outcome [of E hs2 "c\<lparr>cl_socket := k\<rparr>"] obtain res x where
      i: "init_compression E (hs2, c\<lparr>cl_socket := k\<rparr>) = Some (res, (hs2, c\<lparr>cl_socket := k, cl_pmd_ctx := x\<rparr>))"
        "res = Ok () \<longleftrightarrow> compression_ready E hs2" by auto
    with Ok k cl show ?thesis
      by (cases res) (simp_all add: ws_try_def cl_defs cl_sent_def is_open_def)
  next
    case (Err e)
    with k cl show ?thesis by (simp add: ws_try_def cl_defs cl_sent_def is_open_def)
  next
    case Abort
    with k cl show ?thesis by (simp add: ws_try_def cl_defs cl_sent_def is_open_def)
  qed
qed

theorem client_handshake_outcome_witness:
  "\<exists>c r c' msg. client_handshake script_env 5000 (demo_handshake, c) = Some (r, c') \<and>
     cl_stream sc_in c = bytes_of_string (''HTTP/1.1 404 Not Found'') @ crlf_crlf @ [0x81, 0] \<and>
     r = Err (http_protocol_error (Msg_http_status 404 msg)) \<and> cl_stream sc_in (snd c') = [0x81, 0]"
proof -
  let ?head = "''HTTP/1.1 404 Not Found''" and ?I = "\<lambda>_ :: script. True"
  let ?k = "\<lparr>sc_in = bytes_of_string ?head @ crlf_crlf @ [0x81, 0], sc_out = [], sc_chunks = [5, 1], sc_closed = False\<rparr>"
  obtain c where c: "cl_ready ?I (c :: (script, mask_key, token_state) client)" "cl_stream sc_in c = sc_in ?k" "is_closed c"
      "cb_content (bs_ring (cl_socket c)) = []" "cb_capacity (bs_ring (cl_socket c)) = 4096"
    using script_client [of ?k] by blast
  have live: "live_socket (e_transport script_env) ?I sc_in sc_out" by (simp add: script.live_socket_axioms)
  have alloc: "\<forall>n. e_alloc script_env n \<noteq> None" and ms: "(0 :: int) < 5000" by simp_all
  have len: "length (cl_stream sc_in c) < min (cb_capacity (bs_ring (cl_socket c))) (2 ^ 20)"
    using c by (simp add: crlf_crlf_def)
  have str: "cl_stream sc_in c = bytes_of_string ?head @ crlf_crlf @ [0x81, 0]" using c by simp
  have "find_sub crlf_crlf (bytes_of_string ?head @ crlf_crlf @ [0x81, 0]) = Some (length ?head)" by code_simp
  then have find: "find_sub crlf_crlf (cl_stream sc_in c) = Some (length ?head)" using str by simp
  obtain req hs1 where req: "get_request_message (e_endian script_env) demo_handshake = (req, hs1)" by fastforce
  have "case parse_request_status_line ?head of
      (r, s) \<Rightarrow> (case r of Ok l \<Rightarrow> status_code l = 404 | Err e \<Rightarrow> False | Abort \<Rightarrow> False)"
    by code_simp
  then obtain l st where "parse_request_status_line ?head = (Ok l, st)" "status_code l = 404"
    by (auto split: prod.splits ws_result.splits)
  then have res: "process_response ?head hs1 = (Err (http_protocol_error (Msg_http_status 404 (reason l))), hs1)"
    by (simp add: process_response_def)
  from client_handshake_outcome [OF live alloc ms c(1,3,4) len str find req res] str show ?thesis by fastforce
qed

subsection \<open>A closed client\<close>

text \<open>
  C32: As long as the connection is not open, reading, sending, pinging back and waiting all fail with
  \<open>connection_closed\<close> and touch neither the socket nor the caller's memory nor any state, \<open>close\<close>
  succeeds without doing anything, and an open client refuses a second handshake.
\<close>

theorem closed_client_refuses:
  "if is_closed c
   then read_message E ms (b, c) = Some (Err closed_error, (b, c)) \<and>
     send_message E t ptr opts (d, c) = Some (Err closed_error, (d, c)) \<and>
     send_pong_frame E ptr ms (d, c) = Some (Err closed_error, (d, c)) \<and>
     wait_message E ms c = Some (Err closed_error, c) \<and>
     client_close E code ms c = Some (Ok (), c) \<and> err_code closed_error = Connection_closed
   else is_open c \<and> (\<exists>e. client_handshake E ms (hs, c) = Some (Err e, (hs, c)) \<and> err_code e = Logic_error)"
  by (simp add: is_closed_def is_open_def read_message_def send_message_def send_pong_frame_def
      wait_message_def client_close_def client_handshake_def closed_error_def)

end
