(* ===== verification/Client_Safety.thy ===== *)
theory Client_Safety
  imports Client
begin

section \<open>The client never goes wrong\<close>

text \<open>
  \<open>Abort\<close> is what the model makes of a failed assertion and of an access outside a buffer. Here: the
  operations of an open client never get there, whatever the peer sends and whenever it stops, and
  they leave a client of the same type. The state of a client is well-typed when the ring buffer and
  the buffers of the compression context are, and the write buffer has its 128 bytes.
\<close>

subsection \<open>Triples\<close>

text \<open>If the step returns, then not with \<open>Abort\<close>; \<open>Q\<close> holds after a value and \<open>R\<close> after an error.\<close>

definition triple :: "('s \<Rightarrow> bool) \<Rightarrow> ('s, 'r) ws \<Rightarrow> ('r \<Rightarrow> 's \<Rightarrow> bool) \<Rightarrow> ('s \<Rightarrow> bool) \<Rightarrow> bool" where
  "triple P m Q R \<longleftrightarrow> (\<forall>s r s'. P s \<longrightarrow> m s = Some (r, s') \<longrightarrow>
     (case r of Ok v \<Rightarrow> Q v s' | Err e \<Rightarrow> R s' | Abort \<Rightarrow> False))"

lemma tripleI:
  "(\<And>s r s'. P s \<Longrightarrow> m s = Some (r, s') \<Longrightarrow> case r of Ok v \<Rightarrow> Q v s' | Err e \<Rightarrow> R s' | Abort \<Rightarrow> False) \<Longrightarrow>
     triple P m Q R"
  unfolding triple_def by blast

lemma tripleD:
  "triple P m Q R \<Longrightarrow> P s \<Longrightarrow> m s = Some (r, s') \<Longrightarrow>
     case r of Ok v \<Rightarrow> Q v s' | Err e \<Rightarrow> R s' | Abort \<Rightarrow> False"
  unfolding triple_def by blast

lemma triple_try:
  assumes "triple P m Q' R" and "\<And>v. triple (Q' v) (f v) Q R"
  shows "triple P (ws_try m f) Q R"
proof (rule tripleI)
  fix s r s'' assume p: "P s" and run: "ws_try m f s = Some (r, s'')"
  from run show "case r of Ok v \<Rightarrow> Q v s'' | Err e \<Rightarrow> R s'' | Abort \<Rightarrow> False"
  proof (cases rule: ws_try_cases)
    case (ok v s')
    have "Q' v s'" using tripleD [OF assms(1) p ok(1)] by simp
    from tripleD [OF assms(2) this ok(2)] show ?thesis .
  next
    case (err e)
    then show ?thesis using tripleD [OF assms(1) p err(1)] by simp
  next
    case abort
    then show ?thesis using tripleD [OF assms(1) p abort(1)] by simp
  qed
qed

lemma triple_units:
  "(\<And>s. P s \<Longrightarrow> Q v s) \<Longrightarrow> triple P (ws_return v) Q R"
  "(\<And>s. P s \<Longrightarrow> R s) \<Longrightarrow> triple P (ws_fail e) Q R"
  "(\<And>s. P s \<Longrightarrow> Q v s) \<Longrightarrow> triple P (\<lambda>s. Some (Ok v, s)) Q R"
  "(\<And>s. P s \<Longrightarrow> R s) \<Longrightarrow> triple P (\<lambda>s. Some (Err e, s)) Q R"
  by (simp_all add: triple_def)

lemma triple_result:
  "x \<noteq> Abort \<Longrightarrow> (\<And>v s. P s \<Longrightarrow> Q v s) \<Longrightarrow> (\<And>s. P s \<Longrightarrow> R s) \<Longrightarrow> triple P (ws_result x) Q R"
  by (cases x) (auto simp: triple_def)

lemma triple_if: "(b \<Longrightarrow> triple P m Q R) \<Longrightarrow> (\<not> b \<Longrightarrow> triple P m' Q R) \<Longrightarrow> triple P (if b then m else m') Q R"
  "(b \<Longrightarrow> triple P m Q R) \<Longrightarrow> (\<not> b \<Longrightarrow> triple P m' Q R) \<Longrightarrow> triple P (\<lambda>s. if b then m s else m' s) Q R"
  by (cases b; simp)+

lemma triple_cond: "triple P m Q R \<Longrightarrow> triple P m' Q R \<Longrightarrow> triple P (\<lambda>s. if b s then m s else m' s) Q R"
  by (auto simp: triple_def)

lemma triple_cond_pre:
  "triple (\<lambda>s. P s \<and> b s) m Q R \<Longrightarrow> triple (\<lambda>s. P s \<and> \<not> b s) m' Q R \<Longrightarrow>
     triple P (\<lambda>s. if b s then m s else m' s) Q R"
  by (auto simp: triple_def)

lemma triple_weaken: "triple P m Q R \<Longrightarrow> (\<And>s. P' s \<Longrightarrow> P s) \<Longrightarrow> triple P' m Q R"
  unfolding triple_def by blast

lemma triple_post:
  "triple P m Q R \<Longrightarrow> (\<And>s. P' s \<Longrightarrow> P s) \<Longrightarrow> (\<And>v s. Q v s \<Longrightarrow> Q' v s) \<Longrightarrow> (\<And>s. R s \<Longrightarrow> R' s) \<Longrightarrow> triple P' m Q' R'"
  unfolding triple_def by (fastforce split: ws_result.splits)

text \<open>A step that looks at the state first, and may start the rest of the step on another one.\<close>

lemma triple_run:
  "(\<And>s. P s \<Longrightarrow> triple P' (m s) Q R) \<Longrightarrow> (\<And>s. P s \<Longrightarrow> P' (h s)) \<Longrightarrow> triple P (\<lambda>s. m s (h s)) Q R"
  unfolding triple_def by blast

lemma triple_snd:
  "triple P m Q R \<Longrightarrow>
     triple (\<lambda>s. B (fst s) \<and> P (snd s)) (on_snd m) (\<lambda>v s. B (fst s) \<and> Q v (snd s)) (\<lambda>s. B (fst s) \<and> R (snd s))"
  by (rule tripleI) (auto simp: on_snd_Some dest: tripleD split: ws_result.splits)

subsection \<open>Types\<close>

definition buf_typed :: "buffer \<Rightarrow> bool" where
  "buf_typed b \<longleftrightarrow> buffer_inv b \<and> buf_capacity b \<le> buf_max_size b \<and> unat (buf_max_size b) < 2 ^ 63"

definition pmd_typed :: "'z pmd_ctx \<Rightarrow> bool" where
  "pmd_typed x \<longleftrightarrow> pc_istate x \<noteq> None \<and> pc_ostate x \<noteq> None \<and>
     (\<exists>b. pc_decompress_buffer x = Some b \<and> buf_typed b) \<and> (\<exists>b. pc_compress_buffer x = Some b \<and> buf_typed b)"

definition client_typed :: "('s \<Rightarrow> bool) \<Rightarrow> ('s, 'g, 'z) client \<Rightarrow> bool" where
  "client_typed I c \<longleftrightarrow> cl_ready I c \<and> length (cl_write_buffer c) = 128 \<and>
     (\<forall>x. cl_pmd_ctx c = Some x \<longrightarrow> pmd_typed x)"

text \<open>A compressed message has begun only if compression was negotiated.\<close>

definition resumable :: "('s, 'g, 'z) client \<Rightarrow> bool" where
  "resumable c \<longleftrightarrow> (rs_is_compressed (cl_read_state c) \<longrightarrow> cl_pmd_ctx c \<noteq> None)"

text \<open>What zlib documents: it never writes more than \<open>avail_out\<close>.\<close>

definition zlib_fits :: "'z zlib \<Rightarrow> bool" where
  "zlib_fits Z \<longleftrightarrow>
     (\<forall>z inp n. length (fst (snd (snd (zl_inflate Z z inp n)))) \<le> n) \<and>
     (\<forall>flush z inp n. length (fst (snd (snd (zl_deflate Z flush z inp n)))) \<le> n)"

definition open_typed :: "('s \<Rightarrow> bool) \<Rightarrow> ('s, 'g, 'z) client \<Rightarrow> bool" where
  "open_typed I c \<longleftrightarrow> client_typed I c \<and> resumable c"

lemma client_typed_socket:
  "client_typed I c \<Longrightarrow> bs_ready I k \<Longrightarrow> client_typed I (c\<lparr>cl_socket := k\<rparr>)"
  "resumable (c\<lparr>cl_socket := k\<rparr>) = resumable c"
  by (simp_all add: client_typed_def cl_ready_def resumable_def)

subsection \<open>Buffers\<close>

lemma buf_typed_used: "buf_typed b \<Longrightarrow> unat (buf_used b) < 2 ^ 63"
  by (auto simp: buf_typed_def buffer_inv_def word_le_nat_alt)

lemma append_typed:
  assumes b: "buf_typed b" and n: "unat n \<le> 2 ^ 63" and run: "buffer_append_n A n b = (r, b')"
  shows "buf_typed b' \<and> (case r of
      Ok (off, len) \<Rightarrow> off = unat (buf_used b) \<and> len = unat n \<and> unat (buf_used b') = off + len
    | Err e \<Rightarrow> b' = b | Abort \<Rightarrow> False)"
proof (cases r)
  case (Ok sp)
  have inv: "buffer_inv b" and m: "buf_capacity b \<le> buf_max_size b" using b by (simp_all add: buf_typed_def)
  have "length (buffer_data b) + unat n < 2 ^ 64" using buf_typed_used [OF b] n inv by simp
  from buffer_append_n_Ok [OF inv this run [unfolded Ok]] append_n_max [OF m run [unfolded Ok]] inv b Ok
  show ?thesis by (auto simp: buf_typed_def)
next
  case (Err e)
  then show ?thesis using buffer_append_n_Err [of A n b e b'] run b by simp
next
  case Abort
  then show ?thesis using buffer_append_n_no_abort [of A n b] run by simp
qed

lemma fill_typed:
  assumes "buf_typed b" and "off + length xs \<le> unat (buf_used b)"
  shows "\<exists>b'. buffer_fill off xs b = (Ok (), b') \<and> buf_typed b' \<and> buf_used b' = buf_used b"
proof -
  from buffer_fill_Ok [of b off xs] assms obtain b' where
    b': "buffer_fill off xs b = (Ok (), b')" "buffer_inv b'" "buf_used b' = buf_used b"
    by (auto simp: buf_typed_def)
  with buffer_fill_fields [OF b'(1)] assms(1) show ?thesis by (auto simp: buf_typed_def)
qed

lemma discard_typed:
  assumes "buf_typed b" and "n \<le> buf_used b"
  shows "\<exists>b'. buffer_discard_end n b = (Ok (), b') \<and> buf_typed b'"
  using assms by (auto simp: buffer_discard_end_def buf_typed_def buffer_inv_def
      intro: order_trans [OF word_sub_le] split: option.splits)

lemma clear_typed: "buf_typed b \<Longrightarrow> buf_typed (buffer_clear b)"
  by (simp add: buf_typed_def) (simp add: buffer_clear_def)

lemma buffer_fill_typed: "buf_typed b \<Longrightarrow> buf_typed (snd (buffer_fill off xs b))"
  by (auto simp: buf_typed_def buffer_fill_def buffer_inv_def split: option.splits)

subsection \<open>The compression context\<close>

lemma zlib_round_typed:
  assumes fits: "\<forall>z inp n. length (fst (snd (snd (run z inp n)))) \<le> n" and g: "grow < 2 ^ 32"
  shows "triple (\<lambda>s. buf_typed (fst s)) (ws_total (zlib_round A desc run grow inp)) (\<lambda>_ s. buf_typed (fst s))
    (\<lambda>s. buf_typed (fst s))"
proof (rule tripleI)
  fix s r s' assume s: "buf_typed (fst s)" and "ws_total (zlib_round A desc run grow inp) s = Some (r, s')"
  then have go: "zlib_round A desc run grow inp s = (r, s')" by (simp add: ws_total_def)
  obtain r0 b1 where a: "buffer_append_n A (word_of_nat grow) (fst s) = (r0, b1)" by fastforce
  have gw: "unat (word_of_nat grow :: u64) = grow" using g by (intro word_of_nat_64) simp
  have b1: "buf_typed b1" and sp: "case r0 of Ok (off, len) \<Rightarrow> off = unat (buf_used (fst s)) \<and> len = grow \<and>
      unat (buf_used b1) = off + len | Err e \<Rightarrow> True | Abort \<Rightarrow> False"
    using append_typed [OF s _ a] gw g by (auto split: ws_result.splits)
  show "case r of Ok v \<Rightarrow> buf_typed (fst s') | Err e \<Rightarrow> buf_typed (fst s') | Abort \<Rightarrow> False"
  proof (cases r0)
    case (Ok p)
    then have p: "p = (unat (buf_used (fst s)), grow)" and u: "unat (buf_used b1) = unat (buf_used (fst s)) + grow"
      using sp by auto
    obtain ret used ys z where run: "run (snd s) inp grow = (ret, used, ys, z)" by (metis prod_cases4)
    have ys: "length ys \<le> grow" using fits [rule_format, of "snd s" inp grow] run by simp
    from fill_typed [OF b1, of "unat (buf_used (fst s))" ys] ys u obtain b2 where
      b2: "buffer_fill (unat (buf_used (fst s))) ys b1 = (Ok (), b2)" "buf_typed b2" "buf_used b2 = buf_used b1" by auto
    have "unat (word_of_nat (grow - length ys) :: u64) = grow - length ys" using g by (intro word_of_nat_64) simp
    then have "word_of_nat (grow - length ys) \<le> buf_used b2" using b2(3) u by (simp add: word_le_nat_alt)
    from discard_typed [OF b2(2) this] obtain b3 where
      "buffer_discard_end (word_of_nat (grow - length ys)) b2 = (Ok (), b3)" "buf_typed b3" by blast
    with go a Ok p run b2 show ?thesis by (auto simp: zlib_round_def split: if_splits)
  qed (use go a b1 sp in \<open>auto simp: zlib_round_def\<close>)
qed

lemma zlib_loop_typed:
  fixes run :: "'z \<Rightarrow> byte list \<Rightarrow> nat \<Rightarrow> int \<times> nat \<times> byte list \<times> 'z"
  assumes fits: "\<forall>z inp n. length (fst (snd (snd (run z inp n)))) \<le> n" and g: "\<forall>xs. grow xs < 2 ^ 32"
  shows "triple (\<lambda>s. buf_typed (fst s)) (zlib_loop A desc run grow inp sz) (\<lambda>_ s. buf_typed (fst s))
    (\<lambda>s. buf_typed (fst s))"
proof (rule tripleI)
  define G where "G r s \<longleftrightarrow> (case r of Ok (v :: nat) \<Rightarrow> buf_typed (fst s) | Err e \<Rightarrow> buf_typed (fst s) | Abort \<Rightarrow> False)"
    for r and s :: "buffer \<times> 'z"
  define P :: "allocator \<Rightarrow> string \<Rightarrow> ('z \<Rightarrow> byte list \<Rightarrow> nat \<Rightarrow> int \<times> nat \<times> byte list \<times> 'z) \<Rightarrow> (byte list \<Rightarrow> nat) \<Rightarrow>
      byte list \<Rightarrow> nat \<Rightarrow> buffer \<times> 'z \<Rightarrow> nat ws_result \<times> buffer \<times> 'z \<Rightarrow> bool"
    where "P A' d run' grow' inp sz s y \<longleftrightarrow> (run' = run \<and> grow' = grow \<and> buf_typed (fst s) \<longrightarrow> G (fst y) (snd y))"
    for A' d run' grow' inp sz s y
  fix s r s' assume s: "buf_typed (fst s)" and go: "zlib_loop A desc run grow inp sz s = Some (r, s')"
  from go have "P A desc run grow inp sz s (r, s')"
  proof (rule zlib_loop.raw_induct [where P = P, rotated])
    fix loop A' d run' grow' inp sz s y
    assume IH: "\<And>A' d run' grow' inp sz s y. loop A' d run' grow' inp sz s = Some y \<Longrightarrow> P A' d run' grow' inp sz s y"
      and go: "ws_try (ws_total (zlib_round A' d run' (grow' inp) inp))
        (\<lambda>(inp', avail_out, n) s.
          if avail_out = 0 then loop A' d run' grow' inp' (sz + n) s else Some (Ok (sz + n), s)) s = Some y"
    show "P A' d run' grow' inp sz s y"
      unfolding P_def
    proof (intro impI, elim conjE)
      assume p: "run' = run" "grow' = grow" and s: "buf_typed (fst s)"
      have loop: "triple (\<lambda>s. buf_typed (fst s)) (loop A' d run grow inp sz) (\<lambda>_ s. buf_typed (fst s)) (\<lambda>s. buf_typed (fst s))"
        for inp sz
      proof (rule tripleI)
        fix s r s' assume "buf_typed (fst s)" "loop A' d run grow inp sz s = Some (r, s')"
        then show "case r of Ok v \<Rightarrow> buf_typed (fst s') | Err e \<Rightarrow> buf_typed (fst s') | Abort \<Rightarrow> False"
          using IH [of A' d run grow inp sz s "(r, s')"] by (simp add: P_def G_def)
      qed
      have "triple (\<lambda>s. buf_typed (fst s)) (ws_try (ws_total (zlib_round A' d run (grow inp) inp))
        (\<lambda>(inp', avail_out, n) s.
          if avail_out = 0 then loop A' d run grow inp' (sz + n) s else Some (Ok (sz + n), s)))
          (\<lambda>_ s. buf_typed (fst s)) (\<lambda>s. buf_typed (fst s))"
        by (rule triple_try [OF zlib_round_typed [OF fits]])
          (use g loop in \<open>auto intro!: triple_if(2) triple_units split: prod.splits\<close>)
      from tripleD [OF this s, of "fst y" "snd y"] go [unfolded p] show "G (fst y) (snd y)" by (simp add: G_def)
    qed
  qed
  then show "case r of Ok v \<Rightarrow> buf_typed (fst s') | Err e \<Rightarrow> buf_typed (fst s') | Abort \<Rightarrow> False"
    using s by (simp add: P_def G_def)
qed

text \<open>\<open>decompress\<close> into a message buffer, and \<open>compress\<close>.\<close>

lemma inflate_grow_32: "inflate_grow m xs < 2 ^ 32"
  unfolding inflate_grow_def by (rule less_le_trans [OF unsigned_less]) simp

lemma deflate_grow_32: "deflate_grow xs < 2 ^ 32"
  unfolding deflate_grow_def by (rule less_le_trans [OF unsigned_less]) simp

lemma inflate_input_typed:
  assumes "zlib_fits Z"
  shows "triple (\<lambda>s. buf_typed (fst s)) (inflate_input Z A xs m sz) (\<lambda>_ s. buf_typed (fst s)) (\<lambda>s. buf_typed (fst s))"
  unfolding inflate_input_def
  using assms by (intro zlib_loop_typed) (simp_all only: zlib_fits_def inflate_grow_32 simp_thms)

abbreviation decompressing :: "buffer \<times> 'z pmd_ctx \<Rightarrow> bool" where
  "decompressing s \<equiv> buf_typed (fst s) \<and> pmd_typed (snd s)"

lemma on_inflate_typed:
  assumes "triple (\<lambda>s. buf_typed (fst s)) m (\<lambda>_ s. buf_typed (fst s)) (\<lambda>s. buf_typed (fst s))"
  shows "triple decompressing (on_inflate m) (\<lambda>_. decompressing) decompressing"
proof (rule tripleI)
  fix s r s' assume s: "decompressing s" and run: "on_inflate m s = Some (r, s')"
  then obtain z where z: "pc_istate (snd s) = Some z" by (auto simp: pmd_typed_def)
  with run obtain b z' where m: "m (fst s, z) = Some (r, (b, z'))" "s' = (b, (snd s)\<lparr>pc_istate := Some z'\<rparr>)"
    by (auto simp: on_inflate_def split: option.splits)
  from tripleD [OF assms _ m(1)] s
  have "case r of Ok v \<Rightarrow> buf_typed b | Err e \<Rightarrow> buf_typed b | Abort \<Rightarrow> False" by (simp cong: ws_result.case_cong)
  then show "case r of Ok v \<Rightarrow> decompressing s' | Err e \<Rightarrow> decompressing s' | Abort \<Rightarrow> False"
    using s m(2) by (auto simp: pmd_typed_def split: ws_result.splits)
qed

lemma inflate_reset_typed: "triple decompressing (ws_total (inflate_reset Z)) (\<lambda>_. decompressing) decompressing"
  by (rule tripleI)
    (auto simp: ws_total_def inflate_reset_def pmd_typed_def Let_def split: prod.splits if_splits option.splits)

lemma decompress_typed:
  assumes "zlib_fits Z"
  shows "triple decompressing (decompress Z A) (\<lambda>_. decompressing) decompressing"
proof (rule tripleI)
  fix s r s' assume s: "decompressing s" and run: "decompress Z A s = Some (r, s')"
  note inflate = on_inflate_typed [OF inflate_input_typed [OF assms]]
  have reset: "triple decompressing (\<lambda>s. if server_no_context_takeover (pc_def (snd s))
      then ws_try (ws_total (inflate_reset Z)) (\<lambda>_ s. Some (Ok sz, s)) s else Some (Ok sz, s))
      (\<lambda>_. decompressing) decompressing" for sz :: nat
    by (intro triple_cond triple_try [OF inflate_reset_typed] triple_units) simp_all
  from s obtain db where "pc_decompress_buffer (snd s) = Some db" by (auto simp: pmd_typed_def)
  with run show "case r of Ok v \<Rightarrow> decompressing s' | Err e \<Rightarrow> decompressing s' | Abort \<Rightarrow> False"
    using tripleD [OF triple_try [OF inflate triple_try [OF inflate reset]] s] by (simp add: decompress_def)
qed

lemma compress_typed:
  assumes "zlib_fits Z"
  shows "triple pmd_typed (compress Z A inp) (\<lambda>_. pmd_typed) pmd_typed"
proof (rule tripleI)
  fix c r c' assume c: "pmd_typed c" and run: "compress Z A inp c = Some (r, c')"
  then obtain b z where b: "pc_compress_buffer c = Some b" "pc_ostate c = Some z" "buf_typed b"
    by (auto simp: pmd_typed_def)
  have loop: "triple (\<lambda>s. buf_typed (fst s)) (deflate_loop Z A flush inp) (\<lambda>_ s. buf_typed (fst s)) (\<lambda>s. buf_typed (fst s))"
    for flush
    unfolding deflate_loop_def
    using assms by (intro zlib_loop_typed) (simp_all only: zlib_fits_def deflate_grow_32 simp_thms)
  from run b obtain x b1 z1 where d: "deflate_loop Z A (client_flush_mode (pc_def c)) inp (b, z) = Some (x, (b1, z1))"
    by (auto simp: compress_def split: option.splits)
  from tripleD [OF loop _ d] b(3) have "case x of Ok v \<Rightarrow> buf_typed b1 | Err e \<Rightarrow> buf_typed b1 | Abort \<Rightarrow> False"
    by (simp cong: ws_result.case_cong)
  then show "case r of Ok v \<Rightarrow> pmd_typed c' | Err e \<Rightarrow> pmd_typed c' | Abort \<Rightarrow> False"
    using run b d c by (auto simp: compress_def pmd_typed_def Let_def split: ws_result.splits prod.splits if_splits)
qed

subsection \<open>Receiving\<close>

context stream_socket
begin

text \<open>Steps that only use the socket.\<close>

lemma socket_typed:
  assumes "\<And>k r k'. bs_ready inv k \<Longrightarrow> m k = Some (r, k') \<Longrightarrow> r \<noteq> Abort \<and> bs_ready inv k'"
  shows "triple (open_typed inv) (on_sock m) (\<lambda>_. open_typed inv) (client_typed inv)"
proof (rule tripleI)
  fix c :: "('s, 'g, 'z) client" and r c' assume c: "open_typed inv c" and run: "on_sock m c = Some (r, c')"
  from run obtain k where k: "m (cl_socket c) = Some (r, k)" "c' = c\<lparr>cl_socket := k\<rparr>" by (auto simp: on_sock_Some)
  have "bs_ready inv (cl_socket c)" using c by (simp add: open_typed_def client_typed_def cl_ready_def)
  from assms [OF this k(1)] c k(2) client_typed_socket(1) [of inv c k] client_typed_socket(2) [of k c] show
    "case r of Ok v \<Rightarrow> open_typed inv c' | Err e \<Rightarrow> client_typed inv c' | Abort \<Rightarrow> False" by (auto simp: open_typed_def split: ws_result.splits)
qed

lemma read_span_ready:
  assumes E: "e_transport E = T" and k: "bs_ready inv k" and run: "read_span E dest to k = Some (r, k')"
  shows "r \<noteq> Abort \<and> bs_ready inv k'"
proof -
  from run obtain x d where x: "read_exact T to (dest, k) = Some (x, (d, k'))"
      "r = (case x of Ok _ \<Rightarrow> Ok d | Err e \<Rightarrow> Err e | Abort \<Rightarrow> Abort)"
    unfolding read_span_def E by (auto split: option.splits)
  from read_exact_outcome [OF k x(1)] x(2) show ?thesis by (auto simp: consumes_def split: ws_result.splits)
qed

lemma clock_typed:
  assumes E: "e_transport E = T"
  shows "0 < ms \<Longrightarrow> triple (open_typed inv) (start_timeout E ms) (\<lambda>_. open_typed inv) (client_typed inv)"
    and "triple (open_typed inv) (check_expired E to) (\<lambda>_. open_typed inv) (client_typed inv)"
proof -
  have now: "bs_ready inv (k\<lparr>bs_socket := s\<rparr>)" if "bs_ready inv k" "tr_now T (bs_socket k) = (t, s)" for k t s
    using that now_ok [of "bs_socket k" t s] by (simp add: bs_defs)
  show "triple (open_typed inv) (start_timeout E ms) (\<lambda>_. open_typed inv) (client_typed inv)" if "0 < ms"
    unfolding start_timeout_def using that
    by (intro socket_typed) (auto simp: on_socket_Some ws_total_def timeout_new_def timeout_at_def E now split: prod.splits)
  show "triple (open_typed inv) (check_expired E to) (\<lambda>_. open_typed inv) (client_typed inv)"
    unfolding check_expired_def
    by (intro socket_typed)
      (auto simp: on_socket_Some ws_total_def is_expired_def elapsed_def E now split: prod.splits)
qed

lemma read_span_typed:
  assumes E: "e_transport E = T"
  shows "triple (open_typed inv) (on_sock (read_span E dest to)) (\<lambda>_. open_typed inv) (client_typed inv)"
  by (rule socket_typed) (rule read_span_ready [OF E])

lemma open_units:
  "triple (open_typed inv) (ws_return v) (\<lambda>_. open_typed inv) (client_typed inv)"
  "triple (open_typed inv) (ws_fail e) (\<lambda>_. open_typed inv) (client_typed inv)"
  "x \<noteq> Abort \<Longrightarrow> triple (open_typed inv) (ws_result x) (\<lambda>_. open_typed inv) (client_typed inv)"
  by (cases x; auto simp: triple_def open_typed_def split: ws_result.splits)+

lemma read_frame_typed:
  assumes E: "e_transport E = T"
  shows "triple (open_typed inv) (read_frame E to) (\<lambda>_. open_typed inv) (client_typed inv)"
proof -
  note array = read_span_typed [OF E, where dest = "map (e_junk E) [0..<n]" for n, folded read_array_def]
  show ?thesis
    unfolding read_frame_def read_payload_size_def Let_def
    by (intro triple_try [OF array] triple_try [where Q' = "\<lambda>_. open_typed inv"] triple_if(1) open_units array)
qed

lemma control_payload_typed:
  assumes E: "e_transport E = T"
  shows "triple (open_typed inv) (read_control_payload E f to) (\<lambda>_. open_typed inv) (client_typed inv)"
  unfolding read_control_payload_def by (rule triple_try [OF read_span_typed [OF E] open_units(1)])

lemma check_close_total: "check_close_frame E f \<noteq> Abort"
  by (simp add: check_close_frame_def Let_def)

lemma handle_control_typed:
  assumes E: "e_transport E = T"
  shows "triple (open_typed inv) (handle_control_frame E f to) (\<lambda>_. open_typed inv) (client_typed inv)"
proof -
  note read = control_payload_typed [OF E]
  show ?thesis
    unfolding handle_control_frame_def Let_def
    by (cases "op_code (fr_header f)"; simp only: opcode.case)
      (intro triple_if(1) open_units triple_try [OF read] triple_try [OF open_units(3)] check_close_total)+
qed

subsection \<open>Data frames\<close>

abbreviation recv_ok :: "buffer \<times> ('s, 'g, 'z) client \<Rightarrow> bool" where
  "recv_ok s \<equiv> buf_typed (fst s) \<and> open_typed inv (snd s)"

abbreviation recv_err :: "buffer \<times> ('s, 'g, 'z) client \<Rightarrow> bool" where
  "recv_err s \<equiv> buf_typed (fst s) \<and> client_typed inv (snd s)"

lemmas recv_snd = triple_snd [where B = buf_typed and P = "open_typed inv" and Q = "\<lambda>_. open_typed inv"
  and R = "client_typed inv"]

lemma recv_units:
  "triple recv_ok (ws_return v) (\<lambda>_. recv_ok) recv_err"
  "triple recv_ok (ws_fail e) (\<lambda>_. recv_ok) recv_err"
  "triple recv_ok (\<lambda>s. ws_fail (f s) s) (\<lambda>_. recv_ok) recv_err"
  by (simp_all add: triple_def open_typed_def)

lemma begin_message_typed:
  "triple (open_typed inv) (begin_message h) (\<lambda>_. open_typed inv) (client_typed inv)"
  by (rule tripleI)
    (auto simp: begin_message_def on_decompress_buffer_def set_read_state_def open_typed_def client_typed_def
      cl_ready_def resumable_def pmd_typed_def Let_def ws_try_simps clear_typed split: if_splits)

lemma continue_message_typed:
  "triple (open_typed inv) (continue_message h) (\<lambda>_. open_typed inv) (client_typed inv)"
  unfolding continue_message_def by (intro triple_if(1) open_units)

lemma accept_typed:
  "triple recv_ok (accept_data_frame f) (\<lambda>_ s. recv_ok s \<and> unat (fr_payload_size f) \<le> 2 ^ 63) recv_err"
proof (rule tripleI)
  fix s :: "buffer \<times> ('s, 'g, 'z) client" and r s'
  assume s: "recv_ok s" and run: "accept_data_frame f s = Some (r, s')"
  define b where "b = (if rs_is_first (cl_read_state (snd s)) then buffer_clear (fst s) else fst s)"
  have b: "buf_typed b" using s by (simp add: b_def clear_typed)
  then have "unat (buf_max_size b - buf_used b) \<le> unat (buf_max_size b)"
    by (auto simp: buf_typed_def buffer_inv_def word_sub_le simp flip: word_le_nat_alt)
  then have room: "unat (fr_payload_size f) \<le> 2 ^ 63" if "\<not> buf_max_size b - buf_used b < fr_payload_size f"
    using that b by (auto simp: buf_typed_def word_less_nat_alt)
  have step: "triple recv_ok (ws_try (on_snd (if rs_is_first (cl_read_state (snd s)) then begin_message (fr_header f)
      else continue_message (fr_header f)))
    (\<lambda>_ s. let op = rs_op_code (cl_read_state (snd s))
       in if op \<noteq> Op_continuation \<and> op \<noteq> Op_text \<and> op \<noteq> Op_binary
          then ws_fail (client_error (Msg_unexpected_opcode (opcode_number op)) cc_protocol_error) s
          else ws_return () s)) (\<lambda>_. recv_ok) recv_err"
    unfolding Let_def
    by (intro triple_try [OF recv_snd] triple_if(1) begin_message_typed continue_message_typed triple_cond recv_units)
  show "case r of Ok v \<Rightarrow> recv_ok s' \<and> unat (fr_payload_size f) \<le> 2 ^ 63 | Err e \<Rightarrow> recv_err s' | Abort \<Rightarrow> False"
  proof (cases "buf_max_size b - buf_used b < fr_payload_size f")
    case True
    with run s b show ?thesis by (auto simp: accept_data_frame_def Let_def b_def open_typed_def split: if_splits)
  next
    case False
    with run have "ws_try (on_snd (if rs_is_first (cl_read_state (snd s)) then begin_message (fr_header f)
        else continue_message (fr_header f)))
      (\<lambda>_ s. let op = rs_op_code (cl_read_state (snd s))
         in if op \<noteq> Op_continuation \<and> op \<noteq> Op_text \<and> op \<noteq> Op_binary
            then ws_fail (client_error (Msg_unexpected_opcode (opcode_number op)) cc_protocol_error) s
            else ws_return () s) (b, snd s) = Some (r, s')"
      by (simp only: accept_data_frame_def Let_def b_def if_False)
    from tripleD [OF step _ this] s b room [OF False] show ?thesis by (simp split: ws_result.splits)
  qed
qed

lemma read_appended_typed:
  assumes E: "e_transport E = T" and n: "unat n \<le> 2 ^ 63"
    and b: "buf_typed b" and k: "bs_ready inv (cl_socket c)"
    and run: "read_appended E n to (b, c) = Some (r, (b', c'))"
  shows "r \<noteq> Abort \<and> buf_typed b' \<and> (\<exists>k. bs_ready inv k \<and> c' = c\<lparr>cl_socket := k\<rparr>)"
proof -
  obtain x b1 where app: "buffer_append_n (e_alloc E) n b = (x, b1)" by fastforce
  note a = append_typed [OF b n app]
  show ?thesis
  proof (cases x)
    case (Ok sp)
    then obtain off len where sp: "sp = (off, len)" and fit: "off + len \<le> unat (buf_used b1)" and b1: "buf_typed b1"
      using a by (cases sp) auto
    have "unat (buf_used b1) \<le> length (buf_block b1)"
      using b1 buffer_inv_block [of b1] by (auto simp: buf_typed_def buffer_inv_def word_le_nat_alt)
    with fit have blk: "off + len \<le> length (buf_block b1)" by simp
    from run app Ok sp blk obtain y dest k' where
      rd: "read_exact T to (subspan off len (buf_block b1), cl_socket c) = Some (y, (dest, k'))"
      and res: "r = res_try y (\<lambda>_. fst (buffer_fill off dest b1))" "b' = snd (buffer_fill off dest b1)"
        "c' = c\<lparr>cl_socket := k'\<rparr>"
      by (auto simp: read_appended_def ws_try_def on_fst_def on_part_def ws_total_def E
          split: option.splits prod.splits if_splits)
    from read_exact_outcome [OF k rd] have o: "y \<noteq> Abort" "bs_ready inv k'" "length dest = length (subspan off len (buf_block b1))"
      by (auto simp: consumes_def split: ws_result.splits)
    then have "off + length dest \<le> unat (buf_used b1)" using fit blk by (simp add: subspan_def)
    from fill_typed [OF b1 this] res o show ?thesis by (cases y) auto
  next
    case (Err e)
    with run app a b k show ?thesis
      by (auto simp: read_appended_def ws_try_def on_fst_def on_part_def ws_total_def intro!: exI [of _ "cl_socket c"])
  qed (use a in simp)
qed

lemma read_payload_typed:
  fixes E :: "('s, 'g, 'z) env"
  assumes E: "e_transport E = T" and n: "unat n \<le> 2 ^ 63"
  shows "triple recv_ok (read_payload E n to) (\<lambda>_. recv_ok) recv_err"
proof (rule tripleI)
  fix s :: "buffer \<times> ('s, 'g, 'z) client" and r s'
  assume s: "recv_ok s" and run: "read_payload E n to s = Some (r, s')"
  obtain b c where bc: "s = (b, c)" by fastforce
  have k: "bs_ready inv (cl_socket c)" and res: "rs_is_compressed (cl_read_state c) \<Longrightarrow> cl_pmd_ctx c \<noteq> None"
    and pm: "\<And>x. cl_pmd_ctx c = Some x \<Longrightarrow> pmd_typed x"
    using s bc by (auto simp: open_typed_def client_typed_def cl_ready_def resumable_def)
  note app = read_appended_typed [OF E n _ k]
  show "case r of Ok v \<Rightarrow> recv_ok s' | Err e \<Rightarrow> recv_err s' | Abort \<Rightarrow> False"
  proof (cases "n > 0 \<and> rs_is_compressed (cl_read_state c)")
    case True
    with res pm obtain x b0 where x: "cl_pmd_ctx c = Some x" "pmd_typed x" "pc_decompress_buffer x = Some b0" "buf_typed b0"
      by (fastforce simp: pmd_typed_def)
    with run True bc obtain b1 c1 where "read_appended E n to (b0, c) = Some (r, (b1, c1))"
      "s' = (b, c1\<lparr>cl_pmd_ctx := Some (x\<lparr>pc_decompress_buffer := Some b1\<rparr>)\<rparr>)"
      by (auto simp: read_payload_def on_snd_Some on_decompress_buffer_def split: option.splits)
    with app [OF x(4) this(1)] s bc x show ?thesis
      by (auto simp: open_typed_def client_typed_def cl_ready_def resumable_def pmd_typed_def split: ws_result.splits)
  next
    case False
    then have "s' = s \<and> r = Ok () \<or> read_appended E n to (b, c) = Some (r, s')"
      using run bc by (auto simp: read_payload_def split: if_splits)
    then show ?thesis
    proof
      assume "read_appended E n to (b, c) = Some (r, s')"
      with app [of b to r "fst s'" "snd s'"] s bc show ?thesis
        by (auto simp: open_typed_def client_typed_socket(1,2) split: ws_result.splits)
    qed (use s in simp)
  qed
qed

subsection \<open>The message\<close>

lemma round_typed:
  assumes E: "e_transport E = T"
  shows "triple recv_ok (read_message_round E to) (\<lambda>_. recv_ok) recv_err"
proof -
  have payload: "triple (\<lambda>s. recv_ok s \<and> unat n \<le> 2 ^ 63) (ws_try (read_payload E n to) (\<lambda>_. ws_return v)) (\<lambda>_. recv_ok) recv_err"
    for n and v :: round_result
  proof (cases "unat n \<le> 2 ^ 63")
    case True
    from triple_try [OF read_payload_typed [OF E this] recv_units(1)] True show ?thesis by simp
  qed (simp add: triple_def)
  show ?thesis
    unfolding read_message_round_def Let_def
    by (intro triple_try [OF recv_snd [OF read_frame_typed [OF E]]] triple_if(1) recv_units payload
        triple_try [OF recv_snd [OF handle_control_typed [OF E]]] triple_try [OF accept_typed])
qed

lemma loop_typed:
  fixes E :: "('s, 'g, 'z) env"
  assumes E: "e_transport E = T"
  shows "triple recv_ok (read_message_loop E to) (\<lambda>_. recv_ok) recv_err"
proof (rule tripleI)
  define P :: "('s, 'g, 'z) env \<Rightarrow> timeout \<Rightarrow> buffer \<times> ('s, 'g, 'z) client \<Rightarrow>
      read_result option ws_result \<times> buffer \<times> ('s, 'g, 'z) client \<Rightarrow> bool"
    where "P E' to' s y \<longleftrightarrow> (E' = E \<and> recv_ok s \<longrightarrow>
      (case fst y of Ok v \<Rightarrow> recv_ok (snd y) | Err e \<Rightarrow> recv_err (snd y) | Abort \<Rightarrow> False))"
    for E' to' s y
  fix s :: "buffer \<times> ('s, 'g, 'z) client" and r s'
  assume s: "recv_ok s" and go: "read_message_loop E to s = Some (r, s')"
  from go have "P E to s (r, s')"
  proof (rule read_message_loop.raw_induct [where P = P, rotated])
    fix loop E' to' s y
    assume IH: "\<And>E' to' s y. loop E' to' s = Some y \<Longrightarrow> P E' to' s y"
      and go: "ws_try (on_snd (check_expired E' to'))
        (\<lambda>expired s. if expired then Some (Ok None, s)
          else ws_try (read_message_round E' to')
            (\<lambda>r s. case r of Got x \<Rightarrow> Some (Ok (Some x), s) | Last_frame \<Rightarrow> Some (Ok None, s)
               | More_frames \<Rightarrow> loop E' to' s) s) s = Some y"
    have loop: "triple recv_ok (loop E to') (\<lambda>_. recv_ok) recv_err"
    proof (rule tripleI)
      fix s r s' assume "recv_ok s" "loop E to' s = Some (r, s')"
      then show "case r of Ok v \<Rightarrow> recv_ok s' | Err e \<Rightarrow> recv_err s' | Abort \<Rightarrow> False"
        using IH [of E to' s "(r, s')"] by (simp add: P_def cong: ws_result.case_cong)
    qed
    have ret: "triple recv_ok (\<lambda>s. Some (Ok v, s)) (\<lambda>_. recv_ok) recv_err" for v :: "read_result option"
      by (rule triple_units(3))
    have next_frame: "triple recv_ok (\<lambda>s. case r of Got x \<Rightarrow> Some (Ok (Some x), s) | Last_frame \<Rightarrow> Some (Ok None, s)
         | More_frames \<Rightarrow> loop E to' s) (\<lambda>_. recv_ok) recv_err" for r
      by (cases r) (simp_all add: loop ret)
    have "triple recv_ok (ws_try (on_snd (check_expired E to'))
        (\<lambda>expired s. if expired then Some (Ok None, s)
          else ws_try (read_message_round E to')
            (\<lambda>r s. case r of Got x \<Rightarrow> Some (Ok (Some x), s) | Last_frame \<Rightarrow> Some (Ok None, s)
               | More_frames \<Rightarrow> loop E to' s) s)) (\<lambda>_. recv_ok) recv_err"
      by (intro triple_try [OF recv_snd [OF clock_typed(2) [OF E]]] triple_if(2) ret
          triple_try [OF round_typed [OF E] next_frame])
    from tripleD [OF this, of s "fst y" "snd y"] go show "P E' to' s y" by (auto simp: P_def)
  qed
  then show "case r of Ok v \<Rightarrow> recv_ok s' | Err e \<Rightarrow> recv_err s' | Abort \<Rightarrow> False"
    using s by (simp add: P_def cong: ws_result.case_cong)
qed

lemma decompress_message_typed:
  fixes E :: "('s, 'g, 'z) env"
  assumes Z: "zlib_fits (e_zlib E)"
  shows "triple (\<lambda>s. recv_ok s \<and> cl_pmd_ctx (snd s) \<noteq> None) (decompress_message E) (\<lambda>_. recv_ok) recv_err"
proof (rule tripleI)
  fix s :: "buffer \<times> ('s, 'g, 'z) client" and r s'
  assume s: "recv_ok s \<and> cl_pmd_ctx (snd s) \<noteq> None" and run: "decompress_message E s = Some (r, s')"
  then obtain x where x: "cl_pmd_ctx (snd s) = Some x" "decompressing (fst s, x)"
    by (auto simp: open_typed_def client_typed_def)
  with run obtain y b x' where d: "decompress (e_zlib E) (e_alloc E) (fst s, x) = Some (y, (b, x'))"
    "r = res_try y (\<lambda>_. Ok ())" "s' = (b, (snd s)\<lparr>cl_pmd_ctx := Some x'\<rparr>)"
    by (auto simp: decompress_message_def split: option.splits)
  from tripleD [OF decompress_typed [OF Z] x(2) d(1)] d(2,3) s
  show "case r of Ok v \<Rightarrow> recv_ok s' | Err e \<Rightarrow> recv_err s' | Abort \<Rightarrow> False"
    by (cases y) (auto simp: open_typed_def client_typed_def cl_ready_def resumable_def)
qed

lemma deliver_typed: "triple recv_ok (deliver t) (\<lambda>_. recv_ok) recv_err"
  by (auto simp: triple_def deliver_def set_read_state_def open_typed_def client_typed_def cl_ready_def
      resumable_def read_state_reset_def Let_def)

lemma finish_typed:
  fixes E :: "('s, 'g, 'z) env"
  assumes E: "e_transport E = T" and Z: "zlib_fits (e_zlib E)"
  shows "triple recv_ok (finish_message E to) (\<lambda>_. recv_ok) recv_err"
proof -
  have dec: "triple recv_ok (\<lambda>s. if rs_is_compressed (cl_read_state (snd s)) then decompress_message E s
      else ws_return () s) (\<lambda>_. recv_ok) recv_err"
    by (rule triple_cond_pre, rule triple_weaken [OF decompress_message_typed [OF Z]])
      (auto simp: triple_def open_typed_def resumable_def)
  have deliver: "triple recv_ok (\<lambda>s :: buffer \<times> ('s, 'g, 'z) client. let data = buffer_data (fst s); op = rs_op_code (cl_read_state (snd s))
       in case op of
            Op_text \<Rightarrow> (if \<not> is_valid_utf8 data (narrow_len (length data))
               then ws_fail (client_error Msg_invalid_utf8_text invalid_frame_payload_data) s
               else deliver Mt_text s)
          | Op_binary \<Rightarrow> deliver Mt_binary s
          | _ \<Rightarrow> ws_fail (client_error (Msg_unexpected_message_opcode (opcode_number op)) cc_protocol_error) s)
      (\<lambda>_. recv_ok) recv_err"
  proof (rule tripleI)
    fix s :: "buffer \<times> ('s, 'g, 'z) client" and r s'
    assume s: "recv_ok s" and run: "(let data = buffer_data (fst s); op = rs_op_code (cl_read_state (snd s))
       in case op of
            Op_text \<Rightarrow> (if \<not> is_valid_utf8 data (narrow_len (length data))
               then ws_fail (client_error Msg_invalid_utf8_text invalid_frame_payload_data) s
               else deliver Mt_text s)
          | Op_binary \<Rightarrow> deliver Mt_binary s
          | _ \<Rightarrow> ws_fail (client_error (Msg_unexpected_message_opcode (opcode_number op)) cc_protocol_error) s)
        = Some (r, s')"
    then consider (msg) t where "deliver t s = Some (r, s')" | (err) e where "ws_fail e s = Some (r, s')"
      by (cases "rs_op_code (cl_read_state (snd s))") (auto simp: Let_def split: if_splits)
    then show "case r of Ok v \<Rightarrow> recv_ok s' | Err e \<Rightarrow> recv_err s' | Abort \<Rightarrow> False"
    proof cases
      case msg
      from tripleD [OF deliver_typed s msg] show ?thesis .
    next
      case err
      from tripleD [OF recv_units(2) s err] show ?thesis .
    qed
  qed
  show ?thesis
    unfolding finish_message_def
    by (intro triple_try [OF recv_snd [OF clock_typed(2) [OF E]]] triple_if(1) recv_units triple_try [OF dec deliver])
qed

lemma read_message_typed:
  fixes E :: "('s, 'g, 'z) env"
  assumes E: "e_transport E = T" and Z: "zlib_fits (e_zlib E)" and ms: "0 < ms"
  shows "triple recv_ok (read_message E ms) (\<lambda>_. recv_ok) recv_err"
proof -
  have fin: "triple recv_ok (case r of Some x \<Rightarrow> ws_return x | None \<Rightarrow> finish_message E to) (\<lambda>_. recv_ok) recv_err"
    for r to
    by (cases r) (simp_all add: recv_units finish_typed [OF E Z])
  have closed: "triple recv_ok (\<lambda>s. Some (Err closed_error, s)) (\<lambda>_. recv_ok) recv_err"
    by (simp add: triple_def open_typed_def)
  show ?thesis
    unfolding read_message_def
    by (intro triple_cond closed triple_try [OF recv_snd [OF clock_typed(1) [OF E ms]]]
        triple_try [OF loop_typed [OF E] fin])
qed

subsection \<open>Sending\<close>

text \<open>Writing needs less of the client, and keeps all of it.\<close>

lemma bs_write_ready:
  assumes k: "bs_ready inv k" and run: "bs_write T data to k = Some (r, k')"
  shows "r \<noteq> Abort \<and> bs_ready inv k'"
proof -
  have "inv (bs_socket k)" using k by (simp add: bs_ready_def bs_inv_def)
  from bs_write_outcome [OF this run] k show ?thesis
    by (auto simp: sends_def bs_defs split: ws_result.splits)
qed

lemma write_socket_typed:
  assumes E: "e_transport E = T"
  shows "triple (open_typed inv) (on_sock (bs_write (e_transport E) data to)) (\<lambda>_. open_typed inv) (client_typed inv)"
  unfolding E by (rule socket_typed) (rule bs_write_ready)

lemma put_typed:
  "open_typed inv c \<Longrightarrow> p + length xs \<le> 128 \<Longrightarrow> open_typed inv (put p xs c)"
  by (simp add: open_typed_def client_typed_def cl_ready_def resumable_def put_def)

lemma put_client_typed:
  "client_typed inv c \<Longrightarrow> p + length xs \<le> 128 \<Longrightarrow> client_typed inv (put p xs c)"
  by (simp add: client_typed_def cl_ready_def put_def)

lemma put_header_typed:
  fixes E :: "('s, 'g, 'z) env"
  shows "triple (open_typed inv) (put_header E f) (\<lambda>_. open_typed inv) (client_typed inv)"
proof (rule tripleI)
  fix c :: "('s, 'g, 'z) client" and r c'
  assume c: "open_typed inv c" and run: "put_header E f c = Some (r, c')"
  define len where "len = (if fr_payload_size f > 125 \<and> fr_payload_size f \<le> 0xFFFF
     then mem_bytes (e_endian E) (host_to_network16 (e_endian E) (ucast (fr_payload_size f)))
     else if fr_payload_size f > 0xFFFF
     then mem_bytes (e_endian E) (host_to_network64 (e_endian E) (fr_payload_size f)) else [])"
  have "length len \<le> 8" by (simp add: len_def)
  with c have c1: "open_typed inv (put 2 len (put 1 [hdr_b1 (fr_header f)] (put 0 [hdr_b0 (fr_header f)] c)))"
    by (intro put_typed) simp_all
  with \<open>length len \<le> 8\<close> put_typed [OF c1, of "2 + length len" "key_bytes (e_endian E) (fr_mask_key f)"] run
  show "case r of Ok v \<Rightarrow> open_typed inv c' | Err e \<Rightarrow> client_typed inv c' | Abort \<Rightarrow> False"
    unfolding put_header_def Let_def len_def [symmetric] by (auto simp: open_typed_def split: if_splits)
qed

abbreviation send_ok :: "byte list \<times> ('s, 'g, 'z) client \<Rightarrow> bool" where
  "send_ok s \<equiv> open_typed inv (snd s)"

abbreviation send_err :: "byte list \<times> ('s, 'g, 'z) client \<Rightarrow> bool" where
  "send_err s \<equiv> client_typed inv (snd s)"

lemmas send_snd = triple_snd [where B = "\<lambda>_. True" and P = "open_typed inv" and Q = "\<lambda>_. open_typed inv"
  and R = "client_typed inv", simplified]

lemma write_frame_typed:
  fixes E :: "('s, 'g, 'z) env"
  assumes E: "e_transport E = T"
  shows "triple send_ok (write_frame E f ptr to) (\<lambda>_. send_ok) send_err"
proof -
  have wr: "triple send_ok (on_snd (on_sock (bs_write (e_transport E) data to))) (\<lambda>_. send_ok) send_err" for data
    by (rule send_snd [OF write_socket_typed [OF E]])
  have unit: "triple send_ok (ws_return ()) (\<lambda>_. send_ok) send_err" by (simp add: triple_def)
  have body: "triple send_ok (ws_try (on_snd (on_sock (bs_write (e_transport E) hdr to)))
      (\<lambda>_. if fr_payload_size f > 0 then on_snd (on_sock (bs_write (e_transport E) p to)) else ws_return ()))
      (\<lambda>_. send_ok) send_err" for hdr p
    by (intro triple_try [OF wr] triple_if(1) wr unit)
  have step: "triple send_ok (\<lambda>s. ws_try (on_snd (on_sock (bs_write (e_transport E) (hdr s) to)))
      (\<lambda>_. if fr_payload_size f > 0 then on_snd (on_sock (bs_write (e_transport E) (p s) to)) else ws_return ())
      (p s, snd s)) (\<lambda>_. send_ok) send_err" for hdr p
    by (rule triple_run [where h = "\<lambda>s. (p s, snd s)", OF body]) simp
  show ?thesis unfolding write_frame_def Let_def by (rule triple_try [OF send_snd [OF put_header_typed] step])
qed

lemma write_frame_length:
  assumes "write_frame E f ptr to (p, c) = Some (r, (m, c'))"
  shows "length m = length p"
  using assms
  by (auto simp: write_frame_def Let_def ws_try_def on_snd_def on_part_def
      split: option.splits prod.splits ws_result.splits if_splits)

lemma draw_typed: "triple (open_typed inv) (draw_mask_key E) (\<lambda>_. open_typed inv) (client_typed inv)"
  by (auto simp: triple_def draw_mask_key_def open_typed_def client_typed_def cl_ready_def resumable_def
      split: prod.splits)

lemma send_payload_typed:
  fixes E :: "('s, 'g, 'z) env"
  assumes E: "e_transport E = T" and ms: "0 < ms"
  shows "triple send_ok (send_payload E f ptr ms) (\<lambda>_. send_ok) send_err"
proof (rule tripleI)
  fix s :: "byte list \<times> ('s, 'g, 'z) client" and r s'
  assume s: "send_ok s" and run: "send_payload E f ptr ms s = Some (r, s')"
  show "case r of Ok v \<Rightarrow> send_ok s' | Err e \<Rightarrow> send_err s' | Abort \<Rightarrow> False"
    by (rule tripleD [OF triple_try [OF send_snd [OF clock_typed(1) [OF E ms]] write_frame_typed [OF E]] s
          run [unfolded send_payload_def Let_def]])
qed

lemma mask_compress_typed: "pmd_typed x \<Longrightarrow> pmd_typed (mask_compress_buffer masked x)"
  by (auto simp: pmd_typed_def mask_compress_buffer_def buffer_fill_typed)

lemma masked_client_typed:
  "client_typed inv c \<Longrightarrow> client_typed inv (c\<lparr>cl_pmd_ctx := map_option (mask_compress_buffer m) (cl_pmd_ctx c)\<rparr>)"
  "resumable (c\<lparr>cl_pmd_ctx := map_option (mask_compress_buffer m) (cl_pmd_ctx c)\<rparr>) = resumable c"
  by (cases "cl_pmd_ctx c"; simp add: client_typed_def cl_ready_def resumable_def mask_compress_typed)+

lemma send_compressed_typed:
  fixes E :: "('s, 'g, 'z) env"
  assumes E: "e_transport E = T" and Z: "zlib_fits (e_zlib E)" and ms: "0 < ms"
  shows "triple (\<lambda>c. open_typed inv c \<and> cl_pmd_ctx c \<noteq> None) (send_compressed E f data ms)
    (\<lambda>_. open_typed inv) (client_typed inv)"
proof (rule tripleI)
  fix c :: "('s, 'g, 'z) client" and r c'
  assume c: "open_typed inv c \<and> cl_pmd_ctx c \<noteq> None" and run: "send_compressed E f data ms c = Some (r, c')"
  then obtain x b where x: "cl_pmd_ctx c = Some x" "pc_compress_buffer x = Some b" and
    t: "pmd_typed (x\<lparr>pc_compress_buffer := Some (buffer_clear b)\<rparr>)"
    by (fastforce simp: open_typed_def client_typed_def pmd_typed_def clear_typed)
  from run x obtain y x1 where z: "compress (e_zlib E) (e_alloc E) data (x\<lparr>pc_compress_buffer := Some (buffer_clear b)\<rparr>) =
      Some (y, x1)" by (auto simp: send_compressed_def split: option.splits)
  from tripleD [OF compress_typed [OF Z] t z] have y: "y \<noteq> Abort" "pmd_typed x1" by (auto split: ws_result.splits)
  define c1 where "c1 = c\<lparr>cl_pmd_ctx := Some x1\<rparr>"
  have c1: "open_typed inv c1" using c y by (simp add: c1_def open_typed_def client_typed_def cl_ready_def resumable_def)
  show "case r of Ok v \<Rightarrow> open_typed inv c' | Err e \<Rightarrow> client_typed inv c' | Abort \<Rightarrow> False"
  proof (cases y)
    case (Ok pp)
    obtain ptr payload where pp: "pp = (ptr, payload)" by fastforce
    with run x z Ok obtain masked c2 where w: "send_payload E f ptr ms (payload, c1) = Some (r, (masked, c2))"
      "c' = c2\<lparr>cl_pmd_ctx := map_option (mask_compress_buffer masked) (cl_pmd_ctx c2)\<rparr>"
      by (auto simp: send_compressed_def c1_def split: option.splits)
    from tripleD [OF send_payload_typed [OF E ms] _ w(1)] c1 show ?thesis
      unfolding w(2) by (cases r) (simp_all add: open_typed_def masked_client_typed)
  next
    case (Err e)
    with run x z have "r = Err e \<and> c' = c1" by (simp add: send_compressed_def c1_def)
    with c1 show ?thesis by (simp add: open_typed_def)
  qed (use y in simp)
qed

lemma send_message_typed:
  fixes E :: "('s, 'g, 'z) env"
  assumes E: "e_transport E = T" and Z: "zlib_fits (e_zlib E)" and ms: "0 < opt_timeout options"
  shows "triple send_ok (send_message E t ptr options) (\<lambda>_. send_ok) send_err"
proof -
  have closed: "triple send_ok (\<lambda>s. Some (Err closed_error, s)) (\<lambda>_. send_ok) send_err"
    by (simp add: triple_def open_typed_def)
  have comp: "triple (\<lambda>s. send_ok s \<and> cl_pmd_ctx (snd s) \<noteq> None \<and> b)
      (\<lambda>s. on_snd (send_compressed E f (fst s) (opt_timeout options)) s) (\<lambda>_. send_ok) send_err" for f b
    by (rule triple_run [where h = "\<lambda>s. s" and P' = "\<lambda>s. True \<and> open_typed inv (snd s) \<and> cl_pmd_ctx (snd s) \<noteq> None"])
      (use triple_snd [where B = "\<lambda>_. True", OF send_compressed_typed [OF E Z ms]] in simp_all)
  show ?thesis
    unfolding send_message_def Let_def
    by (intro triple_cond closed triple_try [OF send_snd [OF draw_typed]] triple_cond_pre comp
        triple_weaken [OF send_payload_typed [OF E ms]]) simp
qed

lemma send_pong_typed:
  fixes E :: "('s, 'g, 'z) env"
  assumes E: "e_transport E = T" and ms: "0 < ms"
  shows "triple send_ok (send_pong_frame E ptr ms) (\<lambda>_. send_ok) send_err"
proof -
  have closed: "triple send_ok (\<lambda>s. Some (Err closed_error, s)) (\<lambda>_. send_ok) send_err"
    by (simp add: triple_def open_typed_def)
  have go: "triple send_ok (\<lambda>s. ws_try (on_snd (draw_mask_key E)) (\<lambda>key. ws_try (on_snd (start_timeout E ms))
      (\<lambda>to. write_frame E ((f s)\<lparr>fr_mask_key := key\<rparr>) ptr to)) s) (\<lambda>_. send_ok) send_err" for f
  proof (rule tripleI)
    fix s :: "byte list \<times> ('s, 'g, 'z) client" and r s'
    assume s: "send_ok s" and run: "ws_try (on_snd (draw_mask_key E)) (\<lambda>key. ws_try (on_snd (start_timeout E ms))
      (\<lambda>to. write_frame E ((f s)\<lparr>fr_mask_key := key\<rparr>) ptr to)) s = Some (r, s')"
    show "case r of Ok v \<Rightarrow> send_ok s' | Err e \<Rightarrow> send_err s' | Abort \<Rightarrow> False"
      by (rule tripleD [OF triple_try [OF send_snd [OF draw_typed]
            triple_try [OF send_snd [OF clock_typed(1) [OF E ms]] write_frame_typed [OF E]]] s run])
  qed
  show ?thesis unfolding send_pong_frame_def Let_def by (intro triple_cond closed go)
qed

subsection \<open>Closing\<close>

lemma send_close_typed:
  fixes E :: "('s, 'g, 'z) env"
  assumes E: "e_transport E = T"
  shows "triple (open_typed inv) (send_close_frame E code to) (\<lambda>_. open_typed inv) (client_typed inv)"
proof (rule tripleI)
  fix c :: "('s, 'g, 'z) client" and r c'
  assume c: "open_typed inv c" and run: "send_close_frame E code to c = Some (r, c')"
  obtain key c1 where key: "draw_mask_key E c = Some (Ok key, c1)" and c1: "open_typed inv c1"
    using c by (cases "e_mask_gen E (cl_mask_key_gen c)")
      (auto simp: draw_mask_key_def open_typed_def client_typed_def cl_ready_def resumable_def)
  define f where "f = (client_frame Op_close)\<lparr>fr_mask_key := key\<rparr>"
  define c2 where "c2 = put 125 (mem_bytes (e_endian E) (host_to_network16 (e_endian E) code)) c1"
  have c2: "open_typed inv c2" unfolding c2_def by (rule put_typed [OF c1]) simp
  note frame = tripleD [OF write_frame_typed [OF E]]
  show "case r of Ok v \<Rightarrow> open_typed inv c' | Err e \<Rightarrow> client_typed inv c' | Abort \<Rightarrow> False"
  proof (cases "code = not_set")
    case False
    with run key obtain masked c3 where w: "write_frame E (set_payload_size (word_of_nat 2) f) (cl_write_ptr c2 + 125) to
        (subspan 125 2 (cl_write_buffer c2), c2) = Some (r, (masked, c3))" "c' = put 125 masked c3"
      using c2 by (auto simp: send_close_frame_def ws_try_simps f_def c2_def Let_def subspan_def open_typed_def client_typed_def
          split: option.splits)
    have "length masked = 2" using write_frame_length [OF w(1)] c2
      by (simp add: subspan_def open_typed_def client_typed_def)
    with frame [OF _ w(1)] c2 w(2) show ?thesis
      by (cases r) (auto intro: put_typed put_client_typed)
  next
    case True
    with run key obtain masked where "write_frame E (set_payload_size 0 f) 0 to ([], c1) = Some (r, (masked, c'))"
      by (auto simp: send_close_frame_def ws_try_simps f_def Let_def split: option.splits)
    from frame [OF _ this] c1 show ?thesis by (cases r) simp_all
  qed
qed

lemma try_close_typed:
  fixes E :: "('s, 'g, 'z) env"
  assumes E: "e_transport E = T"
  shows "triple (open_typed inv) (try_close_frame E code to) (\<lambda>_. client_typed inv) (client_typed inv)"
proof (rule tripleI)
  fix c :: "('s, 'g, 'z) client" and r c'
  assume c: "open_typed inv c" and run: "try_close_frame E code to c = Some (r, c')"
  show "case r of Ok v \<Rightarrow> client_typed inv c' | Err e \<Rightarrow> client_typed inv c' | Abort \<Rightarrow> False"
  proof (cases "fails_connection code")
    case False
    with run obtain x where x: "send_close_frame E code to c = Some (x, c')"
      "r = (case x of Ok _ \<Rightarrow> Ok False | Err e \<Rightarrow> Ok True | Abort \<Rightarrow> Abort)"
      by (auto simp: try_close_frame_def split: option.splits ws_result.splits)
    from tripleD [OF send_close_typed [OF E] c x(1)] x(2) show ?thesis by (cases x) (auto simp: open_typed_def)
  qed (use run c in \<open>auto simp: try_close_frame_def open_typed_def\<close>)
qed

text \<open>After \<open>close\<close> the socket is gone, so nothing is said of it.\<close>

lemma client_close_typed:
  fixes E :: "('s, 'g, 'z) env"
  assumes E: "e_transport E = T" and ms: "0 < ms"
  shows "triple (open_typed inv) (client_close E code ms) (\<lambda>_ _. True) (\<lambda>_. True)"
proof -
  have shut: "triple (client_typed inv) (shutdown_socket E fail to) (\<lambda>_ c. inv (bs_socket (cl_socket c))) (\<lambda>_. True)"
    for fail to
    by (rule tripleI)
      (use shutdown_quiet in \<open>fastforce simp: shutdown_socket_def on_sock_Some on_socket_Some E client_typed_def
        cl_ready_def bs_defs split: option.splits\<close>)
  have gone: "triple (\<lambda>c. inv (bs_socket (cl_socket c))) (on_sock (on_socket (tr_close (e_transport E) fail)))
      (\<lambda>_ _. True) (\<lambda>_. True)" for fail
    by (rule tripleI) (auto simp: on_sock_Some on_socket_Some E dest: close_quiet split: ws_result.splits)
  have finish: "triple (client_typed inv)
      (\<lambda>c. ws_try (shutdown_socket E fail to) (\<lambda>_. on_sock (on_socket (tr_close (e_transport E) fail)))
        (c\<lparr>cl_closed := True\<rparr>)) (\<lambda>_ _. True) (\<lambda>_. True)" for fail to
    by (rule triple_run [where h = "\<lambda>c. c\<lparr>cl_closed := True\<rparr>", OF triple_try [OF shut gone]])
      (simp add: client_typed_def cl_ready_def)
  have closed: "triple (open_typed inv) (\<lambda>c. Some (Ok (), c)) (\<lambda>_ _. True) (\<lambda>_. True)" by (simp add: triple_def)
  have weak: "triple P m Q (client_typed inv) \<Longrightarrow> triple P m Q (\<lambda>_. True)"
    for P Q and m :: "(('s, 'g, 'z) client, 'r) ws"
    by (erule triple_post) simp_all
  show ?thesis
    unfolding client_close_def Let_def
    by (intro triple_cond closed triple_try [OF weak [OF clock_typed(1) [OF E ms]]]
        triple_try [OF weak [OF try_close_typed [OF E]]] finish)
qed

end

subsection \<open>Properties\<close>

text \<open>
  C5: Type safety of the client: whatever the peer sends, in whatever pieces, and however compression
  turns out, \<open>read_message\<close>, \<open>send_message\<close>, \<open>send_pong_frame\<close> and \<open>close\<close> on a well-typed client never
  fail an assertion, read an absent optional or leave a buffer's bounds (\<open>Abort\<close>); the first
  three leave a well-typed client, also after an error, and after a success one from which every
  operation can be called again. The caller's buffer stays well-typed.
\<close>

theorem client_type_safe:
  assumes "stream_socket (e_transport E) I pend sent" and "zlib_fits (e_zlib E)" and "0 < ms"
  shows "triple (\<lambda>s. buf_typed (fst s) \<and> open_typed I (snd s)) (read_message E ms)
      (\<lambda>_ s. buf_typed (fst s) \<and> open_typed I (snd s)) (\<lambda>s. buf_typed (fst s) \<and> client_typed I (snd s)) \<and>
    triple (\<lambda>s. open_typed I (snd s)) (send_message E t ptr (\<lparr>opt_compress = z, opt_timeout = ms\<rparr>))
      (\<lambda>_ s. open_typed I (snd s)) (\<lambda>s. client_typed I (snd s)) \<and>
    triple (\<lambda>s. open_typed I (snd s)) (send_pong_frame E ptr ms)
      (\<lambda>_ s. open_typed I (snd s)) (\<lambda>s. client_typed I (snd s)) \<and>
    triple (open_typed I) (client_close E code ms) (\<lambda>_ _. True) (\<lambda>_. True)"
  using stream_socket.read_message_typed [OF assms(1) refl assms(2,3)]
    stream_socket.send_message_typed [OF assms(1) refl assms(2), of "\<lparr>opt_compress = z, opt_timeout = ms\<rparr>" t ptr]
    stream_socket.send_pong_typed [OF assms(1) refl assms(3), of ptr]
    stream_socket.client_close_typed [OF assms(1) refl assms(3), of code] assms(3)
  by simp

lemma token_zlib_fits: "zlib_fits token_zlib"
  by (simp add: zlib_fits_def token_zlib_def Let_def)

text \<open>A fresh client with a ping in its socket.\<close>

theorem client_type_safe_witness:
  "\<exists>(c :: (script, mask_key, token_state) client) b.
     buf_typed b \<and> open_typed (\<lambda>_. True) c \<and> cl_stream sc_in c = [0x89, 0x01, 7] \<and>
     triple (\<lambda>s. buf_typed (fst s) \<and> open_typed (\<lambda>_. True) (snd s)) (read_message script_env 5000)
       (\<lambda>_ s. buf_typed (fst s) \<and> open_typed (\<lambda>_. True) (snd s)) (\<lambda>s. buf_typed (fst s) \<and> client_typed (\<lambda>_. True) (snd s)) \<and>
     triple (open_typed (\<lambda>_. True)) (client_close script_env normal_closure 5000) (\<lambda>_ _. True) (\<lambda>_. True)"
proof -
  let ?k = "\<lparr>sc_in = [0x89, 0x01, 7], sc_out = [], sc_chunks = [], sc_closed = False\<rparr>"
  let ?b = "\<lparr>buf_max_size = 1000, buf_capacity = 0, buf_used = 0, buf_mem = None\<rparr>"
  obtain c0 where c0: "cl_ready (\<lambda>_. True) (c0 :: (script, mask_key, token_state) client)" "cl_stream sc_in c0 = sc_in ?k"
      "cl_pmd_ctx c0 = None" "cl_read_state c0 = read_state_reset" "length (cl_write_buffer c0) = 128"
    using script_client [of ?k] by blast
  then have "open_typed (\<lambda>_. True) c0" "cl_stream sc_in c0 = [0x89, 0x01, 7]"
    by (simp_all add: open_typed_def client_typed_def resumable_def read_state_reset_def)
  moreover have "buf_typed ?b" using buf_empty_ok [of 1000] by (simp add: buf_typed_def buf_ok_def)
  ultimately show ?thesis
    using client_type_safe [of script_env "\<lambda>_. True" sc_in sc_out 5000] script.stream_socket_axioms
    by (intro exI [of _ c0] exI [of _ ?b]) (simp add: token_zlib_fits)
qed

end
