(* ===== verification/Send_Outcome.thy ===== *)
theory Send_Outcome
  imports Client_Send
begin

section \<open>What a send leaves on the wire, also when it fails\<close>

text \<open>
  \<open>Client_Send\<close> describes the senders on a socket that accepts every write. Here the socket may fail at
  any time, as its contract allows: then a prefix of the frame has been sent, and nothing else.
\<close>

definition sent_on ::
  "('s \<Rightarrow> bool) \<Rightarrow> ('s \<Rightarrow> byte list) \<Rightarrow> ('s \<Rightarrow> byte list) \<Rightarrow> byte list \<Rightarrow>
     ('s, 'g, 'z) client \<Rightarrow> ('s, 'g, 'z) client \<Rightarrow> bool" where
  "sent_on I pend sent xs c c' \<longleftrightarrow>
     cl_ready I c' \<and> cl_stream pend c' = cl_stream pend c \<and> cl_sent sent c' = cl_sent sent c @ xs \<and>
     cl_closed c' = cl_closed c \<and> cl_pmd_ctx c' = cl_pmd_ctx c \<and>
     length (cl_write_buffer c') = length (cl_write_buffer c)"

text \<open>All of \<open>w\<close> after a success, a prefix of it after an error.\<close>

definition sent_result ::
  "('s \<Rightarrow> bool) \<Rightarrow> ('s \<Rightarrow> byte list) \<Rightarrow> ('s \<Rightarrow> byte list) \<Rightarrow> byte list \<Rightarrow> unit ws_result \<Rightarrow>
     ('s, 'g, 'z) client \<Rightarrow> ('s, 'g, 'z) client \<Rightarrow> bool" where
  "sent_result I pend sent w r c c' \<longleftrightarrow>
     (case r of
        Ok u \<Rightarrow> sent_on I pend sent w c c'
      | Err e \<Rightarrow> (\<exists>k \<le> length w. sent_on I pend sent (take k w) c c')
      | Abort \<Rightarrow> False)"

lemma sent_on_trans: "sent_on I pend sent xs c c1 \<Longrightarrow> sent_on I pend sent ys c1 c2 \<Longrightarrow> sent_on I pend sent (xs @ ys) c c2"
  by (simp add: sent_on_def)

lemma sent_result_first:
  "sent_result I pend sent xs r c c' \<Longrightarrow> r = Err e \<Longrightarrow> sent_result I pend sent (xs @ ys) r c c'"
proof -
  assume a: "sent_result I pend sent xs r c c'" "r = Err e"
  then obtain k where k: "k \<le> length xs" "sent_on I pend sent (take k xs) c c'" by (auto simp: sent_result_def)
  with a(2) show ?thesis by (auto simp: sent_result_def intro!: exI [of _ k])
qed

lemma sent_result_then:
  assumes "sent_on I pend sent xs c c1" and "sent_result I pend sent ys r c1 c'"
  shows "sent_result I pend sent (xs @ ys) r c c'"
proof (cases r)
  case (Err e)
  with assms(2) obtain k where "k \<le> length ys" "sent_on I pend sent (take k ys) c1 c'" by (auto simp: sent_result_def)
  with sent_on_trans [OF assms(1) this(2)] Err show ?thesis
    by (auto simp: sent_result_def intro!: exI [of _ "length xs + k"])
qed (use assms sent_on_trans [OF assms(1)] in \<open>auto simp: sent_result_def\<close>)

lemma ws_try_returns:
  "m s \<noteq> None \<Longrightarrow> (\<And>v s'. m s = Some (Ok v, s') \<Longrightarrow> k v s' \<noteq> None) \<Longrightarrow> ws_try m k s \<noteq> None"
  by (auto simp: ws_try_def split: option.splits ws_result.splits)

context stream_socket
begin

lemma sent_on_socket: "sends xs (cl_socket c) k \<Longrightarrow> cl_ready inv c \<Longrightarrow> sent_on inv pend sent xs c (c\<lparr>cl_socket := k\<rparr>)"
  using sends_ready [of xs "cl_socket c" k] by (auto simp: sent_on_def cl_defs cl_sent_def sends_def)

lemma write_result:
  assumes E: "e_transport E = T" and c: "cl_ready inv c"
    and run: "on_snd (on_sock (bs_write (e_transport E) data to)) (p, c) = Some (r, (p', c'))"
  shows "p' = p \<and> sent_result inv pend sent data r c c'"
proof -
  from run obtain k where w: "bs_write T data to (cl_socket c) = Some (r, k)" "c' = c\<lparr>cl_socket := k\<rparr>" "p' = p"
    by (auto simp: on_snd_Some on_sock_Some E)
  have "inv (bs_socket (cl_socket c))" using c by (simp add: cl_defs bs_defs)
  from bs_write_outcome [OF this w(1)] sent_on_socket [OF _ c] w(2,3) show ?thesis
    by (cases r) (auto simp: sent_result_def)
qed

lemma start_timeout_quiet:
  assumes E: "e_transport E = T" and c: "cl_ready inv c" and ms: "0 < ms"
    and run: "on_snd (start_timeout E ms) (p, c) = Some (r, (p', c'))"
  shows "(\<exists>to. r = Ok to) \<and> p' = p \<and> sent_on inv pend sent [] c c'"
proof -
  obtain t s where t: "tr_now T (bs_socket (cl_socket c)) = (t, s)" by fastforce
  have "sends [] (cl_socket c) ((cl_socket c)\<lparr>bs_socket := s\<rparr>)"
    using now_ok [OF _ t] c by (simp add: sends_def cl_defs bs_defs bs_sent_def)
  from sent_on_socket [OF this c] t ms run show ?thesis
    by (auto simp: on_snd_Some start_timeout_def on_sock_Some on_socket_Some ws_total_def timeout_new_def timeout_at_def E)
qed

lemma draw_quiet:
  assumes c: "cl_ready inv c" and run: "on_snd (draw_mask_key E) (p, c) = Some (r, (p', c'))"
  shows "(\<exists>key. r = Ok key) \<and> p' = p \<and> sent_on inv pend sent [] c c'"
  using assms by (auto simp: on_snd_Some draw_mask_key_def sent_on_def cl_defs cl_sent_def split: prod.splits)

lemma write_frame_outcome:
  assumes E: "e_transport E = T" and c: "cl_ready inv c" and wb: "length (cl_write_buffer c) = 128"
    and f: "built_frame rsv1 op key (length data) f" and len: "length data < 2 ^ 64" and ptr: "masks_right ptr data"
    and run: "write_frame E f ptr to (data, c) = Some (r, (mem, c'))"
  shows "mem = rfc_mask (key_bytes (e_endian E) key) data \<and>
    sent_result inv pend sent (rfc_frame True rsv1 op (Some (key_bytes (e_endian E) key)) data) r c c'"
proof -
  define hdr where "hdr = header_bytes (e_endian E) f"
  define masked where "masked = rfc_mask (key_bytes (e_endian E) key) data"
  have key: "fr_mask_key f = key" and sz: "unat (fr_payload_size f) = length data"
    using f len by (simp_all add: built_frame_def word_of_nat_64)
  have m: "mask_fn (e_endian E) (e_build E) ptr (fr_mask_key f) data = masked"
    using masks_right_rfc [OF ptr] by (simp add: key masked_def)
  have l: "length hdr \<le> length (cl_write_buffer c)"
    using length_header_bytes [of "e_endian E" f] wb by (simp add: hdr_def)
  have sub: "subspan 0 (length hdr) (cl_write_buffer (put 0 hdr c)) = hdr"
    using l by (simp add: put_def subspan_def blit_def)
  have ph: "on_snd (put_header E f) (data, c) = Some (Ok (length hdr), (data, put 0 hdr c))"
    using put_header_masked [OF wb built_masked [OF f], of E] by (simp add: on_snd_Some hdr_def)
  have w: "ws_try (on_snd (on_sock (bs_write (e_transport E) hdr to)))
      (\<lambda>_. if fr_payload_size f > 0 then on_snd (on_sock (bs_write (e_transport E) masked to)) else ws_return ())
      (masked, put 0 hdr c) = Some (r, (mem, c'))"
    using run [unfolded write_frame_def]
    by (simp only: ws_try_simps(1) [of "on_snd (put_header E f)", OF ph] Let_def fst_conv snd_conv m sub)
  have c1: "cl_ready inv (put 0 hdr c)" using c by (simp add: cl_defs put_def)
  have s0: "sent_on inv pend sent [] c (put 0 hdr c)"
    using c l by (simp add: sent_on_def cl_defs cl_sent_def put_def)
  have w_eq: "rfc_frame True rsv1 op (Some (key_bytes (e_endian E) key)) data = hdr @ masked"
    using built_bytes [OF f] by (simp add: hdr_def masked_def)
  have "mem = masked \<and> sent_result inv pend sent (hdr @ masked) r (put 0 hdr c) c'"
    using w
  proof (cases rule: ws_try_cases)
    case (ok v s1)
    obtain p1 c2 where s1: "s1 = (p1, c2)" by fastforce
    from write_result [OF E c1 ok(1) [unfolded s1]] have
      p1: "p1 = masked" "sent_on inv pend sent hdr (put 0 hdr c) c2" by (simp_all add: sent_result_def)
    show ?thesis
    proof (cases "fr_payload_size f > 0")
      case True
      have "cl_ready inv c2" using p1(2) by (simp add: sent_on_def)
      from write_result [OF E this, of masked to p1] ok(2) s1 True p1 show ?thesis
        using sent_result_then [OF p1(2)] by auto
    next
      case False
      then have "masked = []" using sz by (simp add: masked_def rfc_mask_def word_less_nat_alt)
      with ok(2) s1 False p1 show ?thesis by (auto simp: sent_result_def)
    qed
  next
    case (err e)
    from write_result [OF E c1 err(1)] sent_result_first [OF _ refl] err(2) show ?thesis by blast
  next
    case abort
    from write_result [OF E c1 abort(1)] show ?thesis by (simp add: sent_result_def)
  qed
  then show ?thesis using sent_result_then [OF s0] by (simp add: w_eq masked_def)
qed

lemma send_payload_outcome:
  assumes E: "e_transport E = T" and c: "cl_ready inv c" and wb: "length (cl_write_buffer c) = 128"
    and f: "built_frame rsv1 op key (length data) (set_payload_size (word_of_nat (length data)) f)"
    and len: "length data < 2 ^ 64" and ptr: "masks_right ptr data" and ms: "0 < ms"
    and run: "send_payload E f ptr ms (data, c) = Some (r, (mem, c'))"
  shows "mem = rfc_mask (key_bytes (e_endian E) key) data \<and>
    sent_result inv pend sent (rfc_frame True rsv1 op (Some (key_bytes (e_endian E) key)) data) r c c'"
  using run [unfolded send_payload_def Let_def]
proof (cases rule: ws_try_cases)
  case (ok to s1)
  obtain p1 c1 where s1: "s1 = (p1, c1)" by fastforce
  from start_timeout_quiet [OF E c ms ok(1) [unfolded s1]] have q: "p1 = data" "sent_on inv pend sent [] c c1" by simp_all
  then have c1: "cl_ready inv c1" "length (cl_write_buffer c1) = 128" using wb by (simp_all add: sent_on_def)
  from ok(2) have "write_frame E (set_payload_size (word_of_nat (length data)) f) ptr to (data, c1) = Some (r, (mem, c'))"
    by (simp add: s1 q(1))
  from write_frame_outcome [OF E c1 f len ptr this] sent_result_then [OF q(2)] show ?thesis by auto
next
  case (err e)
  with start_timeout_quiet [OF E c ms err(1)] show ?thesis by simp
next
  case abort
  with start_timeout_quiet [OF E c ms abort(1)] show ?thesis by simp
qed

lemma send_message_outcome:
  assumes E: "e_transport E = T" and c: "cl_ready inv c" and wb: "length (cl_write_buffer c) = 128"
    and o: "\<not> cl_closed c" and plain: "cl_pmd_ctx c = None \<or> \<not> opt_compress opts"
    and len: "length data < 2 ^ 64" and ptr: "masks_right ptr data" and ms: "0 < opt_timeout opts"
    and run: "send_message E t ptr opts (data, c) = Some (r, (mem, c'))"
  shows "\<exists>kb. length kb = 4 \<and> mem = rfc_mask kb data \<and>
    sent_result inv pend sent (rfc_frame True False (message_opcode t) (Some kb) data) r c c'"
proof -
  have op: "message_opcode t \<noteq> Op_not_set" by (cases t) simp_all
  from run o have "ws_try (on_snd (draw_mask_key E)) (\<lambda>key s.
      let frame = (client_frame (message_opcode t))\<lparr>fr_mask_key := key\<rparr>
      in if cl_pmd_ctx (snd s) \<noteq> None \<and> opt_compress opts
         then on_snd (send_compressed E (set_is_compressed True frame) (fst s) (opt_timeout opts)) s
         else send_payload E frame ptr (opt_timeout opts) s) (data, c) = Some (r, (mem, c'))"
    by (simp only: send_message_def snd_conv if_False)
  then show ?thesis
  proof (cases rule: ws_try_cases)
    case (ok key s1)
    obtain p1 c1 where s1: "s1 = (p1, c1)" by fastforce
    from draw_quiet [OF c ok(1) [unfolded s1]] have q: "p1 = data" "sent_on inv pend sent [] c c1" by simp_all
    then have c1: "cl_ready inv c1" "length (cl_write_buffer c1) = 128" and pm: "cl_pmd_ctx c1 = cl_pmd_ctx c"
      using wb by (simp_all add: sent_on_def)
    have nc: "\<not> (cl_pmd_ctx c1 \<noteq> None \<and> opt_compress opts)" using plain pm by auto
    from ok(2) have "send_payload E ((client_frame (message_opcode t))\<lparr>fr_mask_key := key\<rparr>) ptr (opt_timeout opts)
        (data, c1) = Some (r, (mem, c'))"
      by (simp only: s1 q(1) Let_def snd_conv nc if_False)
    from send_payload_outcome [OF E c1 built_plain(1) [OF op] len ptr ms this] sent_result_then [OF q(2)]
    show ?thesis by (intro exI [of _ "key_bytes (e_endian E) key"]) auto
  next
    case (err e)
    with draw_quiet [OF c err(1)] show ?thesis by simp
  next
    case abort
    with draw_quiet [OF c abort(1)] show ?thesis by simp
  qed
qed

end

subsection \<open>A socket whose writes return\<close>

text \<open>
  Every \<open>write_some\<close> comes back, with some of the data sent or with an error. That is enough for a send
  to come back: each round of the loop in \<open>BufferedSocket::write\<close> shortens the rest.
\<close>

locale answering_socket = stream_socket +
  assumes write_answers: "inv s \<Longrightarrow> data \<noteq> [] \<Longrightarrow> tr_write_some T data to s \<noteq> None"
begin

lemma bs_write_loop_returns:
  "inv (bs_socket s) \<Longrightarrow> w + d = length data \<Longrightarrow> bs_write_loop T data to w d s \<noteq> None"
proof (induction d arbitrary: w s rule: less_induct)
  case (less d)
  show ?case
  proof (cases "d = 0")
    case True
    then show ?thesis by (subst bs_write_loop.simps) simp
  next
    case False
    then have ne: "drop w data \<noteq> []" using less.prems(2) by auto
    from write_answers [OF less.prems(1) ne, of to] obtain r a where
      a: "tr_write_some T (drop w data) to (bs_socket s) = Some (r, a)" by auto
    then have b: "bs_write_some T (drop w data) to s = Some (r, s\<lparr>bs_socket := a\<rparr>)"
      by (simp add: bs_write_some_def on_socket_Some)
    show ?thesis
    proof (cases r)
      case (Ok k)
      with write_ok [OF less.prems(1) ne, of to k a] a less.prems(2)
      have "d - k < d" "inv (bs_socket (s\<lparr>bs_socket := a\<rparr>))" "w + k + (d - k) = length data" by auto
      from less.IH [OF this] b Ok False show ?thesis
        by (subst bs_write_loop.simps) (simp add: ws_try_simps(1) [of "bs_write_some _ _ _"])
    qed (use b False in \<open>(subst bs_write_loop.simps, simp add: ws_try_simps(2,3) [of "bs_write_some _ _ _"])+\<close>)
  qed
qed

lemma write_returns:
  assumes E: "e_transport E = T" and c: "cl_ready inv c"
  shows "on_snd (on_sock (bs_write (e_transport E) data to)) (p, c) \<noteq> None"
proof -
  have "inv (bs_socket (cl_socket c))" using c by (simp add: cl_defs bs_defs)
  from bs_write_loop_returns [OF this, of 0 "length data" data to] show ?thesis
    by (auto simp: E bs_write_def on_snd_def on_sock_def on_part_def split: option.splits)
qed

lemma write_frame_returns:
  assumes E: "e_transport E = T" and c: "cl_ready inv c" and wb: "length (cl_write_buffer c) = 128"
    and m: "is_masked (fr_header f)"
  shows "write_frame E f ptr to (data, c) \<noteq> None"
proof -
  let ?c = "put 0 (header_bytes (e_endian E) f) c"
  have c1: "cl_ready inv ?c" using c by (simp add: cl_defs put_def)
  have "on_snd (put_header E f) (data, c) = Some (Ok (length (header_bytes (e_endian E) f)), (data, ?c))"
    using put_header_masked [OF wb m, of E] by (simp add: on_snd_Some)
  note put = ws_try_simps(1) [of "on_snd (put_header E f)", OF this]
  have again: "on_snd (on_sock (bs_write (e_transport E) xs to)) s' \<noteq> None"
    if "on_snd (on_sock (bs_write (e_transport E) ys to)) (p, ?c) = Some (Ok (), s')" for xs ys p s'
  proof -
    obtain p1 c2 where s': "s' = (p1, c2)" by fastforce
    from write_result [OF E c1 that [unfolded s']] have "cl_ready inv c2"
      by (simp add: sent_result_def sent_on_def)
    from write_returns [OF E this] show ?thesis by (simp add: s')
  qed
  show ?thesis
    unfolding write_frame_def put Let_def fst_conv snd_conv
  proof (rule ws_try_returns [of "on_snd (on_sock (bs_write _ _ _))", OF write_returns [OF E c1]])
    fix v :: unit and s'
    assume "on_snd (on_sock (bs_write (e_transport E) (subspan 0 (length (header_bytes (e_endian E) f))
        (cl_write_buffer ?c)) to)) (mask_fn (e_endian E) (e_build E) ptr (fr_mask_key f) data, ?c) = Some (Ok v, s')"
    with again show "(if fr_payload_size f > 0 then on_snd (on_sock (bs_write (e_transport E)
        (mask_fn (e_endian E) (e_build E) ptr (fr_mask_key f) data) to)) else ws_return ()) s' \<noteq> None"
      by (cases "fr_payload_size f > 0") simp_all
  qed
qed

lemma send_message_returns:
  assumes E: "e_transport E = T" and c: "cl_ready inv c" and wb: "length (cl_write_buffer c) = 128"
    and plain: "cl_pmd_ctx c = None \<or> \<not> opt_compress opts" and ms: "0 < opt_timeout opts"
  shows "send_message E t ptr opts (data, c) \<noteq> None"
proof -
  have op: "message_opcode t \<noteq> Op_not_set" by (cases t) simp_all
  have sp: "send_payload E f ptr ms (data, c1) \<noteq> None"
    if "cl_ready inv c1" "length (cl_write_buffer c1) = 128" "0 < ms"
      "is_masked (fr_header (set_payload_size (word_of_nat (length data)) f))" for f ms c1
    unfolding send_payload_def Let_def
  proof (intro ws_try_returns)
    show "on_snd (start_timeout E ms) (data, c1) \<noteq> None"
      by (simp add: on_snd_def start_timeout_def on_sock_def on_socket_def on_part_def ws_total_def split: prod.splits)
    fix to s' assume "on_snd (start_timeout E ms) (data, c1) = Some (Ok to, s')"
    moreover obtain p c2 where "s' = (p, c2)" by fastforce
    ultimately show "write_frame E (set_payload_size (word_of_nat (length (fst (data, c1)))) f) ptr to s' \<noteq> None"
      using start_timeout_quiet [OF E that(1,3), of data "Ok to" p c2] that(2,4)
        write_frame_returns [OF E, of c2] by (auto simp: sent_on_def)
  qed
  have draw: "on_snd (draw_mask_key E) (data, c) \<noteq> None"
    by (simp add: on_snd_def draw_mask_key_def split: prod.splits)
  have rest: "(let frame = (client_frame (message_opcode t))\<lparr>fr_mask_key := key\<rparr>
      in if cl_pmd_ctx (snd s) \<noteq> None \<and> opt_compress opts
         then on_snd (send_compressed E (set_is_compressed True frame) (fst s) (opt_timeout opts)) s
         else send_payload E frame ptr (opt_timeout opts) s) \<noteq> None"
    if "on_snd (draw_mask_key E) (data, c) = Some (Ok key, s)" for key s
  proof -
    obtain p c1 where s: "s = (p, c1)" by fastforce
    from draw_quiet [OF c that [unfolded s]] have q: "p = data" "sent_on inv pend sent [] c c1" by simp_all
    then have c1: "cl_ready inv c1" "length (cl_write_buffer c1) = 128" "cl_pmd_ctx c1 = None \<or> \<not> opt_compress opts"
      using wb plain by (simp_all add: sent_on_def)
    from sp [OF c1(1,2) ms built_masked [OF built_plain(1) [OF op]]] c1(3) show ?thesis
      by (auto simp only: s q(1) Let_def fst_conv snd_conv split: if_splits)
  qed
  show ?thesis
    unfolding send_message_def
    by (cases "cl_closed (snd (data, c))")
      (simp, simp only: if_False, rule ws_try_returns [of "on_snd (draw_mask_key E)", OF draw], erule rest)
qed

end


subsection \<open>A peer that hangs up\<close>

text \<open>The scripted socket, but a write after the last scripted one fails.\<close>

definition broken_socket :: "script transport" where
  "broken_socket = script_socket\<lparr>tr_write_some :=
     (\<lambda>data to s. case sc_chunks s of [] \<Rightarrow> Some (Err script_eof, s) | c # cs \<Rightarrow> tr_write_some script_socket data to s)\<rparr>"

interpretation broken: answering_socket broken_socket "\<lambda>_. True" sc_in sc_out
  by unfold_locales
    (auto simp: broken_socket_def script_socket_def Let_def min_def case_prod_beta split: if_splits list.splits)

definition broken_env :: "(script, mask_key, token_state) env" where
  "broken_env = script_env\<lparr>e_transport := broken_socket\<rparr>"

subsection \<open>Properties\<close>

text \<open>
  C9: An open client sends an uncompressed message over a socket that may fail at any write, but returns
  from each; the payload lies at an address that is a multiple of four, or has fewer than eight bytes (in
  other places the masking goes wrong, see \<open>mask_fn_misaligned\<close>). Then the call comes back. If it reports
  success, exactly one frame has been sent, and it decodes to the message; if it reports an error, what
  has been sent is a prefix of that frame, so the peer never sees other bytes in its place. Nothing that
  was received is lost, the client is not closed by it, and the caller's memory is left masked with the
  frame's key in both cases.
\<close>

theorem send_message_all_or_prefix:
  assumes "stream_socket (e_transport E) I pend sent"
    and "\<forall>s data to. I s \<and> data \<noteq> [] \<longrightarrow> tr_write_some (e_transport E) data to s \<noteq> None"
    and "cl_ready I c" and "length (cl_write_buffer c) = 128"
    and "is_open c" and "cl_pmd_ctx c = None \<or> \<not> opt_compress opts"
    and "length payload < 2 ^ 64" and "masks_right ptr payload" and "0 < opt_timeout opts"
  shows "\<exists>r kb c' w. send_message E t ptr opts (payload, c) = Some (r, (rfc_mask kb payload, c')) \<and>
    (\<forall>rest. rfc_decode (w @ rest) = Some ((True, False, message_opcode t, Some kb, payload), rest)) \<and>
    (case r of
       Ok u \<Rightarrow> cl_sent sent c' = cl_sent sent c @ w
     | Err e \<Rightarrow> \<exists>k \<le> length w. cl_sent sent c' = cl_sent sent c @ take k w
     | Abort \<Rightarrow> False) \<and>
    cl_ready I c' \<and> is_open c' \<and> cl_stream pend c' = cl_stream pend c"
proof -
  have o: "\<not> cl_closed c" using assms(5) by (simp add: is_open_def)
  have op: "message_opcode t \<noteq> Op_not_set" by (cases t) simp_all
  have a: "answering_socket (e_transport E) I pend sent"
    using assms(1,2) by (auto simp: answering_socket_def answering_socket_axioms_def)
  from answering_socket.send_message_returns [OF a refl assms(3,4,6,9), of t ptr payload] obtain r mem c' where
    run: "send_message E t ptr opts (payload, c) = Some (r, (mem, c'))" by auto
  from stream_socket.send_message_outcome [OF assms(1) refl assms(3,4) o assms(6-9) run] obtain kb where
    kb: "length kb = 4" "mem = rfc_mask kb payload"
      "sent_result I pend sent (rfc_frame True False (message_opcode t) (Some kb) payload) r c c'" by blast
  from kb(3) run o length_rfc_decode_frame [OF op assms(7) kb(1), of True False] show ?thesis
    by (intro exI [of _ r] exI [of _ kb] exI [of _ c']
        exI [of _ "rfc_frame True False (message_opcode t) (Some kb) payload"])
      (auto simp: sent_result_def sent_on_def is_open_def kb(2) split: ws_result.splits)
qed

theorem send_message_all_or_prefix_witness:
  "\<exists>c r kb c' w. send_message broken_env Mt_text 4096 send_options_default ([72, 105], c) =
       Some (r, (rfc_mask kb [72, 105], c')) \<and>
     rfc_decode w = Some ((True, False, Op_text, Some kb, [72, 105]), []) \<and>
     (case r of Ok u \<Rightarrow> cl_sent sc_out c' = [1] @ w
      | Err e \<Rightarrow> \<exists>k \<le> length w. cl_sent sc_out c' = [1] @ take k w | Abort \<Rightarrow> False)"
proof -
  let ?k = "\<lparr>sc_in = [], sc_out = [1], sc_chunks = [3, 1], sc_closed = False\<rparr>"
  from script_open_client [of ?k] obtain c where
    c: "cl_ready (\<lambda>_. True) (c :: (script, mask_key, token_state) client)" "cl_sent sc_out c = [1]"
       "cl_pmd_ctx c = None" "length (cl_write_buffer c) = 128" "is_open c" by auto
  have E: "e_transport broken_env = broken_socket" by (simp add: broken_env_def)
  have ss: "stream_socket (e_transport broken_env) (\<lambda>_. True) sc_in sc_out"
    by (simp add: E broken.stream_socket_axioms)
  have ans: "\<forall>s data to. True \<and> data \<noteq> [] \<longrightarrow> tr_write_some (e_transport broken_env) data to s \<noteq> None"
    unfolding E using broken.write_answers [OF TrueI] by blast
  have len: "length [72, 105 :: byte] < 2 ^ 64" and ptr: "masks_right 4096 [72, 105]"
    and to: "0 < opt_timeout send_options_default"
    by (simp_all add: masks_right_def send_options_default_def)
  from send_message_all_or_prefix [OF ss ans c(1,4,5) disjI1 [OF c(3)] len ptr to, of Mt_text]
  obtain r kb c' w where "send_message broken_env Mt_text 4096 send_options_default ([72, 105], c) =
       Some (r, (rfc_mask kb [72, 105], c'))"
    "\<forall>rest. rfc_decode (w @ rest) = Some ((True, False, Op_text, Some kb, [72, 105]), rest)"
    "case r of Ok u \<Rightarrow> cl_sent sc_out c' = [1] @ w
      | Err e \<Rightarrow> \<exists>k \<le> length w. cl_sent sc_out c' = [1] @ take k w | Abort \<Rightarrow> False"
    by (auto simp only: c(2) message_opcode.simps)
  moreover from this(2) have "rfc_decode w = Some ((True, False, Op_text, Some kb, [72, 105]), [])"
    by (metis append_Nil2)
  ultimately show ?thesis by blast
qed

end
