(* ===== verification/Receive_Refinement.thy ===== *)
theory Receive_Refinement
  imports Client_Receive
begin

section \<open>What receiving promises: reassembled messages, control frames in between\<close>

text \<open>
  An abstract receiver over whole frames, in the words of RFC 6455, and the proof that
  \<open>read_message\<close> implements it on the byte stream of any live socket, whatever the chunks are in
  which the bytes arrive, for a session without compression and a timeout that does not expire.
\<close>

subsection \<open>The abstract receiver\<close>

text \<open>A frame from a server: final bit, RSV1 bit, opcode, payload. It is not masked.\<close>

record server_frame =
  sf_fin :: bool
  sf_rsv1 :: bool
  sf_op :: opcode
  sf_payload :: "byte list"

definition sf_bytes :: "server_frame \<Rightarrow> byte list" where
  "sf_bytes f = rfc_frame (sf_fin f) (sf_rsv1 f) (sf_op f) None (sf_payload f)"

definition sf_wf :: "server_frame \<Rightarrow> bool" where
  "sf_wf f \<longleftrightarrow> sf_op f \<noteq> Op_not_set \<and> length (sf_payload f) < 2 ^ 64"

text \<open>The message under construction: its opcode and the payload so far.\<close>

type_synonym partial_message = "(opcode \<times> byte list) option"

datatype outcome =
    Rejected ws_error_code close_code
  | Control opcode "byte list" partial_message "server_frame list"
  | Complete opcode "byte list" "server_frame list"

definition rejected :: outcome where
  "rejected = Rejected Protocol_error cc_protocol_error"

definition close_payload_verdict :: "byte list \<Rightarrow> close_code option" where
  "close_payload_verdict p =
     (if p = [] then None
      else if length p = 1 \<or> \<not> is_valid_close_code (be_word (take 2 p)) then Some cc_protocol_error
      else if \<not> utf8_text (drop 2 p) then Some invalid_frame_payload_data
      else None)"

definition receive_control :: "partial_message \<Rightarrow> server_frame \<Rightarrow> server_frame list \<Rightarrow> outcome" where
  "receive_control st f fs =
     (if \<not> sf_fin f \<or> sf_rsv1 f \<or> length (sf_payload f) > 125 then rejected
      else case (if sf_op f = Op_close then close_payload_verdict (sf_payload f) else None) of
             Some cc \<Rightarrow> Rejected Protocol_error cc
           | None \<Rightarrow> Control (sf_op f) (sf_payload f) st fs)"

definition complete :: "opcode \<Rightarrow> byte list \<Rightarrow> server_frame list \<Rightarrow> outcome" where
  "complete op d fs =
     (if op = Op_text \<and> \<not> utf8_text d then Rejected Protocol_error invalid_frame_payload_data
      else if op = Op_continuation then rejected
      else Complete op d fs)"

text \<open>
  \<open>m\<close> is the largest message the caller's buffer can hold. \<open>None\<close>: more frames are needed. (A
  continuation frame with nothing to continue is refused when its message is complete.)
\<close>

fun receive :: "nat \<Rightarrow> partial_message \<Rightarrow> server_frame list \<Rightarrow> outcome option" where
  "receive m st [] = None"
| "receive m st (f # fs) =
     (if is_reserved (sf_op f) then Some rejected
      else if sf_op f \<in> {Op_close, Op_ping, Op_pong} then Some (receive_control st f fs)
      else let d = (case st of None \<Rightarrow> [] | Some (op, d) \<Rightarrow> d);
               op = (case st of None \<Rightarrow> sf_op f | Some (op, d) \<Rightarrow> op)
           in if m < length d + length (sf_payload f) then Some (Rejected Buffer_error message_too_big)
              else if sf_rsv1 f \<or> (st \<noteq> None \<and> sf_op f \<noteq> Op_continuation) then Some rejected
              else if sf_fin f then Some (complete op (d @ sf_payload f) fs)
              else receive m (Some (op, d @ sf_payload f)) fs)"

subsection \<open>The states that correspond\<close>

definition reading :: "partial_message \<Rightarrow> buffer \<Rightarrow> message_read_state \<Rightarrow> bool" where
  "reading st b rs \<longleftrightarrow>
     \<not> rs_is_compressed rs \<and>
     (case st of
        None \<Rightarrow> rs_is_first rs
      | Some (op, d) \<Rightarrow>
          \<not> rs_is_first rs \<and> rs_op_code rs = op \<and> buffer_data b = d \<and>
          op \<in> {Op_continuation, Op_text, Op_binary})"

text \<open>An open client without compression, and a buffer of at most the given size for its messages.\<close>

definition receiver :: "('s \<Rightarrow> bool) \<Rightarrow> nat \<Rightarrow> buffer \<times> ('s, 'g, 'z) client \<Rightarrow> bool" where
  "receiver I m s \<longleftrightarrow>
     cl_ready I (snd s) \<and> \<not> cl_closed (snd s) \<and> cl_pmd_ctx (snd s) = None \<and>
     buf_ok (fst s) \<and> unat (buf_max_size (fst s)) = m \<and> m < 2 ^ 31 - 3"

text \<open>The clock stays in a window shorter than the timeout.\<close>

definition in_time :: "'s transport \<Rightarrow> ('s \<Rightarrow> bool) \<Rightarrow> int \<Rightarrow> bool" where
  "in_time T I ms \<longleftrightarrow>
     (\<exists>t0. \<forall>s. I s \<longrightarrow> t0 \<le> fst (tr_now T s) \<and> fst (tr_now T s) < t0 + ms * ns_per_ms)"

subsection \<open>The clock\<close>

lemma not_expired:
  assumes "t0 \<le> start" and "t < t0 + ms * ns_per_ms" and "0 < ms"
  shows "(t - start) sdiv ns_per_ms < ms"
proof (cases "start \<le> t")
  case True
  have "(t - start) div ns_per_ms < ms"
    using assms by (simp add: ns_per_ms_def div_less_iff_less_mult)
  with True show ?thesis using sdiv_nonneg [of "t - start" ns_per_ms] by (simp add: ns_per_ms_def)
next
  case False
  have "(t - start) sdiv ns_per_ms \<le> 0"
    using False by (simp add: signed_divide_int_def ns_per_ms_def sgn_if)
  with assms show ?thesis by simp
qed

definition started :: "'s transport \<Rightarrow> ('s \<Rightarrow> bool) \<Rightarrow> timeout \<Rightarrow> bool" where
  "started T I to \<longleftrightarrow>
     0 < to_timeout to \<and>
     (\<exists>t0. t0 \<le> to_start to \<and> (\<forall>s. I s \<longrightarrow> fst (tr_now T s) < t0 + to_timeout to * ns_per_ms))"

context delivering_socket
begin

lemma consumes_sock: "consumes xs (cl_socket c) s' \<Longrightarrow> consumes xs (cl_socket c) (cl_socket (c\<lparr>cl_socket := s'\<rparr>))"
  by simp

lemma start_timeout_live:
  assumes E: "e_transport E = T" and c: "cl_ready inv c" and ms: "0 < ms" and time: "in_time T inv ms"
  shows "\<exists>to s'. start_timeout E ms c = Some (Ok to, c\<lparr>cl_socket := s'\<rparr>) \<and>
    consumes [] (cl_socket c) s' \<and> started T inv to"
proof -
  from start_timeout_ok [OF E c ms] obtain s' where
    s': "start_timeout E ms c = Some (Ok \<lparr>to_start = fst (tr_now T (bs_socket (cl_socket c))), to_timeout = ms\<rparr>,
        c\<lparr>cl_socket := s'\<rparr>)" "consumes [] (cl_socket c) s'" by blast
  have "inv (bs_socket (cl_socket c))" using c by (simp add: cl_defs bs_defs)
  with time ms have "started T inv \<lparr>to_start = fst (tr_now T (bs_socket (cl_socket c))), to_timeout = ms\<rparr>"
    by (auto simp: in_time_def started_def)
  with s' show ?thesis by blast
qed

lemma check_expired_live:
  assumes E: "e_transport E = T" and c: "cl_ready inv c" and to: "started T inv to"
  shows "\<exists>s'. check_expired E to c = Some (Ok False, c\<lparr>cl_socket := s'\<rparr>) \<and> consumes [] (cl_socket c) s'"
proof -
  obtain t s' where now: "tr_now T (bs_socket (cl_socket c)) = (t, s')" by fastforce
  from to obtain t0 where t0: "0 < to_timeout to" "t0 \<le> to_start to"
      "\<And>s. inv s \<Longrightarrow> fst (tr_now T s) < t0 + to_timeout to * ns_per_ms"
    by (auto simp: started_def)
  have "t < t0 + to_timeout to * ns_per_ms"
    using t0(3) [of "bs_socket (cl_socket c)"] now c by (simp add: cl_defs bs_defs)
  from not_expired [OF t0(2) this t0(1)]
  have "check_expired E to c = Some (Ok False, c\<lparr>cl_socket := (cl_socket c)\<lparr>bs_socket := s'\<rparr>\<rparr>)"
    using E now by (simp add: check_expired_def on_sock_Some on_socket_Some is_expired_def elapsed_def)
  then show ?thesis using clock_tick [OF _ now] c by (auto simp: cl_defs)
qed

lemma read_appended_live:
  assumes E: "e_transport E = T" and A: "\<forall>n. e_alloc E n \<noteq> None"
    and b: "buf_ok b" and fits: "length (buffer_data b) + unat n \<le> unat (buf_max_size b)"
    and c: "cl_ready inv c" and str: "cl_stream pend c = xs @ rest" and n: "unat n = length xs"
  shows "\<exists>b' s'. read_appended E n to (b, c) = Some (Ok (), (b', c\<lparr>cl_socket := s'\<rparr>)) \<and>
    buf_ok b' \<and> buf_max_size b' = buf_max_size b \<and> buffer_data b' = buffer_data b @ xs \<and>
    consumes xs (cl_socket c) s'"
proof -
  have inv: "buffer_inv b" and cap: "buf_capacity b \<le> buf_max_size b"
    and mx: "unat (buf_max_size b) \<le> 2 ^ 63" using b by (auto simp: buf_ok_def)
  have fits': "length (buffer_data b) + unat n < 2 ^ 64" using fits mx by simp
  have "buf_used b + n \<le> buf_max_size b"
    using fits fits' inv by (simp add: word_le_nat_alt u64_add_no_wrap)
  from append_n_live [OF A this] obtain off len b1 where
    app: "buffer_append_n (e_alloc E) n b = (Ok (off, len), b1)" by fast
  note o = buffer_append_n_Ok [OF inv fits' app] append_n_max [OF cap app]
  let ?off = "length (buffer_data b)"
  have blk: "?off + unat n \<le> length (buf_block b1)"
    using o buffer_inv_block [of b1] by (auto simp: buffer_inv_def word_le_nat_alt)
  let ?dest = "subspan ?off (unat n) (buf_block b1)"
  have len: "length ?dest = length xs" using blk n by (simp add: subspan_def)
  have "bs_ready inv (cl_socket c)" "length ?dest \<le> length (bs_stream pend (cl_socket c))"
    using c str len by (simp_all add: cl_defs)
  from read_exact_take [OF this, of to] obtain s' where
    rd: "read_exact T to (?dest, cl_socket c) = Some (Ok (length xs), (xs, s'))" "consumes xs (cl_socket c) s'"
    using str len by (auto simp: cl_stream_def)
  have "length xs = len" using o n by simp
  from buf.append_fill [OF inv fits' app this]
  obtain b2 where b2: "buffer_fill ?off xs b1 = (Ok (), b2)" "buffer_inv b2" "buffer_data b2 = buffer_data b @ xs"
    using o by auto
  have "buf_ok b2" "buf_max_size b2 = buf_max_size b"
    using buffer_fill_fields [OF b2(1)] b2(2) o mx by (auto simp: buf_ok_def)
  moreover have "read_appended E n to (b, c) = Some (Ok (), (b2, c\<lparr>cl_socket := s'\<rparr>))"
    using app o blk rd(1) b2(1) E
    by (simp add: read_appended_def ws_try_simps(1) [of "on_fst _"] on_fst_Some not_less)
  ultimately show ?thesis using b2 rd(2) by blast
qed

end

subsection \<open>Frames from the server\<close>

definition sf_size :: "server_frame \<Rightarrow> u64" where
  "sf_size f = word_of_nat (length (sf_payload f))"

definition sf_header :: "server_frame \<Rightarrow> frame_header" where
  "sf_header f = \<lparr>hdr_b0 = first_byte (sf_fin f) (sf_rsv1 f) (sf_op f), hdr_b1 = second_byte False (sf_size f)\<rparr>"

definition sf_frame :: "server_frame \<Rightarrow> frame" where
  "sf_frame f = frame_new\<lparr>fr_header := sf_header f, fr_payload_size := sf_size f\<rparr>"

lemma sf_header_accessors:
  assumes "sf_wf f"
  shows "op_code (sf_header f) = sf_op f" "is_final (sf_header f) = sf_fin f"
    "rsv1_bit (sf_header f) = sf_rsv1 f" "\<not> rsv2_bit (sf_header f)" "\<not> rsv3_bit (sf_header f)"
    "has_rsv_bits (sf_header f) = sf_rsv1 f" "\<not> is_masked (sf_header f)"
  using assms by (simp_all add: sf_header_def sf_wf_def frame_simps)

lemma sf_size_unat: "sf_wf f \<Longrightarrow> unat (sf_size f) = length (sf_payload f)"
  by (simp add: sf_size_def sf_wf_def word_of_nat_64)

lemma sf_frame_sel [simp]:
  "fr_header (sf_frame f) = sf_header f" "fr_payload_size (sf_frame f) = sf_size f"
  by (simp_all add: sf_frame_def)

lemma valid_utf8_text: "length s < 2 ^ 31 - 3 \<Longrightarrow> is_valid_utf8 s (narrow_len (length s)) = utf8_text s"
  using utf8_loop_text [of 0 s] by (simp add: is_valid_utf8_def narrow_len_id)

lemma utf8_text_Nil: "utf8_text []"
  unfolding utf8_text_def by (rule exI [of _ "[]"]) simp

definition control_result :: "opcode \<Rightarrow> control_frame \<Rightarrow> read_result" where
  "control_result op cf =
     (if op = Op_close then Rd_close cf else if op = Op_ping then Rd_ping cf else Rd_pong cf)"

text \<open>A received control frame: its array begins with the payload.\<close>

definition carries :: "byte list \<Rightarrow> control_frame \<Rightarrow> bool" where
  "carries p cf \<longleftrightarrow> cf_payload_size cf = length p \<and> take (length p) (cf_payload cf) = p"

lemma carries_payload: "carries p cf \<Longrightarrow> payload_bytes cf = p"
  by (simp add: carries_def payload_bytes_def)

lemma carries_new: "carries [] (control_frame_new junk op 0)"
  by (simp add: carries_def control_frame_new_def)

lemma check_close_frame_carries:
  assumes p: "2 \<le> length p" "length p \<le> 125" and cf: "carries p cf"
  shows "check_close_frame E cf =
     (if \<not> is_valid_close_code (be_word (take 2 p))
      then Err (frame_error (Msg_invalid_close_code (unat (be_word (take 2 p) :: close_code))))
      else if \<not> utf8_text (drop 2 p)
      then Err (WSError Protocol_error (Frame_msg Msg_invalid_utf8_reason) invalid_frame_payload_data)
      else Ok ())"
proof -
  have pre: "take 2 (cf_payload cf) = take 2 p"
    using cf p unfolding carries_def by (metis min.absorb1 take_take)
  have "length (take 2 p) = 2" using p by simp
  then have code: "get_close_code (e_endian E) cf = be_word (take 2 p)"
    using cf p by (simp add: get_close_code_def has_close_code_def carries_def pre network_to_host16_mem Let_def)
  have "take (length p - 2) (drop 2 (cf_payload cf)) = drop 2 p"
    using cf unfolding carries_def by (metis drop_take)
  then have "is_reason_valid_utf8 cf = utf8_text (drop 2 p)"
    using cf p valid_utf8_text [of "drop 2 p"]
    by (auto simp: is_reason_valid_utf8_def has_reason_def get_reason_def carries_def utf8_text_Nil)
  then show ?thesis
    using cf p by (simp add: check_close_frame_def code has_close_code_def carries_def)
qed

context delivering_socket
begin

lemma read_server_frame:
  assumes E: "e_transport E = T" and c: "cl_ready inv c"
    and str: "cl_stream pend c = sf_bytes f @ rest" and f: "sf_wf f"
  shows "\<exists>s'. read_frame E to c =
      Some (if \<not> sf_fin f \<and> sf_op f = Op_close then Err (frame_error Msg_fragmented_close)
            else Ok (sf_frame f), c\<lparr>cl_socket := s'\<rparr>) \<and> bs_ready inv s' \<and>
    bs_sent sent s' = bs_sent sent (cl_socket c) \<and>
    (\<not> (\<not> sf_fin f \<and> sf_op f = Op_close) \<longrightarrow> bs_stream pend s' = sf_payload f @ rest)"
proof -
  let ?h = "sf_header f" and ?len = "length_bytes (sf_size f)"
  have s: "cl_stream pend c = [hdr_b0 ?h, hdr_b1 ?h] @ ?len @ (sf_payload f @ rest)"
    by (simp add: str sf_bytes_def rfc_frame_def sf_header_def sf_size_def Let_def)
  have "length ?len = ext_len (hdr_b1 ?h)" "ext_size (hdr_b1 ?h) ?len = sf_size f"
    by (simp_all add: sf_header_def ext_second_byte)
  note n = this
  have h: "\<lparr>hdr_b0 = hdr_b0 ?h, hdr_b1 = hdr_b1 ?h\<rparr> = ?h" by simp
  note acc = sf_header_accessors [OF f]
  from read_frame_live [OF E c s n(1), of to, unfolded h n(2) acc(1,2) if_not_P [OF acc(7)]
      sf_frame_def [symmetric]] obtain s' where
    s': "read_frame E to c = Some (if \<not> sf_fin f \<and> sf_op f = Op_close then Err (frame_error Msg_fragmented_close)
        else Ok (sf_frame f), c\<lparr>cl_socket := s'\<rparr>)"
      "consumes (if \<not> sf_fin f \<and> sf_op f = Op_close then [hdr_b0 ?h, hdr_b1 ?h]
        else [hdr_b0 ?h, hdr_b1 ?h] @ ?len) (cl_socket c) s'"
    by blast
  moreover have "\<not> (\<not> sf_fin f \<and> sf_op f = Op_close) \<longrightarrow> bs_stream pend s' = sf_payload f @ rest"
    using s'(2) s by (auto simp: consumes_def cl_stream_def)
  ultimately show ?thesis by (auto simp: consumes_def)
qed

lemma read_control_payload_live:
  assumes E: "e_transport E = T" and c: "cl_ready inv c" and p: "length p \<le> 125"
    and str: "cl_stream pend c = p @ rest"
  shows "\<exists>s' cf. read_control_payload E (control_frame_new (e_junk E) op (length p)) to c =
      Some (Ok cf, c\<lparr>cl_socket := s'\<rparr>) \<and> consumes p (cl_socket c) s' \<and> carries p cf"
proof -
  let ?f = "control_frame_new (e_junk E) op (length p)"
  have l: "length (payload_bytes ?f) = length p"
    using p by (simp add: payload_bytes_def control_frame_new_def)
  have "bs_ready inv (cl_socket c)" "length (payload_bytes ?f) \<le> length (bs_stream pend (cl_socket c))"
    using c str l by (simp_all add: cl_defs)
  from read_span_live [OF E this, of to] obtain s' where
    s': "read_span E (payload_bytes ?f) to (cl_socket c) = Some (Ok p, s')" "consumes p (cl_socket c) s'"
    using str l by (auto simp: cl_stream_def)
  then have "on_sock (read_span E (payload_bytes ?f) to) c = Some (Ok p, c\<lparr>cl_socket := s'\<rparr>)"
    by (simp add: on_sock_Some)
  moreover have "carries p (?f\<lparr>cf_payload := blit 0 p (cf_payload ?f)\<rparr>)"
    by (simp add: carries_def control_frame_new_def blit_def)
  ultimately show ?thesis
    using s'(2) by (auto simp: read_control_payload_def ws_try_simps(1) [of "on_sock _"])
qed

end

subsection \<open>One frame\<close>

text \<open>An error of the code that an abstract rejection describes.\<close>

definition refuses :: "outcome \<Rightarrow> 'a ws_result \<Rightarrow> bool" where
  "refuses out r \<longleftrightarrow> (\<exists>e. r = Err e \<and> out = Rejected (err_code e) (close_with_code e))"

lemma refuses_Err: "out = Rejected (err_code e) (close_with_code e) \<Longrightarrow> refuses out (Err e)"
  by (simp add: refuses_def)

lemma frame_error_rejected: "rejected = Rejected (err_code (frame_error m)) (close_with_code (frame_error m))"
  by (simp add: rejected_def frame_error_def)

lemma client_error_rejected:
  "Rejected Protocol_error cc = Rejected (err_code (client_error m cc)) (close_with_code (client_error m cc))"
  by (simp add: client_error_def)

lemma receive_control_code:
  assumes "sf_op f \<in> {Op_close, Op_ping, Op_pong}" and "sf_fin f" "\<not> sf_rsv1 f" "length (sf_payload f) \<le> 125"
  shows "receive_control st f fs =
     (case (if sf_op f = Op_close then close_payload_verdict (sf_payload f) else None) of
        Some cc \<Rightarrow> Rejected Protocol_error cc | None \<Rightarrow> Control (sf_op f) (sf_payload f) st fs)"
  using assms by (simp add: receive_control_def)

context delivering_socket
begin

definition control_outcome ::
  "outcome \<Rightarrow> 'a bsock \<Rightarrow> server_frame \<Rightarrow> partial_message \<Rightarrow> server_frame list \<Rightarrow> read_result ws_result \<Rightarrow> 'a bsock \<Rightarrow> bool"
where
  "control_outcome out k f st fs r k' \<longleftrightarrow>
     refuses out r \<or>
     (\<exists>cf. r = Ok (control_result (sf_op f) cf) \<and> carries (sf_payload f) cf \<and>
        out = Control (sf_op f) (sf_payload f) st fs \<and> consumes (sf_payload f) k k')"

lemma handle_control_live:
  assumes E: "e_transport E = T" and c: "cl_ready inv c"
    and str: "cl_stream pend c = sf_payload f @ rest" and f: "sf_wf f"
    and op: "sf_op f \<in> {Op_close, Op_ping, Op_pong}"
  shows "\<exists>r k'. handle_control_frame E (sf_frame f) to c = Some (r, c\<lparr>cl_socket := k'\<rparr>) \<and>
    control_outcome (receive_control st f fs) (cl_socket c) f st fs r k'"
proof -
  let ?p = "sf_payload f" and ?k = "cl_socket c"
  note acc = sf_header_accessors [OF f]
  have n: "unat (sf_size f) = length ?p" using f by (rule sf_size_unat)
  have big: "sf_size f > 125 \<longleftrightarrow> length ?p > 125" "sf_size f > 0 \<longleftrightarrow> ?p \<noteq> []" "sf_size f = 1 \<longleftrightarrow> length ?p = 1"
    using n by (auto simp: word_less_nat_alt word_unat_eq_iff)
  show ?thesis
  proof (cases "sf_fin f \<and> \<not> sf_rsv1 f \<and> length ?p \<le> 125")
    case False
    then have "receive_control st f fs = rejected" by (auto simp: receive_control_def)
    moreover have "\<exists>m. handle_control_frame E (sf_frame f) to c = Some (Err (frame_error m), c)"
      using False by (auto simp: handle_control_frame_def Let_def acc big not_le)
    ultimately show ?thesis
      by (fastforce simp: control_outcome_def refuses_def rejected_def frame_error_def
          intro: exI [of _ ?k])
  next
    case ok: True
    note spec = receive_control_code [OF op, of st fs]
    from read_control_payload_live [OF E c _ str, of _ to] ok have
      rd: "\<And>o'. \<exists>k' cf. read_control_payload E (control_frame_new (e_junk E) o' (length ?p)) to c =
        Some (Ok cf, c\<lparr>cl_socket := k'\<rparr>) \<and> consumes ?p ?k k' \<and> carries ?p cf"
      by blast
    show ?thesis
    proof (cases "sf_op f = Op_close \<and> close_payload_verdict ?p \<noteq> None")
      case bad: True
      then have spec': "receive_control st f fs = Rejected Protocol_error (the (close_payload_verdict ?p))"
        using spec ok by auto
      show ?thesis
      proof (cases "length ?p = 1")
        case True
        then show ?thesis using bad ok spec'
          by (intro exI [of _ "Err (frame_error Msg_close_size_one)"] exI [of _ ?k])
            (auto simp: handle_control_frame_def Let_def acc big control_outcome_def refuses_def
              close_payload_verdict_def frame_error_def)
      next
        case False
        then have two: "2 \<le> length ?p"
          using bad by (cases ?p rule: list.exhaust) (auto simp: close_payload_verdict_def Suc_le_eq)
        from rd [of Op_close] obtain k' cf where cf:
          "read_control_payload E (close_frame_new (e_junk E) (length ?p)) to c = Some (Ok cf, c\<lparr>cl_socket := k'\<rparr>)"
          "carries ?p cf" by (auto simp: close_frame_new_def)
        have "\<exists>e. check_close_frame E cf = Err e \<and>
            Rejected Protocol_error (the (close_payload_verdict ?p)) = Rejected (err_code e) (close_with_code e)"
          using bad two False check_close_frame_carries [OF two _ cf(2), of E] ok
          by (auto simp: close_payload_verdict_def frame_error_def split: if_splits)
        then obtain e where e: "check_close_frame E cf = Err e"
          "Rejected Protocol_error (the (close_payload_verdict ?p)) = Rejected (err_code e) (close_with_code e)"
          by blast
        have "handle_control_frame E (sf_frame f) to c = Some (Err e, c\<lparr>cl_socket := k'\<rparr>)"
          using bad ok False two cf(1) e(1)
          by (auto simp: handle_control_frame_def Let_def acc big n ws_try_simps(1) [of "read_control_payload _ _ _"]
              ws_try_simps(2) [of "ws_result _"])
        then show ?thesis using spec' e(2) by (auto simp: control_outcome_def refuses_def)
      qed
    next
      case good: False
      then have spec': "receive_control st f fs = Control (sf_op f) ?p st fs"
        using spec ok by (auto split: option.splits)
      have "\<exists>k' cf. handle_control_frame E (sf_frame f) to c =
          Some (Ok (control_result (sf_op f) cf), c\<lparr>cl_socket := k'\<rparr>) \<and> consumes ?p ?k k' \<and> carries ?p cf"
      proof (cases "?p = []")
        case True
        then show ?thesis
          using op ok c by (intro exI [of _ ?k] exI [of _ "control_frame_new (e_junk E) (sf_op f) 0"])
            (auto simp: handle_control_frame_def Let_def acc big n control_result_def carries_new consumes_refl
              cl_ready_def close_frame_new_def ping_frame_new_def pong_frame_new_def)
      next
        case False
        from rd [of "sf_op f"] obtain k' cf where cf:
          "read_control_payload E (control_frame_new (e_junk E) (sf_op f) (length ?p)) to c =
             Some (Ok cf, c\<lparr>cl_socket := k'\<rparr>)"
          "consumes ?p ?k k'" "carries ?p cf" by blast
        have chk: "sf_op f = Op_close \<Longrightarrow> length ?p \<noteq> 1 \<and> check_close_frame E cf = Ok ()"
          using good False ok check_close_frame_carries [OF _ _ cf(3), of E]
          by (cases ?p rule: list.exhaust) (auto simp: close_payload_verdict_def Suc_le_eq split: if_splits)
        have "handle_control_frame E (sf_frame f) to c =
            Some (Ok (control_result (sf_op f) cf), c\<lparr>cl_socket := k'\<rparr>)"
          using op ok False cf(1) chk
          by (auto simp: handle_control_frame_def Let_def acc big n control_result_def
              close_frame_new_def ping_frame_new_def pong_frame_new_def
              ws_try_simps(1) [of "read_control_payload _ _ _"] ws_try_simps(1) [of "ws_result _"])
        with cf(2,3) show ?thesis by blast
      qed
      with spec' show ?thesis unfolding control_outcome_def by blast
    qed
  qed
qed

end

subsection \<open>Data frames\<close>

definition so_far :: "partial_message \<Rightarrow> byte list" where
  "so_far st = (case st of None \<Rightarrow> [] | Some (op, d) \<Rightarrow> d)"

definition message_op :: "partial_message \<Rightarrow> opcode \<Rightarrow> opcode" where
  "message_op st op = (case st of None \<Rightarrow> op | Some (op', d) \<Rightarrow> op')"

lemma receive_data:
  assumes "sf_op f \<in> {Op_continuation, Op_text, Op_binary}"
  shows "receive m st (f # fs) =
     (if m < length (so_far st) + length (sf_payload f) then Some (Rejected Buffer_error message_too_big)
      else if sf_rsv1 f \<or> (st \<noteq> None \<and> sf_op f \<noteq> Op_continuation) then Some rejected
      else if sf_fin f then Some (complete (message_op st (sf_op f)) (so_far st @ sf_payload f) fs)
      else receive m (Some (message_op st (sf_op f), so_far st @ sf_payload f)) fs)"
  using assms by (cases st) (auto simp: is_reserved_iff so_far_def message_op_def Let_def)

lemma buf_ok_clear: "buf_ok b \<Longrightarrow> buf_ok (buffer_clear b)"
  by (simp add: buf_ok_def) (simp add: buffer_clear_def)

lemma buf_ok_room:
  assumes "buf_ok b"
  shows "unat (buf_max_size b - buf_used b) = unat (buf_max_size b) - length (buffer_data b)"
  using assms by (auto simp: buf_ok_def buffer_inv_def unat_sub word_le_nat_alt)

text \<open>The buffer in which a data frame goes on: cleared for the first frame of a message.\<close>

definition started_buffer :: "partial_message \<Rightarrow> buffer \<Rightarrow> buffer" where
  "started_buffer st b = (case st of None \<Rightarrow> buffer_clear b | Some _ \<Rightarrow> b)"

lemma started_buffer_facts:
  assumes "reading st b rs" and "buf_ok b"
  shows "started_buffer st b = (if rs_is_first rs then buffer_clear b else b)"
    and "buffer_data (started_buffer st b) = so_far st"
    and "buf_ok (started_buffer st b)" and "buf_max_size (started_buffer st b) = buf_max_size b"
    and "rs_is_first rs \<longleftrightarrow> st = None"
  using assms buf_ok_clear
  by (auto simp: reading_def started_buffer_def so_far_def buffer_clear_def split: option.splits)
    (auto simp: buffer_data_def split: option.splits)

lemma begin_message_plain:
  assumes "cl_pmd_ctx c = None" and "\<not> rsv2_bit h" "\<not> rsv3_bit h"
  shows "begin_message h c =
    (if rsv1_bit h
     then Some (Err (client_error Msg_compressed_not_enabled cc_protocol_error),
       set_read_state ((cl_read_state c)\<lparr>rs_is_first := False, rs_op_code := op_code h, rs_is_compressed := True\<rparr>) c)
     else Some (Ok (), set_read_state ((cl_read_state c)\<lparr>rs_is_first := False, rs_op_code := op_code h\<rparr>) c))"
  using assms by (simp add: begin_message_def Let_def set_read_state_def ws_try_simps(1) [of "ws_return _"])

text \<open>The client after a data frame has been accepted.\<close>

definition accepted :: "partial_message \<Rightarrow> server_frame \<Rightarrow> ('s, 'g, 'z) client \<Rightarrow> ('s, 'g, 'z) client" where
  "accepted st f c =
     (case st of
        None \<Rightarrow> set_read_state ((cl_read_state c)\<lparr>rs_is_first := False, rs_op_code := sf_op f\<rparr>) c
      | Some _ \<Rightarrow> c)"

lemma accept_data_frame_plain:
  assumes rs: "reading st b (cl_read_state c)" and b: "buf_ok b" "unat (buf_max_size b) = m"
    and c: "cl_pmd_ctx c = None" and f: "sf_wf f"
    and op: "sf_op f \<in> {Op_continuation, Op_text, Op_binary}"
  shows "if m < length (so_far st) + length (sf_payload f)
    then \<exists>e. accept_data_frame (sf_frame f) (b, c) = Some (Err e, (started_buffer st b, c)) \<and>
      refuses (Rejected Buffer_error message_too_big) (Err e :: unit ws_result)
    else if sf_rsv1 f \<or> (st \<noteq> None \<and> sf_op f \<noteq> Op_continuation)
    then \<exists>e s'. accept_data_frame (sf_frame f) (b, c) = Some (Err e, s') \<and> refuses rejected (Err e :: unit ws_result)
    else accept_data_frame (sf_frame f) (b, c) = Some (Ok (), (started_buffer st b, accepted st f c))"
proof -
  note acc = sf_header_accessors [OF f] and sb = started_buffer_facts [OF rs b(1)]
  have room: "buf_max_size (started_buffer st b) - buf_used (started_buffer st b) < sf_size f \<longleftrightarrow>
      m < length (so_far st) + length (sf_payload f)"
    using buf_ok_room [OF sb(3)] sb(2,4) b(2) sf_size_unat [OF f] buf_ok_len [OF sb(3)]
    by (auto simp: word_less_nat_alt)
  have start: "(if rs_is_first (cl_read_state c) then buffer_clear b else b) = started_buffer st b"
    using sb(1) by simp
  let ?check = "if rs_is_first (cl_read_state c) then begin_message (sf_header f)
    else continue_message (sf_header f)"
  have unf: "accept_data_frame (sf_frame f) (b, c) =
    (if m < length (so_far st) + length (sf_payload f)
     then Some (Err (WSError Buffer_error (Client_msg (Msg_payload_too_large (unat (sf_size f))
         (unat (buf_max_size (started_buffer st b) - buf_used (started_buffer st b))))) message_too_big),
       (started_buffer st b, c))
     else ws_try (on_snd ?check)
           (\<lambda>_ s. let op = rs_op_code (cl_read_state (snd s))
             in if op \<noteq> Op_continuation \<and> op \<noteq> Op_text \<and> op \<noteq> Op_binary
                then ws_fail (client_error (Msg_unexpected_opcode (opcode_number op)) cc_protocol_error) s
                else ws_return () s) (started_buffer st b, c))"
    by (simp only: accept_data_frame_def Let_def fst_conv snd_conv start sf_frame_sel room)
  consider (big) "m < length (so_far st) + length (sf_payload f)"
    | (bad) "\<not> m < length (so_far st) + length (sf_payload f)" "sf_rsv1 f \<or> (st \<noteq> None \<and> sf_op f \<noteq> Op_continuation)"
    | (ok) "\<not> m < length (so_far st) + length (sf_payload f)" "\<not> (sf_rsv1 f \<or> (st \<noteq> None \<and> sf_op f \<noteq> Op_continuation))"
    by blast
  then show ?thesis
  proof cases
    case big
    then show ?thesis by (simp add: unf refuses_def)
  next
    case bad
    then have "\<exists>e c'. ?check c = Some (Err e, c') \<and> refuses rejected (Err e :: unit ws_result)"
      using sb(5) c begin_message_plain [of c "sf_header f"]
      by (auto simp: continue_message_def acc refuses_def rejected_def client_error_def)
    then obtain e c' where "on_snd ?check (started_buffer st b, c) = Some (Err e, (started_buffer st b, c'))"
      "refuses rejected (Err e :: unit ws_result)"
      by (auto simp: on_snd_Some)
    with bad show ?thesis
      unfolding unf by (simp add: ws_try_simps(2) [of "on_snd _"])
  next
    case ok
    have opc: "rs_op_code (cl_read_state (accepted st f c)) \<in> {Op_continuation, Op_text, Op_binary}"
      using rs op by (auto simp: accepted_def reading_def set_read_state_def split: option.splits)
    have "?check c = Some (Ok (), accepted st f c)"
      using ok sb(5) c begin_message_plain [of c "sf_header f"]
      by (auto simp: continue_message_def acc accepted_def)
    then have "on_snd ?check (started_buffer st b, c) = Some (Ok (), (started_buffer st b, accepted st f c))"
      by (simp add: on_snd_Some)
    with ok opc show ?thesis
      unfolding unf by (auto simp: ws_try_simps(1) [of "on_snd _"] Let_def)
  qed
qed

subsection \<open>One round of the loop\<close>

definition related ::
  "('s \<Rightarrow> bool) \<Rightarrow> nat \<Rightarrow> partial_message \<Rightarrow> buffer \<times> ('s, 'g, 'z) client \<Rightarrow> bool" where
  "related I m st s \<longleftrightarrow> receiver I m s \<and> reading st (fst s) (cl_read_state (snd s))"

lemma related_socket:
  "related I m st (b, c) \<Longrightarrow> bs_ready I k \<Longrightarrow> related I m st (b, c\<lparr>cl_socket := k\<rparr>)"
  by (simp add: related_def receiver_def cl_ready_def)

context delivering_socket
begin

text \<open>What a round does with the frame \<open>f\<close>, as cases of the abstract receiver.\<close>

definition round_outcome ::
  "nat \<Rightarrow> partial_message \<Rightarrow> server_frame \<Rightarrow> byte list \<Rightarrow> round_result ws_result \<Rightarrow>
     buffer \<times> ('a, 'g, 'z) client \<Rightarrow> bool"
where
  "round_outcome m st f rest r s' \<longleftrightarrow>
     (\<exists>e. r = Err e \<and> (\<forall>fs. receive m st (f # fs) = Some (Rejected (err_code e) (close_with_code e)))) \<or>
     (\<exists>cf. r = Ok (Got (control_result (sf_op f) cf)) \<and> carries (sf_payload f) cf \<and>
        (\<forall>fs. receive m st (f # fs) = Some (Control (sf_op f) (sf_payload f) st fs)) \<and>
        related inv m st s' \<and> cl_stream pend (snd s') = rest) \<or>
     (\<exists>op d. r = Ok (if sf_fin f then Last_frame else More_frames) \<and>
        (\<forall>fs. receive m st (f # fs) = (if sf_fin f then Some (complete op d fs) else receive m (Some (op, d)) fs)) \<and>
        related inv m (Some (op, d)) s' \<and> cl_stream pend (snd s') = rest)"

lemma round_refused:
  assumes "refuses out (Err e :: unit ws_result)" and "\<And>fs. receive m st (f # fs) = Some out"
  shows "round_outcome m st f rest (Err e) s'"
  using assms by (auto simp: round_outcome_def refuses_def)

lemma read_payload_plain:
  assumes E: "e_transport E = T" and A: "\<forall>n. e_alloc E n \<noteq> None"
    and b: "buf_ok b" and fits: "length (buffer_data b) + unat n \<le> unat (buf_max_size b)"
    and c: "cl_ready inv c" and str: "cl_stream pend c = xs @ rest" and n: "unat n = length xs"
    and plain: "\<not> rs_is_compressed (cl_read_state c)"
  shows "\<exists>b' k. read_payload E n to (b, c) = Some (Ok (), (b', c\<lparr>cl_socket := k\<rparr>)) \<and>
    buf_ok b' \<and> buf_max_size b' = buf_max_size b \<and> buffer_data b' = buffer_data b @ xs \<and>
    consumes xs (cl_socket c) k"
proof (cases "n > 0")
  case True
  with read_appended_live [OF E A b fits c str n, of to] plain show ?thesis by (simp add: read_payload_def)
next
  case False
  with n have "xs = []" by (simp add: word_less_nat_alt)
  with False b c show ?thesis
    by (intro exI [of _ b] exI [of _ "cl_socket c"]) (simp add: read_payload_def consumes_refl cl_ready_def)
qed

lemma data_round:
  assumes E: "e_transport E = T" and A: "\<forall>n. e_alloc E n \<noteq> None"
    and rel: "related inv m st (b, c)" and str: "cl_stream pend c = sf_payload f @ rest"
    and f: "sf_wf f" and op: "sf_op f \<in> {Op_continuation, Op_text, Op_binary}"
  shows "\<exists>r s'. ws_try (accept_data_frame (sf_frame f))
      (\<lambda>_. ws_try (read_payload E (sf_size f) to)
        (\<lambda>_. ws_return (if sf_fin f then Last_frame else More_frames))) (b, c) = Some (r, s') \<and>
    round_outcome m st f rest r s'"
proof -
  have rs: "reading st b (cl_read_state c)" and b: "buf_ok b" "unat (buf_max_size b) = m"
    and c: "cl_pmd_ctx c = None" "cl_ready inv c"
    using rel by (simp_all add: related_def receiver_def)
  note acc = accept_data_frame_plain [OF rs b c(1) f op] and sb = started_buffer_facts [OF rs b(1)]
  note spec = receive_data [OF op, of m st]
  consider (big) "m < length (so_far st) + length (sf_payload f)"
    | (bad) "\<not> m < length (so_far st) + length (sf_payload f)" "sf_rsv1 f \<or> (st \<noteq> None \<and> sf_op f \<noteq> Op_continuation)"
    | (ok) "\<not> m < length (so_far st) + length (sf_payload f)" "\<not> (sf_rsv1 f \<or> (st \<noteq> None \<and> sf_op f \<noteq> Op_continuation))"
    by blast
  then show ?thesis
  proof cases
    case big
    with acc obtain e s' where "accept_data_frame (sf_frame f) (b, c) = Some (Err e, s')"
      "refuses (Rejected Buffer_error message_too_big) (Err e :: unit ws_result)" by auto
    with round_refused [OF this(2), of m st f rest s'] spec big show ?thesis
      by (auto simp: ws_try_simps(2) [of "accept_data_frame _"])
  next
    case bad
    with acc obtain e s' where "accept_data_frame (sf_frame f) (b, c) = Some (Err e, s')"
      "refuses rejected (Err e :: unit ws_result)" by (auto split: if_splits)
    with round_refused [OF this(2), of m st f rest s'] spec bad show ?thesis
      by (auto simp: ws_try_simps(2) [of "accept_data_frame _"])
  next
    case ok
    let ?b = "started_buffer st b" and ?c = "accepted st f c" and ?op = "message_op st (sf_op f)"
    have a: "accept_data_frame (sf_frame f) (b, c) = Some (Ok (), (?b, ?c))" using acc ok by auto
    have fits: "length (buffer_data ?b) + unat (sf_size f) \<le> unat (buf_max_size ?b)"
      using ok(1) sb(2,4) b(2) sf_size_unat [OF f] by simp
    have sel: "cl_socket ?c = cl_socket c" "cl_closed ?c = cl_closed c" "cl_pmd_ctx ?c = cl_pmd_ctx c"
      by (simp_all add: accepted_def set_read_state_def split: option.splits)
    have plain: "\<not> rs_is_compressed (cl_read_state ?c)"
      using rs by (auto simp: accepted_def set_read_state_def reading_def split: option.splits)
    have "cl_ready inv ?c" "cl_stream pend ?c = sf_payload f @ rest"
      using c(2) str sel by (simp_all add: cl_defs)
    from read_payload_plain [OF E A sb(3) fits this sf_size_unat [OF f] plain, of to] obtain b' k where
      p: "read_payload E (sf_size f) to (?b, ?c) = Some (Ok (), (b', ?c\<lparr>cl_socket := k\<rparr>))"
        "buf_ok b'" "buf_max_size b' = buf_max_size b" "buffer_data b' = so_far st @ sf_payload f"
        "consumes (sf_payload f) (cl_socket c) k"
      using sel sb by auto
    have "rs_op_code (cl_read_state ?c) = ?op" "\<not> rs_is_first (cl_read_state ?c)"
      "?op \<in> {Op_continuation, Op_text, Op_binary}"
      using rs op ok by (auto simp: accepted_def set_read_state_def message_op_def reading_def split: option.splits)
    then have "related inv m (Some (?op, so_far st @ sf_payload f)) (b', ?c\<lparr>cl_socket := k\<rparr>)"
      using rel p sel plain b by (auto simp: related_def receiver_def reading_def cl_ready_def consumes_def)
    moreover have "cl_stream pend (?c\<lparr>cl_socket := k\<rparr>) = rest"
      using p(5) str by (simp add: consumes_def cl_stream_def)
    ultimately have "round_outcome m st f rest (Ok (if sf_fin f then Last_frame else More_frames)) (b', ?c\<lparr>cl_socket := k\<rparr>)"
      using spec ok unfolding round_outcome_def by (auto intro!: exI [of _ ?op])
    with a p(1) show ?thesis
      by (auto simp: ws_try_simps(1) [of "accept_data_frame _"] ws_try_simps(1) [of "read_payload _ _ _"])
  qed
qed

lemma round_live:
  assumes E: "e_transport E = T" and A: "\<forall>n. e_alloc E n \<noteq> None"
    and rel: "related inv m st (b, c)" and str: "cl_stream pend c = sf_bytes f @ rest" and f: "sf_wf f"
  shows "\<exists>r s'. read_message_round E to (b, c) = Some (r, s') \<and> round_outcome m st f rest r s'"
proof -
  have c: "cl_ready inv c" using rel by (simp add: related_def receiver_def)
  note acc = sf_header_accessors [OF f]
  from read_server_frame [OF E c str f, of to] obtain k where
    k: "read_frame E to c = Some (if \<not> sf_fin f \<and> sf_op f = Op_close then Err (frame_error Msg_fragmented_close)
          else Ok (sf_frame f), c\<lparr>cl_socket := k\<rparr>)" "bs_ready inv k"
      "\<not> (\<not> sf_fin f \<and> sf_op f = Op_close) \<longrightarrow> bs_stream pend k = sf_payload f @ rest" by auto
  let ?c = "c\<lparr>cl_socket := k\<rparr>"
  have rel': "related inv m st (b, ?c)" using rel k(2) by (rule related_socket)
  show ?thesis
  proof (cases "\<not> sf_fin f \<and> sf_op f = Op_close")
    case True
    then have "on_snd (read_frame E to) (b, c) = Some (Err (frame_error Msg_fragmented_close), (b, ?c))"
      using k(1) by (simp add: on_snd_Some)
    moreover have "receive m st (f # fs) = Some rejected" for fs
      using True by (simp add: receive_control_def is_reserved_iff)
    ultimately show ?thesis
      using frame_error_rejected [of Msg_fragmented_close]
      by (auto simp: read_message_round_def ws_try_simps(2) [of "on_snd _"] round_outcome_def)
  next
    case False
    then have rd: "on_snd (read_frame E to) (b, c) = Some (Ok (sf_frame f), (b, ?c))"
      and str': "cl_stream pend ?c = sf_payload f @ rest"
      using k by (auto simp: on_snd_Some cl_stream_def)
    consider (res) "is_reserved (sf_op f)" | (ctl) "sf_op f \<in> {Op_close, Op_ping, Op_pong}"
      | (data) "sf_op f \<in> {Op_continuation, Op_text, Op_binary}"
      using f by (auto simp: is_reserved_iff sf_wf_def)
    then show ?thesis
    proof cases
      case res
      then have "round_outcome m st f rest (Err (client_error (Msg_reserved_opcode (opcode_number (sf_op f))) cc_protocol_error)) (b, ?c)"
        by (simp add: round_outcome_def rejected_def client_error_def)
      with rd res show ?thesis
        by (simp add: read_message_round_def ws_try_simps(1) [of "on_snd _"] Let_def acc)
    next
      case ctl
      have "cl_ready inv ?c" using rel' by (simp add: related_def receiver_def)
      note h = handle_control_live [OF E this str' f ctl, of to st]
      from h [of "[]"] obtain r k' where
        r: "handle_control_frame E (sf_frame f) to ?c = Some (r, ?c\<lparr>cl_socket := k'\<rparr>)" by blast
      have o: "control_outcome (receive_control st f fs) k f st fs r k'" for fs
        using h [of fs] r by (auto dest: arg_cong [where f = cl_socket])
      have spec: "receive m st (f # fs) = Some (receive_control st f fs)" for fs
        using ctl by (auto simp: is_reserved_iff)
      have "round_outcome m st f rest (res_try r (\<lambda>x. Ok (Got x))) (b, ?c\<lparr>cl_socket := k'\<rparr>)"
      proof (cases r)
        case (Err e)
        with o spec show ?thesis by (simp add: control_outcome_def refuses_def round_outcome_def)
      next
        case (Ok x)
        with o [of "[]"] obtain cf where cf: "x = control_result (sf_op f) cf" "carries (sf_payload f) cf"
          "consumes (sf_payload f) k k'" by (auto simp: control_outcome_def refuses_def)
        have "related inv m st (b, ?c\<lparr>cl_socket := k'\<rparr>)"
          using related_socket [OF rel, of k'] cf(3) by (simp add: consumes_def)
        moreover have "cl_stream pend (?c\<lparr>cl_socket := k'\<rparr>) = rest"
          using cf(3) str' by (simp add: consumes_def cl_stream_def)
        ultimately show ?thesis
          using Ok cf o spec by (auto simp: control_outcome_def refuses_def round_outcome_def)
      next
        case Abort
        with o [of "[]"] show ?thesis by (simp add: control_outcome_def refuses_def)
      qed
      moreover have "\<not> is_reserved (sf_op f)" "is_control (sf_header f)"
        using ctl by (auto simp: is_control_iff is_reserved_iff acc)
      moreover have "on_snd (handle_control_frame E (sf_frame f) to) (b, ?c) = Some (r, (b, ?c\<lparr>cl_socket := k'\<rparr>))"
        using r by (simp add: on_snd_Some)
      ultimately show ?thesis
        using rd by (cases r) (simp_all add: read_message_round_def Let_def acc ws_try_simps(1) [of "on_snd _"]
            ws_try_simps(2) [of "on_snd _"] ws_try_simps(3) [of "on_snd _"])
    next
      case data
      then have nc: "\<not> is_control (sf_header f)" "\<not> is_reserved (sf_op f)"
        by (auto simp: is_control_iff is_reserved_iff acc)
      from data_round [OF E A rel' str' f data, of to] rd nc show ?thesis
        by (simp add: read_message_round_def ws_try_simps(1) [of "on_snd _"] Let_def acc)
    qed
  qed
qed

end

subsection \<open>The loop, and completing the message\<close>

context delivering_socket
begin

definition loop_outcome ::
  "nat \<Rightarrow> byte list \<Rightarrow> outcome \<Rightarrow> read_result option ws_result \<Rightarrow> buffer \<times> ('a, 'g, 'z) client \<Rightarrow> bool"
where
  "loop_outcome m rest out r s' \<longleftrightarrow>
     (\<exists>e. r = Err e \<and> out = Rejected (err_code e) (close_with_code e)) \<or>
     (\<exists>op p st' fs' cf. out = Control op p st' fs' \<and> r = Ok (Some (control_result op cf)) \<and> carries p cf \<and>
        related inv m st' s' \<and> cl_stream pend (snd s') = concat (map sf_bytes fs') @ rest) \<or>
     (\<exists>op d fs'. out = complete op d fs' \<and> r = Ok None \<and> related inv m (Some (op, d)) s' \<and>
        cl_stream pend (snd s') = concat (map sf_bytes fs') @ rest)"

lemma loop_live:
  assumes E: "e_transport E = T" and A: "\<forall>n. e_alloc E n \<noteq> None" and to: "started T inv to"
  shows "related inv m st (b, c) \<Longrightarrow> cl_stream pend c = concat (map sf_bytes fs) @ rest \<Longrightarrow>
    \<forall>f \<in> set fs. sf_wf f \<Longrightarrow> receive m st fs = Some out \<Longrightarrow>
    \<exists>r s'. read_message_loop E to (b, c) = Some (r, s') \<and> loop_outcome m rest out r s'"
proof (induction fs arbitrary: st b c)
  case Nil
  then show ?case by simp
next
  case (Cons f fs)
  have c: "cl_ready inv c" using Cons.prems(1) by (simp add: related_def receiver_def)
  from check_expired_live [OF E c to] obtain k where
    k: "check_expired E to c = Some (Ok False, c\<lparr>cl_socket := k\<rparr>)" "consumes [] (cl_socket c) k" by blast
  let ?c = "c\<lparr>cl_socket := k\<rparr>"
  have e: "on_snd (check_expired E to) (b, c) = Some (Ok False, (b, ?c))" using k(1) by (simp add: on_snd_Some)
  have rel: "related inv m st (b, ?c)"
    using related_socket [OF Cons.prems(1), of k] k(2) by (simp add: consumes_def)
  have str: "cl_stream pend ?c = sf_bytes f @ (concat (map sf_bytes fs) @ rest)"
    using Cons.prems(2) k(2) by (simp add: consumes_def cl_stream_def)
  have f: "sf_wf f" using Cons.prems(3) by simp
  from round_live [OF E A rel str f, of to] obtain r s' where
    r: "read_message_round E to (b, ?c) = Some (r, s')"
      "round_outcome m st f (concat (map sf_bytes fs) @ rest) r s'" by blast
  have unf: "read_message_loop E to (b, c) =
      ws_try (read_message_round E to)
        (\<lambda>r s. case r of Got x \<Rightarrow> Some (Ok (Some x), s) | Last_frame \<Rightarrow> Some (Ok None, s)
                       | More_frames \<Rightarrow> read_message_loop E to s) (b, ?c)"
    by (subst read_message_loop.simps) (simp add: ws_try_simps(1) [of "on_snd _", OF e])
  from r(2) consider
      (err) e where "r = Err e" "out = Rejected (err_code e) (close_with_code e)"
    | (ctl) cf where "r = Ok (Got (control_result (sf_op f) cf))" "carries (sf_payload f) cf"
        "out = Control (sf_op f) (sf_payload f) st fs" "related inv m st s'"
        "cl_stream pend (snd s') = concat (map sf_bytes fs) @ rest"
    | (last) op d where "r = Ok Last_frame" "out = complete op d fs" "related inv m (Some (op, d)) s'"
        "cl_stream pend (snd s') = concat (map sf_bytes fs) @ rest"
    | (more) op d where "r = Ok More_frames" "receive m (Some (op, d)) fs = Some out"
        "related inv m (Some (op, d)) s'" "cl_stream pend (snd s') = concat (map sf_bytes fs) @ rest"
    using Cons.prems(4) unfolding round_outcome_def by (cases "sf_fin f") auto
  then show ?case
  proof cases
    case err
    with r(1) unf show ?thesis by (simp add: ws_try_simps(2) [of "read_message_round _ _"] loop_outcome_def)
  next
    case ctl
    with r(1) unf show ?thesis
      by (auto simp: ws_try_simps(1) [of "read_message_round _ _"] loop_outcome_def)
  next
    case last
    with r(1) unf show ?thesis
      by (auto simp: ws_try_simps(1) [of "read_message_round _ _"] loop_outcome_def)
  next
    case more
    obtain b' c' where s': "s' = (b', c')" by fastforce
    have "\<forall>f \<in> set fs. sf_wf f" using Cons.prems(3) by simp
    from Cons.IH [OF more(3) [unfolded s'] _ this more(2)] more(4) s' show ?thesis
      using r(1) unf more(1) by (simp add: ws_try_simps(1) [of "read_message_round _ _"])
  qed
qed

text \<open>A delivered message: the verdict, and the state for the next call.\<close>

definition delivered ::
  "nat \<Rightarrow> byte list \<Rightarrow> outcome \<Rightarrow> read_result ws_result \<Rightarrow> buffer \<times> ('a, 'g, 'z) client \<Rightarrow> bool"
where
  "delivered m rest out r s' \<longleftrightarrow>
     (case out of
        Rejected code cc \<Rightarrow> (\<exists>e. r = Err e \<and> err_code e = code \<and> close_with_code e = cc)
      | Control op p st' fs' \<Rightarrow>
          (\<exists>cf. r = Ok (control_result op cf) \<and> payload_bytes cf = p) \<and>
          related inv m st' s' \<and> cl_stream pend (snd s') = concat (map sf_bytes fs') @ rest
      | Complete op d fs' \<Rightarrow>
          (\<exists>msg. r = Ok (Rd_message msg) \<and> message_opcode (msg_type msg) = op \<and> msg_data msg = d) \<and>
          related inv m None s' \<and> cl_stream pend (snd s') = concat (map sf_bytes fs') @ rest)"

lemma finish_live:
  assumes E: "e_transport E = T" and to: "started T inv to"
    and rel: "related inv m (Some (op, d)) (b, c)" and str: "cl_stream pend c = concat (map sf_bytes fs) @ rest"
  shows "\<exists>r s'. finish_message E to (b, c) = Some (r, s') \<and> delivered m rest (complete op d fs) r s'"
proof -
  have c: "cl_ready inv c" and rs: "\<not> rs_is_compressed (cl_read_state c)" "rs_op_code (cl_read_state c) = op"
      "buffer_data b = d" "op \<in> {Op_continuation, Op_text, Op_binary}"
    using rel by (simp_all add: related_def receiver_def reading_def)
  from check_expired_live [OF E c to] obtain k where
    k: "check_expired E to c = Some (Ok False, c\<lparr>cl_socket := k\<rparr>)" "consumes [] (cl_socket c) k" by blast
  let ?c = "c\<lparr>cl_socket := k\<rparr>"
  have e: "on_snd (check_expired E to) (b, c) = Some (Ok False, (b, ?c))" using k(1) by (simp add: on_snd_Some)
  have len: "length d < 2 ^ 31 - 3"
    using rel rs(3) buf_ok_len [of b] by (auto simp: related_def receiver_def)
  have next_ok: "related inv m None (b, set_read_state read_state_reset ?c)"
      "cl_stream pend (set_read_state read_state_reset ?c) = concat (map sf_bytes fs) @ rest"
    using rel k(2) str by (simp_all add: related_def receiver_def reading_def set_read_state_def cl_defs
        read_state_reset_def consumes_def)
  have skip: "ws_try (\<lambda>s. if rs_is_compressed (cl_read_state (snd s)) then decompress_message E s
      else ws_return () s) K (b, ?c) = K () (b, ?c)"
    for K :: "unit \<Rightarrow> (buffer \<times> ('a, 'b, 'c) client, read_result) ws"
    using rs(1) by (simp add: ws_try_def)
  show ?thesis
    using rs next_ok valid_utf8_text [OF len]
    by (auto simp: finish_message_def ws_try_simps(1) [of "on_snd _", OF e] skip Let_def deliver_def delivered_def complete_def rejected_def client_error_def)
qed

lemma read_message_live:
  assumes E: "e_transport E = T" and A: "\<forall>n. e_alloc E n \<noteq> None" and ms: "0 < ms" and time: "in_time T inv ms"
    and rel: "related inv m st (b, c)" and str: "cl_stream pend c = concat (map sf_bytes fs) @ rest"
    and wf: "\<forall>f \<in> set fs. sf_wf f" and spec: "receive m st fs = Some out"
  shows "\<exists>r s'. read_message E ms (b, c) = Some (r, s') \<and> delivered m rest out r s'"
proof -
  have c: "cl_ready inv c" and o: "\<not> cl_closed c" using rel by (simp_all add: related_def receiver_def)
  from start_timeout_live [OF E c ms time] obtain to k where
    k: "start_timeout E ms c = Some (Ok to, c\<lparr>cl_socket := k\<rparr>)" "consumes [] (cl_socket c) k" "started T inv to"
    by blast
  let ?c = "c\<lparr>cl_socket := k\<rparr>"
  have s: "on_snd (start_timeout E ms) (b, c) = Some (Ok to, (b, ?c))" using k(1) by (simp add: on_snd_Some)
  have "related inv m st (b, ?c)" using related_socket [OF rel, of k] k(2) by (simp add: consumes_def)
  moreover have "cl_stream pend ?c = concat (map sf_bytes fs) @ rest"
    using str k(2) by (simp add: consumes_def cl_stream_def)
  ultimately obtain r s' where
    l: "read_message_loop E to (b, ?c) = Some (r, s')" "loop_outcome m rest out r s'"
    using loop_live [OF E A k(3) _ _ wf spec] by blast
  have unf: "read_message E ms (b, c) = ws_try (read_message_loop E to)
      (\<lambda>r. case r of Some x \<Rightarrow> ws_return x | None \<Rightarrow> finish_message E to) (b, ?c)"
    using o by (simp add: read_message_def ws_try_simps(1) [of "on_snd _", OF s])
  from l(2) show ?thesis unfolding loop_outcome_def
  proof (elim disjE exE conjE)
    fix e assume "r = Err e" "out = Rejected (err_code e) (close_with_code e)"
    with l(1) unf show ?thesis by (simp add: ws_try_simps(2) [of "read_message_loop _ _"] delivered_def)
  next
    fix op p st' fs' cf
    assume "out = Control op p st' fs'" "r = Ok (Some (control_result op cf))" "carries p cf"
      "related inv m st' s'" "cl_stream pend (snd s') = concat (map sf_bytes fs') @ rest"
    with l(1) unf show ?thesis
      by (auto simp: ws_try_simps(1) [of "read_message_loop _ _"] delivered_def carries_payload)
  next
    fix op d fs'
    assume o: "out = complete op d fs'" and r: "r = Ok None" and s': "related inv m (Some (op, d)) s'"
      "cl_stream pend (snd s') = concat (map sf_bytes fs') @ rest"
    obtain b' c' where p: "s' = (b', c')" by fastforce
    from finish_live [OF E k(3) s'(1) [unfolded p]] s'(2) p l(1) unf r o show ?thesis
      by (simp add: ws_try_simps(1) [of "read_message_loop _ _"])
  qed
qed

end

subsection \<open>Refinement\<close>

text \<open>
  C1: In a session without compression \<open>read_message\<close> implements the abstract receiver, as long as the
  deadline is not reached and memory can be allocated, and with a limit on the message size below
  \<open>2 ^ 31 - 3\<close>. On a stream of whole server frames (unmasked, with the bits RSV2 and RSV3 clear), cut into
  chunks in any way, a call returns what the receiver says about these frames: the reassembled message
  (with its opcode, and only when a text message is UTF-8), or the first control frame with its
  payload, leaving the unread frames in the stream and the partial message in the state so that the
  next call goes on with it; or an error with the receiver's error code and close code, for every
  reserved opcode, misplaced or missing continuation, RSV1 bit, oversized message, malformed control
  or close frame.
\<close>

theorem read_message_refines:
  assumes "delivering_socket (e_transport E) I pend sent" and "\<forall>n. e_alloc E n \<noteq> None"
    and "0 < ms" and "in_time (e_transport E) I ms"
    and "related I m st (b, c)" and "cl_stream pend c = concat (map sf_bytes fs) @ rest"
    and "\<forall>f \<in> set fs. sf_wf f" and "receive m st fs = Some out"
  shows "\<exists>r s'. read_message E ms (b, c) = Some (r, s') \<and>
     (case out of
        Rejected code cc \<Rightarrow> (\<exists>e. r = Err e \<and> err_code e = code \<and> close_with_code e = cc)
      | Control op p st' fs' \<Rightarrow>
          (\<exists>cf. r = Ok (control_result op cf) \<and> payload_bytes cf = p) \<and>
          related I m st' s' \<and> cl_stream pend (snd s') = concat (map sf_bytes fs') @ rest
      | Complete op d fs' \<Rightarrow>
          (\<exists>msg. r = Ok (Rd_message msg) \<and> message_opcode (msg_type msg) = op \<and> msg_data msg = d) \<and>
          related I m None s' \<and> cl_stream pend (snd s') = concat (map sf_bytes fs') @ rest)"
  using delivering_socket.read_message_live [OF assms(1) refl assms(2-8)]
  unfolding delivering_socket.delivered_def [OF assms(1)] .

text \<open>The frames of the witness: a fragmented text message with a ping between the fragments.\<close>

definition demo_frames :: "server_frame list" where
  "demo_frames =
     [\<lparr>sf_fin = False, sf_rsv1 = False, sf_op = Op_text, sf_payload = [72, 101]\<rparr>,
      \<lparr>sf_fin = True, sf_rsv1 = False, sf_op = Op_ping, sf_payload = [7]\<rparr>,
      \<lparr>sf_fin = True, sf_rsv1 = False, sf_op = Op_continuation, sf_payload = [108, 108, 111]\<rparr>]"

lemma utf8_text_ascii: "\<forall>x \<in> set bs. unat x < 128 \<Longrightarrow> utf8_text bs"
  unfolding utf8_text_def
  by (rule exI [of _ "map unat bs"], induction bs)
    (auto simp: utf8_encode_def utf8_units_def scalar_value_def)

lemma demo_receiver:
  "\<exists>b c. related (\<lambda>_. True) 1000 None (b, c :: (script, mask_key, token_state) client) \<and>
     cl_stream sc_in c = concat (map sf_bytes demo_frames) @ [0x81] \<and> length (cl_write_buffer c) = 128"
proof -
  let ?k = "\<lparr>sc_in = concat (map sf_bytes demo_frames) @ [0x81], sc_out = [], sc_chunks = [1, 9, 2], sc_closed = False\<rparr>"
  let ?b = "\<lparr>buf_max_size = 1000, buf_capacity = 0, buf_used = 0, buf_mem = None\<rparr>"
  obtain c0 where c0: "cl_ready (\<lambda>_. True) (c0 :: (script, mask_key, token_state) client)" "cl_stream sc_in c0 = sc_in ?k"
      "cl_pmd_ctx c0 = None" "cl_read_state c0 = read_state_reset" "length (cl_write_buffer c0) = 128"
    using script_client [of ?k] by blast
  have "related (\<lambda>_. True) 1000 None (?b, c0\<lparr>cl_closed := False\<rparr>)"
    using c0 buf_empty_ok [of 1000]
    by (simp add: related_def receiver_def reading_def cl_ready_def read_state_reset_def)
  with c0 show ?thesis
    by (intro exI [of _ ?b] exI [of _ "c0\<lparr>cl_closed := False\<rparr>"]) (simp add: cl_stream_def)
qed

lemma script_in_time: "in_time script_socket (\<lambda>_. True) 5000"
  by (auto simp: in_time_def script_socket_def ns_per_ms_def intro: exI [of _ 0])

lemma demo_wf: "\<forall>f \<in> set demo_frames. sf_wf f"
  by (simp add: demo_frames_def sf_wf_def)

lemma demo_spec:
  "receive 1000 None demo_frames = Some (Control Op_ping [7] (Some (Op_text, [72, 101])) (drop 2 demo_frames))"
  "receive 1000 (Some (Op_text, [72, 101])) (drop 2 demo_frames) = Some (Complete Op_text [72, 101, 108, 108, 111] [])"
proof -
  show "receive 1000 None demo_frames = Some (Control Op_ping [7] (Some (Op_text, [72, 101])) (drop 2 demo_frames))"
    by (simp add: demo_frames_def is_reserved_iff receive_control_def)
  have "utf8_text [72, 101, 108, 108, 111]" by (rule utf8_text_ascii) simp
  then show "receive 1000 (Some (Op_text, [72, 101])) (drop 2 demo_frames) = Some (Complete Op_text [72, 101, 108, 108, 111] [])"
    by (simp add: demo_frames_def is_reserved_iff complete_def)
qed

theorem read_message_refines_witness:
  "\<exists>b (c :: (script, mask_key, token_state) client) f s1 msg s2.
     cl_stream sc_in c = concat (map sf_bytes demo_frames) @ [0x81] \<and>
     read_message script_env 5000 (b, c) = Some (Ok (Rd_ping f), s1) \<and> payload_bytes f = [7] \<and>
     read_message script_env 5000 s1 = Some (Ok (Rd_message msg), s2) \<and>
     msg_data msg = [72, 101, 108, 108, 111] \<and> cl_stream sc_in (snd s2) = [0x81]"
proof -
  let ?I = "\<lambda>_ :: script. True" and ?d = "Some (Op_text, [72, 101 :: byte])"
  obtain b c where rel: "related ?I 1000 None (b, c :: (script, mask_key, token_state) client)"
    and str: "cl_stream sc_in c = concat (map sf_bytes demo_frames) @ [0x81]"
    using demo_receiver by blast
  have live: "delivering_socket (e_transport script_env) ?I sc_in sc_out" by (simp add: script.delivering_socket_axioms)
  have alloc: "\<forall>n. e_alloc script_env n \<noteq> None" and ms: "(0 :: int) < 5000" by simp_all
  have time: "in_time (e_transport script_env) ?I 5000" by (simp add: script_in_time)
  obtain r s1 where s1: "read_message script_env 5000 (b, c) = Some (r, s1)"
      "\<exists>cf. r = Ok (control_result Op_ping cf) \<and> payload_bytes cf = [7]" "related ?I 1000 ?d s1"
      "cl_stream sc_in (snd s1) = concat (map sf_bytes (drop 2 demo_frames)) @ [0x81]"
    using read_message_refines [OF live alloc ms time rel str demo_wf demo_spec(1), unfolded outcome.case] by blast
  have wf2: "\<forall>f \<in> set (drop 2 demo_frames). sf_wf f" by (simp add: demo_frames_def sf_wf_def)
  obtain r2 s2 where s2: "read_message script_env 5000 s1 = Some (r2, s2)"
      "\<exists>msg. r2 = Ok (Rd_message msg) \<and> message_opcode (msg_type msg) = Op_text \<and>
         msg_data msg = [72, 101, 108, 108, 111]" "cl_stream sc_in (snd s2) = [0x81]"
    using read_message_refines [OF live alloc ms time _ _ wf2 demo_spec(2), unfolded outcome.case, of "fst s1" "snd s1" "[0x81]"]
      s1(3,4) unfolding prod.collapse by auto
  from s1(2) obtain cf where "r = Ok (Rd_ping cf)" "payload_bytes cf = [7]" by (auto simp: control_result_def)
  with str s1(1) s2 show ?thesis by blast
qed

end
