(* ===== verification/Async_Socket.thy ===== *)
theory Async_Socket
  imports Buffered_Socket
begin

section \<open>The buffered socket of coroutines (BufferedSocketAsync.hpp)\<close>

text \<open>
  \<open>BufferedSocketAsync\<close> has the operations of \<open>BufferedSocket\<close> as coroutines: a \<open>co_await\<close> on the
  transport suspends, and other coroutines of the program may run before the operation goes on. The
  coroutines share a state \<open>'c\<close>, of which the buffered socket is a part; a \<open>host\<close> says which part, and
  what the other coroutines do to the shared state during a suspension (\<open>h_resume\<close>). A coroutine's own
  memory \<open>'m\<close> is out of their reach. The operations of the transport are those of \<open>transport\<close>; the
  awaitable ones are \<open>read_some\<close>, \<open>write_some\<close>, \<open>shutdown\<close> and \<open>close\<close>.

  A \<open>std::span\<close> is a place, not a value: other coroutines may write to it during a suspension, or free
  the memory it points to. So it is a size with access functions on the state, which give \<open>None\<close> when
  the memory is gone; using it then is \<open>Abort\<close>. \<open>WS_CO_TRY\<close> and \<open>WS_CO_TRYV\<close> (\<open>errors_async.hpp\<close>) are
  \<open>ws_try\<close>.
\<close>

record ('c, 's) host =
  h_get :: "'c \<Rightarrow> 's bsock"
  h_put :: "'s bsock \<Rightarrow> 'c \<Rightarrow> 'c"
  h_resume :: "'c \<Rightarrow> 'c"

record 'c place =
  pl_size :: nat
  pl_bytes :: "'c \<Rightarrow> byte list option"
  pl_store :: "nat \<Rightarrow> byte list \<Rightarrow> 'c \<Rightarrow> 'c option"

definition on_buffered :: "('c, 's) host \<Rightarrow> ('s bsock, 'r) ws \<Rightarrow> ('c, 'r) ws" where
  "on_buffered H = on_part (h_get H) (h_put H)"

text \<open>The operation takes place, and then whatever other coroutines do until this one is resumed.\<close>

definition co_await :: "('c, 's) host \<Rightarrow> ('s bsock, 'r) ws \<Rightarrow> ('c, 'r) ws" where
  "co_await H m c =
     (case on_buffered H m c of None \<Rightarrow> None | Some (r, c') \<Rightarrow> Some (r, h_resume H c'))"

text \<open>An array or a value of the coroutine itself, its whole memory.\<close>

definition local_place :: "nat \<Rightarrow> (byte list \<times> 'c) place" where
  "local_place n =
     \<lparr>pl_size = n, pl_bytes = (\<lambda>s. Some (fst s)), pl_store = (\<lambda>off xs s. Some (blit off xs (fst s), snd s))\<rparr>"

subsection \<open>Operations\<close>

definition bsa_can_read :: "('s, bool) ws \<Rightarrow> ('s bsock, bool) ws" where
  "bsa_can_read can_read s =
     (if \<not> cb_empty (bs_ring s) then Some (Ok True, s) else on_socket can_read s)"

text \<open>Reading straight into the ring: the bytes arrive in the span at \<open>off\<close> before the resumption.\<close>

definition read_into :: "'s transport \<Rightarrow> nat \<Rightarrow> nat \<Rightarrow> timeout \<Rightarrow> ('s bsock, nat) ws" where
  "read_into T off n to =
     ws_try (on_socket (tr_read_some T n to)) (\<lambda>xs. on_ring (\<lambda>r. (Ok (length xs), cb_store off xs r)))"

definition co_fill_read_buffer :: "('c, 's) host \<Rightarrow> 's transport \<Rightarrow> nat \<Rightarrow> timeout \<Rightarrow> ('c, nat) ws" where
  "co_fill_read_buffer H T desired_bytes to c =
     (if \<not> desired_bytes > 0 then Some (Abort, c)
      else if cb_size (bs_ring (h_get H c)) \<ge> desired_bytes then Some (Ok desired_bytes, c)
      else let (off, n) = cb_available_span (bs_ring (h_get H c))
           in ws_try (co_await H (read_into T off n to))
                (\<lambda>n_read. ws_try (on_buffered H (on_ring (cb_move_head n_read)))
                  (\<lambda>_ c. let sz = cb_size (bs_ring (h_get H c))
                    in Some (Ok (if sz < desired_bytes then sz else desired_bytes), c))) c)"

definition store_bytes :: "'c place \<Rightarrow> nat \<Rightarrow> byte list \<Rightarrow> ('c, unit) ws" where
  "store_bytes p off xs s =
     (case pl_store p off xs s of None \<Rightarrow> Some (Abort, s) | Some s' \<Rightarrow> Some (Ok (), s'))"

definition co_read_exact_step ::
  "('c, 's) host \<Rightarrow> 's transport \<Rightarrow> ('m \<times> 'c) place \<Rightarrow> timeout \<Rightarrow> nat \<Rightarrow> nat \<Rightarrow> ('m \<times> 'c, nat) ws" where
  "co_read_exact_step H T p to total_read rest_len =
     ws_try (on_snd (co_fill_read_buffer H T rest_len to))
       (\<lambda>read_bytes. ws_try (on_snd (on_buffered H (on_ring (cb_pop read_bytes))))
         (\<lambda>xs. ws_try (store_bytes p total_read xs) (\<lambda>_. ws_return read_bytes)))"

partial_function (option) co_read_exact_loop ::
  "('c, 's) host \<Rightarrow> 's transport \<Rightarrow> ('m \<times> 'c) place \<Rightarrow> timeout \<Rightarrow> nat \<Rightarrow> nat \<Rightarrow> 'm \<times> 'c \<Rightarrow>
     (nat ws_result \<times> 'm \<times> 'c) option"
where
  "co_read_exact_loop H T p to total_read rest_len s =
     (if rest_len > 0
      then ws_try (co_read_exact_step H T p to total_read rest_len)
             (\<lambda>k. co_read_exact_loop H T p to (total_read + k) (rest_len - k)) s
      else Some (Ok total_read, s))"

definition co_read_exact ::
  "('c, 's) host \<Rightarrow> 's transport \<Rightarrow> ('m \<times> 'c) place \<Rightarrow> timeout \<Rightarrow> ('m \<times> 'c, nat) ws" where
  "co_read_exact H T p to = co_read_exact_loop H T p to 0 (pl_size p)"

text \<open>\<open>read_until\<close> works on a buffer of its caller, next to the shared state.\<close>

definition co_read_until_search ::
  "('c, 's) host \<Rightarrow> allocator \<Rightarrow> byte list \<Rightarrow> nat \<Rightarrow> (buffer \<times> 'c, bool) ws" where
  "co_read_until_search H A delim search_offset s =
     (let data = buffer_data (fst s);
          search_start = search_offset - min search_offset (length delim - 1)
      in case find_sub delim (drop search_start data) of
           None \<Rightarrow> Some (Ok False, s)
         | Some i \<Rightarrow>
             (let res = search_start + i
              in ws_try (on_snd (on_buffered H (on_ring (cb_push (drop res data)))))
                   (\<lambda>_. ws_try (on_fst (ws_total (buffer_resize A (word_of_nat res))))
                     (\<lambda>_ s. Some (Ok True, s))) s))"

definition co_read_until_step ::
  "('c, 's) host \<Rightarrow> 's transport \<Rightarrow> allocator \<Rightarrow> byte list \<Rightarrow> timeout \<Rightarrow> nat \<Rightarrow> (buffer \<times> 'c, bool) ws" where
  "co_read_until_step H T A delim to search_offset s =
     ws_try (on_snd (co_fill_read_buffer H T (cb_capacity (bs_ring (h_get H (snd s)))) to))
       (\<lambda>_ s. ws_try (on_fst (ws_total (buffer_append_n A (word_of_nat (cb_size (bs_ring (h_get H (snd s))))))))
         (\<lambda>(off, len). ws_try (on_snd (on_buffered H (on_ring (cb_pop len))))
           (\<lambda>xs. ws_try (on_fst (ws_total (buffer_fill off xs)))
             (\<lambda>_. co_read_until_search H A delim search_offset))) s) s"

partial_function (option) co_read_until_loop ::
  "('c, 's) host \<Rightarrow> 's transport \<Rightarrow> allocator \<Rightarrow> byte list \<Rightarrow> timeout \<Rightarrow> nat \<Rightarrow> buffer \<times> 'c \<Rightarrow>
     (unit ws_result \<times> buffer \<times> 'c) option"
where
  "co_read_until_loop H T A delim to search_offset s =
     ws_try (co_read_until_step H T A delim to search_offset)
       (\<lambda>found s. if found then Some (Ok (), s)
                  else co_read_until_loop H T A delim to (unat (buf_used (fst s))) s) s"

definition co_read_until ::
  "('c, 's) host \<Rightarrow> 's transport \<Rightarrow> allocator \<Rightarrow> byte list \<Rightarrow> timeout \<Rightarrow> (buffer \<times> 'c, unit) ws" where
  "co_read_until H T A delim to = co_read_until_loop H T A delim to 0"

text \<open>
  \<open>write\<close> refuses a transport that accepts nothing. (The branch for a negative result, which compares
  an unsigned number with zero, is dead.) The bytes are those in the span at the time of each call.
\<close>

definition peer_closed :: ws_error where
  "peer_closed = WSError Connection_closed (Transport_msg (Msg_text ''Socket closed by peer'')) not_set"

definition co_write_step ::
  "('c, 's) host \<Rightarrow> 's transport \<Rightarrow> ('m \<times> 'c) place \<Rightarrow> timeout \<Rightarrow> nat \<Rightarrow> nat \<Rightarrow> ('m \<times> 'c, nat) ws" where
  "co_write_step H T pl to p rest_len s =
     (case pl_bytes pl s of
        None \<Rightarrow> Some (Abort, s)
      | Some bs \<Rightarrow>
          ws_try (on_snd (co_await H (on_socket (tr_write_some T (subspan p rest_len bs) to))))
            (\<lambda>ret s. if ret = 0 then Some (Err peer_closed, s) else Some (Ok ret, s)) s)"

partial_function (option) co_write_loop ::
  "('c, 's) host \<Rightarrow> 's transport \<Rightarrow> ('m \<times> 'c) place \<Rightarrow> timeout \<Rightarrow> nat \<Rightarrow> nat \<Rightarrow> 'm \<times> 'c \<Rightarrow>
     (unit ws_result \<times> 'm \<times> 'c) option"
where
  "co_write_loop H T pl to p rest_len s =
     (if rest_len \<noteq> 0
      then ws_try (co_write_step H T pl to p rest_len)
             (\<lambda>ret. co_write_loop H T pl to (p + ret) (rest_len - ret)) s
      else Some (Ok (), s))"

definition co_write ::
  "('c, 's) host \<Rightarrow> 's transport \<Rightarrow> ('m \<times> 'c) place \<Rightarrow> timeout \<Rightarrow> ('m \<times> 'c, unit) ws" where
  "co_write H T pl to = co_write_loop H T pl to 0 (pl_size pl)"

declare co_read_exact_loop.simps [code] co_read_until_loop.simps [code] co_write_loop.simps [code]

end
