(* ===== verification/Async_Client.thy ===== *)
theory Async_Client
  imports Client Async_Socket
begin

section \<open>The asynchronous client (WebSocketClientAsync.hpp)\<close>

text \<open>
  \<open>WebSocketClientAsync\<close> has the fields of \<open>WebSocketClient\<close> and its functions as coroutines. The
  shared state of the coroutines is the client; \<open>R\<close> is what other coroutines do to it whenever this one
  is suspended. What a function does between two suspensions is the code of \<open>WebSocketClient\<close>, word for
  word, so those parts use its definitions; every function that suspends is modelled here. Memory of
  the coroutine and of its caller (local arrays, the message buffer, the payload) is the first
  component of the state; the write buffer and the buffers of \<open>permessage_deflate_ctx_\<close> are part of
  the client, where another coroutine may change or reallocate them.
\<close>

type_synonym ('s, 'g, 'z) others = "('s, 'g, 'z) client \<Rightarrow> ('s, 'g, 'z) client"

definition client_host :: "('s, 'g, 'z) others \<Rightarrow> (('s, 'g, 'z) client, 's) host" where
  "client_host R = \<lparr>h_get = cl_socket, h_put = (\<lambda>k c. c\<lparr>cl_socket := k\<rparr>), h_resume = R\<rparr>"

text \<open>\<open>n\<close> bytes of the write buffer from \<open>off\<close>.\<close>

definition write_buffer_place :: "nat \<Rightarrow> nat \<Rightarrow> ('m \<times> ('s, 'g, 'z) client) place" where
  "write_buffer_place off n =
     \<lparr>pl_size = n, pl_bytes = (\<lambda>s. Some (subspan off n (cl_write_buffer (snd s)))),
      pl_store = (\<lambda>i xs s. Some (fst s, put (off + i) xs (snd s)))\<rparr>"

text \<open>
  \<open>n\<close> bytes at \<open>off\<close> of the block at \<open>addr\<close>, which some \<open>Buffer\<close> owns. The span dangles when the buffer
  has another block (unless it is empty).
\<close>

definition block_place ::
  "('c \<Rightarrow> buffer option) \<Rightarrow> (buffer \<Rightarrow> 'c \<Rightarrow> 'c) \<Rightarrow> nat \<Rightarrow> nat \<Rightarrow> nat \<Rightarrow> 'c place" where
  "block_place get_buf put_buf addr off n =
     \<lparr>pl_size = n,
      pl_bytes = (\<lambda>s. if n = 0 then Some [] else case get_buf s of None \<Rightarrow> None | Some b \<Rightarrow>
        (case buf_mem b of None \<Rightarrow> None | Some (a, bs) \<Rightarrow>
           if a = addr \<and> off + n \<le> length bs then Some (subspan off n bs) else None)),
      pl_store = (\<lambda>i xs s. if xs = [] then Some s else case get_buf s of None \<Rightarrow> None | Some b \<Rightarrow>
        (case buf_mem b of None \<Rightarrow> None | Some (a, bs) \<Rightarrow>
           if a = addr \<and> off + i + length xs \<le> length bs
           then Some (put_buf (b\<lparr>buf_mem := Some (a, blit (off + i) xs bs)\<rparr>) s) else None))\<rparr>"

definition block_addr :: "buffer \<Rightarrow> nat" where
  "block_addr b = (case buf_mem b of None \<Rightarrow> 0 | Some (a, bs) \<Rightarrow> a)"

text \<open>The caller's message buffer, and the two buffers of the compression context.\<close>

definition message_buffer :: "buffer \<times> 'c \<Rightarrow> buffer option" where
  "message_buffer s = Some (fst s)"

definition set_message_buffer :: "buffer \<Rightarrow> buffer \<times> 'c \<Rightarrow> buffer \<times> 'c" where
  "set_message_buffer b s = (b, snd s)"

definition decompress_buffer :: "'m \<times> ('s, 'g, 'z) client \<Rightarrow> buffer option" where
  "decompress_buffer s = Option.bind (cl_pmd_ctx (snd s)) pc_decompress_buffer"

definition set_decompress_buffer :: "buffer \<Rightarrow> 'm \<times> ('s, 'g, 'z) client \<Rightarrow> 'm \<times> ('s, 'g, 'z) client" where
  "set_decompress_buffer b s =
     (fst s, (snd s)\<lparr>cl_pmd_ctx := map_option (\<lambda>x. x\<lparr>pc_decompress_buffer := Some b\<rparr>) (cl_pmd_ctx (snd s))\<rparr>)"

definition compress_buffer :: "'m \<times> ('s, 'g, 'z) client \<Rightarrow> buffer option" where
  "compress_buffer s = Option.bind (cl_pmd_ctx (snd s)) pc_compress_buffer"

definition set_compress_buffer :: "buffer \<Rightarrow> 'm \<times> ('s, 'g, 'z) client \<Rightarrow> 'm \<times> ('s, 'g, 'z) client" where
  "set_compress_buffer b s =
     (fst s, (snd s)\<lparr>cl_pmd_ctx := map_option (\<lambda>x. x\<lparr>pc_compress_buffer := Some b\<rparr>) (cl_pmd_ctx (snd s))\<rparr>)"

subsection \<open>Reading a frame\<close>

text \<open>A function that uses \<open>dest\<close> as its own memory, and its contents at the end.\<close>

definition with_local :: "'m \<Rightarrow> ('m \<times> 'c, 'r) ws \<Rightarrow> ('c, 'r \<times> 'm) ws" where
  "with_local m0 f c =
     (case f (m0, c) of
        None \<Rightarrow> None
      | Some (r, (m, c')) \<Rightarrow> Some (res_try r (\<lambda>v. Ok (v, m)), c'))"

definition co_read_span ::
  "('s, 'g, 'z) env \<Rightarrow> ('s, 'g, 'z) others \<Rightarrow> byte list \<Rightarrow> timeout \<Rightarrow> (('s, 'g, 'z) client, byte list) ws" where
  "co_read_span E R dest to =
     ws_try (with_local dest (co_read_exact (client_host R) (e_transport E) (local_place (length dest)) to))
       (\<lambda>(n, dest'). ws_return dest')"

definition co_read_array ::
  "('s, 'g, 'z) env \<Rightarrow> ('s, 'g, 'z) others \<Rightarrow> nat \<Rightarrow> timeout \<Rightarrow> (('s, 'g, 'z) client, byte list) ws" where
  "co_read_array E R n = co_read_span E R (map (e_junk E) [0..<n])"

definition co_read_payload_size ::
  "('s, 'g, 'z) env \<Rightarrow> ('s, 'g, 'z) others \<Rightarrow> u64 \<Rightarrow> timeout \<Rightarrow> (('s, 'g, 'z) client, u64) ws" where
  "co_read_payload_size E R payload_size to =
     (if payload_size \<le> 125 then ws_return payload_size
      else if payload_size = 126
      then ws_try (co_read_array E R 2 to)
             (\<lambda>tmp2. ws_return (ucast (network_to_host16 (e_endian E) (from_mem (e_endian E) tmp2))))
      else ws_try (co_read_array E R 8 to)
             (\<lambda>tmp3. ws_return (network_to_host64 (e_endian E) (from_mem (e_endian E) tmp3))))"

definition co_read_frame ::
  "('s, 'g, 'z) env \<Rightarrow> ('s, 'g, 'z) others \<Rightarrow> timeout \<Rightarrow> (('s, 'g, 'z) client, frame) ws" where
  "co_read_frame E R to =
     ws_try (co_read_array E R 2 to)
       (\<lambda>tmp1.
          let h = \<lparr>hdr_b0 = tmp1 ! 0, hdr_b1 = tmp1 ! 1\<rparr>
          in if \<not> is_final h \<and> op_code h = Op_close then ws_fail (frame_error Msg_fragmented_close)
             else ws_try (co_read_payload_size E R (get_basic_size h) to)
                    (\<lambda>sz. if is_masked h then ws_fail (frame_error Msg_masked_from_server)
                           else ws_return (frame_new\<lparr>fr_header := h, fr_payload_size := sz\<rparr>)))"

subsection \<open>Receiving\<close>

definition co_read_control_payload ::
  "('s, 'g, 'z) env \<Rightarrow> ('s, 'g, 'z) others \<Rightarrow> control_frame \<Rightarrow> timeout \<Rightarrow>
     (('s, 'g, 'z) client, control_frame) ws" where
  "co_read_control_payload E R f to =
     ws_try (co_read_span E R (payload_bytes f) to)
       (\<lambda>xs. ws_return (f\<lparr>cf_payload := blit 0 xs (cf_payload f)\<rparr>))"

definition co_handle_control_frame ::
  "('s, 'g, 'z) env \<Rightarrow> ('s, 'g, 'z) others \<Rightarrow> frame \<Rightarrow> timeout \<Rightarrow> (('s, 'g, 'z) client, read_result) ws" where
  "co_handle_control_frame E R frame to =
     (let h = fr_header frame; size = fr_payload_size frame; n = unat size
      in if \<not> is_final h then ws_fail (frame_error Msg_fragmented_control)
         else if has_rsv_bits h then ws_fail (frame_error Msg_control_rsv)
         else if size > 125 then ws_fail (frame_error (Msg_control_too_large n))
         else case op_code h of
           Op_close \<Rightarrow>
             (let f = close_frame_new (e_junk E) n
              in if size > 0
                 then if size = 1 then ws_fail (frame_error Msg_close_size_one)
                      else ws_try (co_read_control_payload E R f to)
                             (\<lambda>f. ws_try (ws_result (check_close_frame E f)) (\<lambda>_. ws_return (Rd_close f)))
                 else ws_return (Rd_close f))
         | Op_ping \<Rightarrow>
             (let f = ping_frame_new (e_junk E) n
              in if size > 0 then ws_try (co_read_control_payload E R f to) (\<lambda>f. ws_return (Rd_ping f))
                 else ws_return (Rd_ping f))
         | Op_pong \<Rightarrow>
             (let f = pong_frame_new (e_junk E) n
              in if size > 0 then ws_try (co_read_control_payload E R f to) (\<lambda>f. ws_return (Rd_pong f))
                 else ws_return (Rd_pong f))
         | _ \<Rightarrow> ws_fail (frame_error (Msg_unexpected_control_opcode (opcode_number (op_code h)))))"

text \<open>\<open>buffer.append(n)\<close>, then \<open>read_exact\<close> into the span.\<close>

definition co_read_appended ::
  "('s, 'g, 'z) env \<Rightarrow> ('s, 'g, 'z) others \<Rightarrow> ('m \<times> ('s, 'g, 'z) client \<Rightarrow> buffer option) \<Rightarrow>
     (buffer \<Rightarrow> 'm \<times> ('s, 'g, 'z) client \<Rightarrow> 'm \<times> ('s, 'g, 'z) client) \<Rightarrow> u64 \<Rightarrow> timeout \<Rightarrow>
     ('m \<times> ('s, 'g, 'z) client, unit) ws" where
  "co_read_appended E R get_buf put_buf n to s =
     (case get_buf s of
        None \<Rightarrow> Some (Abort, s)
      | Some b \<Rightarrow>
          (let (r, b) = buffer_append_n (e_alloc E) n b
           in ws_try (ws_result r)
                (\<lambda>(off, len) s.
                   if off + len > length (buf_block b) then Some (Abort, s)
                   else ws_try (co_read_exact (client_host R) (e_transport E)
                                  (block_place get_buf put_buf (block_addr b) off len) to)
                          (\<lambda>_. ws_return ()) s) (put_buf b s)))"

definition co_read_payload ::
  "('s, 'g, 'z) env \<Rightarrow> ('s, 'g, 'z) others \<Rightarrow> u64 \<Rightarrow> timeout \<Rightarrow> (buffer \<times> ('s, 'g, 'z) client, unit) ws" where
  "co_read_payload E R n to s =
     (if n > 0
      then if rs_is_compressed (cl_read_state (snd s))
           then co_read_appended E R decompress_buffer set_decompress_buffer n to s
           else co_read_appended E R message_buffer set_message_buffer n to s
      else Some (Ok (), s))"

definition co_read_message_round ::
  "('s, 'g, 'z) env \<Rightarrow> ('s, 'g, 'z) others \<Rightarrow> timeout \<Rightarrow> (buffer \<times> ('s, 'g, 'z) client, round_result) ws" where
  "co_read_message_round E R to =
     ws_try (on_snd (co_read_frame E R to))
       (\<lambda>f. let h = fr_header f
         in if is_reserved (op_code h)
            then ws_fail (client_error (Msg_reserved_opcode (opcode_number (op_code h))) cc_protocol_error)
            else if is_control h
            then ws_try (on_snd (co_handle_control_frame E R f to)) (\<lambda>r. ws_return (Got r))
            else ws_try (accept_data_frame f)
                   (\<lambda>_. ws_try (co_read_payload E R (fr_payload_size f) to)
                     (\<lambda>_. ws_return (if is_final h then Last_frame else More_frames))))"

partial_function (option) co_read_message_loop ::
  "('s, 'g, 'z) env \<Rightarrow> ('s, 'g, 'z) others \<Rightarrow> timeout \<Rightarrow> buffer \<times> ('s, 'g, 'z) client \<Rightarrow>
     (read_result option ws_result \<times> buffer \<times> ('s, 'g, 'z) client) option"
where
  "co_read_message_loop E R to s =
     ws_try (on_snd (check_expired E to))
       (\<lambda>expired s.
          if expired then Some (Ok None, s)
          else ws_try (co_read_message_round E R to)
                 (\<lambda>r s. case r of
                           Got x \<Rightarrow> Some (Ok (Some x), s)
                         | Last_frame \<Rightarrow> Some (Ok None, s)
                         | More_frames \<Rightarrow> co_read_message_loop E R to s) s) s"

declare co_read_message_loop.simps [code]

definition co_read_message ::
  "('s, 'g, 'z) env \<Rightarrow> ('s, 'g, 'z) others \<Rightarrow> int \<Rightarrow> (buffer \<times> ('s, 'g, 'z) client, read_result) ws" where
  "co_read_message E R ms s =
     (if cl_closed (snd s) then Some (Err closed_error, s)
      else ws_try (on_snd (start_timeout E ms))
             (\<lambda>to. ws_try (co_read_message_loop E R to)
               (\<lambda>r. case r of Some x \<Rightarrow> ws_return x | None \<Rightarrow> finish_message E to)) s)"

subsection \<open>Sending\<close>

text \<open>The payload is masked where it lies; both writes read their spans as they go.\<close>

definition co_write_frame ::
  "('s, 'g, 'z) env \<Rightarrow> ('s, 'g, 'z) others \<Rightarrow> frame \<Rightarrow> nat \<Rightarrow> ('m \<times> ('s, 'g, 'z) client) place \<Rightarrow> timeout \<Rightarrow>
     ('m \<times> ('s, 'g, 'z) client, unit) ws"
where
  "co_write_frame E R f ptr payload to =
     ws_try (on_snd (put_header E f))
       (\<lambda>offset s. case pl_bytes payload s of
          None \<Rightarrow> Some (Abort, s)
        | Some bs \<Rightarrow>
            ws_try (store_bytes payload 0 (mask_fn (e_endian E) (e_build E) ptr (fr_mask_key f) bs))
              (\<lambda>_. ws_try (co_write (client_host R) (e_transport E) (write_buffer_place 0 offset) to)
                (\<lambda>_. if fr_payload_size f > 0
                      then co_write (client_host R) (e_transport E) payload to
                      else ws_return ())) s)"

definition co_send_payload ::
  "('s, 'g, 'z) env \<Rightarrow> ('s, 'g, 'z) others \<Rightarrow> frame \<Rightarrow> nat \<Rightarrow> ('m \<times> ('s, 'g, 'z) client) place \<Rightarrow> int \<Rightarrow>
     ('m \<times> ('s, 'g, 'z) client, unit) ws" where
  "co_send_payload E R frame ptr payload ms =
     (let frame = set_payload_size (word_of_nat (pl_size payload)) frame
      in ws_try (on_snd (start_timeout E ms)) (\<lambda>to. co_write_frame E R frame ptr payload to))"

definition co_send_compressed ::
  "('s, 'g, 'z) env \<Rightarrow> ('s, 'g, 'z) others \<Rightarrow> frame \<Rightarrow> int \<Rightarrow> (byte list \<times> ('s, 'g, 'z) client, unit) ws" where
  "co_send_compressed E R frame ms s =
     (case cl_pmd_ctx (snd s) of
        None \<Rightarrow> Some (Abort, s)
      | Some x \<Rightarrow>
          (case pc_compress_buffer x of
             None \<Rightarrow> Some (Abort, s)
           | Some b \<Rightarrow>
               (case compress (e_zlib E) (e_alloc E) (fst s) (x\<lparr>pc_compress_buffer := Some (buffer_clear b)\<rparr>) of
                  None \<Rightarrow> None
                | Some (r, x) \<Rightarrow>
                    ws_try (ws_result r)
                      (\<lambda>(ptr, payload). co_send_payload E R frame ptr
                         (block_place compress_buffer set_compress_buffer ptr 0 (length payload)) ms)
                      (fst s, (snd s)\<lparr>cl_pmd_ctx := Some x\<rparr>))))"

definition co_send_message ::
  "('s, 'g, 'z) env \<Rightarrow> ('s, 'g, 'z) others \<Rightarrow> message_type \<Rightarrow> nat \<Rightarrow> send_options \<Rightarrow>
     (byte list \<times> ('s, 'g, 'z) client, unit) ws"
where
  "co_send_message E R type ptr options s =
     (if cl_closed (snd s) then Some (Err closed_error, s)
      else ws_try (on_snd (draw_mask_key E))
             (\<lambda>key s.
                let frame = (client_frame (message_opcode type))\<lparr>fr_mask_key := key\<rparr>
                in if cl_pmd_ctx (snd s) \<noteq> None \<and> opt_compress options
                   then co_send_compressed E R (set_is_compressed True frame) (opt_timeout options) s
                   else co_send_payload E R frame ptr (local_place (length (fst s))) (opt_timeout options) s) s)"

definition co_send_pong_frame ::
  "('s, 'g, 'z) env \<Rightarrow> ('s, 'g, 'z) others \<Rightarrow> nat \<Rightarrow> int \<Rightarrow> (byte list \<times> ('s, 'g, 'z) client, unit) ws"
where
  "co_send_pong_frame E R ptr ms s =
     (if cl_closed (snd s) then Some (Err closed_error, s)
      else let frame = set_payload_size (word_of_nat (length (fst s))) (client_frame Op_pong)
           in ws_try (on_snd (draw_mask_key E))
                (\<lambda>key. ws_try (on_snd (start_timeout E ms))
                  (\<lambda>to. co_write_frame E R (frame\<lparr>fr_mask_key := key\<rparr>) ptr (local_place (length (fst s))) to)) s)"

text \<open>The status code lies in the last bytes of the write buffer; without one the payload is empty.\<close>

definition co_send_close_frame ::
  "('s, 'g, 'z) env \<Rightarrow> ('s, 'g, 'z) others \<Rightarrow> close_code \<Rightarrow> timeout \<Rightarrow> (('s, 'g, 'z) client, unit) ws"
where
  "co_send_close_frame E R code to =
     ws_try (draw_mask_key E)
       (\<lambda>key c.
          let frame = (client_frame Op_close)\<lparr>fr_mask_key := key\<rparr>
          in ws_try
               (if code \<noteq> not_set
                then with_local () (ws_try
                  (on_snd (\<lambda>c. Some (Ok (), put 125 (mem_bytes (e_endian E) (host_to_network16 (e_endian E) code)) c)))
                  (\<lambda>_. co_write_frame E R (set_payload_size 2 frame) (cl_write_ptr c + 125)
                         (write_buffer_place 125 2) to))
                else ws_try (with_local [] (co_write_frame E R (set_payload_size 0 frame) 0 (local_place 0) to))
                       (\<lambda>_. ws_return ((), ())))
               (\<lambda>_. ws_return ()) c)"

subsection \<open>Closing\<close>

definition co_try_close_frame ::
  "('s, 'g, 'z) env \<Rightarrow> ('s, 'g, 'z) others \<Rightarrow> close_code \<Rightarrow> timeout \<Rightarrow> (('s, 'g, 'z) client, bool) ws" where
  "co_try_close_frame E R code to c =
     (if fails_connection code then Some (Ok True, c)
      else case co_send_close_frame E R code to c of
             None \<Rightarrow> None
           | Some (r, c) \<Rightarrow>
               (case r of Ok _ \<Rightarrow> Some (Ok False, c) | Err e \<Rightarrow> Some (Ok True, c) | Abort \<Rightarrow> Some (Abort, c)))"

definition co_shutdown_socket ::
  "('s, 'g, 'z) env \<Rightarrow> ('s, 'g, 'z) others \<Rightarrow> bool \<Rightarrow> timeout \<Rightarrow> (('s, 'g, 'z) client, unit) ws" where
  "co_shutdown_socket E R fail_conn to c =
     (case co_await (client_host R) (on_socket (tr_shutdown (e_transport E) fail_conn to)) c of
        None \<Rightarrow> None
      | Some (r, c) \<Rightarrow> Some (if r = Abort then Abort else Ok (), c))"

definition co_client_close ::
  "('s, 'g, 'z) env \<Rightarrow> ('s, 'g, 'z) others \<Rightarrow> close_code \<Rightarrow> int \<Rightarrow> (('s, 'g, 'z) client, unit) ws" where
  "co_client_close E R code ms c =
     (if cl_closed c then Some (Ok (), c)
      else ws_try (start_timeout E ms)
             (\<lambda>to. ws_try (co_try_close_frame E R code to)
               (\<lambda>fail_conn c.
                  let c = c\<lparr>cl_closed := True\<rparr>
                  in ws_try (co_shutdown_socket E R fail_conn to)
                       (\<lambda>_. co_await (client_host R) (on_socket (tr_close (e_transport E) fail_conn))) c)) c)"

subsection \<open>Opening a connection\<close>

definition co_write_bytes ::
  "('s, 'g, 'z) env \<Rightarrow> ('s, 'g, 'z) others \<Rightarrow> byte list \<Rightarrow> timeout \<Rightarrow> (('s, 'g, 'z) client, unit) ws" where
  "co_write_bytes E R xs to =
     ws_try (with_local xs (co_write (client_host R) (e_transport E) (local_place (length xs)) to))
       (\<lambda>_. ws_return ())"

definition co_read_response_head ::
  "('s, 'g, 'z) env \<Rightarrow> ('s, 'g, 'z) others \<Rightarrow> buffer \<Rightarrow> timeout \<Rightarrow> (('s, 'g, 'z) client, string) ws" where
  "co_read_response_head E R b to =
     ws_try (with_local b (co_read_until (client_host R) (e_transport E) (e_alloc E) crlf_crlf to))
       (\<lambda>(u, b). ws_try (co_read_span E R crlf_crlf to)
         (\<lambda>_. ws_return (string_from_bytes (buffer_data b))))"

definition co_client_handshake ::
  "('s, 'g, 'z) env \<Rightarrow> ('s, 'g, 'z) others \<Rightarrow> int \<Rightarrow> (handshake \<times> ('s, 'g, 'z) client, unit) ws" where
  "co_client_handshake E R ms s =
     (if \<not> cl_closed (snd s) then Some (Err (WSError Logic_error (Client_msg Msg_already_open) not_set), s)
      else ws_try (on_snd (start_timeout E ms))
        (\<lambda>to s.
           let (req_str, hs) = get_request_message (e_endian E) (fst s)
           in ws_try (on_snd (co_write_bytes E R (bytes_of_string req_str) to))
                (\<lambda>_. ws_try (ws_result (buffer_create (e_alloc E) 1024 (1024 * 1024)))
                  (\<lambda>headers_buffer. ws_try (on_snd (co_read_response_head E R headers_buffer to))
                    (\<lambda>header_str. ws_try (on_fst (ws_total (process_response header_str)))
                      (\<lambda>_. ws_try (init_compression E)
                        (\<lambda>_ s. Some (Ok (), (fst s, (snd s)\<lparr>cl_closed := False\<rparr>)))))))
                (hs, snd s)) s)"

definition client_can_read ::
  "('s, bool) ws \<Rightarrow> (('s, 'g, 'z) client, bool) ws" where
  "client_can_read can_read = on_sock (bsa_can_read can_read)"

end
