(* ===== verification/Async_Schedule.thy ===== *)
theory Async_Schedule
  imports Async_Socket
begin

section \<open>What a coroutine sees of the others\<close>

text \<open>
  When the other coroutines keep away from the ring buffer, the operations of \<open>BufferedSocketAsync\<close> are
  those of \<open>BufferedSocket\<close> on another transport: one whose calls also do what the other coroutines
  did before the call returned. The locale \<open>schedule\<close> states this for one await, on a view (\<open>get\<close>,
  \<open>put\<close>) of the shared state as a buffered socket; the lemmas lift it to the operations.
\<close>

definition followed :: "('s \<Rightarrow> 's) \<Rightarrow> ('s, 'r) ws \<Rightarrow> ('s, 'r) ws" where
  "followed r m s = (case m s of None \<Rightarrow> None | Some (x, s') \<Rightarrow> Some (x, r s'))"

definition interleaved :: "('s \<Rightarrow> 's) \<Rightarrow> 's transport \<Rightarrow> 's transport" where
  "interleaved r T =
     T\<lparr>tr_read_some := (\<lambda>n to. followed r (tr_read_some T n to)),
       tr_write_some := (\<lambda>data to. followed r (tr_write_some T data to)),
       tr_shutdown := (\<lambda>fail to. followed r (tr_shutdown T fail to)),
       tr_close := (\<lambda>fail. followed r (tr_close T fail))\<rparr>"

lemma interleaved_sel [simp]:
  "tr_now (interleaved r T) = tr_now T"
  "tr_read_some (interleaved r T) n to = followed r (tr_read_some T n to)"
  "tr_write_some (interleaved r T) data to = followed r (tr_write_some T data to)"
  "tr_wait_readable (interleaved r T) = tr_wait_readable T"
  "tr_shutdown (interleaved r T) fail to = followed r (tr_shutdown T fail to)"
  "tr_close (interleaved r T) fail = followed r (tr_close T fail)"
  by (simp_all add: interleaved_def)

lemma followed_id [simp]: "followed (\<lambda>s. s) m = m"
  by (rule ext) (simp add: followed_def split: option.split)

lemma interleaved_id [simp]: "interleaved (\<lambda>s. s) T = T"
  by (simp add: interleaved_def)

lemma followed_Some [result_simps]:
  "followed r m s = Some (x, s') \<longleftrightarrow> (\<exists>s1. m s = Some (x, s1) \<and> s' = r s1)"
  by (auto simp: followed_def split: option.splits)

subsection \<open>Operations on a part\<close>

text \<open>A pair of access functions that get what was put, and nothing else.\<close>

locale part =
  fixes get :: "'c \<Rightarrow> 'a" and put :: "'a \<Rightarrow> 'c \<Rightarrow> 'c"
  assumes get_put [simp]: "get (put a c) = a"
    and put_get [simp]: "put (get c) c = c"
    and put_put [simp]: "put a (put a' c) = put a c"
begin

lemma part_try: "on_part get put (ws_try m f) = ws_try (on_part get put m) (\<lambda>v. on_part get put (f v))"
  by (rule ext) (auto simp: on_part_def ws_try_def split: option.splits ws_result.splits)

lemma part_try_at:
  "on_part get put (\<lambda>a. ws_try m (f a) a) c =
     ws_try (on_part get put m) (\<lambda>v c'. on_part get put (f (get c) v) c') c"
  by (auto simp: on_part_def ws_try_def split: option.splits ws_result.splits)

lemma part_if: "on_part get put (if b then m else m') = (if b then on_part get put m else on_part get put m')"
  by simp

lemma part_end: "m (get c) = Some (r, get c) \<Longrightarrow> on_part get put m c = Some (r, c)"
  by (simp add: on_part_def)

lemma part_return [simp]:
  "on_part get put (ws_return v) = ws_return v" "on_part get put (ws_fail e) = ws_fail e"
  "on_part get put (ws_result x) = ws_result x"
  by (simp_all add: fun_eq_iff on_part_def)

end

text \<open>The same next to a coroutine's own memory.\<close>

definition pair_get :: "('c \<Rightarrow> 'a) \<Rightarrow> 'm \<times> 'c \<Rightarrow> 'm \<times> 'a" where
  "pair_get get s = (fst s, get (snd s))"

definition pair_put :: "('a \<Rightarrow> 'c \<Rightarrow> 'c) \<Rightarrow> 'm \<times> 'a \<Rightarrow> 'm \<times> 'c \<Rightarrow> 'm \<times> 'c" where
  "pair_put put a s = (fst a, put (snd a) (snd s))"

lemma pair_simps [simp]:
  "pair_get get (m, c) = (m, get c)" "pair_put put (m', a) (m, c) = (m', put a c)"
  "fst (pair_get get s) = fst s" "snd (pair_get get s) = get (snd s)"
  "fst (pair_put put p s) = fst p" "snd (pair_put put p s) = put (snd p) (snd s)"
  by (simp_all add: pair_get_def pair_put_def)

lemma part_pair: "part get put \<Longrightarrow> part (pair_get get) (pair_put put)"
  by (simp add: part_def pair_get_def pair_put_def)

lemma on_snd_lift: "on_snd (on_part get put m) = on_part (pair_get get) (pair_put put) (on_snd m)"
  by (rule ext) (auto simp: on_snd_def on_part_def pair_put_def split: option.splits)

lemma on_part_at: "on_part get put m c = on_part get put m' c" if "m (get c) = m' (get c)"
  using that by (simp add: on_part_def)

lemma ws_try_at: "m s = m' s \<Longrightarrow> ws_try m f s = ws_try m' f s"
  by (simp add: ws_try_def)

lemma ws_try_eqI:
  assumes "m s = m' s" and "\<And>v s1. m s = Some (Ok v, s1) \<Longrightarrow> f v s1 = f' v s1"
  shows "ws_try m f s = ws_try m' f' s"
  using assms(2) unfolding ws_try_def assms(1) by (auto split: option.splits ws_result.splits)

lemma ws_try_SomeE:
  assumes "ws_try m f s = Some y"
  obtains (ok) v s1 where "m s = Some (Ok v, s1)" "f v s1 = Some y"
    | (err) e s1 where "m s = Some (Err e, s1)" "y = (Err e, s1)"
    | (abort) s1 where "m s = Some (Abort, s1)" "y = (Abort, s1)"
  using assms by (auto simp: ws_try_def split: option.splits ws_result.splits)

lemma ws_try_mono_Some:
  assumes "ws_try m f s = Some y"
    and "\<And>v s1. m s = Some (Ok v, s1) \<Longrightarrow> f v s1 = Some y \<Longrightarrow> g v s1 = Some y"
  shows "ws_try m g s = Some y"
  using assms(1) by (rule ws_try_SomeE) (use assms(2) in \<open>auto simp: ws_try_def\<close>)

lemma on_snd_try: "on_snd (ws_try m f) = ws_try (on_snd m) (\<lambda>v. on_snd (f v))"
  by (rule ext) (auto simp: on_snd_def ws_try_def split: option.splits ws_result.splits)

lemma on_part_SomeE:
  assumes "on_part get put m s = Some y"
  obtains r a where "m (get s) = Some (r, a)" "y = (r, put a s)"
  using assms by (cases y) (auto simp: on_part_Some)

lemma on_part_run: "m (get s) = Some y \<Longrightarrow> on_part get put m s = Some (fst y, put (snd y) s)"
  by (simp add: on_part_def case_prod_beta)

text \<open>Two loops agree when each returns what the other returns.\<close>

lemma option_eqI: "(\<And>y. x = Some y \<Longrightarrow> z = Some y) \<Longrightarrow> (\<And>y. z = Some y \<Longrightarrow> x = Some y) \<Longrightarrow> x = z"
  by (cases x; cases z) auto

subsection \<open>Schedules that keep away from the ring\<close>

locale schedule = part get put
  for get :: "'c \<Rightarrow> 'x bsock" and put :: "'x bsock \<Rightarrow> 'c \<Rightarrow> 'c" +
  fixes H :: "('c, 's) host" and T :: "'s transport" and T' :: "'x transport"
  assumes ring [simp]: "bs_ring (h_get H c) = bs_ring (get c)"
    and put_ring: "h_put H ((h_get H c)\<lparr>bs_ring := b\<rparr>) c = put ((get c)\<lparr>bs_ring := b\<rparr>) c"
    and await_read: "co_await H (read_into T off n to) = on_part get put (read_into T' off n to)"
begin

lemma on_ring_lift: "on_buffered H (on_ring f) = on_part get put (on_ring f)"
  by (rule ext) (simp add: on_buffered_def on_part_def on_ring_def put_ring case_prod_beta)

lemma fill_lift: "co_fill_read_buffer H T d to = on_part get put (fill_read_buffer T' d to)"
proof
  fix c
  obtain off n where span: "cb_available_span (bs_ring (get c)) = (off, n)" by fastforce
  have fill: "fill_read_buffer T' d to k =
      ws_try (read_into T' off n to)
        (\<lambda>n_read. ws_try (on_ring (cb_move_head n_read))
          (\<lambda>_ s. Some (Ok (if cb_size (bs_ring s) < d then cb_size (bs_ring s) else d), s))) k"
    if "0 < d" "\<not> cb_size (bs_ring k) \<ge> d" "cb_available_span (bs_ring k) = (off, n)" for k :: "'x bsock"
    using that
    by (auto simp: fill_read_buffer_def read_into_def ws_try_def on_ring_def on_socket_def on_part_def
        cb_move_head_def cb_store_def Let_def split: option.splits ws_result.splits prod.splits)
  show "co_fill_read_buffer H T d to c = on_part get put (fill_read_buffer T' d to) c"
  proof (cases "0 < d \<and> \<not> cb_size (bs_ring (get c)) \<ge> d")
    case True
    have last: "on_part get put (\<lambda>s. Some (Ok (if cb_size (bs_ring s) < d then cb_size (bs_ring s) else d), s)) =
      (\<lambda>c. Some (Ok (if cb_size (bs_ring (get c)) < d then cb_size (bs_ring (get c)) else d), c))"
      by (simp add: on_part_def fun_eq_iff)
    have "on_part get put (fill_read_buffer T' d to) c =
      on_part get put (ws_try (read_into T' off n to)
        (\<lambda>n_read. ws_try (on_ring (cb_move_head n_read))
          (\<lambda>_ s. Some (Ok (if cb_size (bs_ring s) < d then cb_size (bs_ring s) else d), s)))) c"
      using True span by (intro on_part_at fill) auto
    with True span show ?thesis
      by (simp add: co_fill_read_buffer_def await_read on_ring_lift part_try last Let_def)
  next
    case False
    then show ?thesis by (auto simp: co_fill_read_buffer_def fill_read_buffer_def on_part_def)
  qed
qed

abbreviation both :: "('m \<times> 'x bsock, 'r) ws \<Rightarrow> ('m \<times> 'c, 'r) ws" where
  "both \<equiv> on_part (pair_get get) (pair_put put)"

lemmas pair = part_pair [OF part_axioms]
lemmas pair_try = part.part_try [OF pair]
lemmas pair_return = part.part_return [OF pair]

lemma on_fst_both: "on_fst m = both (on_fst m)"
  by (rule ext) (auto simp: on_fst_def on_part_def pair_put_def split: option.splits)

lemma on_ring_both: "on_snd (on_buffered H (on_ring f)) = both (on_snd (on_ring f))"
  by (simp add: on_ring_lift on_snd_lift)

lemma fill_both: "on_snd (co_fill_read_buffer H T d to) = both (on_snd (fill_read_buffer T' d to))"
  by (simp add: fill_lift on_snd_lift)

lemma both_end: "both (\<lambda>s. Some (r, s)) = (\<lambda>s. Some (r, s))"
  by (simp add: on_part_def pair_put_def fun_eq_iff)

lemma search_both: "co_read_until_search H A delim off = both (read_until_search A delim off)"
proof
  fix s :: "buffer \<times> 'c"
  let ?start = "off - min off (length delim - 1)" and ?data = "buffer_data (fst s)"
  show "co_read_until_search H A delim off s = both (read_until_search A delim off) s"
  proof (cases "find_sub delim (drop ?start ?data)")
    case None
    then show ?thesis by (simp add: co_read_until_search_def read_until_search_def Let_def on_part_def pair_put_def)
  next
    case (Some i)
    let ?m = "ws_try (on_snd (on_ring (cb_push (drop (?start + i) ?data))))
      (\<lambda>_. ws_try (on_fst (ws_total (buffer_resize A (word_of_nat (?start + i))))) (\<lambda>_ s. Some (Ok True, s)))"
    have "both (read_until_search A delim off) s = both ?m s"
      using Some by (intro on_part_at) (simp add: read_until_search_def Let_def)
    also have "\<dots> = co_read_until_search H A delim off s"
      using Some
      by (simp add: co_read_until_search_def Let_def pair_try on_ring_both on_fst_both [symmetric] both_end)
    finally show ?thesis by (rule sym)
  qed
qed

lemma drain_both:
  "ws_try (on_fst (ws_total (buffer_append_n A (word_of_nat (cb_size (bs_ring (h_get H (snd s))))))))
     (\<lambda>(off, len). ws_try (on_snd (on_buffered H (on_ring (cb_pop len))))
       (\<lambda>xs. on_fst (ws_total (buffer_fill off xs)))) s = both (drain_ring A) s"
proof -
  let ?m = "ws_try (on_fst (ws_total (buffer_append_n A (word_of_nat (cb_size (bs_ring (get (snd s))))))))
     (\<lambda>p. ws_try (on_snd (on_ring (cb_pop (snd p)))) (\<lambda>xs. on_fst (ws_total (buffer_fill (fst p) xs))))"
  have "both (drain_ring A) s = both ?m s"
    by (intro on_part_at) (simp add: drain_ring_def case_prod_beta')
  then show ?thesis
    by (simp add: pair_try on_ring_both on_fst_both [symmetric] case_prod_beta')
qed

lemma until_step_both: "co_read_until_step H T A delim to off = both (read_until_step T' A delim to off)"
proof
  fix s :: "buffer \<times> 'c"
  have drain: "(\<lambda>s. ws_try (on_fst (ws_total (buffer_append_n A (word_of_nat (cb_size (bs_ring (h_get H (snd s))))))))
       (\<lambda>(off', len). ws_try (on_snd (on_buffered H (on_ring (cb_pop len))))
         (\<lambda>xs. ws_try (on_fst (ws_total (buffer_fill off' xs)))
           (\<lambda>_. co_read_until_search H A delim off))) s) =
     ws_try (both (drain_ring A)) (\<lambda>_. both (read_until_search A delim off))"
    unfolding search_both [symmetric]
    by (rule ext) (simp add: ws_try_def drain_both [symmetric] split: option.splits ws_result.splits prod.splits)
  have "both (read_until_step T' A delim to off) s =
      both (ws_try (on_snd (fill_read_buffer T' (cb_capacity (bs_ring (get (snd s)))) to))
        (\<lambda>_. ws_try (drain_ring A) (\<lambda>_. read_until_search A delim off))) s"
    by (intro on_part_at) (simp add: read_until_step_drain)
  then show "co_read_until_step H T A delim to off s = both (read_until_step T' A delim to off) s"
    unfolding co_read_until_step_def drain by (simp add: pair_try fill_both)
qed

text \<open>
  The loops. Seen through the view, the loop of \<open>BufferedSocket\<close> satisfies the equation of the
  coroutine's loop; each of the two is the least solution of its own equation.
\<close>

lemma both_until:
  "both (\<lambda>s. if found then Some (Ok (), s) else L (unat (buf_used (fst s))) s) s =
    (if found then Some (Ok (), s) else both (L (unat (buf_used (fst s)))) s)"
  by (simp add: on_part_def pair_put_def)

lemma until_loop_eq:
  "both (read_until_loop T' A delim to off) s =
     ws_try (co_read_until_step H T A delim to off)
       (\<lambda>found s. if found then Some (Ok (), s) else both (read_until_loop T' A delim to (unat (buf_used (fst s)))) s) s"
proof -
  have "both (read_until_loop T' A delim to off) s =
      both (ws_try (read_until_step T' A delim to off)
        (\<lambda>found s. if found then Some (Ok (), s) else read_until_loop T' A delim to (unat (buf_used (fst s))) s)) s"
    by (intro on_part_at) (rule read_until_loop.simps)
  then show ?thesis by (simp add: pair_try until_step_both both_until [abs_def])
qed

lemma until_loop_both: "co_read_until_loop H T A delim to off s = both (read_until_loop T' A delim to off) s"
proof (rule option_eqI)
  define P :: "('c, 's) host \<Rightarrow> 's transport \<Rightarrow> allocator \<Rightarrow> byte list \<Rightarrow> timeout \<Rightarrow> nat \<Rightarrow> buffer \<times> 'c \<Rightarrow>
      unit ws_result \<times> buffer \<times> 'c \<Rightarrow> bool"
    where "P H' T1 A' delim' to' off s y \<longleftrightarrow> (H' = H \<and> T1 = T \<and> A' = A \<and> delim' = delim \<and> to' = to \<longrightarrow>
      both (read_until_loop T' A delim to off) s = Some y)" for H' T1 A' delim' to' off s y
  fix y assume "co_read_until_loop H T A delim to off s = Some y"
  from this have "P H T A delim to off s y"
  proof (rule co_read_until_loop.raw_induct [where P = P, rotated])
    fix loop H' T1 A' delim' to' off s y
    assume IH: "\<And>H' T1 A' delim' to' off s y. loop H' T1 A' delim' to' off s = Some y \<Longrightarrow> P H' T1 A' delim' to' off s y"
      and run: "ws_try (co_read_until_step H' T1 A' delim' to' off)
        (\<lambda>found s. if found then Some (Ok (), s) else loop H' T1 A' delim' to' (unat (buf_used (fst s))) s) s = Some y"
    show "P H' T1 A' delim' to' off s y"
      unfolding P_def
    proof (intro impI, elim conjE)
      assume p: "H' = H" "T1 = T" "A' = A" "delim' = delim" "to' = to"
      have IH': "loop H T A delim to off s = Some y \<Longrightarrow> both (read_until_loop T' A delim to off) s = Some y" for off s y
        using IH by (simp add: P_def)
      from run show "both (read_until_loop T' A delim to off) s = Some y"
        unfolding p until_loop_eq [of A delim to off s]
        by (rule ws_try_mono_Some) (auto dest: IH' split: if_splits)
    qed
  qed
  then show "both (read_until_loop T' A delim to off) s = Some y" by (simp add: P_def)
next
  define P :: "'x transport \<Rightarrow> allocator \<Rightarrow> byte list \<Rightarrow> timeout \<Rightarrow> nat \<Rightarrow> buffer \<times> 'x bsock \<Rightarrow>
      unit ws_result \<times> buffer \<times> 'x bsock \<Rightarrow> bool"
    where "P T1 A' delim' to' off k y \<longleftrightarrow> (T1 = T' \<and> A' = A \<and> delim' = delim \<and> to' = to \<longrightarrow>
      (\<forall>s. k = pair_get get s \<longrightarrow> co_read_until_loop H T A delim to off s = Some (fst y, pair_put put (snd y) s)))"
    for T1 A' delim' to' off k y
  fix y assume "both (read_until_loop T' A delim to off) s = Some y"
  then obtain r k where y: "read_until_loop T' A delim to off (pair_get get s) = Some (r, k)" "y = (r, pair_put put k s)"
    by (rule on_part_SomeE)
  from y(1) have "P T' A delim to off (pair_get get s) (r, k)"
  proof (rule read_until_loop.raw_induct [where P = P, rotated])
    fix loop T1 A' delim' to' off k y
    assume IH: "\<And>T1 A' delim' to' off s y. loop T1 A' delim' to' off s = Some y \<Longrightarrow> P T1 A' delim' to' off s y"
      and run: "ws_try (read_until_step T1 A' delim' to' off)
        (\<lambda>found s. if found then Some (Ok (), s) else loop T1 A' delim' to' (unat (buf_used (fst s))) s) k = Some y"
    show "P T1 A' delim' to' off k y"
      unfolding P_def
    proof (intro impI allI, elim conjE)
      fix s assume p: "T1 = T'" "A' = A" "delim' = delim" "to' = to" and k: "k = pair_get get s"
      have IH': "loop T' A delim to off (pair_get get s) = Some y \<Longrightarrow>
          co_read_until_loop H T A delim to off s = Some (fst y, pair_put put (snd y) s)" for off s y
        using IH unfolding P_def by blast
      have again: "both (loop T' A delim to off) s = Some y \<Longrightarrow> co_read_until_loop H T A delim to off s = Some y" for off s y
        by (erule on_part_SomeE) (simp add: IH')
      have "both (ws_try (read_until_step T' A delim to off)
          (\<lambda>found s. if found then Some (Ok (), s) else loop T' A delim to (unat (buf_used (fst s))) s)) s =
          Some (fst y, pair_put put (snd y) s)"
        using run unfolding p k by (rule on_part_run)
      then show "co_read_until_loop H T A delim to off s = Some (fst y, pair_put put (snd y) s)"
        unfolding pair_try until_step_both [symmetric]
        by (subst co_read_until_loop.simps, elim ws_try_mono_Some)
          (simp add: both_until again split: if_splits)
    qed
  qed
  then show "co_read_until_loop H T A delim to off s = Some y" unfolding P_def y(2) fst_conv snd_conv by blast
qed

lemma read_until_both: "co_read_until H T A delim to = both (read_until T' A delim to)"
  by (rule ext) (simp add: co_read_until_def read_until_def until_loop_both)

end

subsection \<open>Writing a span that nobody changes\<close>

locale writing_schedule = schedule get put H T T'
  for get :: "'c \<Rightarrow> 'x bsock" and put :: "'x bsock \<Rightarrow> 'c \<Rightarrow> 'c"
    and H :: "('c, 's) host" and T :: "'s transport" and T' :: "'x transport" +
  assumes await_write: "co_await H (on_socket (tr_write_some T d to)) = on_part get put (on_socket (tr_write_some T' d to))"
begin

text \<open>The check for a write of nothing, which only the coroutine makes, finds none.\<close>

lemma checked_write:
  assumes "never_writes_zero T" and "d \<noteq> []"
  shows "ws_try (co_await H (on_socket (tr_write_some T d to)))
      (\<lambda>ret c. if ret = 0 then Some (Err peer_closed, c) else Some (Ok ret, c)) c =
    on_part get put (on_socket (tr_write_some T' d to)) c"
proof -
  have "co_await H (on_socket (tr_write_some T d to)) c \<noteq> Some (Ok 0, c')" for c'
    using never_writes_zeroD [OF assms]
    by (auto simp: co_await_def on_buffered_def on_part_def on_socket_def split: option.splits)
  then show ?thesis
    unfolding await_write [symmetric] by (auto simp: ws_try_def split: option.split ws_result.split)
qed

text \<open>
  The bytes of the span are the same whenever the coroutine is resumed, because the view determines
  them.
\<close>

definition steady :: "('m \<times> 'c) place \<Rightarrow> byte list \<Rightarrow> 'm \<times> 'c \<Rightarrow> bool" where
  "steady p data s \<longleftrightarrow> pl_size p = length data \<and> (\<forall>k. pl_bytes p (fst s, put k (snd s)) = Some data)"

lemma steady_now: "steady p data s \<Longrightarrow> pl_bytes p s = Some data"
  using put_get [of "snd s"] prod.collapse [of s] unfolding steady_def by metis

lemma steady_put: "steady p data s \<Longrightarrow> steady p data (fst s, put k (snd s))"
  by (simp add: steady_def)

lemma write_step_both:
  assumes "never_writes_zero T" and "steady p data s" and "subspan n d data \<noteq> []"
  shows "co_write_step H T p to n d s = both (on_snd (on_socket (tr_write_some T' (subspan n d data) to))) s"
proof -
  have "co_write_step H T p to n d s =
      on_snd (ws_try (co_await H (on_socket (tr_write_some T (subspan n d data) to)))
        (\<lambda>ret c. if ret = 0 then Some (Err peer_closed, c) else Some (Ok ret, c))) s"
    using steady_now [OF assms(2)]
    by (auto simp: co_write_step_def on_snd_def ws_try_def split: option.splits ws_result.splits)
  then show ?thesis
    using checked_write [OF assms(1,3), of to "snd s"] by (simp add: on_snd_lift [symmetric]) (simp add: on_snd_def)
qed

definition writing :: "byte list \<Rightarrow> ('m \<times> 'c) place \<Rightarrow> nat \<Rightarrow> nat \<Rightarrow> 'm \<times> 'c \<Rightarrow> bool" where
  "writing data p n d s \<longleftrightarrow> steady p data s \<and> (n + d = length data \<or> d = 0)"

lemma write_loop_unfold:
  "d \<noteq> 0 \<Longrightarrow> bs_write_loop T' data to n d =
     ws_try (bs_write_some T' (drop n data) to) (\<lambda>k. bs_write_loop T' data to (n + k) (d - k))"
  by (rule ext) (simp add: bs_write_loop.simps [of T' data to n d])

lemma writing_rest: "writing data p n d s \<Longrightarrow> d \<noteq> 0 \<Longrightarrow> subspan n d data = drop n data \<and> drop n data \<noteq> []"
  by (auto simp: writing_def subspan_def)

lemma write_loop_eq:
  assumes "never_writes_zero T" and "writing data p n d s"
  shows "both (on_snd (bs_write_loop T' data to n d)) s =
    (if d \<noteq> 0
     then ws_try (co_write_step H T p to n d)
            (\<lambda>k. both (on_snd (bs_write_loop T' data to (n + k) (d - k)))) s
     else Some (Ok (), s))"
proof (cases "d = 0")
  case False
  note data = writing_rest [OF assms(2) False]
  have "both (on_snd (bs_write_loop T' data to n d)) s =
      both (ws_try (on_snd (bs_write_some T' (drop n data) to))
        (\<lambda>k. on_snd (bs_write_loop T' data to (n + k) (d - k)))) s"
    unfolding write_loop_unfold [OF False] on_snd_try ..
  also have "\<dots> = ws_try (both (on_snd (bs_write_some T' (drop n data) to)))
        (\<lambda>k. both (on_snd (bs_write_loop T' data to (n + k) (d - k)))) s" by (simp add: pair_try)
  also have "\<dots> = ws_try (co_write_step H T p to n d)
        (\<lambda>k. both (on_snd (bs_write_loop T' data to (n + k) (d - k)))) s"
    using assms data by (intro ws_try_at) (simp add: write_step_both [of p data] writing_def bs_write_some_def)
  finally show ?thesis using False by simp
qed (simp add: on_part_def on_snd_def pair_put_def bs_write_loop.simps [of T' data to n 0])

lemma writing_step:
  assumes "never_writes_zero T" and "writing data p n d s" and "d \<noteq> 0" and "co_write_step H T p to n d s = Some (Ok k, s1)"
  shows "writing data p (n + k) (d - k) s1"
proof -
  have st: "steady p data s" using assms(2) by (simp add: writing_def)
  from assms(4) obtain b where "s1 = (fst s, put b (snd s))"
    using writing_rest [OF assms(2,3)]
    by (auto simp: write_step_both [OF assms(1) st] on_part_Some on_snd_Some pair_put_def)
  with steady_put [OF st] assms(2,3) show ?thesis by (auto simp: writing_def)
qed

lemma write_loop_both:
  fixes p :: "('m \<times> 'c) place"
  assumes nz: "never_writes_zero T" and w: "writing data p n d s"
  shows "co_write_loop H T p to n d s = both (on_snd (bs_write_loop T' data to n d)) s"
proof (rule option_eqI)
  define P :: "('c, 's) host \<Rightarrow> 's transport \<Rightarrow> ('m \<times> 'c) place \<Rightarrow> timeout \<Rightarrow> nat \<Rightarrow> nat \<Rightarrow> 'm \<times> 'c \<Rightarrow>
      unit ws_result \<times> 'm \<times> 'c \<Rightarrow> bool"
    where "P H' T1 p' to' n d s y \<longleftrightarrow> (H' = H \<and> T1 = T \<and> p' = p \<and> to' = to \<and> writing data p n d s \<longrightarrow>
      both (on_snd (bs_write_loop T' data to n d)) s = Some y)" for H' T1 p' to' n d s y
  fix y assume run: "co_write_loop H T p to n d s = Some y"
  from run have "P H T p to n d s y"
  proof (rule co_write_loop.raw_induct [where P = P, rotated])
    fix loop H' T1 p' to' n d s y
    assume IH: "\<And>H' T1 p' to' n d s y. loop H' T1 p' to' n d s = Some y \<Longrightarrow> P H' T1 p' to' n d s y"
      and run: "(if d \<noteq> 0 then ws_try (co_write_step H' T1 p' to' n d)
          (\<lambda>k. loop H' T1 p' to' (n + k) (d - k)) s else Some (Ok (), s)) = Some y"
    show "P H' T1 p' to' n d s y"
      unfolding P_def
    proof (intro impI, elim conjE)
      assume p: "H' = H" "T1 = T" "p' = p" "to' = to" and w: "writing data p n d s"
      have again: "loop H T p to n d s = Some y \<Longrightarrow> writing data p n d s \<Longrightarrow>
          both (on_snd (bs_write_loop T' data to n d)) s = Some y" for n d s y
        using IH by (simp add: P_def)
      show "both (on_snd (bs_write_loop T' data to n d)) s = Some y"
      proof (cases "d = 0")
        case False
        with run have "ws_try (co_write_step H T p to n d) (\<lambda>k. loop H T p to (n + k) (d - k)) s = Some y"
          by (simp add: p)
        then show ?thesis
          using False unfolding write_loop_eq [OF nz w]
          by (simp, elim ws_try_mono_Some) (blast intro: again writing_step [OF nz w False])
      qed (use run write_loop_eq [OF nz w] in \<open>simp add: p\<close>)
    qed
  qed
  then show "both (on_snd (bs_write_loop T' data to n d)) s = Some y" using w by (simp add: P_def)
next
  fix y assume run: "both (on_snd (bs_write_loop T' data to n d)) s = Some y"
  define P :: "'x transport \<Rightarrow> byte list \<Rightarrow> timeout \<Rightarrow> nat \<Rightarrow> nat \<Rightarrow> 'x bsock \<Rightarrow> unit ws_result \<times> 'x bsock \<Rightarrow> bool"
    where "P T1 data' to' n d k y \<longleftrightarrow> (T1 = T' \<and> data' = data \<and> to' = to \<longrightarrow>
      (\<forall>s. k = get (snd s) \<longrightarrow> writing data p n d s \<longrightarrow>
        co_write_loop H T p to n d s = Some (fst y, (fst s, put (snd y) (snd s)))))" for T1 data' to' n d k y
  from run obtain r k where y: "bs_write_loop T' data to n d (get (snd s)) = Some (r, k)"
      "y = (r, (fst s, put k (snd s)))"
    by (elim on_part_SomeE) (auto simp: on_snd_Some pair_put_def)
  from y(1) have "P T' data to n d (get (snd s)) (r, k)"
  proof (rule bs_write_loop.raw_induct [where P = P, rotated])
    fix loop T1 data' to' n d k y
    assume IH: "\<And>T1 data' to' n d k y. loop T1 data' to' n d k = Some y \<Longrightarrow> P T1 data' to' n d k y"
      and run: "(if 0 < d then ws_try (bs_write_some T1 (drop n data') to')
          (\<lambda>w. loop T1 data' to' (n + w) (d - w)) k else Some (Ok (), k)) = Some y"
    show "P T1 data' to' n d k y"
      unfolding P_def
    proof (intro impI allI, elim conjE)
      fix s assume p: "T1 = T'" "data' = data" "to' = to" and k: "k = get (snd s)" and w: "writing data p n d s"
      have again: "both (on_snd (loop T' data to n d)) s = Some y \<Longrightarrow> writing data p n d s \<Longrightarrow>
          co_write_loop H T p to n d s = Some y" for n d s y
        using IH unfolding P_def by (elim on_part_SomeE) (fastforce simp: on_snd_Some pair_put_def)
      show "co_write_loop H T p to n d s = Some (fst y, (fst s, put (snd y) (snd s)))"
      proof (cases "d = 0")
        case False
        note data = writing_rest [OF w False]
        have "both (on_snd (ws_try (bs_write_some T' (drop n data) to) (\<lambda>w. loop T' data to (n + w) (d - w)))) s =
            Some (fst y, (fst s, put (snd y) (snd s)))"
          using run False by (simp add: p k on_part_def on_snd_def case_prod_beta pair_put_def)
        then have "ws_try (co_write_step H T p to n d)
            (\<lambda>w. both (on_snd (loop T' data to (n + w) (d - w)))) s = Some (fst y, (fst s, put (snd y) (snd s)))"
          unfolding on_snd_try pair_try
          using nz w data by (subst ws_try_at [where m' = "both (on_snd (bs_write_some T' (drop n data) to))"])
            (simp_all add: write_step_both [of p data] writing_def bs_write_some_def)
        then show ?thesis
          using False by (subst co_write_loop.simps) (simp, elim ws_try_mono_Some,
            blast intro: again writing_step [OF nz w False])
      qed (use run in \<open>auto simp: k co_write_loop.simps [of H T p to n 0]\<close>)
    qed
  qed
  then show "co_write_loop H T p to n d s = Some y" using w unfolding P_def y(2) fst_conv snd_conv by blast
qed

lemma write_both:
  assumes "never_writes_zero T" and "steady p data s"
  shows "co_write H T p to s = both (on_snd (bs_write T' data to)) s"
  using assms by (simp add: co_write_def bs_write_def steady_def write_loop_both [of data] writing_def)

end

subsection \<open>How much a read stores\<close>

lemma cb_pop_length: "cb_pop n b = (Ok xs, b') \<Longrightarrow> length xs \<le> n"
  by (auto simp: cb_pop_def subspan_def Let_def split: if_splits)

lemma fill_length: "fill_read_buffer S d to k = Some (Ok n, k') \<Longrightarrow> n \<le> d"
  by (auto simp: fill_read_buffer_def ws_try_Some_Ok split: if_splits prod.splits)

lemma step_result:
  assumes "read_exact_step T to t d a = Some (Ok k, a')"
  shows "k \<le> d" and "\<exists>xs. length xs \<le> d \<and> fst a' = blit t xs (fst a)"
proof -
  from assms obtain k1 k2 xs b where r: "fill_read_buffer T d to (snd a) = Some (Ok k, k1)"
      "cb_pop k (bs_ring k1) = (Ok xs, b)" "a' = (blit t xs (fst a), k2)"
    by (auto simp: read_exact_step_def ws_try_Some_Ok on_snd_Some on_ring_Some)
  then show "k \<le> d" using fill_length by blast
  with r(3) cb_pop_length [OF r(2)] show "\<exists>xs. length xs \<le> d \<and> fst a' = blit t xs (fst a)"
    by (intro exI [of _ xs]) simp
qed

lemma read_step_fails:
  "read_exact_step T to t d a = Some (Err e, a') \<Longrightarrow> fst a' = fst a"
  "read_exact_step T to t d a = Some (Abort, a') \<Longrightarrow> fst a' = fst a"
  by (auto simp: read_exact_step_def on_snd_Some elim!: ws_try_SomeE)

lemma read_exact_length:
  fixes T :: "'s transport"
  assumes "read_exact T to a = Some (r, a')"
  shows "length (fst a') = length (fst a)"
proof -
  define P :: "'s transport \<Rightarrow> timeout \<Rightarrow> nat \<Rightarrow> nat \<Rightarrow> byte list \<times> 's bsock \<Rightarrow>
      nat ws_result \<times> byte list \<times> 's bsock \<Rightarrow> bool"
    where "P T to t d a y \<longleftrightarrow> (t + d = length (fst a) \<longrightarrow> length (fst (snd y)) = length (fst a))" for T to t d a y
  from assms have "read_exact_loop T to 0 (length (fst a)) a = Some (r, a')" by (simp add: read_exact_def)
  then have "P T to 0 (length (fst a)) a (r, a')"
  proof (rule read_exact_loop.raw_induct [where P = P, rotated])
    fix loop T1 to' t d a y
    assume IH: "\<And>(T1 :: 's transport) to' t d a y. loop T1 to' t d a = Some y \<Longrightarrow> P T1 to' t d a y"
      and run: "(if d > 0 then ws_try (read_exact_step T1 to' t d)
          (\<lambda>k. loop T1 to' (t + k) (d - k)) a else Some (Ok t, a)) = Some y"
    show "P T1 to' t d a y"
      unfolding P_def
    proof
      assume n: "t + d = length (fst a)"
      show "length (fst (snd y)) = length (fst a)"
      proof (cases "d > 0")
        case True
        with run have "ws_try (read_exact_step T1 to' t d) (\<lambda>k. loop T1 to' (t + k) (d - k)) a = Some y" by simp
        then show ?thesis
        proof (cases rule: ws_try_SomeE)
          case (ok k a1)
          from step_result [OF ok(1)] n have "k \<le> d" "length (fst a1) = length (fst a)" by auto
          with IH [OF ok(2)] n show ?thesis by (simp add: P_def)
        qed (auto dest: read_step_fails)
      qed (use run in auto)
    qed
  qed
  then show ?thesis by (simp add: P_def)
qed

subsection \<open>Reading into memory that nobody else uses\<close>

text \<open>
  A place whose bytes can be got and replaced (\<open>bytes\<close>, \<open>repl\<close>) as long as it is valid (\<open>ok\<close>), apart
  from the part of the state that the buffered socket is in.
\<close>

locale owned_place = schedule get put H T T'
  for get :: "'c \<Rightarrow> 'x bsock" and put :: "'x bsock \<Rightarrow> 'c \<Rightarrow> 'c"
    and H :: "('c, 's) host" and T :: "'s transport" and T' :: "'x transport" +
  fixes p :: "('m \<times> 'c) place" and bytes :: "'m \<times> 'c \<Rightarrow> byte list"
    and repl :: "byte list \<Rightarrow> 'm \<times> 'c \<Rightarrow> 'm \<times> 'c" and ok :: "'m \<times> 'c \<Rightarrow> bool"
  assumes store: "ok s \<Longrightarrow> off + length xs \<le> pl_size p \<Longrightarrow> pl_store p off xs s = Some (repl (blit off xs (bytes s)) s)"
    and sized: "ok s \<Longrightarrow> length (bytes s) = pl_size p"
    and bytes_set: "ok s \<Longrightarrow> length d = pl_size p \<Longrightarrow> bytes (repl d s) = d"
    and set_set: "ok s \<Longrightarrow> length d' = pl_size p \<Longrightarrow> repl d (repl d' s) = repl d s"
    and set_bytes: "ok s \<Longrightarrow> repl (bytes s) s = s"
    and ok_set: "ok s \<Longrightarrow> length d = pl_size p \<Longrightarrow> ok (repl d s)"
    and ok_put: "ok s \<Longrightarrow> ok (fst s, put k (snd s))"
    and bytes_put: "bytes (fst s, put k (snd s)) = bytes s"
    and get_set: "get (snd (repl d s)) = get (snd s)"
    and put_set: "(fst (repl d s), put k (snd (repl d s))) = repl d (fst s, put k (snd s))"
begin

abbreviation seen :: "'m \<times> 'c \<Rightarrow> byte list \<times> 'x bsock" where
  "seen s \<equiv> (bytes s, get (snd s))"

abbreviation kept :: "byte list \<times> 'x bsock \<Rightarrow> 'm \<times> 'c \<Rightarrow> 'm \<times> 'c" where
  "kept a s \<equiv> repl (fst a) (fst s, put (snd a) (snd s))"

abbreviation viewed :: "(byte list \<times> 'x bsock, 'r) ws \<Rightarrow> ('m \<times> 'c, 'r) ws" where
  "viewed \<equiv> on_part seen kept"

lemma kept_seen: "ok s \<Longrightarrow> kept (bytes s, k) s = (fst s, put k (snd s))"
  using set_bytes [OF ok_put, of s k] bytes_put [of s k] by simp

lemma seen_kept: "ok s \<Longrightarrow> length (fst a) = pl_size p \<Longrightarrow> seen (kept a s) = a"
  using bytes_set [OF ok_put] get_set by simp

lemma ok_kept: "ok s \<Longrightarrow> length (fst a) = pl_size p \<Longrightarrow> ok (kept a s)"
  using ok_set [OF ok_put] by simp

lemma kept_kept:
  assumes "ok s" and "length (fst a) = pl_size p"
  shows "kept b (kept a s) = kept b s"
proof -
  let ?s = "(fst s, put (snd a) (snd s))"
  have "kept b (kept a s) = repl (fst b) (repl (fst a) (fst s, put (snd b) (snd s)))"
    using put_set [of "fst a" ?s "snd b"] by simp
  then show ?thesis using set_set [OF ok_put [OF assms(1)] assms(2)] by simp
qed

text \<open>A step through the view, and what the next steps see.\<close>

lemma viewed_try:
  assumes "ok s" and "\<And>v a. m (seen s) = Some (Ok v, a) \<Longrightarrow> length (fst a) = pl_size p"
  shows "viewed (ws_try m f) s = ws_try (viewed m) (\<lambda>v. viewed (f v)) s"
proof (cases "m (seen s)")
  case (Some q)
  obtain r a where q: "q = (r, a)" by (cases q)
  show ?thesis
  proof (cases r)
    case (Ok v)
    then have a: "length (fst a) = pl_size p" using assms(2) Some q by blast
    show ?thesis
      using Some q Ok seen_kept [OF assms(1) a] kept_kept [OF assms(1) a]
      by (simp add: on_part_def ws_try_def del: split_paired_All split: option.split)
  qed (use Some q in \<open>simp_all add: on_part_def ws_try_def\<close>)
qed (simp add: on_part_def ws_try_def)

lemma viewed_snd: "ok s \<Longrightarrow> viewed (on_snd m) s = on_snd (on_part get put m) s"
  using kept_seen by (auto simp: on_part_def on_snd_def split: option.splits)

lemma step_viewed:
  assumes s: "ok s" and n: "t + d = pl_size p"
  shows "co_read_exact_step H T p to t d s = viewed (read_exact_step T' to t d) s"
proof -
  let ?fill = "fill_read_buffer T' d to"
  let ?keep = "\<lambda>n xs a. Some (Ok n, (blit t xs (fst a), snd a))"
  have len: "length (fst a) = pl_size p" if "on_snd m (seen s1) = Some (Ok v, a)" "ok s1" for m v a and s1
    using that(1) sized [OF that(2)] by (auto simp: on_snd_Some)
  have last: "ws_try (store_bytes p t xs) (\<lambda>_. ws_return n) s1 = viewed (?keep n xs) s1"
    if "ok s1" "length xs \<le> d" for n xs s1
    using that n store [of s1 t xs] get_set put_set
    by (simp add: store_bytes_def ws_try_def on_part_def)
  have pop: "ws_try (on_snd (on_buffered H (on_ring (cb_pop n))))
      (\<lambda>xs. ws_try (store_bytes p t xs) (\<lambda>_. ws_return n)) s1 =
      viewed (ws_try (on_snd (on_ring (cb_pop n))) (?keep n)) s1" if "ok s1" "n \<le> d" for n s1
  proof -
    have "viewed (ws_try (on_snd (on_ring (cb_pop n))) (?keep n)) s1 =
        ws_try (viewed (on_snd (on_ring (cb_pop n)))) (\<lambda>xs. viewed (?keep n xs)) s1"
      using that(1) by (rule viewed_try) (rule len, assumption, rule that)
    moreover have "ws_try (on_snd (on_buffered H (on_ring (cb_pop n))))
        (\<lambda>xs. ws_try (store_bytes p t xs) (\<lambda>_. ws_return n)) s1 = \<dots>"
    proof (rule ws_try_eqI)
      show "on_snd (on_buffered H (on_ring (cb_pop n))) s1 = viewed (on_snd (on_ring (cb_pop n))) s1"
        using that(1) by (simp add: viewed_snd on_ring_lift)
    next
      fix xs s2 assume "on_snd (on_buffered H (on_ring (cb_pop n))) s1 = Some (Ok xs, s2)"
      then obtain k c where r: "cb_pop n (bs_ring (get (snd s1))) = (Ok xs, c)" "s2 = (fst s1, put k (snd s1))"
        unfolding on_snd_Some on_ring_lift on_part_Some on_ring_Some by blast
      have "ok s2" unfolding r(2) by (rule ok_put [OF that(1)])
      moreover have "length xs \<le> d" using cb_pop_length [OF r(1)] that(2) by (rule order_trans)
      ultimately show "ws_try (store_bytes p t xs) (\<lambda>_. ws_return n) s2 = viewed (?keep n xs) s2"
        by (intro last)
    qed
    ultimately show ?thesis by simp
  qed
  have "viewed (read_exact_step T' to t d) s =
      ws_try (viewed (on_snd ?fill)) (\<lambda>n. viewed (ws_try (on_snd (on_ring (cb_pop n))) (?keep n))) s"
    unfolding read_exact_step_def using s by (rule viewed_try) (rule len, assumption, rule s)
  moreover have "co_read_exact_step H T p to t d s = \<dots>"
    unfolding co_read_exact_step_def
  proof (rule ws_try_eqI)
    show "on_snd (co_fill_read_buffer H T d to) s = viewed (on_snd ?fill) s"
      using s by (simp add: viewed_snd fill_lift)
  next
    fix n s1 assume "on_snd (co_fill_read_buffer H T d to) s = Some (Ok n, s1)"
    then obtain k where "?fill (get (snd s)) = Some (Ok n, k)" "s1 = (fst s, put k (snd s))"
      by (auto simp: on_snd_Some fill_lift on_part_Some)
    then have "n \<le> d" "ok s1" using fill_length ok_put [OF s] by auto
    then show "ws_try (on_snd (on_buffered H (on_ring (cb_pop n))))
      (\<lambda>xs. ws_try (store_bytes p t xs) (\<lambda>_. ws_return n)) s1 =
      viewed (ws_try (on_snd (on_ring (cb_pop n))) (?keep n)) s1" using pop by blast
  qed
  ultimately show ?thesis by simp
qed

definition reading :: "nat \<Rightarrow> nat \<Rightarrow> 'm \<times> 'c \<Rightarrow> bool" where
  "reading t d s \<longleftrightarrow> ok s \<and> t + d = pl_size p"

lemma reading_step:
  assumes "reading t d s" and "viewed (read_exact_step T' to t d) s = Some (Ok k, s1)"
  shows "reading (t + k) (d - k) s1"
proof -
  have s: "ok s" "t + d = pl_size p" using assms(1) by (simp_all add: reading_def)
  from assms(2) obtain a where a: "read_exact_step T' to t d (seen s) = Some (Ok k, a)" "s1 = kept a s"
    by (auto simp: on_part_Some simp del: split_paired_Ex)
  from step_result [OF a(1)] obtain xs where "k \<le> d" "length xs \<le> d" "fst a = blit t xs (bytes s)"
    by auto
  with s a(2) sized [OF s(1)] ok_kept [OF s(1), of a] show ?thesis by (auto simp: reading_def)
qed

lemma step_try:
  assumes "reading t d s"
  shows "viewed (ws_try (read_exact_step T' to t d) f) s =
    ws_try (co_read_exact_step H T p to t d) (\<lambda>k. viewed (f k)) s"
proof -
  have s: "ok s" "t + d = pl_size p" using assms by (simp_all add: reading_def)
  have "viewed (ws_try (read_exact_step T' to t d) f) s =
      ws_try (viewed (read_exact_step T' to t d)) (\<lambda>k. viewed (f k)) s"
    using s(1)
  proof (rule viewed_try)
    fix k a assume r: "read_exact_step T' to t d (seen s) = Some (Ok k, a)"
    from step_result(2) [OF r] show "length (fst a) = pl_size p" using s sized [OF s(1)] by auto
  qed
  also have "\<dots> = ws_try (co_read_exact_step H T p to t d) (\<lambda>k. viewed (f k)) s"
    by (rule ws_try_at) (rule step_viewed [OF s, symmetric])
  finally show ?thesis .
qed

lemma read_loop_eq:
  assumes "reading t d s"
  shows "viewed (read_exact_loop T' to t d) s =
    (if d > 0
     then ws_try (co_read_exact_step H T p to t d) (\<lambda>k. viewed (read_exact_loop T' to (t + k) (d - k))) s
     else Some (Ok t, s))"
proof (cases "d > 0")
  case True
  have s: "ok s" "t + d = pl_size p" using assms by (simp_all add: reading_def)
  have "viewed (read_exact_loop T' to t d) s =
      viewed (ws_try (read_exact_step T' to t d) (\<lambda>k. read_exact_loop T' to (t + k) (d - k))) s"
    using True by (intro on_part_at) (simp add: read_exact_loop.simps [of T' to t d])
  also have "\<dots> = ws_try (co_read_exact_step H T p to t d) (\<lambda>k. viewed (read_exact_loop T' to (t + k) (d - k))) s"
    by (rule step_try [OF assms])
  finally show ?thesis using True by simp
qed (use set_bytes assms in \<open>simp add: on_part_def reading_def read_exact_loop.simps [of T' to _ 0]\<close>)

lemma read_loop_viewed:
  assumes r: "reading t d s"
  shows "co_read_exact_loop H T p to t d s = viewed (read_exact_loop T' to t d) s"
proof (rule option_eqI)
  define P :: "('c, 's) host \<Rightarrow> 's transport \<Rightarrow> ('m \<times> 'c) place \<Rightarrow> timeout \<Rightarrow> nat \<Rightarrow> nat \<Rightarrow> 'm \<times> 'c \<Rightarrow>
      nat ws_result \<times> 'm \<times> 'c \<Rightarrow> bool"
    where "P H' T1 p' to' t d s y \<longleftrightarrow> (H' = H \<and> T1 = T \<and> p' = p \<and> to' = to \<and> reading t d s \<longrightarrow>
      viewed (read_exact_loop T' to t d) s = Some y)" for H' T1 p' to' t d s y
  fix y assume run: "co_read_exact_loop H T p to t d s = Some y"
  from run have "P H T p to t d s y"
  proof (rule co_read_exact_loop.raw_induct [where P = P, rotated])
    fix loop H' T1 p' to' t d s y
    assume IH: "\<And>H' T1 p' to' t d s y. loop H' T1 p' to' t d s = Some y \<Longrightarrow> P H' T1 p' to' t d s y"
      and run: "(if d > 0 then ws_try (co_read_exact_step H' T1 p' to' t d)
          (\<lambda>k. loop H' T1 p' to' (t + k) (d - k)) s else Some (Ok t, s)) = Some y"
    show "P H' T1 p' to' t d s y"
      unfolding P_def
    proof (intro impI, elim conjE)
      assume p: "H' = H" "T1 = T" "p' = p" "to' = to" and r: "reading t d s"
      have again: "loop H T p to t d s = Some y \<Longrightarrow> reading t d s \<Longrightarrow>
          viewed (read_exact_loop T' to t d) s = Some y" for t d s y
        using IH by (simp add: P_def)
      have after: "reading (t + k) (d - k) s1" if "co_read_exact_step H T p to t d s = Some (Ok k, s1)" for k s1
        using reading_step [OF r] step_viewed that r unfolding reading_def by simp
      show "viewed (read_exact_loop T' to t d) s = Some y"
      proof (cases "d > 0")
        case True
        with run have "ws_try (co_read_exact_step H T p to t d) (\<lambda>k. loop H T p to (t + k) (d - k)) s = Some y"
          by (simp add: p)
        then show ?thesis
          using True unfolding read_loop_eq [OF r]
          by (simp, elim ws_try_mono_Some) (blast intro: again after)
      qed (use run read_loop_eq [OF r] in \<open>simp add: p\<close>)
    qed
  qed
  then show "viewed (read_exact_loop T' to t d) s = Some y" using r by (simp add: P_def)
next
  fix y assume run: "viewed (read_exact_loop T' to t d) s = Some y"
  define P :: "'x transport \<Rightarrow> timeout \<Rightarrow> nat \<Rightarrow> nat \<Rightarrow> byte list \<times> 'x bsock \<Rightarrow>
      nat ws_result \<times> byte list \<times> 'x bsock \<Rightarrow> bool"
    where "P T1 to' t d a y \<longleftrightarrow> (T1 = T' \<and> to' = to \<longrightarrow>
      (\<forall>s. a = seen s \<longrightarrow> reading t d s \<longrightarrow> co_read_exact_loop H T p to t d s = Some (fst y, kept (snd y) s)))"
    for T1 to' t d a y
  from run obtain x a where y: "read_exact_loop T' to t d (seen s) = Some (x, a)" "y = (x, kept a s)"
    by (rule on_part_SomeE)
  from y(1) have "P T' to t d (seen s) (x, a)"
  proof (rule read_exact_loop.raw_induct [where P = P, rotated])
    fix loop T1 to' t d a y
    assume IH: "\<And>T1 to' t d a y. loop T1 to' t d a = Some y \<Longrightarrow> P T1 to' t d a y"
      and run: "(if d > 0 then ws_try (read_exact_step T1 to' t d)
          (\<lambda>k. loop T1 to' (t + k) (d - k)) a else Some (Ok t, a)) = Some y"
    show "P T1 to' t d a y"
      unfolding P_def
    proof (intro impI allI, elim conjE)
      fix s assume p: "T1 = T'" "to' = to" and a: "a = seen s" and r: "reading t d s"
      have s: "ok s" "t + d = pl_size p" using r by (simp_all add: reading_def)
      have again: "viewed (loop T' to t d) s = Some y \<Longrightarrow> reading t d s \<Longrightarrow>
          co_read_exact_loop H T p to t d s = Some y" for t d s y
        using IH unfolding P_def by (elim on_part_SomeE) (simp only: fst_conv snd_conv)
      have after: "reading (t + k) (d - k) s1" if "co_read_exact_step H T p to t d s = Some (Ok k, s1)" for k s1
        using reading_step [OF r] step_viewed that r unfolding reading_def by simp
      show "co_read_exact_loop H T p to t d s = Some (fst y, kept (snd y) s)"
      proof (cases "d > 0")
        case True
        have "viewed (ws_try (read_exact_step T' to t d) (\<lambda>k. loop T' to (t + k) (d - k))) s =
            Some (fst y, kept (snd y) s)"
          using run True unfolding p a by (intro on_part_run) simp
        moreover have "viewed (ws_try (read_exact_step T' to t d) (\<lambda>k. loop T' to (t + k) (d - k))) s =
            ws_try (co_read_exact_step H T p to t d) (\<lambda>k. viewed (loop T' to (t + k) (d - k))) s"
          unfolding step_try [OF r] ..
        ultimately show ?thesis
          using True by (subst co_read_exact_loop.simps) (simp, elim ws_try_mono_Some,
            blast intro: again after)
      qed (use run set_bytes [OF s(1)] in \<open>auto simp add: a co_read_exact_loop.simps [of H T p to _ 0]\<close>)
    qed
  qed
  then show "co_read_exact_loop H T p to t d s = Some y" using r unfolding P_def y(2) fst_conv snd_conv by blast
qed

lemma read_exact_viewed: "ok s \<Longrightarrow> co_read_exact H T p to s = viewed (read_exact T' to) s"
  using read_loop_viewed [of 0 "pl_size p" s to] sized [of s]
  by (simp add: co_read_exact_def read_exact_def reading_def on_part_def)

end

end
