(* ===== verification/Async_View.thy ===== *)
theory Async_View
  imports Async_Client Async_Schedule
begin

section \<open>A coroutine's view of the client\<close>

text \<open>
  The step from the buffered socket to the client. \<open>view\<close> and \<open>unview\<close> show the client as one over
  another transport, whose calls also do what the other coroutines do; \<open>E'\<close> is the environment with
  that transport. The receiving functions then are those of \<open>WebSocketClient\<close> seen through the view,
  for every schedule that leaves the fields alone that the view passes on. (\<open>ok\<close> marks the states the
  view can produce, which the receiving functions do not leave.)
\<close>

text \<open>A view that gets back what was put as long as that is a state it can show.\<close>

definition stays :: "('s \<Rightarrow> bool) \<Rightarrow> ('s, 'r) ws \<Rightarrow> bool" where
  "stays ok m \<longleftrightarrow> (\<forall>s r s'. m s = Some (r, s') \<longrightarrow> ok s \<longrightarrow> ok s')"

lemma staysD: "stays ok m \<Longrightarrow> m s = Some (r, s') \<Longrightarrow> ok s \<Longrightarrow> ok s'"
  unfolding stays_def by blast

lemma stays_try: "stays ok m \<Longrightarrow> (\<And>v. stays ok (f v)) \<Longrightarrow> stays ok (ws_try m f)"
  unfolding stays_def ws_try_def by (fastforce split: option.splits ws_result.splits)

lemma stays_units:
  "stays ok (ws_return v)" "stays ok (ws_fail e)" "stays ok (ws_result x)" "stays ok (\<lambda>s. Some (r, s))"
  by (simp_all add: stays_def)

lemma stays_if: "stays ok m \<Longrightarrow> stays ok m' \<Longrightarrow> stays ok (if b then m else m')"
  by simp

lemma stays_at: "(\<And>v. stays ok (m v)) \<Longrightarrow> stays ok (\<lambda>s. m (f s) s)"
  by (auto simp: stays_def)

lemma stays_snd: "stays ok m \<Longrightarrow> stays (\<lambda>s. ok (snd s)) (on_snd m)"
  by (auto simp: stays_def on_snd_Some)

lemma stays_fst: "stays (\<lambda>s. ok (snd s)) (on_fst m)"
  by (auto simp: stays_def on_fst_Some)

locale guarded_part =
  fixes get :: "'c \<Rightarrow> 'a" and put :: "'a \<Rightarrow> 'c \<Rightarrow> 'c" and ok :: "'a \<Rightarrow> bool"
  assumes ok_get: "ok (get c)"
    and get_put: "ok a \<Longrightarrow> get (put a c) = a"
    and put_get: "put (get c) c = c"
    and put_put: "put a (put b c) = put a c"
begin

lemma seq:
  assumes "stays ok m"
  shows "on_part get put (ws_try m f) = ws_try (on_part get put m) (\<lambda>v. on_part get put (f v))"
proof
  fix c
  show "on_part get put (ws_try m f) c = ws_try (on_part get put m) (\<lambda>v. on_part get put (f v)) c"
  proof (cases "m (get c)")
    case (Some q)
    obtain r a where q: "q = (r, a)" by (cases q)
    have "ok a" using assms Some q ok_get by (auto dest: staysD)
    then have "get (put a c) = a" "put b (put a c) = put b c" for b using get_put put_put by simp_all
    then show ?thesis
      using Some q
      by (cases r) (simp_all add: on_part_def ws_try_def del: split_paired_All split: option.split)
  qed (simp add: on_part_def ws_try_def)
qed

lemma units [simp]:
  "on_part get put (ws_return v) = ws_return v" "on_part get put (ws_fail e) = ws_fail e"
  "on_part get put (ws_result x) = ws_result x" "on_part get put (\<lambda>s. Some (y, s)) = (\<lambda>s. Some (y, s))"
  by (simp_all add: fun_eq_iff on_part_def put_get)

end

text \<open>\<open>accept_data_frame\<close>, once it is known whether the frame is the first of a message.\<close>

definition check_opcode :: "opcode \<Rightarrow> ('s, unit) ws" where
  "check_opcode op =
     (if op \<noteq> Op_continuation \<and> op \<noteq> Op_text \<and> op \<noteq> Op_binary
      then ws_fail (client_error (Msg_unexpected_opcode (opcode_number op)) cc_protocol_error)
      else ws_return ())"

definition accept_checked :: "bool \<Rightarrow> frame \<Rightarrow> (buffer \<times> ('s, 'g, 'z) client, unit) ws" where
  "accept_checked first f s =
     (let room = buf_max_size (fst s) - buf_used (fst s); h = fr_header f
      in if room < fr_payload_size f
         then Some (Err (WSError Buffer_error
                (Client_msg (Msg_payload_too_large (unat (fr_payload_size f)) (unat room))) message_too_big), s)
         else ws_try (on_snd (if first then begin_message h else continue_message h))
           (\<lambda>_ s. check_opcode (rs_op_code (cl_read_state (snd s))) s) s)"

lemma accept_data_frame_checked:
  "accept_data_frame f s = accept_checked (rs_is_first (cl_read_state (snd s))) f
     (if rs_is_first (cl_read_state (snd s)) then buffer_clear (fst s) else fst s, snd s)"
  by (simp add: accept_data_frame_def accept_checked_def Let_def check_opcode_def if_distrib [of "\<lambda>m. m s" for s]
      cong: if_cong)

text \<open>How the loop of \<open>read_message\<close> goes on after a round.\<close>

definition after_round ::
  "(buffer \<times> ('t, 'k, 'z) client \<Rightarrow> (read_result option ws_result \<times> buffer \<times> ('t, 'k, 'z) client) option) \<Rightarrow>
     round_result \<Rightarrow> (buffer \<times> ('t, 'k, 'z) client, read_result option) ws" where
  "after_round L r s = (case r of Got x \<Rightarrow> Some (Ok (Some x), s) | Last_frame \<Rightarrow> Some (Ok None, s) | More_frames \<Rightarrow> L s)"

locale client_view = schedule get put "client_host R" "e_transport E" "e_transport E'"
  for get :: "('s, 'g, 'z) client \<Rightarrow> 'x bsock" and put :: "'x bsock \<Rightarrow> ('s, 'g, 'z) client \<Rightarrow> ('s, 'g, 'z) client"
    and R :: "('s, 'g, 'z) others" and E :: "('s, 'g, 'z) env" and E' :: "('x, 'h, 'z) env" +
  fixes view :: "('s, 'g, 'z) client \<Rightarrow> ('x, 'h, 'z) client"
    and unview :: "('x, 'h, 'z) client \<Rightarrow> ('s, 'g, 'z) client \<Rightarrow> ('s, 'g, 'z) client"
    and ok :: "('x, 'h, 'z) client \<Rightarrow> bool"
  assumes env [simp]: "e_alloc E' = e_alloc E" "e_endian E' = e_endian E" "e_junk E' = e_junk E" "e_zlib E' = e_zlib E"
    and now: "tr_now (e_transport E) (bs_socket (cl_socket c)) = (t, s) \<Longrightarrow>
      \<exists>x. tr_now (e_transport E') (bs_socket (get c)) = (t, x) \<and>
        c\<lparr>cl_socket := (cl_socket c)\<lparr>bs_socket := s\<rparr>\<rparr> = put ((get c)\<lparr>bs_socket := x\<rparr>) c"
    and view_fields [simp]: "cl_socket (view c) = get c" "cl_closed (view c) = cl_closed c"
      "cl_pmd_ctx (view c) = cl_pmd_ctx c" "cl_read_state (view c) = cl_read_state c"
    and view_pmd: "view (c\<lparr>cl_pmd_ctx := x\<rparr>) = (view c)\<lparr>cl_pmd_ctx := x\<rparr>"
    and view_state: "view (c\<lparr>cl_read_state := rs\<rparr>) = (view c)\<lparr>cl_read_state := rs\<rparr>"
    and unview_socket: "unview (a\<lparr>cl_socket := k\<rparr>) c = put k (unview a c)"
    and unview_pmd: "unview (a\<lparr>cl_pmd_ctx := x\<rparr>) c = (unview a c)\<lparr>cl_pmd_ctx := x\<rparr>"
    and unview_state: "unview (a\<lparr>cl_read_state := rs\<rparr>) c = (unview a c)\<lparr>cl_read_state := rs\<rparr>"
    and unview_view [simp]: "unview (view c) c = c"
    and view_unview: "ok a \<Longrightarrow> view (unview a c) = a"
    and unview_unview: "unview a (unview b c) = unview a c"
    and ok_view: "ok (view c)"
    and ok_update: "ok a \<Longrightarrow> ok (a\<lparr>cl_socket := k\<rparr>)" "ok a \<Longrightarrow> ok (a\<lparr>cl_pmd_ctx := x\<rparr>)"
      "ok a \<Longrightarrow> ok (a\<lparr>cl_read_state := rs\<rparr>)"
begin

sublocale one: guarded_part view unview ok
  by unfold_locales (simp_all add: view_unview unview_unview ok_view)

sublocale two: guarded_part "pair_get view" "pair_put unview" "\<lambda>s. ok (snd s)"
  by unfold_locales (simp_all add: pair_get_def pair_put_def view_unview unview_unview ok_view)

text \<open>\<open>through\<close> runs an operation of the viewed client, \<open>through2\<close> next to the coroutine's memory.\<close>

abbreviation through :: "(('x, 'h, 'z) client, 'r) ws \<Rightarrow> (('s, 'g, 'z) client, 'r) ws" where
  "through \<equiv> on_part view unview"

abbreviation through2 :: "('m \<times> ('x, 'h, 'z) client, 'r) ws \<Rightarrow> ('m \<times> ('s, 'g, 'z) client, 'r) ws" where
  "through2 \<equiv> on_part (pair_get view) (pair_put unview)"

lemma through_sock: "through (on_sock m) = on_part get put m"
  by (rule ext) (auto simp: on_part_def on_sock_def unview_socket split: option.splits)

lemma stays_sock: "stays ok (on_sock m)"
  by (auto simp: stays_def on_sock_Some ok_update)

lemmas stays_rules = stays_sock stays_try stays_units stays_if stays_snd stays_fst

lemma local_owned:
  "owned_place get put (client_host R) (e_transport E) (e_transport E') (local_place n) fst (\<lambda>d s. (d, snd s))
     (\<lambda>s. length (fst s) = n)"
  by unfold_locales (simp_all add: local_place_def)

lemma read_span_through: "co_read_span E R dest to = through (on_sock (read_span E' dest to))"
proof
  fix c
  show "co_read_span E R dest to c = through (on_sock (read_span E' dest to)) c"
    using owned_place.read_exact_viewed [OF local_owned, of "(dest, c)" "length dest" to]
    by (auto simp: through_sock co_read_span_def with_local_def on_part_def read_span_def ws_try_def
        split: option.splits ws_result.splits)
qed

lemma read_array_through: "co_read_array E R n to = through (on_sock (read_array E' n to))"
  by (simp add: co_read_array_def read_array_def read_span_through)

lemma read_payload_size_through: "co_read_payload_size E R n to = through (read_payload_size E' n to)"
  by (simp add: co_read_payload_size_def read_payload_size_def read_array_through one.seq stays_rules)

lemma stays_payload_size: "stays ok (read_payload_size E' n to)"
  by (simp add: read_payload_size_def stays_rules)

lemma read_frame_through: "co_read_frame E R to = through (read_frame E' to)"
  by (simp add: co_read_frame_def read_frame_def read_array_through read_payload_size_through one.seq
      stays_rules stays_payload_size Let_def if_distrib [of through] cong: if_cong)

lemma stays_read_frame: "stays ok (read_frame E' to)"
  by (simp add: read_frame_def Let_def stays_rules stays_payload_size)

lemma control_payload_through: "co_read_control_payload E R f to = through (read_control_payload E' f to)"
  by (simp add: co_read_control_payload_def read_control_payload_def read_span_through one.seq stays_rules)

lemma stays_control_payload: "stays ok (read_control_payload E' f to)"
  by (simp add: read_control_payload_def stays_rules)

lemma check_close_env: "check_close_frame E' f = check_close_frame E f"
  by (simp add: check_close_frame_def)

lemma handle_control_through: "co_handle_control_frame E R f to = through (handle_control_frame E' f to)"
  by (simp add: co_handle_control_frame_def handle_control_frame_def control_payload_through one.seq
      stays_rules stays_control_payload Let_def check_close_env split: opcode.split)

lemma stays_handle_control: "stays ok (handle_control_frame E' f to)"
  by (simp add: handle_control_frame_def Let_def stays_rules stays_control_payload split: opcode.split)

text \<open>A buffer in the memory of the coroutine or in the client, apart from the socket.\<close>

definition holds_buffer ::
  "('m \<times> ('s, 'g, 'z) client \<Rightarrow> buffer option) \<Rightarrow>
     (buffer \<Rightarrow> 'm \<times> ('s, 'g, 'z) client \<Rightarrow> 'm \<times> ('s, 'g, 'z) client) \<Rightarrow> bool" where
  "holds_buffer get_buf put_buf \<longleftrightarrow>
     (\<forall>s b b0. get_buf s = Some b0 \<longrightarrow> get_buf (put_buf b s) = Some b \<and> put_buf b0 s = s) \<and>
     (\<forall>s b b'. put_buf b (put_buf b' s) = put_buf b s) \<and>
     (\<forall>s k. get_buf (fst s, put k (snd s)) = get_buf s) \<and>
     (\<forall>s b. get (snd (put_buf b s)) = get (snd s)) \<and>
     (\<forall>s b k. (fst (put_buf b s), put k (snd (put_buf b s))) = put_buf b (fst s, put k (snd s)))"

lemma holds_bufferD:
  assumes "holds_buffer get_buf put_buf"
  shows "get_buf s = Some b0 \<Longrightarrow> get_buf (put_buf b s) = Some b" "get_buf s = Some b0 \<Longrightarrow> put_buf b0 s = s"
    "put_buf b (put_buf b' s) = put_buf b s" "get_buf (fst s, put k (snd s)) = get_buf s"
    "get (snd (put_buf b s)) = get (snd s)"
    "(fst (put_buf b s), put k (snd (put_buf b s))) = put_buf b (fst s, put k (snd s))"
  using assms unfolding holds_buffer_def by blast+

text \<open>The span of a block, as long as the buffer keeps it.\<close>

definition has_block :: "('c \<Rightarrow> buffer option) \<Rightarrow> nat \<Rightarrow> nat \<Rightarrow> nat \<Rightarrow> 'c \<Rightarrow> bool" where
  "has_block get_buf addr off len s \<longleftrightarrow>
     (\<exists>b bs. get_buf s = Some b \<and> buf_mem b = Some (addr, bs) \<and> off + len \<le> length bs)"

definition block_bytes :: "('c \<Rightarrow> buffer option) \<Rightarrow> nat \<Rightarrow> nat \<Rightarrow> 'c \<Rightarrow> byte list" where
  "block_bytes get_buf off len s = (case get_buf s of None \<Rightarrow> [] | Some b \<Rightarrow> subspan off len (buf_block b))"

definition set_block :: "('c \<Rightarrow> buffer option) \<Rightarrow> (buffer \<Rightarrow> 'c \<Rightarrow> 'c) \<Rightarrow> nat \<Rightarrow> nat \<Rightarrow>
    byte list \<Rightarrow> 'c \<Rightarrow> 'c" where
  "set_block get_buf put_buf off len d s =
     (case get_buf s of
        None \<Rightarrow> s
      | Some b \<Rightarrow> (case buf_mem b of None \<Rightarrow> s
          | Some (a, bs) \<Rightarrow> put_buf (b\<lparr>buf_mem := Some (a, take off bs @ d @ drop (off + len) bs)\<rparr>) s))"

lemma block_owned:
  assumes h: "holds_buffer get_buf put_buf"
  shows "owned_place get put (client_host R) (e_transport E) (e_transport E')
    (block_place get_buf put_buf addr off len) (block_bytes get_buf off len) (set_block get_buf put_buf off len)
    (has_block get_buf addr off len)"
proof unfold_locales
  note h = holds_bufferD [OF h]
  show "get (snd (set_block get_buf put_buf off len d s)) = get (snd s)" for d s
    using h(5) by (simp add: set_block_def split: option.split)
  show "block_bytes get_buf off len (fst s, put k (snd s)) = block_bytes get_buf off len s" for s k
    using h(4) by (simp add: block_bytes_def)
  show "(fst (set_block get_buf put_buf off len d s), put k (snd (set_block get_buf put_buf off len d s))) =
      set_block get_buf put_buf off len d (fst s, put k (snd s))" for d s k
    using h(4,6) by (simp add: set_block_def split: option.split)
next
  note h = holds_bufferD [OF h]
  fix s assume "has_block get_buf addr off len s"
  then obtain b bs where b: "get_buf s = Some b" "buf_mem b = Some (addr, bs)" "off + len \<le> length bs"
    by (auto simp: has_block_def)
  show "length (block_bytes get_buf off len s) = pl_size (block_place get_buf put_buf addr off len)"
    using b by (simp add: block_bytes_def block_place_def buf_block_def subspan_def)
  have "take off bs @ subspan off len bs @ drop (off + len) bs = bs"
    using blit_subspan [OF b(3)] b(3) by (simp add: blit_def subspan_def)
  moreover have "put_buf (b\<lparr>buf_mem := Some (addr, bs)\<rparr>) s = s"
    using h(2) [OF b(1)] b(2) by (cases b) simp
  ultimately show same: "set_block get_buf put_buf off len (block_bytes get_buf off len s) s = s"
    using b by (simp add: block_bytes_def set_block_def buf_block_def)
  show "has_block get_buf addr off len (fst s, put k (snd s))" for k
    using b h(4) by (simp add: has_block_def)
  show "pl_store (block_place get_buf put_buf addr off len) i xs s =
      Some (set_block get_buf put_buf off len (blit i xs (block_bytes get_buf off len s)) s)"
    if "i + length xs \<le> pl_size (block_place get_buf put_buf addr off len)" for i xs
  proof (cases "xs = []")
    case True
    then show ?thesis using same by (simp add: block_place_def)
  next
    case False
    then show ?thesis
      using that b blit_blit_subspan [of off len bs i xs]
      by (simp add: block_place_def set_block_def block_bytes_def buf_block_def)
        (simp add: blit_def subspan_def)
  qed
  fix d :: "byte list" assume d: "length d = pl_size (block_place get_buf put_buf addr off len)"
  then have d': "length d = len" by (simp add: block_place_def)
  have set: "set_block get_buf put_buf off len e s = put_buf (b\<lparr>buf_mem := Some (addr, take off bs @ e @ drop (off + len) bs)\<rparr>) s" for e
    using b by (simp add: set_block_def)
  have got: "get_buf (set_block get_buf put_buf off len d s) = Some (b\<lparr>buf_mem := Some (addr, blit off d bs)\<rparr>)"
    using h(1) [OF b(1)] d' by (simp add: set blit_def)
  show "block_bytes get_buf off len (set_block get_buf put_buf off len d s) = d"
    using got b(3) d' by (simp add: block_bytes_def buf_block_def) (metis subspan_blit_same)
  show "has_block get_buf addr off len (set_block get_buf put_buf off len d s)"
    using got b(3) d' by (simp add: has_block_def)
  show "set_block get_buf put_buf off len e (set_block get_buf put_buf off len d s) = set_block get_buf put_buf off len e s" for e
    using got b(3) d' h(3) unfolding set_block_def [of _ _ _ _ e "set_block get_buf put_buf off len d s"]
    by (simp add: set blit_def)
qed

lemma appended_through:
  assumes h: "holds_buffer get_buf put_buf" and n: "0 < n"
  shows "co_read_appended E R get_buf put_buf n to s =
    (case get_buf s of
       None \<Rightarrow> Some (Abort, s)
     | Some b \<Rightarrow>
         (case read_appended E' n to (b, view (snd s)) of
            None \<Rightarrow> None
          | Some (r, (b, a)) \<Rightarrow> Some (r, put_buf b (fst s, put (cl_socket a) (snd s)))))"
proof (cases "get_buf s")
  case (Some b)
  note h' = holds_bufferD [OF h]
  obtain r b1 where a: "buffer_append_n (e_alloc E) n b = (r, b1)" by fastforce
  show ?thesis
  proof (cases r)
    case (Ok p)
    obtain off len where p: "p = (off, len)" by (cases p)
    have len: "0 < len"
      using a n unfolding Ok p by (auto simp: buffer_append_n_def Let_def st_try_def unat_gt_0
          split: if_splits prod.splits ws_result.splits)
    show ?thesis
    proof (cases "off + len > length (buf_block b1)")
      case True
      then show ?thesis
        using Some a Ok p
        by (simp add: co_read_appended_def read_appended_def ws_try_def on_fst_def)
    next
      case False
      then obtain addr bs where mem: "buf_mem b1 = Some (addr, bs)" and fits: "off + len \<le> length bs"
        using len by (cases "buf_mem b1") (auto simp: buf_block_def)
      note Some' = Some
      let ?s = "put_buf b1 s" and ?dest = "subspan off len bs"
      have got: "get_buf ?s = Some b1" using h'(1) [OF Some] .
      have "has_block get_buf addr off len ?s" using got mem fits by (simp add: has_block_def)
      note run = owned_place.read_exact_viewed [OF block_owned [OF h] this]
      have dest: "block_bytes get_buf off len ?s = ?dest" using got mem by (simp add: block_bytes_def buf_block_def)
      have read: "co_read_exact (client_host R) (e_transport E) (block_place get_buf put_buf addr off len) to ?s =
          (case read_exact (e_transport E') to (?dest, get (snd s)) of
             None \<Rightarrow> None
           | Some (r, (d, k)) \<Rightarrow>
               Some (r, put_buf (b1\<lparr>buf_mem := Some (addr, blit off d bs)\<rparr>) (fst s, put k (snd s))))"
      proof (cases "read_exact (e_transport E') to (?dest, get (snd s))")
        case None
        then show ?thesis using run h'(5) dest by (simp add: on_part_def)
      next
        case (Some q)
        obtain r d k where q: "q = (r, (d, k))" by (cases q) auto
        have d: "length d = len" using read_exact_length [OF Some [unfolded q]] fits by (simp add: subspan_def)
        have "set_block get_buf put_buf off len d (fst ?s, put k (snd ?s)) =
            put_buf (b1\<lparr>buf_mem := Some (addr, blit off d bs)\<rparr>) (fst s, put k (snd s))"
          using mem d h'(3) h'(6) [of b1 s k] h'(1) [of "(fst s, put k (snd s))" b b1] h'(4) [of s k] Some'
          by (simp add: set_block_def blit_def)
        then show ?thesis using Some q run h'(5) dest by (simp add: on_part_def)
      qed
      show ?thesis
      proof (cases "read_exact (e_transport E') to (?dest, get (snd s))")
        case None
        then show ?thesis
          using \<open>get_buf s = Some b\<close> a Ok p False mem read
          by (simp add: co_read_appended_def read_appended_def ws_try_def on_fst_def block_addr_def buf_block_def)
      next
        case (Some q)
        obtain r' d k where q: "q = (r', (d, k))" by (cases q) auto
        have d: "length d = len" using read_exact_length [OF Some [unfolded q]] fits by (simp add: subspan_def)
        have fill: "buffer_fill off d b1 = (Ok (), b1\<lparr>buf_mem := Some (addr, blit off d bs)\<rparr>)"
          using mem fits d by (cases b1) (simp add: buffer_fill_def)
        show ?thesis
          using Some \<open>get_buf s = Some b\<close> a Ok p False mem read q fill
          by (cases r') (simp_all add: co_read_appended_def read_appended_def ws_try_def on_fst_def block_addr_def buf_block_def)
      qed
    qed
  qed (use Some a in \<open>simp_all add: co_read_appended_def read_appended_def ws_try_def on_fst_def\<close>)
qed (simp add: co_read_appended_def)

lemma put_view: "view (put k c) = (view c)\<lparr>cl_socket := k\<rparr>"
  using view_unview [OF ok_update(1) [OF ok_view], of k c c] unview_socket [of k "view c" c] by simp

lemma put_pmd [simp]:
  "cl_pmd_ctx (put k c) = cl_pmd_ctx c" "get (c\<lparr>cl_pmd_ctx := x\<rparr>) = get c"
  "put k (c\<lparr>cl_pmd_ctx := x\<rparr>) = (put k c)\<lparr>cl_pmd_ctx := x\<rparr>"
proof -
  show "cl_pmd_ctx (put k c) = cl_pmd_ctx c"
    using view_fields(3) [of "put k c"] by (simp add: put_view)
  show "get (c\<lparr>cl_pmd_ctx := x\<rparr>) = get c"
    using view_fields(1) [of "c\<lparr>cl_pmd_ctx := x\<rparr>"] by (simp add: view_pmd)
  have "put k (c\<lparr>cl_pmd_ctx := x\<rparr>) = unview ((view c)\<lparr>cl_pmd_ctx := x, cl_socket := k\<rparr>) (unview ((view c)\<lparr>cl_pmd_ctx := x\<rparr>) c)"
    using unview_socket [of k "(view c)\<lparr>cl_pmd_ctx := x\<rparr>" "c\<lparr>cl_pmd_ctx := x\<rparr>"] unview_view [of "c\<lparr>cl_pmd_ctx := x\<rparr>"]
    by (simp add: unview_pmd view_pmd)
  also have "\<dots> = unview ((view c)\<lparr>cl_pmd_ctx := x, cl_socket := k\<rparr>) c" by (rule unview_unview)
  also have "(view c)\<lparr>cl_pmd_ctx := x, cl_socket := k\<rparr> = (view c)\<lparr>cl_socket := k, cl_pmd_ctx := x\<rparr>"
    by (rule client.equality) simp_all
  also have "unview \<dots> c = (put k c)\<lparr>cl_pmd_ctx := x\<rparr>" by (simp add: unview_pmd unview_socket)
  finally show "put k (c\<lparr>cl_pmd_ctx := x\<rparr>) = (put k c)\<lparr>cl_pmd_ctx := x\<rparr>" .
qed

lemma holds_buffers:
  "holds_buffer message_buffer set_message_buffer" "holds_buffer decompress_buffer set_decompress_buffer"
proof -
  show "holds_buffer message_buffer set_message_buffer"
    by (simp add: holds_buffer_def message_buffer_def set_message_buffer_def)
  show "holds_buffer decompress_buffer set_decompress_buffer"
    by (auto simp: holds_buffer_def decompress_buffer_def set_decompress_buffer_def option.map_comp comp_def split: bind_splits)
qed

lemma read_appended_client:
  "read_appended E' n to (b, a) = Some (r, (b1, a1)) \<Longrightarrow> a1 = a\<lparr>cl_socket := cl_socket a1\<rparr>"
  by (auto simp: read_appended_def on_fst_Some elim!: ws_try_SomeE split: if_splits option.splits prod.splits)

lemma payload_through: "co_read_payload E R n to = through2 (read_payload E' n to)"
proof
  fix s :: "buffer \<times> ('s, 'g, 'z) client"
  obtain b c where s: "s = (b, c)" by (cases s)
  have socket: "unview (a\<lparr>cl_socket := k\<rparr>) c = put k (unview a c)" for a k by (rule unview_socket)
  show "co_read_payload E R n to s = through2 (read_payload E' n to) s"
  proof (cases "0 < n \<and> rs_is_compressed (cl_read_state c)")
    case True
    show ?thesis
    proof (cases "decompress_buffer s")
      case None
      with True show ?thesis
        by (cases "cl_pmd_ctx c")
          (auto simp: s co_read_payload_def read_payload_def on_part_def appended_through [OF holds_buffers(2)]
            decompress_buffer_def on_snd_def on_decompress_buffer_def)
    next
      case (Some db)
      then obtain x where x: "cl_pmd_ctx c = Some x" "pc_decompress_buffer x = Some db"
        by (auto simp: s decompress_buffer_def split: bind_splits)
      show ?thesis
      proof (cases "read_appended E' n to (db, view c)")
        case None
        with True x Some show ?thesis
          by (simp add: s co_read_payload_def read_payload_def on_part_def appended_through [OF holds_buffers(2)]
            on_snd_def on_decompress_buffer_def)
      next
        case run: (Some q)
        obtain r b1 a1 where q: "q = (r, (b1, a1))" by (cases q) auto
        have a1: "a1 = (view c)\<lparr>cl_socket := cl_socket a1\<rparr>" using read_appended_client run q by blast
        have "unview (a1\<lparr>cl_pmd_ctx := y\<rparr>) c = (put (cl_socket a1) c)\<lparr>cl_pmd_ctx := y\<rparr>" for y
          by (subst a1) (simp add: unview_pmd unview_socket)
        with run True x Some show ?thesis
          by (simp add: s q co_read_payload_def read_payload_def on_part_def appended_through [OF holds_buffers(2)]
            on_snd_def on_decompress_buffer_def set_decompress_buffer_def)
      qed
    qed
  next
    case False
    show ?thesis
    proof (cases "0 < n")
      case True
      show ?thesis
      proof (cases "read_appended E' n to (b, view c)")
        case None
        with True False show ?thesis
          by (simp add: s co_read_payload_def read_payload_def on_part_def appended_through [OF holds_buffers(1)]
            message_buffer_def)
      next
        case run: (Some q)
        obtain r b1 a1 where q: "q = (r, (b1, a1))" by (cases q) auto
        have a1: "a1 = (view c)\<lparr>cl_socket := cl_socket a1\<rparr>" using read_appended_client run q by blast
        have "unview a1 c = put (cl_socket a1) c" by (subst a1) (simp add: unview_socket)
        with run True False show ?thesis
          by (simp add: s q co_read_payload_def read_payload_def on_part_def appended_through [OF holds_buffers(1)]
            message_buffer_def set_message_buffer_def)
      qed
    qed (simp add: s co_read_payload_def read_payload_def on_part_def)
  qed
qed

lemma begin_through: "begin_message h = through (begin_message h)"
  by (rule ext)
    (auto simp: begin_message_def on_part_def on_decompress_buffer_def set_read_state_def ws_try_def Let_def
      unview_pmd unview_state split: option.splits)

lemma stays_begin: "stays ok (begin_message h)"
proof -
  have d: "stays ok (on_decompress_buffer (\<lambda>(b, c). Some (Ok (), (buffer_clear b, c))))"
    by (auto simp: stays_def on_decompress_buffer_def ok_update split: option.splits)
  have "stays ok (\<lambda>c. ws_try (if rsv1_bit h
                      then on_decompress_buffer (\<lambda>(b, c). Some (Ok (), (buffer_clear b, c)))
                      else ws_return ())
                (\<lambda>_. if rsv2_bit h \<or> rsv3_bit h
                      then ws_fail (client_error Msg_rsv23_set cc_protocol_error)
                      else ws_return ()) c)"
    using d by (simp add: stays_rules)
  then show ?thesis
    by (auto simp: stays_def begin_message_def Let_def set_read_state_def ok_update split: if_splits)
      (use ok_update(3) in \<open>blast+\<close>)?
qed

lemma continue_through: "continue_message h = through (continue_message h)"
  by (simp add: continue_message_def)

lemma stays_continue: "stays ok (continue_message h)"
  by (simp add: continue_message_def stays_rules)

lemma checked_through: "through2 (accept_checked first f) = accept_checked first f"
proof
  fix s :: "buffer \<times> ('s, 'g, 'z) client"
  let ?h = "fr_header f"
  let ?part = "if first then begin_message ?h else continue_message ?h"
  have stay: "stays ok ?part" using stays_begin stays_continue by simp
  have last: "through2 (\<lambda>s. check_opcode (rs_op_code (cl_read_state (snd s))) s) =
      (\<lambda>s. check_opcode (rs_op_code (cl_read_state (snd s))) s)"
    by (rule ext) (simp add: on_part_def pair_put_def check_opcode_def)
  have "through2 (ws_try (on_snd ?part) (\<lambda>_ s. check_opcode (rs_op_code (cl_read_state (snd s))) s)) =
      ws_try (on_snd (through ?part)) (\<lambda>_ s. check_opcode (rs_op_code (cl_read_state (snd s))) s)"
    by (subst two.seq [OF stays_snd [OF stay]]) (simp only: on_snd_lift last)
  also have "through ?part = ?part" using begin_through continue_through by simp
  finally have go: "through2 (ws_try (on_snd ?part) (\<lambda>_ s. check_opcode (rs_op_code (cl_read_state (snd s))) s)) =
      ws_try (on_snd ?part) (\<lambda>_ s. check_opcode (rs_op_code (cl_read_state (snd s))) s)" .
  show "through2 (accept_checked first f) s = accept_checked first f s"
  proof (cases "buf_max_size (fst s) - buf_used (fst s) < fr_payload_size f")
    case True
    then show ?thesis by (simp add: accept_checked_def Let_def on_part_def pair_put_def)
  next
    case False
    then have "through2 (accept_checked first f) s =
        through2 (ws_try (on_snd ?part) (\<lambda>_ s. check_opcode (rs_op_code (cl_read_state (snd s))) s)) s"
      by (intro on_part_at) (simp add: accept_checked_def Let_def)
    then show ?thesis using False unfolding go by (simp add: accept_checked_def Let_def)
  qed
qed

lemma stays_checked: "stays (\<lambda>s. ok (snd s)) (accept_checked first f)"
proof -
  have "stays (\<lambda>s. ok (snd s)) (ws_try (on_snd (if first then begin_message h else continue_message h))
      (\<lambda>_ s. check_opcode (rs_op_code (cl_read_state (snd s))) s))" for h
    using stays_begin stays_continue
    by (intro stays_try stays_snd) (auto simp: stays_def check_opcode_def)
  note go = staysD [OF this [of "fr_header f"]]
  show ?thesis
    unfolding stays_def
  proof (intro allI impI)
    fix s r s' assume run: "accept_checked first f s = Some (r, s')" and s: "ok (snd s)"
    show "ok (snd s')"
    proof (cases "buf_max_size (fst s) - buf_used (fst s) < fr_payload_size f")
      case True
      with run s show ?thesis by (auto simp: accept_checked_def Let_def)
    next
      case False
      with run show ?thesis by (intro go [OF _ s]) (simp add: accept_checked_def Let_def)
    qed
  qed
qed

lemma accept_through: "accept_data_frame f = through2 (accept_data_frame f)"
proof
  fix s :: "buffer \<times> ('s, 'g, 'z) client"
  let ?first = "rs_is_first (cl_read_state (snd s))"
  let ?b = "if ?first then buffer_clear (fst s) else fst s"
  have "through2 (accept_data_frame f) s = through2 (accept_checked ?first f) (?b, snd s)"
    unfolding on_part_def accept_data_frame_checked pair_put_def pair_get_def fst_conv snd_conv by simp
  then show "accept_data_frame f s = through2 (accept_data_frame f) s"
    by (simp add: checked_through accept_data_frame_checked)
qed

lemma stays_accept: "stays (\<lambda>s. ok (snd s)) (accept_data_frame f)"
  using stays_checked unfolding stays_def accept_data_frame_checked by (metis snd_conv)

lemma check_expired_through: "check_expired E to = through (check_expired E' to)"
proof -
  have "on_sock (on_socket (ws_total (\<lambda>s. let (x, s) = is_expired (tr_now (e_transport E)) to s in (Ok x, s)))) c =
    on_part get put (on_socket (ws_total (\<lambda>s. let (x, s) = is_expired (tr_now (e_transport E')) to s in (Ok x, s)))) c"
    for c :: "('s, 'g, 'z) client"
  proof -
    obtain t s where "tr_now (e_transport E) (bs_socket (cl_socket c)) = (t, s)" by fastforce
    with now [OF this] show ?thesis
      by (auto simp: on_sock_def on_socket_def on_part_def is_expired_def elapsed_def)
  qed
  then show ?thesis by (simp add: check_expired_def through_sock fun_eq_iff)
qed

lemma start_timeout_through: "start_timeout E ms = through (start_timeout E' ms)"
proof -
  have "on_sock (on_socket (ws_total (timeout_new (tr_now (e_transport E)) ms))) c =
    on_part get put (on_socket (ws_total (timeout_new (tr_now (e_transport E')) ms))) c" for c :: "('s, 'g, 'z) client"
  proof -
    obtain t s where "tr_now (e_transport E) (bs_socket (cl_socket c)) = (t, s)" by fastforce
    with now [OF this] show ?thesis
      by (auto simp: on_sock_def on_socket_def on_part_def timeout_new_def timeout_at_def)
  qed
  then show ?thesis by (simp add: start_timeout_def through_sock fun_eq_iff)
qed

lemma stays_payload: "stays (\<lambda>s. ok (snd s)) (read_payload E' n to)"
proof -
  have a: "stays (\<lambda>s. ok (snd s)) (read_appended E' n to)"
    unfolding stays_def using read_appended_client ok_update(1) by (metis prod.collapse)
  have "stays ok (on_decompress_buffer (read_appended E' n to))"
    using a by (fastforce simp: stays_def on_decompress_buffer_def ok_update split: option.splits)
  with a show ?thesis
    unfolding read_payload_def by (auto simp: stays_def on_snd_Some simp del: split_paired_All split: if_splits)
qed

lemma round_through: "co_read_message_round E R to = through2 (read_message_round E' to)"
  unfolding co_read_message_round_def read_message_round_def
  by (simp add: Let_def read_frame_through handle_control_through payload_through two.seq
      on_snd_lift stays_rules stays_read_frame stays_handle_control stays_accept stays_payload
      accept_through [symmetric] if_distrib [of through2] cong: if_cong)

lemma stays_round: "stays (\<lambda>s. ok (snd s)) (read_message_round E' to)"
  unfolding read_message_round_def Let_def
  by (intro stays_try stays_if stays_units stays_snd stays_read_frame stays_handle_control stays_accept stays_payload)

text \<open>The loop of \<open>read_message\<close>, in both directions.\<close>

lemma after_round_through: "through2 (after_round L r) = after_round (through2 L) r"
  by (rule ext) (cases r; simp add: after_round_def on_part_def pair_put_def)

lemma expired_through:
  "through2 (ws_try (on_snd (check_expired E' to))
     (\<lambda>expired s. if expired then Some (Ok None, s) else ws_try (read_message_round E' to) (after_round L) s)) =
   ws_try (on_snd (check_expired E to))
     (\<lambda>expired s. if expired then Some (Ok None, s)
        else ws_try (co_read_message_round E R to) (after_round (through2 L)) s)"
proof -
  have "through2 (\<lambda>s. if x then Some (Ok None, s) else ws_try (read_message_round E' to) (after_round L) s) =
      (\<lambda>s. if x then Some (Ok None, s) else ws_try (co_read_message_round E R to) (after_round (through2 L)) s)" for x
    using two.seq [OF stays_round, of to "after_round L"]
    by (cases x) (simp_all add: two.units after_round_through round_through)
  moreover have "stays ok (check_expired E' to)" unfolding check_expired_def by (rule stays_sock)
  ultimately show ?thesis
    by (simp add: two.seq [OF stays_snd] on_snd_lift check_expired_through)
qed

lemma loop_eq:
  "through2 (read_message_loop E' to) s =
   ws_try (on_snd (check_expired E to))
     (\<lambda>expired s. if expired then Some (Ok None, s)
        else ws_try (co_read_message_round E R to) (after_round (through2 (read_message_loop E' to))) s) s"
  unfolding expired_through [symmetric]
  by (intro on_part_at) (rule read_message_loop.simps [folded after_round_def])

lemma loop_through: "co_read_message_loop E R to s = through2 (read_message_loop E' to) s"
proof (rule option_eqI)
  define P :: "('s, 'g, 'z) env \<Rightarrow> ('s, 'g, 'z) others \<Rightarrow> timeout \<Rightarrow> buffer \<times> ('s, 'g, 'z) client \<Rightarrow>
      read_result option ws_result \<times> buffer \<times> ('s, 'g, 'z) client \<Rightarrow> bool"
    where "P E1 R1 to1 s y \<longleftrightarrow> (E1 = E \<and> R1 = R \<and> to1 = to \<longrightarrow> through2 (read_message_loop E' to) s = Some y)"
    for E1 R1 to1 s y
  fix y assume "co_read_message_loop E R to s = Some y"
  from this have "P E R to s y"
  proof (rule co_read_message_loop.raw_induct [where P = P, rotated])
    fix loop E1 R1 to1 s y
    assume IH: "\<And>E1 R1 to1 s y. loop E1 R1 to1 s = Some y \<Longrightarrow> P E1 R1 to1 s y"
      and run: "ws_try (on_snd (check_expired E1 to1))
       (\<lambda>expired s.
          if expired then Some (Ok None, s)
          else ws_try (co_read_message_round E1 R1 to1)
                 (\<lambda>r s. case r of
                           Got x \<Rightarrow> Some (Ok (Some x), s)
                         | Last_frame \<Rightarrow> Some (Ok None, s)
                         | More_frames \<Rightarrow> loop E1 R1 to1 s) s) s = Some y"
    show "P E1 R1 to1 s y"
      unfolding P_def
    proof (intro impI, elim conjE)
      assume p: "E1 = E" "R1 = R" "to1 = to"
      have again: "after_round (loop E R to) r s = Some y \<Longrightarrow>
          after_round (through2 (read_message_loop E' to)) r s = Some y" for r s y
        using IH by (cases r) (simp_all add: P_def after_round_def)
      from run have "ws_try (on_snd (check_expired E to))
         (\<lambda>expired s. if expired then Some (Ok None, s)
            else ws_try (co_read_message_round E R to) (after_round (loop E R to)) s) s = Some y"
        unfolding p after_round_def [abs_def] .
      then show "through2 (read_message_loop E' to) s = Some y"
        by (subst loop_eq, elim ws_try_mono_Some) (auto elim!: ws_try_mono_Some simp: again split: if_splits)
    qed
  qed
  then show "through2 (read_message_loop E' to) s = Some y" by (simp add: P_def)
next
  define P :: "('x, 'h, 'z) env \<Rightarrow> timeout \<Rightarrow> buffer \<times> ('x, 'h, 'z) client \<Rightarrow>
      read_result option ws_result \<times> buffer \<times> ('x, 'h, 'z) client \<Rightarrow> bool"
    where "P E1 to1 a y \<longleftrightarrow> (E1 = E' \<and> to1 = to \<longrightarrow> (\<forall>s. a = pair_get view s \<longrightarrow>
      co_read_message_loop E R to s = Some (fst y, pair_put unview (snd y) s)))" for E1 to1 a y
  fix y assume "through2 (read_message_loop E' to) s = Some y"
  then obtain r a where y: "read_message_loop E' to (pair_get view s) = Some (r, a)" "y = (r, pair_put unview a s)"
    by (rule on_part_SomeE)
  from y(1) have "P E' to (pair_get view s) (r, a)"
  proof (rule read_message_loop.raw_induct [where P = P, rotated])
    fix loop E1 to1 a y
    assume IH: "\<And>E1 to1 s y. loop E1 to1 s = Some y \<Longrightarrow> P E1 to1 s y"
      and run: "ws_try (on_snd (check_expired E1 to1))
       (\<lambda>expired s.
          if expired then Some (Ok None, s)
          else ws_try (read_message_round E1 to1)
                 (\<lambda>r s. case r of
                           Got x \<Rightarrow> Some (Ok (Some x), s)
                         | Last_frame \<Rightarrow> Some (Ok None, s)
                         | More_frames \<Rightarrow> loop E1 to1 s) s) a = Some y"
    show "P E1 to1 a y"
      unfolding P_def
    proof (intro impI allI, elim conjE)
      fix s assume p: "E1 = E'" "to1 = to" and a: "a = pair_get view s"
      have IH': "loop E' to (pair_get view s) = Some y \<Longrightarrow>
          co_read_message_loop E R to s = Some (fst y, pair_put unview (snd y) s)" for s y
        using IH unfolding P_def by blast
      have again: "through2 (loop E' to) s = Some y \<Longrightarrow> co_read_message_loop E R to s = Some y" for s y
        by (erule on_part_SomeE) (simp add: IH')
      have again: "after_round (through2 (loop E' to)) r s = Some y \<Longrightarrow>
          after_round (co_read_message_loop E R to) r s = Some y" for r s y
        using again by (cases r) (simp_all add: after_round_def)
      have "ws_try (on_snd (check_expired E' to))
         (\<lambda>expired s. if expired then Some (Ok None, s)
            else ws_try (read_message_round E' to) (after_round (loop E' to)) s) (pair_get view s) = Some y"
        using run unfolding p a after_round_def [abs_def] .
      then have "through2 (ws_try (on_snd (check_expired E' to))
         (\<lambda>expired s. if expired then Some (Ok None, s)
            else ws_try (read_message_round E' to) (after_round (loop E' to)) s)) s =
         Some (fst y, pair_put unview (snd y) s)"
        by (rule on_part_run)
      then show "co_read_message_loop E R to s = Some (fst y, pair_put unview (snd y) s)"
        unfolding expired_through
        by (subst co_read_message_loop.simps, fold after_round_def, elim ws_try_mono_Some)
          (auto elim!: ws_try_mono_Some simp: again split: if_splits)
    qed
  qed
  then show "co_read_message_loop E R to s = Some y" unfolding P_def y(2) fst_conv snd_conv by blast
qed

lemma stays_loop: "stays (\<lambda>s. ok (snd s)) (read_message_loop E' to)"
  unfolding stays_def
proof (intro allI impI)
  define P :: "('x, 'h, 'z) env \<Rightarrow> timeout \<Rightarrow> buffer \<times> ('x, 'h, 'z) client \<Rightarrow>
      read_result option ws_result \<times> buffer \<times> ('x, 'h, 'z) client \<Rightarrow> bool"
    where "P E1 to1 a y \<longleftrightarrow> (E1 = E' \<and> ok (snd a) \<longrightarrow> ok (snd (snd y)))" for E1 to1 a y
  fix s r s' assume "read_message_loop E' to s = Some (r, s')" and s: "ok (snd s)"
  from this(1) have "P E' to s (r, s')"
  proof (rule read_message_loop.raw_induct [where P = P, rotated])
    fix loop E1 to1 a y
    assume IH: "\<And>E1 to1 s y. loop E1 to1 s = Some y \<Longrightarrow> P E1 to1 s y"
      and run: "ws_try (on_snd (check_expired E1 to1))
       (\<lambda>expired s.
          if expired then Some (Ok None, s)
          else ws_try (read_message_round E1 to1)
                 (\<lambda>r s. case r of
                           Got x \<Rightarrow> Some (Ok (Some x), s)
                         | Last_frame \<Rightarrow> Some (Ok None, s)
                         | More_frames \<Rightarrow> loop E1 to1 s) s) a = Some y"
    have "stays (\<lambda>s. ok (snd s)) (after_round (loop E' to1) r)" for r
      using IH by (cases r) (force simp: stays_def after_round_def P_def)+
    then have step: "stays (\<lambda>s. ok (snd s)) (ws_try (read_message_round E' to1) (after_round (loop E' to1)))"
      using stays_round by (intro stays_try)
    have "stays (\<lambda>s. ok (snd s)) (ws_try (on_snd (check_expired E' to1))
       (\<lambda>expired s. if expired then Some (Ok None, s)
          else ws_try (read_message_round E' to1) (after_round (loop E' to1)) s))"
    proof (rule stays_try)
      show "stays (\<lambda>s. ok (snd s)) (on_snd (check_expired E' to1))"
        unfolding check_expired_def by (rule stays_snd [OF stays_sock])
      show "stays (\<lambda>s. ok (snd s)) (\<lambda>s. if expired then Some (Ok None, s)
          else ws_try (read_message_round E' to1) (after_round (loop E' to1)) s)" for expired
        using step stays_units(4) by (cases expired) simp_all
    qed
    note ends = staysD [OF this, unfolded after_round_def [abs_def]]
    show "P E1 to1 a y"
      unfolding P_def
    proof
      assume a: "E1 = E' \<and> ok (snd a)"
      show "ok (snd (snd y))" using run ends [of a "fst y" "snd y"] unfolding a [THEN conjunct1] by (simp add: a)
    qed
  qed
  then show "ok (snd s')" using s by (simp add: P_def)
qed

text \<open>Completing a message does not suspend.\<close>

lemma decompress_through: "decompress_message E = through2 (decompress_message E')"
proof
  fix s :: "buffer \<times> ('s, 'g, 'z) client"
  show "decompress_message E s = through2 (decompress_message E') s"
    by (cases s) (auto simp: decompress_message_def on_part_def unview_pmd split: option.split prod.split)
qed

lemma stays_decompress: "stays (\<lambda>s. ok (snd s)) (decompress_message E')"
  by (auto simp: stays_def decompress_message_def ok_update split: option.splits prod.splits)

lemma deliver_through: "deliver t = through2 (deliver t)"
  by (rule ext) (simp add: deliver_def on_part_def pair_put_def set_read_state_def unview_state Let_def)

lemma finish_through: "finish_message E to = through2 (finish_message E' to)"
proof -
  have c: "stays ok (check_expired E' to)" unfolding check_expired_def by (rule stays_sock)
  have dec: "through2 (\<lambda>s. if rs_is_compressed (cl_read_state (snd s)) then decompress_message E' s else ws_return () s) =
      (\<lambda>s. if rs_is_compressed (cl_read_state (snd s)) then decompress_message E s else ws_return () s)"
    unfolding decompress_through by (rule ext) (simp add: on_part_def pair_put_def)
  have stay: "stays (\<lambda>s. ok (snd s))
      (\<lambda>s. if rs_is_compressed (cl_read_state (snd s)) then decompress_message E' s else ws_return () s)"
    using stays_decompress by (auto simp: stays_def split: if_splits)
  let ?fin = "\<lambda>s. let data = buffer_data (fst s); op = rs_op_code (cl_read_state (snd s))
      in case op of
           Op_text \<Rightarrow>
             (if \<not> is_valid_utf8 data (narrow_len (length data))
              then ws_fail (client_error Msg_invalid_utf8_text invalid_frame_payload_data) s
              else deliver Mt_text s)
         | Op_binary \<Rightarrow> deliver Mt_binary s
         | _ \<Rightarrow> ws_fail (client_error (Msg_unexpected_message_opcode (opcode_number op)) cc_protocol_error) s"
  have fin: "through2 ?fin = ?fin"
    by (rule ext) (auto simp: on_part_def pair_put_def deliver_def set_read_state_def unview_state Let_def
        split: opcode.split)
  have "finish_message E to = ws_try (on_snd (through (check_expired E' to)))
      (\<lambda>expired. if expired then ws_fail (WSError Timeout_error (Client_msg Msg_read_timeout) not_set)
         else ws_try (through2 (\<lambda>s. if rs_is_compressed (cl_read_state (snd s))
                then decompress_message E' s else ws_return () s)) (\<lambda>_. through2 ?fin))"
    unfolding finish_message_def check_expired_through dec fin ..
  also have "\<dots> = through2 (finish_message E' to)"
    unfolding finish_message_def
    by (simp only: two.seq [OF stays_snd [OF c]] two.seq [OF stay] two.units on_snd_lift if_distrib [of through2])
  finally show ?thesis .
qed

lemma read_message_through: "co_read_message E R ms = through2 (read_message E' ms)"
proof
  fix s :: "buffer \<times> ('s, 'g, 'z) client"
  have st: "stays ok (start_timeout E' ms)" unfolding start_timeout_def by (rule stays_sock)
  have loop: "stays (\<lambda>s. ok (snd s)) (read_message_loop E' to)" for to
    by (rule stays_loop)
  have fin: "through2 (case r of Some x \<Rightarrow> ws_return x | None \<Rightarrow> finish_message E' to) =
      (case r of Some x \<Rightarrow> ws_return x | None \<Rightarrow> finish_message E to)" for r to
    by (cases r) (simp_all add: finish_through [symmetric])
  let ?m = "ws_try (on_snd (start_timeout E' ms))
      (\<lambda>to. ws_try (read_message_loop E' to)
        (\<lambda>r. case r of Some x \<Rightarrow> ws_return x | None \<Rightarrow> finish_message E' to))"
  have m: "through2 ?m = ws_try (on_snd (start_timeout E ms))
      (\<lambda>to. ws_try (co_read_message_loop E R to)
        (\<lambda>r. case r of Some x \<Rightarrow> ws_return x | None \<Rightarrow> finish_message E to))"
    by (simp only: two.seq [OF stays_snd [OF st]] two.seq [OF loop] on_snd_lift [symmetric] fin
        start_timeout_through [symmetric] loop_through [symmetric, abs_def])
  show "co_read_message E R ms s = through2 (read_message E' ms) s"
  proof (cases "cl_closed (snd s)")
    case False
    then have "through2 (read_message E' ms) s = through2 ?m s"
      by (intro on_part_at) (simp add: read_message_def)
    then show ?thesis using False m by (simp add: co_read_message_def)
  qed (simp add: co_read_message_def read_message_def on_part_def pair_put_def)
qed

end

end
