(* ===== verification/Async_Refinement.thy ===== *)
theory Async_Refinement
  imports Async_View Receive_Refinement
begin

section \<open>The asynchronous client against the blocking one\<close>

subsection \<open>Other coroutines that do not use this client\<close>

text \<open>
  The rest of the program changes the world behind the socket (\<open>r\<close>), not the client. Then every
  operation is that of \<open>WebSocketClient\<close> over the transport whose calls include what the rest did.
\<close>

definition elsewhere :: "('s \<Rightarrow> 's) \<Rightarrow> ('s, 'g, 'z) others" where
  "elsewhere r c = c\<lparr>cl_socket := (cl_socket c)\<lparr>bs_socket := r (bs_socket (cl_socket c))\<rparr>\<rparr>"

definition interleaved_env :: "('s \<Rightarrow> 's) \<Rightarrow> ('s, 'g, 'z) env \<Rightarrow> ('s, 'g, 'z) env" where
  "interleaved_env r E = E\<lparr>e_transport := interleaved r (e_transport E)\<rparr>"

lemma interleaved_env_sel [simp]:
  "e_transport (interleaved_env r E) = interleaved r (e_transport E)"
  "e_mask_gen (interleaved_env r E) = e_mask_gen E" "e_zlib (interleaved_env r E) = e_zlib E"
  "e_alloc (interleaved_env r E) = e_alloc E" "e_endian (interleaved_env r E) = e_endian E"
  "e_build (interleaved_env r E) = e_build E" "e_junk (interleaved_env r E) = e_junk E"
  by (simp_all add: interleaved_env_def)

lemma interleaved_env_id [simp]: "interleaved_env (\<lambda>s. s) E = E"
  by (simp add: interleaved_env_def)

lemma client_host_sel [simp]:
  "h_get (client_host R) = cl_socket" "h_put (client_host R) k c = c\<lparr>cl_socket := k\<rparr>" "h_resume (client_host R) = R"
  by (simp_all add: client_host_def)

lemma cl_socket_part: "part cl_socket (\<lambda>k c. c\<lparr>cl_socket := k\<rparr>)"
  by unfold_locales simp_all

abbreviation set_socket :: "'s bsock \<Rightarrow> ('s, 'g, 'z) client \<Rightarrow> ('s, 'g, 'z) client" where
  "set_socket \<equiv> \<lambda>k c. c\<lparr>cl_socket := k\<rparr>"

lemma await_elsewhere: "co_await (client_host (elsewhere r)) (on_socket m) = on_sock (on_socket (followed r m))"
  by (rule ext)
    (auto simp: co_await_def on_buffered_def on_part_def on_socket_def on_sock_def elsewhere_def followed_def
      split: option.split)

interpretation apart_socket: writing_schedule cl_socket set_socket "client_host (elsewhere r)" T "interleaved r T"
  for r :: "'s \<Rightarrow> 's" and T :: "'s transport"
proof (intro writing_schedule.intro schedule.intro writing_schedule_axioms.intro schedule_axioms.intro cl_socket_part)
  show "co_await (client_host (elsewhere r)) (read_into T off n to) = on_part cl_socket set_socket (read_into (interleaved r T) off n to)"
    for off n to
    by (rule ext)
      (auto simp: co_await_def on_buffered_def on_part_def read_into_def on_socket_def on_ring_def elsewhere_def
        followed_def ws_try_def split: option.splits ws_result.splits)
  show "co_await (client_host (elsewhere r)) (on_socket (tr_write_some T d to)) =
    on_part cl_socket set_socket (on_socket (tr_write_some (interleaved r T) d to))" for d to
    unfolding await_elsewhere by (simp add: on_sock_def)
qed simp_all

interpretation apart: client_view cl_socket set_socket "elsewhere r" E "interleaved_env r E" "\<lambda>c. c" "\<lambda>a c. a" "\<lambda>a. True"
  for r :: "'s \<Rightarrow> 's" and E :: "('s, 'g, 'z) env"
  by (intro client_view.intro client_view_axioms.intro)
    (simp_all add: apart_socket.schedule_axioms)

declare apart.put_pmd [simp del] apart.view_fields [simp del] apart.unview_view [simp del] apart.env [simp del]

lemma pair_id [simp]: "on_part (pair_get (\<lambda>c. c)) (pair_put (\<lambda>a c. a)) m = m"
  by (rule ext) (auto simp: on_part_def pair_get_def pair_put_def split: option.split)

lemma part_id [simp]: "on_part (\<lambda>c. c) (\<lambda>a c. a) m = m"
  by (rule ext) (auto simp: on_part_def split: option.split)

lemma read_message_apart: "co_read_message E (elsewhere r) ms = read_message (interleaved_env r E) ms"
  using apart.read_message_through by simp

subsection \<open>Writing frames\<close>

lemma both_socket: "on_part (pair_get cl_socket) (pair_put set_socket) (on_snd m) = on_snd (on_sock m)"
  by (rule ext) (auto simp: on_part_def on_snd_def on_sock_def split: option.split)

lemmas write_apart = apart_socket.write_both [unfolded both_socket]

text \<open>The header takes at most the first 14 bytes of the write buffer.\<close>

definition header_at_most :: "('s, 'g, 'z) client \<Rightarrow> ('s, 'g, 'z) client \<Rightarrow> bool" where
  "header_at_most c c1 \<longleftrightarrow> (\<exists>wb. c1 = c\<lparr>cl_write_buffer := wb\<rparr> \<and> length wb = length (cl_write_buffer c) \<and>
     drop 14 wb = drop 14 (cl_write_buffer c))"

lemma header_at_most_refl: "header_at_most c c"
  unfolding header_at_most_def by (rule exI [of _ "cl_write_buffer c"]) simp

lemma header_at_most_put:
  assumes "header_at_most c c1" and "p + length xs \<le> 14" and "14 \<le> length (cl_write_buffer c)"
  shows "header_at_most c (put p xs c1)"
proof -
  from assms(1) obtain wb where wb: "c1 = c\<lparr>cl_write_buffer := wb\<rparr>" "length wb = length (cl_write_buffer c)"
      "drop 14 wb = drop 14 (cl_write_buffer c)"
    unfolding header_at_most_def by blast
  show ?thesis
    unfolding header_at_most_def
    by (rule exI [of _ "blit p xs wb"]) (use wb assms(2,3) in \<open>simp add: put_def drop_blit_after\<close>)
qed

lemma put_header_at_most:
  assumes "put_header E f c = Some (r, c1)" and "14 \<le> length (cl_write_buffer c)"
  shows "header_at_most c c1" and "r = Ok off \<Longrightarrow> off \<le> 14"
proof -
  have p: "header_at_most c c' \<Longrightarrow> p + length xs \<le> 14 \<Longrightarrow> header_at_most c (put p xs c')" for c' p xs
    using header_at_most_put assms(2) by blast
  show "header_at_most c c1"
    using assms(1) unfolding put_header_def Let_def
    by (auto split: if_splits intro!: p header_at_most_refl)
  show "off \<le> 14" if "r = Ok off" using assms(1) that unfolding put_header_def Let_def
    by (auto split: if_splits)
qed

lemma start_timeout_apart: "start_timeout (interleaved_env r E) ms = start_timeout E ms"
  by (simp add: start_timeout_def)

lemma put_header_total: "put_header E f c \<noteq> None"
  by (simp add: put_header_def Let_def)

lemma put_header_apart: "put_header (interleaved_env r E) f c = put_header E f c"
  by (simp only: put_header_def interleaved_env_sel)

text \<open>
  Memory that a payload lies in: \<open>write_frame\<close> masks it in place, and neither the header nor the socket
  is part of it. (\<open>ok\<close> says that the span is valid.)
\<close>

locale payload_memory =
  fixes p :: "('m \<times> ('s, 'g, 'z) client) place" and bytes :: "'m \<times> ('s, 'g, 'z) client \<Rightarrow> byte list"
    and repl :: "byte list \<Rightarrow> 'm \<times> ('s, 'g, 'z) client \<Rightarrow> 'm \<times> ('s, 'g, 'z) client"
    and ok :: "'m \<times> ('s, 'g, 'z) client \<Rightarrow> bool"
  assumes sized: "ok s \<Longrightarrow> pl_size p = length (bytes s)"
    and shown: "ok s \<Longrightarrow> pl_bytes p s = Some (bytes s)"
    and stored: "ok s \<Longrightarrow> length d = length (bytes s) \<Longrightarrow> pl_store p 0 d s = Some (repl d s)"
    and ok_repl: "ok s \<Longrightarrow> length d = length (bytes s) \<Longrightarrow> ok (repl d s)"
    and bytes_repl: "ok s \<Longrightarrow> length d = length (bytes s) \<Longrightarrow> bytes (repl d s) = d"
    and repl_bytes: "ok s \<Longrightarrow> repl (bytes s) s = s"
    and ok_header: "ok (m, c) \<Longrightarrow> header_at_most c c1 \<Longrightarrow> ok (m, c1)"
    and bytes_header: "header_at_most c c1 \<Longrightarrow> bytes (m, c1) = bytes (m, c)"
    and ok_socket: "ok (m, c) \<Longrightarrow> ok (m, set_socket k c)"
    and bytes_socket: "bytes (m, set_socket k c) = bytes (m, c)"
    and repl_socket: "repl d (m, set_socket k c) = (fst (repl d (m, c)), set_socket k (snd (repl d (m, c))))"
    and repl_header: "ok s \<Longrightarrow> length d = length (bytes s) \<Longrightarrow> n \<le> 14 \<Longrightarrow>
      take n (cl_write_buffer (snd (repl d s))) = take n (cl_write_buffer (snd s))"
    and repl_length: "ok s \<Longrightarrow> length d = length (bytes s) \<Longrightarrow>
      length (cl_write_buffer (snd (repl d s))) = length (cl_write_buffer (snd s))"
    and socket_repl: "cl_socket (snd (repl d s)) = cl_socket (snd s)"
begin

abbreviation through_memory :: "(byte list \<times> ('s, 'g, 'z) client, 'r) ws \<Rightarrow>
    ('m \<times> ('s, 'g, 'z) client, 'r) ws" where
  "through_memory \<equiv> on_part (\<lambda>s. (bytes s, snd s)) (\<lambda>a s. repl (fst a) (fst s, snd a))"

lemma steady_repl:
  assumes "ok s" and "length d = length (bytes s)"
  shows "apart_socket.steady p d (repl d s)"
  using assms ok_socket [of "fst (repl d s)" "snd (repl d s)"] bytes_socket [of "fst (repl d s)" _ "snd (repl d s)"]
    ok_repl sized shown bytes_repl
  by (simp add: apart_socket.steady_def)

text \<open>The two writes of a frame, with the header in the write buffer.\<close>

lemma write_parts:
  assumes nz: "never_writes_zero T" and s: "ok s" and d: "length d = length (bytes s)" and n: "n \<le> 14" "n \<le> length (cl_write_buffer (snd s))"
  shows "ws_try (co_write (client_host (elsewhere r)) T (write_buffer_place 0 n) to)
      (\<lambda>_. if b then co_write (client_host (elsewhere r)) T p to else ws_return ()) (repl d s) =
    ws_try (on_snd (on_sock (bs_write (interleaved r T) (subspan 0 n (cl_write_buffer (snd s))) to)))
      (\<lambda>_. if b then on_snd (on_sock (bs_write (interleaved r T) d to)) else ws_return ()) (repl d s)"
proof (rule ws_try_eqI)
  let ?header = "subspan 0 n (cl_write_buffer (snd s))"
  have "apart_socket.steady (write_buffer_place 0 n) ?header (repl d s)"
    using n repl_length [OF s d] repl_header [OF s d n(1)]
    by (simp add: apart_socket.steady_def write_buffer_place_def subspan_def)
  from write_apart [OF nz this]
  show header: "co_write (client_host (elsewhere r)) T (write_buffer_place 0 n) to (repl d s) =
      on_snd (on_sock (bs_write (interleaved r T) ?header to)) (repl d s)" .
  fix u s1
  assume "co_write (client_host (elsewhere r)) T (write_buffer_place 0 n) to (repl d s) = Some (Ok u, s1)"
  then obtain k where "s1 = (fst (repl d s), set_socket k (snd (repl d s)))"
    unfolding header by (auto simp: on_snd_Some on_sock_Some)
  then have "apart_socket.steady p d s1" using apart_socket.steady_put [OF steady_repl [OF s d]] by simp
  from write_apart [OF nz this]
  show "(if b then co_write (client_host (elsewhere r)) T p to else ws_return ()) s1 =
      (if b then on_snd (on_sock (bs_write (interleaved r T) d to)) else ws_return ()) s1" by simp
qed

text \<open>What only looks at the socket does not care where the payload lies.\<close>

lemma socket_through:
  "on_snd (on_sock m) (repl d s) =
     (case on_snd (on_sock m) (d, snd s) of None \<Rightarrow> None | Some (r, a) \<Rightarrow> Some (r, repl (fst a) (fst s, snd a)))"
  using socket_repl [of d s] repl_socket [of d "fst s" _ "snd s"]
  by (auto simp: on_snd_def on_sock_def on_part_def split: option.split)

lemma writes_through:
  "ws_try (on_snd (on_sock m)) (\<lambda>_. if b then on_snd (on_sock m') else ws_return ()) (repl d s) =
    (case ws_try (on_snd (on_sock m)) (\<lambda>_. if b then on_snd (on_sock m') else ws_return ()) (d, snd s) of
       None \<Rightarrow> None | Some (r, a) \<Rightarrow> Some (r, repl (fst a) (fst s, snd a)))"
proof -
  have again: "repl d (fst s, set_socket k (snd s)) = (fst (repl d s), set_socket k (snd (repl d s)))" for k
    using repl_socket [of d "fst s" k "snd s"] by simp
  show ?thesis
    using socket_through [of m d s] socket_through [of m' d "(fst s, set_socket k (snd s))" for k]
    by (auto simp: ws_try_def on_snd_def on_sock_def on_part_def again socket_repl split: option.splits ws_result.splits)
qed

lemma write_frame_through:
  assumes nz: "never_writes_zero (e_transport E)" and s: "ok s" and w: "14 \<le> length (cl_write_buffer (snd s))"
  shows "co_write_frame E (elsewhere r) f ptr p to s = through_memory (write_frame (interleaved_env r E) f ptr to) s"
proof (cases "put_header E f (snd s)")
  case None
  then show ?thesis using put_header_total by blast
next
  case (Some a)
  obtain x c1 where a: "a = (x, c1)" by (cases a)
  have h: "put_header (interleaved_env r E) f (snd s) = Some (x, c1)" "put_header E f (snd s) = Some (x, c1)"
    using Some by (simp_all add: a put_header_apart)
  note c1 = put_header_at_most [OF h(2) w]
  have s1: "ok (fst s, c1)" "bytes (fst s, c1) = bytes s"
    using ok_header [of "fst s" "snd s"] bytes_header [of "snd s" c1 "fst s"] c1(1) s by simp_all
  show ?thesis
  proof (cases x)
    case (Ok n)
    let ?d = "mask_fn (e_endian E) (e_build E) ptr (fr_mask_key f) (bytes s)"
    have d: "length ?d = length (bytes (fst s, c1))" by (simp add: s1 length_mask_fn)
    have n: "n \<le> 14" "n \<le> length (cl_write_buffer c1)"
      using c1(2) [OF Ok] c1(1) w by (auto simp: header_at_most_def)
    let ?ends = "\<lambda>w. \<lambda>_ :: unit. if 0 < fr_payload_size f then w else ws_return ()"
    have "on_snd (put_header E f) s = Some (Ok n, (fst s, c1))"
      using h Ok by (simp add: on_snd_Some)
    then have "co_write_frame E (elsewhere r) f ptr p to s =
        ws_try (store_bytes p 0 ?d)
          (\<lambda>_. ws_try (co_write (client_host (elsewhere r)) (e_transport E) (write_buffer_place 0 n) to)
            (?ends (co_write (client_host (elsewhere r)) (e_transport E) p to))) (fst s, c1)"
      using s1 by (simp add: co_write_frame_def ws_try_simps shown)
    also have "\<dots> = ws_try (co_write (client_host (elsewhere r)) (e_transport E) (write_buffer_place 0 n) to)
            (?ends (co_write (client_host (elsewhere r)) (e_transport E) p to)) (repl ?d (fst s, c1))"
      using stored [OF s1(1) d] by (subst ws_try_simps(1)) (simp_all add: store_bytes_def)
    also have "\<dots> = (case ws_try (on_snd (on_sock (bs_write (interleaved r (e_transport E))
          (subspan 0 n (cl_write_buffer c1)) to)))
        (?ends (on_snd (on_sock (bs_write (interleaved r (e_transport E)) ?d to)))) (?d, c1) of
       None \<Rightarrow> None | Some (r, a) \<Rightarrow> Some (r, repl (fst a) (fst s, snd a)))"
      using trans [OF write_parts [OF nz s1(1) d n(1)] writes_through] n(2) unfolding fst_conv snd_conv by blast
    finally have co: "co_write_frame E (elsewhere r) f ptr p to s = \<dots>" .
    have "on_snd (put_header (interleaved_env r E) f) (bytes s, snd s) = Some (Ok n, (bytes s, c1))"
      using h Ok by (simp add: on_snd_Some)
    then have "write_frame (interleaved_env r E) f ptr to (bytes s, snd s) =
        ws_try (on_snd (on_sock (bs_write (interleaved r (e_transport E)) (subspan 0 n (cl_write_buffer c1)) to)))
          (?ends (on_snd (on_sock (bs_write (interleaved r (e_transport E)) ?d to)))) (?d, c1)"
      by (simp add: write_frame_def Let_def ws_try_simps(1) [of "on_snd _"])
    then show ?thesis unfolding co by (simp add: on_part_def)
  qed (use h s1 repl_bytes [OF s1(1)] in \<open>simp_all add: co_write_frame_def write_frame_def ws_try_def on_part_def on_snd_def\<close>)
qed

lemma timeout_through:
  assumes "ok s" and "on_snd (start_timeout E ms) s = Some (x, s1)"
  obtains k where "s1 = (fst s, set_socket k (snd s))" "ok s1" "bytes s1 = bytes s"
    "on_snd (start_timeout E ms) (bytes s, snd s) = Some (x, (bytes s, snd s1))"
proof -
  from assms(2) obtain k where k: "s1 = (fst s, set_socket k (snd s))" "start_timeout E ms (snd s) = Some (x, snd s1)"
    unfolding start_timeout_def on_snd_Some on_sock_Some by auto
  moreover have "ok s1" "bytes s1 = bytes s"
    using k(1) assms(1) ok_socket [of "fst s" "snd s"] bytes_socket [of "fst s"] by simp_all
  ultimately show thesis using that by (simp add: on_snd_Some)
qed

lemma send_payload_through:
  assumes nz: "never_writes_zero (e_transport E)" and s: "ok s" and w: "14 \<le> length (cl_write_buffer (snd s))"
  shows "co_send_payload E (elsewhere r) f ptr p ms s = through_memory (send_payload (interleaved_env r E) f ptr ms) s"
proof (cases "on_snd (start_timeout E ms) s")
  case None
  then have "on_snd (start_timeout E ms) (bytes s, snd s) = None"
    by (auto simp: on_snd_def split: option.splits)
  then show ?thesis
    using None by (simp add: co_send_payload_def send_payload_def on_part_def ws_try_simps start_timeout_apart)
next
  case (Some a)
  obtain x s1 where a: "a = (x, s1)" by (cases a)
  from timeout_through [OF s Some [unfolded a]] obtain k where k: "s1 = (fst s, set_socket k (snd s))"
    "ok s1" "bytes s1 = bytes s" "on_snd (start_timeout E ms) (bytes s, snd s) = Some (x, (bytes s, snd s1))" .
  have w1: "14 \<le> length (cl_write_buffer (snd s1))" using w k(1) by simp
  have end1: "repl (bytes s) s1 = s1" using repl_bytes [OF k(2)] k(3) by simp
  show ?thesis
    using Some k(1,3,4) sized [OF s] end1 write_frame_through [OF nz k(2) w1, unfolded on_part_def k(1) fst_conv snd_conv]
    by (cases x)
      (simp_all add: co_send_payload_def send_payload_def on_part_def ws_try_simps start_timeout_apart a Let_def)
qed

end

interpretation caller_memory: payload_memory "local_place n" fst "\<lambda>d s. (d, snd s)" "\<lambda>s. length (fst s) = n"
  for n :: nat
  by unfold_locales (auto simp: local_place_def blit_def)

text \<open>The two bytes of the status code, at the end of the write buffer.\<close>

lemma subspan_blit_2: "length d = 2 \<Longrightarrow> length m = 128 \<Longrightarrow> subspan 125 2 (blit 125 d m) = d"
  using subspan_blit_same [of 125 d m] by simp

interpretation close_code_memory: payload_memory "write_buffer_place 125 2"
    "\<lambda>s. subspan 125 2 (cl_write_buffer (snd s))" "\<lambda>d s. (fst s, put 125 d (snd s))"
    "\<lambda>s. length (cl_write_buffer (snd s)) = 128"
  by unfold_locales
    (auto simp: write_buffer_place_def put_def header_at_most_def blit_subspan subspan_blit_2 take_blit_before
      intro!: subspan_after [of 14])

text \<open>The result of \<open>compress\<close>, a span at the start of the compression buffer.\<close>

definition compressed_bytes :: "nat \<Rightarrow> 'm \<times> ('s, 'g, 'z) client \<Rightarrow> byte list" where
  "compressed_bytes n s = (case compress_buffer s of None \<Rightarrow> [] | Some b \<Rightarrow> take n (buf_block b))"

definition compressed_span :: "nat \<Rightarrow> nat \<Rightarrow> 'm \<times> ('s, 'g, 'z) client \<Rightarrow> bool" where
  "compressed_span addr n s \<longleftrightarrow>
     n = 0 \<or> (\<exists>b bs. compress_buffer s = Some b \<and> buf_mem b = Some (addr, bs) \<and> n \<le> length bs)"

definition mask_compressed :: "byte list \<Rightarrow> 'm \<times> ('s, 'g, 'z) client \<Rightarrow> 'm \<times> ('s, 'g, 'z) client" where
  "mask_compressed d s =
     (fst s, (snd s)\<lparr>cl_pmd_ctx := map_option (mask_compress_buffer d) (cl_pmd_ctx (snd s))\<rparr>)"

lemma mask_nothing: "mask_compressed [] s = s" for s :: "'m \<times> ('s, 'g, 'z) client"
proof -
  have "mask_compress_buffer [] x = id x" for x :: "'z pmd_ctx"
    by (cases "pc_compress_buffer x") (simp_all add: mask_compress_buffer_def buffer_fill_def)
  then have "mask_compress_buffer [] = (id :: 'z pmd_ctx \<Rightarrow> _)" by (rule ext)
  then show ?thesis by (simp add: mask_compressed_def option.map_id)
qed

lemma compressed_span_cases:
  assumes "compressed_span addr n s"
  obtains (none) "n = 0" | (some) x b bs where "0 < n" "cl_pmd_ctx (snd s) = Some x"
    "pc_compress_buffer x = Some b" "buf_mem b = Some (addr, bs)" "n \<le> length bs"
  using assms by (auto simp: compressed_span_def compress_buffer_def bind_eq_Some_conv)

lemmas compressed_defs = compressed_bytes_def compressed_span_def mask_compressed_def block_place_def
  compress_buffer_def set_compress_buffer_def mask_compress_buffer_def

lemma compressed_laws:
  assumes "compressed_span addr n s"
  shows "length (compressed_bytes n s) = n \<and>
    pl_bytes (block_place compress_buffer set_compress_buffer addr 0 n) s = Some (compressed_bytes n s) \<and>
    (length d = n \<longrightarrow>
      pl_store (block_place compress_buffer set_compress_buffer addr 0 n) 0 d s = Some (mask_compressed d s)) \<and>
    (length d = n \<longrightarrow> compressed_span addr n (mask_compressed d s)) \<and>
    (length d = n \<longrightarrow> compressed_bytes n (mask_compressed d s) = d) \<and>
    mask_compressed (compressed_bytes n s) s = s"
  using assms
proof (cases rule: compressed_span_cases)
  case none
  then show ?thesis
    by (auto simp: mask_nothing compressed_bytes_def compressed_span_def block_place_def split: option.split)
next
  case (some x b bs)
  then have "blit 0 (take n bs) bs = bs" by (simp add: blit_def)
  with some show ?thesis
    by (cases s; cases "snd s"; cases x; cases b; cases d)
      (auto simp: compressed_defs buf_block_def buffer_fill_def subspan_def blit_def)
qed

interpretation compress_memory: payload_memory "block_place compress_buffer set_compress_buffer addr 0 n"
    "compressed_bytes n" mask_compressed "compressed_span addr n" for addr n
proof (unfold_locales, goal_cases)
  case (7 m c c1) then show ?case by (auto simp: compressed_defs header_at_most_def)
next
  case (8 c c1 m) then show ?case by (auto simp: compressed_defs header_at_most_def)
qed (simp_all add: compressed_laws, auto simp: compressed_defs block_place_def)

subsection \<open>The senders\<close>

text \<open>What \<open>compress\<close> returns is the start of the block that the compression buffer has then.\<close>

lemma compress_span:
  assumes "compress Z A inp x = Some (Ok (ptr, payload), x1)"
  shows "compressed_span ptr (length payload) (m, c\<lparr>cl_pmd_ctx := Some x1\<rparr>)"
    and "compressed_bytes (length payload) (m, c\<lparr>cl_pmd_ctx := Some x1\<rparr>) = payload"
proof -
  from assms obtain b n where b: "pc_compress_buffer x1 = Some b"
      "ptr = (case buf_mem b of None \<Rightarrow> 0 | Some (a, bs) \<Rightarrow> a)" "payload = take n (buffer_data b)"
    unfolding compress_def Let_def by (auto split: option.splits prod.splits ws_result.splits if_splits)
  then show "compressed_span ptr (length payload) (m, c\<lparr>cl_pmd_ctx := Some x1\<rparr>)"
    and "compressed_bytes (length payload) (m, c\<lparr>cl_pmd_ctx := Some x1\<rparr>) = payload"
    by (auto simp: compressed_span_def compressed_bytes_def compress_buffer_def buffer_data_def buf_block_def min_def
        split: option.splits)
qed

lemma send_compressed_apart:
  assumes "never_writes_zero (e_transport E)" and "14 \<le> length (cl_write_buffer (snd s))"
  shows "co_send_compressed E (elsewhere r) f ms s = on_snd (send_compressed (interleaved_env r E) f (fst s) ms) s"
proof (cases "cl_pmd_ctx (snd s)")
  case (Some x)
  note x = this
  show ?thesis
  proof (cases "pc_compress_buffer x")
    case (Some b)
    let ?run = "compress (e_zlib E) (e_alloc E) (fst s) (x\<lparr>pc_compress_buffer := Some (buffer_clear b)\<rparr>)"
    show ?thesis
    proof (cases "\<exists>ptr payload x1. ?run = Some (Ok (ptr, payload), x1)")
      case True
      then obtain ptr payload x1 where run: "?run = Some (Ok (ptr, payload), x1)" by blast
      let ?s = "(fst s, (snd s)\<lparr>cl_pmd_ctx := Some x1\<rparr>)"
      have "co_send_payload E (elsewhere r) f ptr
          (block_place compress_buffer set_compress_buffer ptr 0 (length payload)) ms ?s =
          (case send_payload (interleaved_env r E) f ptr ms (payload, snd ?s) of None \<Rightarrow> None
           | Some (r, a) \<Rightarrow> Some (r, mask_compressed (fst a) (fst s, snd a)))"
        using compress_memory.send_payload_through [OF assms(1) compress_span(1) [OF run, of "fst s" "snd s"], of r f ptr ms]
          assms(2) compress_span(2) [OF run, of "fst s" "snd s"]
        unfolding on_part_def fst_conv snd_conv by simp
      then show ?thesis
        using run Some x
        by (auto simp: co_send_compressed_def send_compressed_def on_snd_def mask_compressed_def ws_try_simps
            split: option.splits)
    next
      case False
      then show ?thesis
        using Some x
        by (auto simp: co_send_compressed_def send_compressed_def on_snd_def ws_try_def
            split: option.splits ws_result.splits)
    qed
  qed (simp add: co_send_compressed_def send_compressed_def x on_snd_def)
qed (simp add: co_send_compressed_def send_compressed_def on_snd_def)

lemma draw_apart: "draw_mask_key (interleaved_env r E) = draw_mask_key E"
  by (rule ext) (simp add: draw_mask_key_def)

lemma drawn:
  assumes "on_snd (draw_mask_key E) s = Some (Ok key, s1)"
  obtains g where "s1 = (fst s, (snd s)\<lparr>cl_mask_key_gen := g\<rparr>)"
  using assms by (auto simp: on_snd_Some draw_mask_key_def split: prod.splits)

lemma send_message_apart:
  assumes nz: "never_writes_zero (e_transport E)" and w: "14 \<le> length (cl_write_buffer (snd s))"
  shows "co_send_message E (elsewhere r) type ptr options s = send_message (interleaved_env r E) type ptr options s"
proof (cases "cl_closed (snd s)")
  case False
  show ?thesis
    unfolding co_send_message_def send_message_def draw_apart if_not_P [OF False]
  proof (rule ws_try_eqI [OF refl])
    fix key s1 assume "on_snd (draw_mask_key E) s = Some (Ok key, s1)"
    then have "fst s1 = fst s" "14 \<le> length (cl_write_buffer (snd s1))" using w by (auto elim!: drawn)
    then show "(let frame = (client_frame (message_opcode type))\<lparr>fr_mask_key := key\<rparr>
        in if cl_pmd_ctx (snd s1) \<noteq> None \<and> opt_compress options
           then co_send_compressed E (elsewhere r) (set_is_compressed True frame) (opt_timeout options) s1
           else co_send_payload E (elsewhere r) frame ptr (local_place (length (fst s1))) (opt_timeout options) s1) =
      (let frame = (client_frame (message_opcode type))\<lparr>fr_mask_key := key\<rparr>
        in if cl_pmd_ctx (snd s1) \<noteq> None \<and> opt_compress options
           then on_snd (send_compressed (interleaved_env r E) (set_is_compressed True frame) (fst s1)
             (opt_timeout options)) s1
           else send_payload (interleaved_env r E) frame ptr (opt_timeout options) s1)"
      by (simp add: send_compressed_apart [OF nz] caller_memory.send_payload_through [OF nz] Let_def on_part_def case_prod_beta)
  qed
qed (simp add: co_send_message_def send_message_def)

lemma send_pong_apart:
  assumes nz: "never_writes_zero (e_transport E)" and w: "14 \<le> length (cl_write_buffer (snd s))"
  shows "co_send_pong_frame E (elsewhere r) ptr ms s = send_pong_frame (interleaved_env r E) ptr ms s"
proof (cases "cl_closed (snd s)")
  case False
  show ?thesis
    unfolding co_send_pong_frame_def send_pong_frame_def draw_apart if_not_P [OF False] Let_def start_timeout_apart
  proof (intro ws_try_eqI refl)
    fix key s1 to s2
    assume "on_snd (draw_mask_key E) s = Some (Ok key, s1)" and "on_snd (start_timeout E ms) s1 = Some (Ok to, s2)"
    then have "fst s2 = fst s" "14 \<le> length (cl_write_buffer (snd s2))"
      using w by (auto simp: on_snd_Some draw_mask_key_def start_timeout_def on_sock_Some split: prod.splits)
    then show "co_write_frame E (elsewhere r) f ptr (local_place (length (fst s))) to s2 =
        write_frame (interleaved_env r E) f ptr to s2" for f
      by (simp add: caller_memory.write_frame_through [OF nz] on_part_def case_prod_beta)
  qed
qed (simp add: co_send_pong_frame_def send_pong_frame_def)

subsection \<open>Closing\<close>

lemma forget_local:
  "ws_try (with_local m0 f) (\<lambda>_. ws_return v) c =
     (case f (m0, c) of None \<Rightarrow> None | Some (r, (m, c')) \<Rightarrow> Some (res_try r (\<lambda>_. Ok v), c'))"
proof (cases "f (m0, c)")
  case (Some a)
  then show ?thesis by (cases "fst a") (auto simp: with_local_def ws_try_def split: prod.splits)
qed (simp add: with_local_def ws_try_def)

lemma res_try_unit [simp]: "res_try r (\<lambda>_. Ok ()) = r" "res_try r Ok = r"
  by (cases r; simp)+

lemma res_try_case: "res_try r k = (case r of Ok v \<Rightarrow> k v | Err e \<Rightarrow> Err e | Abort \<Rightarrow> Abort)"
  by (cases r) simp_all

lemma try_unit [simp]: "ws_try m (\<lambda>_. ws_return ()) = m"
  by (rule ext) (auto simp: ws_try_def split: option.split ws_result.split)

lemma send_close_apart:
  assumes nz: "never_writes_zero (e_transport E)" and w: "length (cl_write_buffer c) = 128"
  shows "co_send_close_frame E (elsewhere r) code to c = send_close_frame (interleaved_env r E) code to c"
  unfolding co_send_close_frame_def send_close_frame_def draw_apart
proof (rule ws_try_eqI [OF refl], goal_cases)
  case (1 key c1)
  then have w1: "length (cl_write_buffer c1) = 128" using w by (auto simp: draw_mask_key_def split: prod.splits)
  show ?case
  proof (cases "code = not_set")
    case False
    let ?code = "mem_bytes (e_endian E) (host_to_network16 (e_endian E) code)"
    let ?c = "put 125 ?code c1"
    have l: "length (cl_write_buffer ?c) = 128" using w1 by (simp add: put_def)
    then have two: "length (subspan 125 2 (cl_write_buffer ?c)) = 2" by simp
    have ptr: "cl_write_ptr ?c = cl_write_ptr c1" by (simp add: put_def)
    have "on_snd (\<lambda>c. Some (Ok (), put 125 ?code c)) ((), c1) = Some (Ok (), ((), ?c))" by (simp add: on_snd_Some)
    with False two ptr close_code_memory.write_frame_through [OF nz, of "((), ?c)" r] l show ?thesis
      by (auto simp: forget_local ws_try_simps Let_def on_part_def split: option.splits)
  next
    case True
    with w1 caller_memory.write_frame_through [OF nz, of "([], c1)" 0 r] show ?thesis
      by (auto simp: ws_try_def [of "ws_try _ _"] forget_local Let_def on_part_def res_try_case
          split: option.splits ws_result.splits)
  qed
qed

lemma shutdown_apart: "co_shutdown_socket E (elsewhere r) fail to = shutdown_socket (interleaved_env r E) fail to"
  by (rule ext) (simp add: co_shutdown_socket_def shutdown_socket_def await_elsewhere)

lemma client_close_apart:
  assumes nz: "never_writes_zero (e_transport E)" and w: "length (cl_write_buffer c) = 128"
  shows "co_client_close E (elsewhere r) code ms c = client_close (interleaved_env r E) code ms c"
proof (cases "cl_closed c")
  case False
  show ?thesis
    unfolding co_client_close_def client_close_def start_timeout_apart if_not_P [OF False]
      shutdown_apart await_elsewhere
  proof (rule ws_try_eqI [OF refl], goal_cases)
    case (1 to c1)
    then have "length (cl_write_buffer c1) = 128" using w by (auto simp: start_timeout_def on_sock_Some)
    then have "co_try_close_frame E (elsewhere r) code to c1 = try_close_frame (interleaved_env r E) code to c1"
      by (simp add: co_try_close_frame_def try_close_frame_def send_close_apart [OF nz])
    then show ?case by (simp add: ws_try_def)
  qed
qed (simp add: co_client_close_def client_close_def)

subsection \<open>The opening handshake\<close>

lemma write_bytes_apart:
  fixes E :: "('s, 'g, 'z) env"
  assumes nz: "never_writes_zero (e_transport E)"
  shows "co_write_bytes E (elsewhere r) xs to = on_sock (bs_write (interleaved r (e_transport E)) xs to)"
proof
  fix c :: "('s, 'g, 'z) client"
  have "apart_socket.steady (local_place (length xs)) xs (xs, c)"
    by (simp add: apart_socket.steady_def local_place_def)
  from write_apart [OF nz this, of r to]
  show "co_write_bytes E (elsewhere r) xs to c = on_sock (bs_write (interleaved r (e_transport E)) xs to) c"
    by (auto simp: co_write_bytes_def forget_local on_snd_def split: option.splits)
qed

lemma read_span_apart:
  "co_read_span E (elsewhere r) dest to = on_sock (read_span (interleaved_env r E) dest to)"
  using apart.read_span_through by simp

lemma response_head_apart:
  "co_read_response_head E (elsewhere r) b to = on_sock (read_response_head (interleaved_env r E) b to)"
  for E :: "('s, 'g, 'z) env"
proof
  fix c :: "('s, 'g, 'z) client"
  let ?until = "read_until (interleaved r (e_transport E)) (e_alloc E) crlf_crlf to"
  have until: "co_read_until (client_host (elsewhere r)) (e_transport E) (e_alloc E) crlf_crlf to (b, c) =
      (case ?until (b, cl_socket c) of None \<Rightarrow> None | Some (r, (b', k)) \<Rightarrow> Some (r, (b', set_socket k c)))"
    unfolding apart_socket.read_until_both on_part_def by (auto split: option.split)
  show "co_read_response_head E (elsewhere r) b to c =
      on_sock (read_response_head (interleaved_env r E) b to) c"
    unfolding co_read_response_head_def read_response_head_def
    by (auto simp: until with_local_def read_span_apart on_sock_def on_part_def on_buffer_def ws_try_def res_try_case
        split: option.splits ws_result.splits)
qed

lemma init_compression_apart: "init_compression (interleaved_env r E) = init_compression E"
  by (rule ext) (simp only: init_compression_def interleaved_env_sel)

lemma client_handshake_apart:
  "never_writes_zero (e_transport E) \<Longrightarrow>
    co_client_handshake E (elsewhere r) ms = client_handshake (interleaved_env r E) ms"
  by (rule ext) (simp add: co_client_handshake_def client_handshake_def start_timeout_apart write_bytes_apart
      response_head_apart init_compression_apart cong: if_cong)

subsection \<open>The asynchronous client is the blocking one\<close>

text \<open>
  A transport that writes nothing makes the difference: the coroutine reports a closed connection, the loop of
  the blocking client goes on for ever.
\<close>

lemma write_of_nothing_never_returns:
  fixes T :: "'s transport"
  assumes zero: "\<And>d to k. tr_write_some T d to k = Some (Ok 0, k)" and "0 < n"
  shows "bs_write_loop T data to m n s = None"
proof (rule ccontr)
  define P :: "'s transport \<Rightarrow> byte list \<Rightarrow> timeout \<Rightarrow> nat \<Rightarrow> nat \<Rightarrow> 's bsock \<Rightarrow> unit ws_result \<times> 's bsock \<Rightarrow> bool"
    where "P T' data to m n s y \<longleftrightarrow> (T' = T \<longrightarrow> n = 0)" for T' data to m n s y
  assume "bs_write_loop T data to m n s \<noteq> None"
  then obtain y where "bs_write_loop T data to m n s = Some y" by blast
  then have "P T data to m n s y"
  proof (rule bs_write_loop.raw_induct [where P = P, rotated])
    fix loop T' data to m n s y
    assume IH: "\<And>(T' :: 's transport) data to m n s y. loop T' data to m n s = Some y \<Longrightarrow> P T' data to m n s y"
      and run: "(if 0 < n then ws_try (bs_write_some T' (drop m data) to)
          (\<lambda>w. loop T' data to (m + w) (n - w)) s else Some (Ok (), s)) = Some y"
    show "P T' data to m n s y"
      unfolding P_def
    proof
      assume T: "T' = T"
      show "n = 0"
      proof (rule ccontr)
        assume "n \<noteq> 0"
        with run T zero have "loop T data to m n s = Some y"
          by (simp add: bs_write_some_def on_socket_def on_part_def ws_try_def)
        from IH [OF this] \<open>n \<noteq> 0\<close> show False by (simp add: P_def)
      qed
    qed
  qed
  with assms(2) show False by (simp add: P_def)
qed

lemma co_write_of_nothing_fails:
  assumes "\<And>d to k. tr_write_some T d to k = Some (Ok 0, k)" and "pl_bytes p s = Some bs" and "0 < n"
  shows "\<exists>s'. co_write_loop H T p to m n s = Some (Err peer_closed, s')"
  using assms
  by (subst co_write_loop.simps)
    (simp add: co_write_step_def co_await_def on_buffered_def on_part_def on_socket_def on_snd_def ws_try_def)

text \<open>
  C6: While the other coroutines keep away from the client, and the transport never reports that it has
  written nothing, every operation of \<open>WebSocketClientAsync\<close> returns exactly what the operation of
  \<open>WebSocketClient\<close> returns, with the same effect on the client, the message buffer and the payload, on the
  same transport, to whose calls what the others did meanwhile to the rest of the program (\<open>r\<close>) is
  added; when they did nothing, it is the same transport. (For a transport that accepts none of a
  non-empty span the two differ, see \<open>write_of_nothing_never_returns\<close>.)
\<close>

theorem async_matches_blocking:
  assumes "never_writes_zero (e_transport E)" and "length (cl_write_buffer c) = 128"
  shows "co_client_handshake E (elsewhere r) ms (hs, c) = client_handshake (interleaved_env r E) ms (hs, c) \<and>
    co_read_message E (elsewhere r) ms (b, c) = read_message (interleaved_env r E) ms (b, c) \<and>
    co_send_message E (elsewhere r) type ptr options (data, c) =
      send_message (interleaved_env r E) type ptr options (data, c) \<and>
    co_send_pong_frame E (elsewhere r) ptr ms (data, c) = send_pong_frame (interleaved_env r E) ptr ms (data, c) \<and>
    co_client_close E (elsewhere r) code ms c = client_close (interleaved_env r E) code ms c \<and>
    interleaved_env (\<lambda>s. s) E = E"
  using assms by (simp add: client_handshake_apart read_message_apart send_message_apart send_pong_apart
      client_close_apart)

theorem async_matches_blocking_witness:
  "\<exists>c :: (script, mask_key, token_state) client. length (cl_write_buffer c) = 128 \<and>
     co_client_close script_env (elsewhere (\<lambda>k. k\<lparr>sc_closed := True\<rparr>)) 1000 5000 c =
       client_close (interleaved_env (\<lambda>k. k\<lparr>sc_closed := True\<rparr>) script_env) 1000 5000 c"
proof -
  let ?b = "\<lparr>buf_max_size = 1000, buf_capacity = 0, buf_used = 0, buf_mem = None\<rparr>"
  obtain c where c: "length (cl_write_buffer (c :: (script, mask_key, token_state) client)) = 128"
    using demo_receiver by blast
  have "never_writes_zero (e_transport script_env)" using script_never_writes_zero by (simp add: script_env_def)
  from async_matches_blocking [OF this c, of "\<lambda>k. k\<lparr>sc_closed := True\<rparr>" 5000 demo_handshake ?b Mt_text 0
      send_options_default "[]" 1000] c show ?thesis by blast
qed

end
