(* ===== verification/Async_Duplex.thy ===== *)
theory Async_Duplex
  imports Async_Refinement
begin

section \<open>Receiving while another coroutine sends\<close>

text \<open>
  The senders of another coroutine share the client: whenever \<open>read_message\<close> is suspended they may have
  written to the socket, to the write buffer and to the mask generator (\<open>r\<close>, on these three). The
  receiver uses none of them, so it sees a client over a transport whose state has all three, and
  which only reads.
\<close>

type_synonym ('s, 'g) sender_part = "'s \<times> byte list \<times> 'g"

definition sender_part :: "('s, 'g, 'z) client \<Rightarrow> ('s, 'g) sender_part" where
  "sender_part c = (bs_socket (cl_socket c), cl_write_buffer c, cl_mask_key_gen c)"

definition set_sender_part :: "('s, 'g) sender_part \<Rightarrow> ('s, 'g, 'z) client \<Rightarrow> ('s, 'g, 'z) client" where
  "set_sender_part x c =
     c\<lparr>cl_socket := (cl_socket c)\<lparr>bs_socket := fst x\<rparr>, cl_write_buffer := fst (snd x), cl_mask_key_gen := snd (snd x)\<rparr>"

definition senders :: "(('s, 'g) sender_part \<Rightarrow> ('s, 'g) sender_part) \<Rightarrow> ('s, 'g, 'z) others" where
  "senders r c = set_sender_part (r (sender_part c)) c"

definition reading_half ::
  "(('s, 'g) sender_part \<Rightarrow> ('s, 'g) sender_part) \<Rightarrow> 's transport \<Rightarrow> ('s, 'g) sender_part transport" where
  "reading_half r T =
     \<lparr>tr_now = (\<lambda>x. let (t, s) = tr_now T (fst x) in (t, (s, snd x))),
      tr_read_some = (\<lambda>n to. followed r (on_fst (tr_read_some T n to))),
      tr_write_some = (\<lambda>data to. ws_fail peer_closed),
      tr_wait_readable = (\<lambda>to. on_fst (tr_wait_readable T to)),
      tr_shutdown = (\<lambda>fail to. ws_return ()), tr_close = (\<lambda>fail. ws_return ())\<rparr>"

definition half_env ::
  "(('s, 'g) sender_part \<Rightarrow> ('s, 'g) sender_part) \<Rightarrow> ('s, 'g, 'z) env \<Rightarrow> (('s, 'g) sender_part, unit, 'z) env" where
  "half_env r E =
     \<lparr>e_transport = reading_half r (e_transport E), e_mask_gen = (\<lambda>u. (0, u)), e_zlib = e_zlib E,
      e_alloc = e_alloc E, e_endian = e_endian E, e_build = e_build E, e_junk = e_junk E\<rparr>"

definition half_socket :: "('s, 'g, 'z) client \<Rightarrow> ('s, 'g) sender_part bsock" where
  "half_socket c = \<lparr>bs_socket = sender_part c, bs_ring = bs_ring (cl_socket c)\<rparr>"

definition set_half_socket :: "('s, 'g) sender_part bsock \<Rightarrow> ('s, 'g, 'z) client \<Rightarrow> ('s, 'g, 'z) client" where
  "set_half_socket k c = set_sender_part (bs_socket k) (c\<lparr>cl_socket := (cl_socket c)\<lparr>bs_ring := bs_ring k\<rparr>\<rparr>)"

definition half_view :: "('s, 'g, 'z) client \<Rightarrow> (('s, 'g) sender_part, unit, 'z) client" where
  "half_view c =
     \<lparr>cl_closed = cl_closed c, cl_socket = half_socket c, cl_mask_key_gen = (), cl_pmd_ctx = cl_pmd_ctx c,
      cl_write_buffer = [], cl_write_ptr = cl_write_ptr c, cl_read_state = cl_read_state c\<rparr>"

definition half_unview ::
  "(('s, 'g) sender_part, unit, 'z) client \<Rightarrow> ('s, 'g, 'z) client \<Rightarrow> ('s, 'g, 'z) client" where
  "half_unview a c =
     set_half_socket (cl_socket a) (c\<lparr>cl_closed := cl_closed a, cl_pmd_ctx := cl_pmd_ctx a,
       cl_write_ptr := cl_write_ptr a, cl_read_state := cl_read_state a\<rparr>)"

lemmas half_defs = half_view_def half_unview_def half_socket_def set_half_socket_def sender_part_def
  set_sender_part_def senders_def

interpretation duplex: client_view half_socket set_half_socket "senders r" E "half_env r E" half_view half_unview
    "\<lambda>a. cl_write_buffer a = []"
  for r :: "('s, 'g) sender_part \<Rightarrow> ('s, 'g) sender_part" and E :: "('s, 'g, 'z) env"
proof (unfold_locales, goal_cases)
  case (6 off n to)
  then show ?case
    by (rule ext) (auto simp: half_defs co_await_def on_buffered_def on_part_def on_fst_def read_into_def on_socket_def
        on_ring_def followed_def ws_try_def half_env_def reading_half_def
        intro!: client.equality bsock.equality split: option.splits ws_result.splits prod.splits)
qed (auto simp: half_defs half_env_def reading_half_def intro!: client.equality bsock.equality split: prod.splits)

declare duplex.put_pmd [simp del] duplex.view_fields [simp del] duplex.unview_view [simp del] duplex.env [simp del]

subsection \<open>The reading half delivers\<close>

text \<open>What the senders do neither takes bytes from the peer's stream nor leaves the invariant.\<close>

definition only_sends ::
  "('s \<Rightarrow> bool) \<Rightarrow> ('s \<Rightarrow> byte list) \<Rightarrow> (('s, 'g) sender_part \<Rightarrow> ('s, 'g) sender_part) \<Rightarrow> bool" where
  "only_sends I pend r \<longleftrightarrow> (\<forall>x. I (fst x) \<longrightarrow> I (fst (r x)) \<and> pend (fst (r x)) = pend (fst x))"

lemma reading_half_delivers:
  assumes "delivering_socket T I pend sent" and r: "only_sends I pend r"
  shows "delivering_socket (reading_half r T) (\<lambda>x. I (fst x)) (\<lambda>x. pend (fst x)) (\<lambda>x. [])"
proof -
  have ss: "stream_socket T I pend sent" using assms(1) by (simp add: delivering_socket_def)
  have sends: "I (fst (r x)) \<and> pend (fst (r x)) = pend (fst x)" if "I (fst x)" for x
    using r that unfolding only_sends_def by blast
  have reads: "\<exists>s1. tr_read_some T n to (fst x) = Some (v, s1) \<and> x' = r (s1, snd x)"
    if "tr_read_some (reading_half r T) n to x = Some (v, x')" for n to x v x'
    using that by (auto simp: reading_half_def followed_Some on_fst_Some)
  have run: "tr_read_some (reading_half r T) n to x = Some (v, r (s1, snd x))"
    if "tr_read_some T n to (fst x) = Some (v, s1)" for n to x v s1
    using that by (auto simp: reading_half_def followed_Some on_fst_Some)
  show ?thesis
  proof (unfold_locales, goal_cases)
    case (1 x t x')
    then show ?case using stream_socket.now_ok [OF ss, of "fst x"] by (auto simp: reading_half_def split: prod.splits)
  next
    case (2 x n to xs x')
    from reads [OF 2(3)] obtain s1 where s1: "tr_read_some T n to (fst x) = Some (Ok xs, s1)" "x' = r (s1, snd x)"
      by blast
    with stream_socket.read_ok [OF ss 2(1,2) s1(1)] sends [of "(s1, snd x)"] show ?case by simp
  next
    case (3 x n to e x')
    from reads [OF 3(3)] obtain s1 where s1: "tr_read_some T n to (fst x) = Some (Err e, s1)" "x' = r (s1, snd x)"
      by blast
    with stream_socket.read_err [OF ss 3(1,2) s1(1)] sends [of "(s1, snd x)"] show ?case by simp
  next
    case (4 x n to x')
    then show ?case using reads stream_socket.read_no_abort [OF ss 4(1,2)] by blast
  next
    case (10 x n to)
    with delivering_socket.read_live [OF assms(1) 10] run show ?case by blast
  next
    case (11 x n to)
    with delivering_socket.read_end [OF assms(1) 11] run show ?case by blast
  qed (auto simp: reading_half_def)
qed

lemma related_half: "related (\<lambda>x. I (fst x)) m st (b, half_view c) = related I m st (b, c)"
  by (simp add: related_def receiver_def cl_ready_def bs_ready_def bs_inv_def half_defs)

lemma stream_half: "cl_stream (\<lambda>x. pend (fst x)) (half_view c) = cl_stream pend c"
  by (simp add: cl_stream_def bs_stream_def half_defs)

lemma related_back: "related I m st (b, half_unview a c) = related (\<lambda>x. I (fst x)) m st (b, a)"
  by (simp add: related_def receiver_def cl_ready_def bs_ready_def bs_inv_def half_defs)

lemma stream_back: "cl_stream pend (half_unview a c) = cl_stream (\<lambda>x. pend (fst x)) a"
  by (simp add: cl_stream_def bs_stream_def half_defs)

lemma in_time_half: "in_time T I ms \<Longrightarrow> in_time (reading_half r T) (\<lambda>x. I (fst x)) ms"
  by (auto simp: in_time_def reading_half_def split: prod.splits) (metis fst_conv)

subsection \<open>Property\<close>

text \<open>
  C7: Without compression, receiving is not disturbed by sending: \<open>read_message\<close> of \<open>WebSocketClientAsync\<close>
  returns what the abstract receiver says about the peer's frames also when, at every suspension, other
  coroutines send on the same client, that is, change the write buffer, the mask key generator and what
  is sent. They may not take the peer's bytes from the socket, nor use the receiver's parts of the
  client. As for the blocking client the session has no compression context, the deadline is not
  reached, memory can be allocated, the limit on the message size is below \<open>2 ^ 31 - 3\<close>, and the frames
  are whole, unmasked and without RSV2 and RSV3. (Sending is not undisturbed, see
  \<open>concurrent_send_splits_frame\<close>.)
\<close>

theorem read_while_sending:
  assumes "delivering_socket (e_transport E) I pend sent" and "only_sends I pend r"
    and "\<forall>n. e_alloc E n \<noteq> None" and "0 < ms" and "in_time (e_transport E) I ms"
    and "related I m st (b, c)" and "cl_stream pend c = concat (map sf_bytes fs) @ rest"
    and "\<forall>f \<in> set fs. sf_wf f" and "receive m st fs = Some out"
  shows "\<exists>x s'. co_read_message E (senders r) ms (b, c) = Some (x, s') \<and>
     (case out of
        Rejected code cc \<Rightarrow> (\<exists>e. x = Err e \<and> err_code e = code \<and> close_with_code e = cc)
      | Control op p st' fs' \<Rightarrow>
          (\<exists>cf. x = Ok (control_result op cf) \<and> payload_bytes cf = p) \<and>
          related I m st' s' \<and> cl_stream pend (snd s') = concat (map sf_bytes fs') @ rest
      | Complete op d fs' \<Rightarrow>
          (\<exists>msg. x = Ok (Rd_message msg) \<and> message_opcode (msg_type msg) = op \<and> msg_data msg = d) \<and>
          related I m None s' \<and> cl_stream pend (snd s') = concat (map sf_bytes fs') @ rest)"
proof -
  note d = reading_half_delivers [OF assms(1,2)]
  have T: "e_transport (half_env r E) = reading_half r (e_transport E)" "\<forall>n. e_alloc (half_env r E) n \<noteq> None"
    using assms(3) by (simp_all add: half_env_def)
  note half = delivering_socket.read_message_live [OF d T(1,2) assms(4)
    in_time_half [OF assms(5)] iffD2 [OF related_half assms(6)] trans [OF stream_half assms(7)] assms(8,9)]
  from half obtain x s1 where s1: "read_message (half_env r E) ms (b, half_view c) = Some (x, s1)"
    and out: "delivering_socket.delivered (\<lambda>x. I (fst x)) (\<lambda>x. pend (fst x)) m rest out x s1"
    by blast
  let ?s = "(fst s1, half_unview (snd s1) c)"
  have run: "co_read_message E (senders r) ms (b, c) = Some (x, ?s)"
    using s1 by (simp add: duplex.read_message_through on_part_def pair_put_def)
  have "related I m st' ?s = related (\<lambda>x. I (fst x)) m st' s1"
    "cl_stream pend (snd ?s) = cl_stream (\<lambda>x. pend (fst x)) (snd s1)" for st'
    using related_back [of I m st' "fst s1" "snd s1" c] stream_back [of pend "snd s1" c] by simp_all
  note unviewed = this
  show ?thesis
    by (rule exI [of _ x], rule exI [of _ ?s], rule conjI [OF run], unfold unviewed,
        rule out [unfolded delivering_socket.delivered_def [OF d]])
qed

text \<open>A sender that answers a ping with an empty pong frame, masked with the key 0.\<close>

definition pong_bytes :: "byte list" where "pong_bytes = [0x8A, 0x80, 0, 0, 0, 0]"

definition script_ponger :: "(script, mask_key) sender_part \<Rightarrow> (script, mask_key) sender_part" where
  "script_ponger x = ((fst x)\<lparr>sc_out := sc_out (fst x) @ pong_bytes\<rparr>, blit 0 pong_bytes (fst (snd x)), snd (snd x))"

theorem read_while_sending_witness:
  "\<exists>b c f s1. co_read_message script_env (senders script_ponger) 5000 (b, c) = Some (Ok (Rd_ping f), s1) \<and>
     cl_stream sc_in c = concat (map sf_bytes demo_frames) @ [0x81] \<and> payload_bytes f = [7] \<and>
     cl_stream sc_in (snd s1) = concat (map sf_bytes (drop 2 demo_frames)) @ [0x81]"
proof -
  obtain b c where rel: "related (\<lambda>_. True) 1000 None (b, c :: (script, mask_key, token_state) client)"
    and str: "cl_stream sc_in c = concat (map sf_bytes demo_frames) @ [0x81]"
    using demo_receiver by blast
  have live: "delivering_socket (e_transport script_env) (\<lambda>_. True) sc_in sc_out"
    by (simp add: script.delivering_socket_axioms)
  have sends: "only_sends (\<lambda>_. True) sc_in script_ponger" by (simp add: only_sends_def script_ponger_def)
  have alloc: "\<forall>n. e_alloc script_env n \<noteq> None" and ms: "(0 :: int) < 5000" by simp_all
  have time: "in_time (e_transport script_env) (\<lambda>_. True) 5000" by (simp add: script_in_time)
  obtain x s1 where s1: "co_read_message script_env (senders script_ponger) 5000 (b, c) = Some (x, s1)"
      "\<exists>cf. x = Ok (control_result Op_ping cf) \<and> payload_bytes cf = [7]"
      "cl_stream sc_in (snd s1) = concat (map sf_bytes (drop 2 demo_frames)) @ [0x81]"
    using read_while_sending [OF live sends alloc ms time rel str demo_wf demo_spec(1), unfolded outcome.case] by blast
  from s1(2) obtain cf where cf: "x = Ok (Rd_ping cf)" "payload_bytes cf = [7]" by (auto simp: control_result_def)
  show ?thesis
    by (rule exI [of _ b], rule exI [of _ c], rule exI [of _ cf], rule exI [of _ s1])
      (simp only: s1(1,3) cf str simp_thms)
qed

section \<open>Two senders\<close>

text \<open>
  \<open>write_frame\<close> writes the header and the payload with two awaits, so a coroutine that sends between
  them puts its bytes into the frame. Here every write is accepted whole, and the other senders write
  \<open>g\<close> whenever this one is suspended.
\<close>

definition accepts_all :: "'s transport \<Rightarrow> ('s \<Rightarrow> bool) \<Rightarrow> bool" where
  "accepts_all T I \<longleftrightarrow> (\<forall>s d to. I s \<longrightarrow> d \<noteq> [] \<longrightarrow> (\<exists>s'. tr_write_some T d to s = Some (Ok (length d), s')))"

definition also_send ::
  "('s \<Rightarrow> bool) \<Rightarrow> ('s \<Rightarrow> byte list) \<Rightarrow> byte list \<Rightarrow> (('s, 'g) sender_part \<Rightarrow> ('s, 'g) sender_part) \<Rightarrow> bool" where
  "also_send I sent g r \<longleftrightarrow> (\<forall>x. I (fst x) \<longrightarrow> I (fst (r x)) \<and> sent (fst (r x)) = sent (fst x) @ g)"

lemma co_write_once:
  assumes "pl_bytes p s = Some d" and "pl_size p = length d" and "d \<noteq> []"
    and "tr_write_some T d to (bs_socket (cl_socket (snd s))) = Some (Ok (length d), u)"
  shows "co_write (client_host R) T p to s =
    Some (Ok (), (fst s, R (set_socket ((cl_socket (snd s))\<lparr>bs_socket := u\<rparr>) (snd s))))"
proof -
  let ?s = "(fst s, R (set_socket ((cl_socket (snd s))\<lparr>bs_socket := u\<rparr>) (snd s)))"
  have "on_snd (co_await (client_host R) (on_socket (tr_write_some T d to))) s = Some (Ok (length d), ?s)"
    using assms(4) by (simp add: on_snd_def co_await_def on_buffered_def on_part_def on_socket_def client_host_def)
  then have "co_write_step (client_host R) T p to 0 (length d) s = Some (Ok (length d), ?s)"
    using assms by (simp add: co_write_step_def subspan_def ws_try_simps(1) [of "on_snd _"])
  then show ?thesis
    using assms(2,3) unfolding co_write_def
    by (simp add: co_write_loop.simps [of _ _ _ _ 0] co_write_loop.simps [of _ _ _ _ _ 0] ws_try_simps(1) [of "co_write_step _ _ _ _ _ _"])
qed

lemma split_write:
  assumes T: "live_socket T I pend sent" "accepts_all T I" and r: "also_send I sent g r"
    and p: "pl_bytes p s = Some d" "pl_size p = length d" "d \<noteq> []"
    and s: "I (bs_socket (cl_socket (snd s)))"
  shows "\<exists>c'. co_write (client_host (senders r)) T p to s = Some (Ok (), (fst s, c')) \<and>
    I (bs_socket (cl_socket c')) \<and> cl_sent sent c' = cl_sent sent (snd s) @ d @ g"
proof -
  have ss: "stream_socket T I pend sent" using T(1) by (simp add: live_socket_def delivering_socket_def)
  from T(2) s p(3) obtain u where u: "tr_write_some T d to (bs_socket (cl_socket (snd s))) = Some (Ok (length d), u)"
    unfolding accepts_all_def by blast
  from stream_socket.write_ok [OF ss s p(3) u] have q: "I u" "sent u = sent (bs_socket (cl_socket (snd s))) @ d" by auto
  let ?c = "set_socket ((cl_socket (snd s))\<lparr>bs_socket := u\<rparr>) (snd s)"
  have "I (fst (r (sender_part ?c))) \<and> sent (fst (r (sender_part ?c))) = sent u @ g"
    using r q(1) by (simp add: also_send_def sender_part_def)
  then show ?thesis
    using co_write_once [OF p u, of "senders r"] q(2)
    by (simp add: senders_def set_sender_part_def cl_sent_def bs_sent_def)
qed

lemma split_frame:
  fixes E :: "('s, 'g, 'z) env"
  assumes T: "live_socket (e_transport E) I pend sent" "accepts_all (e_transport E) I" and r: "also_send I sent g r"
    and c: "cl_ready I c" "length (cl_write_buffer c) = 128" and f: "built_frame False op key (length data) f"
    and data: "data \<noteq> []" "length data < 2 ^ 64" "masks_right ptr data"
  defines "kb \<equiv> key_bytes (e_endian E) key"
  shows "\<exists>c'. co_write_frame E (senders r) f ptr (local_place (length data)) to (data, c) =
      Some (Ok (), (rfc_mask kb data, c')) \<and>
    cl_sent sent c' = cl_sent sent c @ header_bytes (e_endian E) f @ g @ rfc_mask kb data @ g"
proof -
  let ?h = "header_bytes (e_endian E) f" and ?m = "rfc_mask kb data" and ?H = "client_host (senders r)"
  let ?c1 = "put 0 ?h c"
  have m: "mask_fn (e_endian E) (e_build E) ptr (fr_mask_key f) data = ?m"
    using masks_right_rfc [OF data(3)] f by (simp add: kb_def built_frame_def)
  have h: "on_snd (put_header E f) (data, c) = Some (Ok (length ?h), (data, ?c1))"
    using put_header_masked [OF c(2) built_masked [OF f], of E] by (simp add: on_snd_Some)
  have fit: "length ?h \<le> length (cl_write_buffer c)" using length_header_bytes [of "e_endian E" f] c(2) by simp
  have place: "pl_bytes (write_buffer_place 0 (length ?h)) (?m, ?c1) = Some ?h"
    using fit by (simp add: write_buffer_place_def put_def subspan_def blit_def)
  have size: "pl_size (write_buffer_place 0 (length ?h)) = length ?h" by (simp add: write_buffer_place_def)
  have ne: "?h \<noteq> []" by (simp add: header_bytes_def)
  have i: "I (bs_socket (cl_socket (snd (?m, ?c1))))" using c(1) by (simp add: put_def cl_ready_def bs_ready_def bs_inv_def)
  from split_write [OF T r place size ne i, of to] obtain c2 where
    c2: "co_write ?H (e_transport E) (write_buffer_place 0 (length ?h)) to (?m, ?c1) = Some (Ok (), (?m, c2))"
      "I (bs_socket (cl_socket c2))" "cl_sent sent c2 = cl_sent sent c @ ?h @ g"
    by (auto simp: put_def cl_sent_def)
  have place2: "pl_bytes (local_place (length data)) (?m, c2) = Some ?m"
      "pl_size (local_place (length data)) = length ?m" by (simp_all add: local_place_def)
  have ne2: "?m \<noteq> []" using data(1) length_rfc_mask [of kb data] by (metis length_0_conv)
  from split_write [OF T r place2 ne2, of to] c2(2) obtain c3 where
    c3: "co_write ?H (e_transport E) (local_place (length data)) to (?m, c2) = Some (Ok (), (?m, c3))"
      "cl_sent sent c3 = cl_sent sent c2 @ ?m @ g" by auto
  have pos: "fr_payload_size f > 0"
    using f data(1,2) word_of_nat_64 [OF data(2)] by (simp add: built_frame_def word_less_nat_alt)
  let ?P = "local_place (length data) :: (byte list \<times> ('s, 'g, 'z) client) place"
  have store: "store_bytes ?P 0 ?m (data, ?c1) = Some (Ok (), (?m, ?c1))" and now: "pl_bytes ?P (data, ?c1) = Some data"
    by (simp_all add: store_bytes_def local_place_def blit_def)
  have "co_write_frame E (senders r) f ptr ?P to (data, c) =
      ws_try (store_bytes ?P 0 ?m)
        (\<lambda>_. ws_try (co_write ?H (e_transport E) (write_buffer_place 0 (length ?h)) to)
          (\<lambda>_. if fr_payload_size f > 0 then co_write ?H (e_transport E) ?P to else ws_return ())) (data, ?c1)"
    unfolding co_write_frame_def ws_try_simps(1) [of "on_snd _", OF h] now option.case m ..
  also have "\<dots> = Some (Ok (), (?m, c3))"
    unfolding ws_try_simps(1) [of "store_bytes _ _ _", OF store] ws_try_simps(1) [of "co_write _ _ _ _", OF c2(1)] if_P [OF pos] by (rule c3(1))
  finally have "co_write_frame E (senders r) f ptr ?P to (data, c) = Some (Ok (), (?m, c3))" .
  with c2(3) c3(2) show ?thesis by (intro exI [of _ c3]) simp
qed

text \<open>What the peer makes of a header that other bytes follow.\<close>

lemma decode_split:
  fixes E :: "('s, 'g, 'z) env"
  assumes f: "built_frame False op key (length payload) f" and op: "op \<noteq> Op_not_set"
    and len: "length payload < 2 ^ 64" and xs: "length payload \<le> length xs"
  defines "kb \<equiv> key_bytes (e_endian E) key"
  shows "rfc_decode (header_bytes (e_endian E) f @ xs) =
    Some ((True, False, op, Some kb, rfc_mask kb (take (length payload) xs)), drop (length payload) xs)"
proof -
  let ?p = "rfc_mask kb (take (length payload) xs)"
  have p: "length ?p = length payload" using xs by simp
  then have "built_frame False op key (length ?p) f" using f by simp
  from built_bytes [OF this, of "e_endian E", folded kb_def]
  have "header_bytes (e_endian E) f @ xs = rfc_frame True False op (Some kb) ?p @ drop (length payload) xs"
    by (metis append.assoc append_take_drop_id rfc_mask_involution)
  moreover have "rfc_decode (rfc_frame True False op (Some kb) ?p @ drop (length payload) xs) =
      Some ((True, False, op, Some kb, ?p), drop (length payload) xs)"
    by (rule length_rfc_decode_frame [OF op]) (use len p in \<open>simp_all add: kb_def\<close>)
  ultimately show ?thesis by (simp only:)
qed

text \<open>
  C8: Two coroutines must not send at the same time: when others write \<open>g\<close> to the socket while
  \<open>send_message\<close> is suspended after its header, the call succeeds all the same, and the peer decodes a
  frame of the announced length whose masked payload starts with the bytes of \<open>g\<close>.
\<close>

theorem concurrent_send_splits_frame:
  assumes T: "live_socket (e_transport E) I pend sent" "accepts_all (e_transport E) I" and r: "also_send I sent g r"
    and c: "cl_ready I c" "length (cl_write_buffer c) = 128" "is_open c" "cl_pmd_ctx c = None \<or> \<not> opt_compress opts"
    and data: "payload \<noteq> []" "length payload < 2 ^ 64" "masks_right ptr payload" and ms: "0 < opt_timeout opts"
  defines "kb \<equiv> key_bytes (e_endian E) (fst (e_mask_gen E (cl_mask_key_gen c)))"
  shows "\<exists>c' w rest. co_send_message E (senders r) t ptr opts (payload, c) = Some (Ok (), (rfc_mask kb payload, c')) \<and>
    cl_sent sent c' = cl_sent sent c @ w \<and>
    rfc_decode w = Some ((True, False, message_opcode t, Some kb,
      rfc_mask kb (take (length payload) (g @ rfc_mask kb payload))), rest)"
proof -
  have ds: "delivering_socket (e_transport E) I pend sent" using T(1) by (simp add: live_socket_def)
  obtain key gen where key: "e_mask_gen E (cl_mask_key_gen c) = (key, gen)" by fastforce
  then have kb: "kb = key_bytes (e_endian E) key" by (simp add: kb_def)
  let ?c1 = "c\<lparr>cl_mask_key_gen := gen\<rparr>"
  let ?f = "(client_frame (message_opcode t))\<lparr>fr_mask_key := key\<rparr>"
  let ?g = "set_payload_size (word_of_nat (length payload)) ?f"
  have op: "message_opcode t \<noteq> Op_not_set" by (cases t) simp_all
  note f = built_plain(1) [OF op, of key "length payload"]
  have c1: "cl_ready I ?c1" using c(1) by (simp add: cl_ready_def)
  from delivering_socket.start_timeout_ok [OF ds refl c1 ms] obtain to k where
    k: "start_timeout E (opt_timeout opts) ?c1 = Some (Ok to, ?c1\<lparr>cl_socket := k\<rparr>)"
      "stream_socket.consumes I pend sent [] (cl_socket ?c1) k" by blast
  let ?c2 = "?c1\<lparr>cl_socket := k\<rparr>"
  have ss: "stream_socket (e_transport E) I pend sent" using ds by (simp add: delivering_socket_def)
  have c2: "cl_ready I ?c2" "cl_sent sent ?c2 = cl_sent sent c"
    using k(2) unfolding stream_socket.consumes_def [OF ss] by (simp_all add: cl_ready_def cl_sent_def)
  have wb: "length (cl_write_buffer ?c2) = 128" using c(2) by simp
  from split_frame [OF T r c2(1) wb f data, of to] obtain c3 where
    c3: "co_write_frame E (senders r) ?g ptr (local_place (length payload)) to (payload, ?c2) =
      Some (Ok (), (rfc_mask kb payload, c3))"
      "cl_sent sent c3 = cl_sent sent c @ header_bytes (e_endian E) ?g @ g @ rfc_mask kb payload @ g"
    using c2(2) unfolding kb by auto
  have drawn: "on_snd (draw_mask_key E) (payload, c) = Some (Ok key, (payload, ?c1))"
    using key by (simp add: on_snd_Some draw_mask_key_def)
  have started: "on_snd (start_timeout E (opt_timeout opts)) (payload, ?c1) = Some (Ok to, (payload, ?c2))"
    using k(1) by (simp add: on_snd_Some)
  have plain: "\<not> (cl_pmd_ctx ?c1 \<noteq> None \<and> opt_compress opts)" using c(4) by auto
  have sent: "co_send_message E (senders r) t ptr opts (payload, c) = Some (Ok (), (rfc_mask kb payload, c3))"
    unfolding co_send_message_def co_send_payload_def using c(3) c3(1)
    by (simp only: is_open_def snd_conv fst_conv if_False ws_try_simps(1) [of "on_snd _", OF drawn] Let_def plain
        ws_try_simps(1) [of "on_snd _", OF started] local_place_def place.select_convs)
  have "rfc_decode (header_bytes (e_endian E) ?g @ g @ rfc_mask kb payload @ g) =
      Some ((True, False, message_opcode t, Some kb, rfc_mask kb (take (length payload) (g @ rfc_mask kb payload))),
        drop (length payload) (g @ rfc_mask kb payload @ g))"
    using decode_split [OF f op data(2), of "g @ rfc_mask kb payload @ g" E, folded kb] by simp
  with sent c3(2) show ?thesis by blast
qed

text \<open>A pipe: what is to be read, and what was written, which takes everything at once.\<close>

definition pipe_socket :: "(byte list \<times> byte list) transport" where
  "pipe_socket =
     \<lparr>tr_now = (\<lambda>s. (0, s)),
      tr_read_some = (\<lambda>n to s. Some (if fst s = [] then (Err script_eof, s) else (Ok (take n (fst s)), (drop n (fst s), snd s)))),
      tr_write_some = (\<lambda>data to s. Some (Ok (length data), (fst s, snd s @ data))),
      tr_wait_readable = (\<lambda>to s. Some (Ok (fst s \<noteq> []), s)),
      tr_shutdown = (\<lambda>fail to s. Some (Ok (), s)), tr_close = (\<lambda>fail s. Some (Ok (), s))\<rparr>"

interpretation pipe: live_socket pipe_socket "\<lambda>_. True" fst snd
  by unfold_locales (auto simp: pipe_socket_def min_def split: if_splits)

definition pipe_env :: "(byte list \<times> byte list, mask_key, token_state) env" where
  "pipe_env =
     \<lparr>e_transport = pipe_socket, e_mask_gen = constant_mask_key_gen, e_zlib = token_zlib,
      e_alloc = (\<lambda>n. Some (4096, \<lambda>_. 0)), e_endian = Little, e_build = Simd128, e_junk = (\<lambda>_. 0)\<rparr>"

definition pong_sender :: "(byte list \<times> byte list, mask_key) sender_part \<Rightarrow> (byte list \<times> byte list, mask_key) sender_part" where
  "pong_sender x = ((fst (fst x), snd (fst x) @ pong_bytes), blit 0 pong_bytes (fst (snd x)), snd (snd x))"

theorem concurrent_send_splits_frame_witness:
  "\<exists>c c' w rest. co_send_message pipe_env (senders pong_sender) Mt_text 4096 send_options_default ([72, 105], c) =
      Some (Ok (), ([72, 105], c')) \<and>
    cl_sent snd c' = cl_sent snd c @ w \<and>
    rfc_decode w = Some ((True, False, Op_text, Some [0, 0, 0, 0], [0x8A, 0x80]), rest)"
proof -
  obtain k where k: "bsock_new (\<lambda>_. 0) ([] :: byte list, [] :: byte list) = Ok k"
    using bsock_new_Ok [of "\<lambda>_. 0" "([], [])"] by blast
  let ?c = "\<lparr>cl_closed = False, cl_socket = k, cl_mask_key_gen = 0, cl_pmd_ctx = None,
    cl_write_buffer = replicate 128 0, cl_write_ptr = 64, cl_read_state = read_state_reset\<rparr>"
  have live: "live_socket (e_transport pipe_env) (\<lambda>_. True) fst snd" and all: "accepts_all (e_transport pipe_env) (\<lambda>_. True)"
    by (simp_all add: pipe_env_def pipe.live_socket_axioms) (simp add: accepts_all_def pipe_socket_def)
  have r: "also_send (\<lambda>_. True) snd pong_bytes pong_sender" by (simp add: also_send_def pong_sender_def)
  have ready: "cl_ready (\<lambda>_. True) ?c"
    using bsock_new_ready [OF k, of "\<lambda>_. True" fst snd] by (simp add: cl_ready_def)
  have c: "length (cl_write_buffer ?c) = 128" "is_open ?c" "cl_pmd_ctx ?c = None \<or> \<not> opt_compress send_options_default"
    and data: "[72, 105 :: byte] \<noteq> []" "length [72, 105 :: byte] < 2 ^ 64" "masks_right 4096 [72, 105]"
    and ms: "0 < opt_timeout send_options_default"
    by (simp_all add: is_open_def masks_right_def send_options_default_def)
  have kb: "key_bytes (e_endian pipe_env) (fst (e_mask_gen pipe_env (cl_mask_key_gen ?c))) = [0, 0, 0, 0]"
    by code_simp
  have m: "rfc_mask [0, 0, 0, 0] [72, 105] = [72, 105]" "rfc_mask [0, 0, 0, 0] [0x8A, 0x80] = [0x8A, 0x80]"
    by code_simp+
  have "take (length [72, 105 :: byte]) (pong_bytes @ [72, 105]) = [0x8A, 0x80]" by (simp add: pong_bytes_def)
  with concurrent_send_splits_frame [OF live all r ready c data ms, of Mt_text, unfolded kb m] show ?thesis
    by (simp only: m message_opcode.simps) blast
qed

end
