(* ===== verification/Tcp_Socket.thy ===== *)
theory Tcp_Socket
  imports Transport
begin

unbundle bit_operations_syntax

section \<open>The TCP socket (transport/builtin/TcpSocket.hpp)\<close>

text \<open>
  \<open>TcpSocket\<close> over the socket calls of the kernel, which are parameters: a record of operations on a
  kernel state \<open>'k\<close> that each return what the C function returns, with \<open>errno\<close> readable after a call.
  \<open>recv\<close> gives the bytes it stored along with its result; \<open>select\<close> may block for ever. The address is
  the family only (the rest is the kernel's business). The macros have their Linux values. \<open>FD_SET\<close> on
  a descriptor outside the set is an access outside the object, so it is \<open>Abort\<close>. The constructor
  leaves the descriptor at -1; the destructor is \<open>tcp_destroy\<close>. Logging is left out.
\<close>

record 'k kernel =
  k_now :: "'k clock"
  k_errno :: "'k \<Rightarrow> int"
  k_socket :: "int \<Rightarrow> 'k \<Rightarrow> int \<times> 'k"
  k_connect :: "int \<Rightarrow> 'k \<Rightarrow> int \<times> 'k"
  k_select :: "bool \<Rightarrow> int \<Rightarrow> timeval \<Rightarrow> 'k \<Rightarrow> (int \<times> 'k) option"
  k_recv :: "int \<Rightarrow> nat \<Rightarrow> 'k \<Rightarrow> (int \<times> byte list) \<times> 'k"
  k_send :: "int \<Rightarrow> byte list \<Rightarrow> 'k \<Rightarrow> int \<times> 'k"
  k_shutdown :: "int \<Rightarrow> 'k \<Rightarrow> int \<times> 'k"
  k_close :: "int \<Rightarrow> 'k \<Rightarrow> int \<times> 'k"
  k_setsockopt :: "int \<Rightarrow> string \<Rightarrow> int \<Rightarrow> 'k \<Rightarrow> int \<times> 'k"
  k_so_error :: "int \<Rightarrow> 'k \<Rightarrow> (int \<times> int) \<times> 'k"
  k_getfl :: "int \<Rightarrow> 'k \<Rightarrow> int \<times> 'k"
  k_setfl :: "int \<Rightarrow> int \<Rightarrow> 'k \<Rightarrow> int \<times> 'k"

definition EINTR :: int where "EINTR = 4"
definition EAGAIN :: int where "EAGAIN = 11"
definition EWOULDBLOCK :: int where "EWOULDBLOCK = 11"
definition EINPROGRESS :: int where "EINPROGRESS = 115"
definition O_NONBLOCK :: int where "O_NONBLOCK = 2048"
definition FD_SETSIZE :: int where "FD_SETSIZE = 1024"

record 'k tcp =
  tcp_fd :: int
  tcp_family :: int
  tcp_connected :: bool
  tcp_kernel :: 'k

definition tcp_new :: "int \<Rightarrow> 'k \<Rightarrow> 'k tcp" where
  "tcp_new family k = \<lparr>tcp_fd = -1, tcp_family = family, tcp_connected = False, tcp_kernel = k\<rparr>"

text \<open>A call of the kernel.\<close>

definition sys :: "('k \<Rightarrow> 'r \<times> 'k) \<Rightarrow> ('k tcp, 'r) ws" where
  "sys m s = (let (r, k) = m (tcp_kernel s) in Some (Ok r, s\<lparr>tcp_kernel := k\<rparr>))"

subsection \<open>Errors\<close>

definition tcp_error :: "int \<Rightarrow> string \<Rightarrow> ws_error" where
  "tcp_error e desc = WSError Transport_error (Transport_msg (Msg_errno desc e)) not_set"

definition transport_text :: "ws_error_code \<Rightarrow> string \<Rightarrow> ws_error" where
  "transport_text code text = WSError code (Transport_msg (Msg_text text)) not_set"

definition transport_closed :: ws_error where
  "transport_closed = WSError Connection_closed (Transport_msg Msg_transport_closed) not_set"

definition check_error :: "'k kernel \<Rightarrow> int \<Rightarrow> string \<Rightarrow> ('k tcp, unit) ws" where
  "check_error K ret_code desc s =
     (if ret_code \<noteq> -1 then Some (Ok (), s)
      else Some (Err (tcp_error (k_errno K (tcp_kernel s)) desc), s))"

subsection \<open>Options\<close>

definition set_option :: "'k kernel \<Rightarrow> string \<Rightarrow> int \<Rightarrow> ('k tcp, unit) ws" where
  "set_option K name v s =
     ws_try (sys (k_setsockopt K (tcp_fd s) name v)) (\<lambda>ret. check_error K ret (''set '' @ name)) s"

definition set_TCP_NODELAY :: "'k kernel \<Rightarrow> bool \<Rightarrow> ('k tcp, unit) ws" where
  "set_TCP_NODELAY K v = set_option K ''TCP_NODELAY'' (if v then 1 else 0)"

definition set_SO_RCVBUF :: "'k kernel \<Rightarrow> int \<Rightarrow> ('k tcp, unit) ws" where
  "set_SO_RCVBUF K buffer_size = set_option K ''SO_RCVBUF'' buffer_size"

definition set_SO_SNDBUF :: "'k kernel \<Rightarrow> int \<Rightarrow> ('k tcp, unit) ws" where
  "set_SO_SNDBUF K buffer_size = set_option K ''SO_SNDBUF'' buffer_size"

definition set_TCP_QUICKACK :: "'k kernel \<Rightarrow> bool \<Rightarrow> ('k tcp, unit) ws" where
  "set_TCP_QUICKACK K v = set_option K ''TCP_QUICKACK'' (if v then 1 else 0)"

definition set_O_NONBLOCK :: "'k kernel \<Rightarrow> bool \<Rightarrow> ('k tcp, unit) ws" where
  "set_O_NONBLOCK K v s =
     ws_try (sys (k_getfl K (tcp_fd s)))
       (\<lambda>flags s.
          if flags = -1 then Some (Err (transport_text Transport_error ''Failed to get socket flags''), s)
          else let flags = (if v then flags OR O_NONBLOCK else flags AND NOT O_NONBLOCK)
               in ws_try (sys (k_setfl K (tcp_fd s) flags))
                    (\<lambda>ret s. if ret = -1
                       then Some (Err (transport_text Transport_error ''Failed to set socket to non-blocking''), s)
                       else Some (Ok (), s)) s) s"

definition tcp_init :: "'k kernel \<Rightarrow> ('k tcp, unit) ws" where
  "tcp_init K s =
     (if tcp_fd s \<noteq> -1 then Some (Err (transport_text Logic_error ''TCP socket already initialized''), s)
      else ws_try (sys (k_socket K (tcp_family s)))
        (\<lambda>fd s.
           let s = s\<lparr>tcp_fd := fd\<rparr>
           in if fd = -1 then Some (Err (tcp_error (k_errno K (tcp_kernel s)) ''Error creating TCP socket''), s)
              else ws_try (set_O_NONBLOCK K True)
                     (\<lambda>_. ws_try (set_TCP_NODELAY K True) (\<lambda>_. set_TCP_QUICKACK K True)) s) s)"

subsection \<open>Waiting\<close>

text \<open>
  \<open>wait_readable\<close> and \<open>wait_writeable\<close> are the same loop around \<open>select\<close>, with the descriptor in the
  set of readers or of writers: it is retried with the remaining time when a signal interrupts it.
\<close>

definition tcp_select :: "'k kernel \<Rightarrow> bool \<Rightarrow> timeout \<Rightarrow> ('k tcp, int) ws" where
  "tcp_select K writing to s =
     (if tcp_fd s < 0 \<or> tcp_fd s \<ge> FD_SETSIZE then Some (Abort, s)
      else let (rem, k) = remaining_timeval (k_now K) to (tcp_kernel s)
           in case k_select K writing (tcp_fd s) rem k of
                None \<Rightarrow> None
              | Some (ret, k) \<Rightarrow> Some (Ok ret, s\<lparr>tcp_kernel := k\<rparr>))"

partial_function (option) tcp_wait ::
  "'k kernel \<Rightarrow> bool \<Rightarrow> string \<Rightarrow> timeout \<Rightarrow> 'k tcp \<Rightarrow> (bool ws_result \<times> 'k tcp) option"
where
  "tcp_wait K writing desc to s =
     ws_try (tcp_select K writing to)
       (\<lambda>ret s.
          if ret > 0 then Some (Ok True, s)
          else if ret = 0 then Some (Ok False, s)
          else if k_errno K (tcp_kernel s) = EINTR then tcp_wait K writing desc to s
          else Some (Err (tcp_error (k_errno K (tcp_kernel s)) desc), s)) s"

definition tcp_wait_readable :: "'k kernel \<Rightarrow> timeout \<Rightarrow> ('k tcp, bool) ws" where
  "tcp_wait_readable K = tcp_wait K False ''Unexpected error in wait_readable''"

definition tcp_wait_writeable :: "'k kernel \<Rightarrow> timeout \<Rightarrow> ('k tcp, bool) ws" where
  "tcp_wait_writeable K = tcp_wait K True ''Unexpected error in wait_writeable''"

subsection \<open>Connecting\<close>

definition tcp_connect :: "'k kernel \<Rightarrow> int \<Rightarrow> ('k tcp, unit) ws" where
  "tcp_connect K ms s =
     (if tcp_fd s = -1
      then Some (Err (transport_text Logic_error ''TcpSocket not initialized, call init() first.''), s)
      else if tcp_connected s
      then Some (Err (transport_text Logic_error ''Connection already established''), s)
      else ws_try (\<lambda>s. let (to, k) = timeout_new (k_now K) ms (tcp_kernel s) in Some (to, s\<lparr>tcp_kernel := k\<rparr>))
        (\<lambda>to s. ws_try (sys (k_connect K (tcp_fd s)))
          (\<lambda>ret s.
             if ret = 0 then Some (Ok (), s\<lparr>tcp_connected := True\<rparr>)
             else if k_errno K (tcp_kernel s) \<noteq> EINPROGRESS
             then Some (Err (tcp_error (k_errno K (tcp_kernel s)) ''connecting to the server''), s)
             else ws_try (tcp_wait_writeable K to)
               (\<lambda>connected s.
                  if \<not> connected then Some (Err (transport_text Timeout_error ''Connect timeout''), s)
                  else ws_try (sys (k_so_error K (tcp_fd s)))
                    (\<lambda>(ret, error). ws_try (check_error K ret ''getsockopt'')
                      (\<lambda>_ s. if error \<noteq> 0
                              then Some (Err (WSError Transport_error
                                     (Transport_msg (Msg_errno ''Connect failed'' error)) not_set), s)
                              else Some (Ok (), s\<lparr>tcp_connected := True\<rparr>))) s) s) s) s)"

subsection \<open>Reading and writing\<close>

partial_function (option) tcp_read_some ::
  "'k kernel \<Rightarrow> nat \<Rightarrow> timeout \<Rightarrow> 'k tcp \<Rightarrow> (byte list ws_result \<times> 'k tcp) option"
where
  "tcp_read_some K n to s =
     ws_try (\<lambda>s. sys (k_recv K (tcp_fd s) n) s)
       (\<lambda>(ret, xs) s.
          if ret > 0 then Some (Ok xs, s)
          else if ret = 0 then Some (Err transport_closed, s)
          else if k_errno K (tcp_kernel s) = EAGAIN \<or> k_errno K (tcp_kernel s) = EWOULDBLOCK
          then ws_try (tcp_wait_readable K to)
                 (\<lambda>readable s.
                    if \<not> readable then Some (Err (transport_text Timeout_error ''Socket read timed out''), s)
                    else tcp_read_some K n to s) s
          else if k_errno K (tcp_kernel s) = EINTR then tcp_read_some K n to s
          else Some (Err (tcp_error (k_errno K (tcp_kernel s))
                 ''Unexpected recv error in socket read operation''), s)) s"

partial_function (option) tcp_write_some ::
  "'k kernel \<Rightarrow> byte list \<Rightarrow> timeout \<Rightarrow> 'k tcp \<Rightarrow> (nat ws_result \<times> 'k tcp) option"
where
  "tcp_write_some K data to s =
     ws_try (\<lambda>s. sys (k_send K (tcp_fd s) data) s)
       (\<lambda>ret s.
          if ret > 0 then Some (Ok (nat ret), s)
          else if ret = 0 then Some (Err transport_closed, s)
          else if k_errno K (tcp_kernel s) = EAGAIN \<or> k_errno K (tcp_kernel s) = EWOULDBLOCK
          then ws_try (tcp_wait_writeable K to)
                 (\<lambda>writeable s.
                    if \<not> writeable then Some (Err (transport_text Timeout_error ''Socket write timed out''), s)
                    else tcp_write_some K data to s) s
          else if k_errno K (tcp_kernel s) = EINTR then tcp_write_some K data to s
          else Some (Err (tcp_error (k_errno K (tcp_kernel s))
                 ''Unexpected send error in socket write operation''), s)) s"

declare tcp_wait.simps [code] tcp_read_some.simps [code] tcp_write_some.simps [code]

subsection \<open>Shutting down and closing\<close>

definition tcp_shutdown :: "'k kernel \<Rightarrow> bool \<Rightarrow> timeout \<Rightarrow> ('k tcp, unit) ws" where
  "tcp_shutdown K fail_connection to s =
     (if \<not> fail_connection \<and> tcp_fd s \<noteq> -1
      then ws_try (sys (k_shutdown K (tcp_fd s)))
             (\<lambda>ret s. if ret \<noteq> 0
                then Some (Err (tcp_error (k_errno K (tcp_kernel s)) ''Shutdown of socket failed''), s)
                else Some (Ok (), s)) s
      else Some (Ok (), s))"

definition tcp_close :: "'k kernel \<Rightarrow> bool \<Rightarrow> ('k tcp, unit) ws" where
  "tcp_close K fail_connection s =
     (if tcp_fd s \<noteq> -1
      then ws_try (sys (k_close K (tcp_fd s)))
             (\<lambda>ret s. if ret \<noteq> 0
                then Some (Err (tcp_error (k_errno K (tcp_kernel s)) ''Socket close failed''), s)
                else Some (Ok (), s\<lparr>tcp_fd := -1\<rparr>)) s
      else Some (Ok (), s))"

definition tcp_destroy :: "'k kernel \<Rightarrow> ('k tcp, unit) ws" where
  "tcp_destroy K s = (if tcp_fd s \<noteq> -1 then tcp_close K True s else Some (Ok (), s))"

text \<open>The move constructor: the new object, and the descriptor the old one is left with.\<close>

definition tcp_move :: "'k tcp \<Rightarrow> 'k tcp \<times> 'k tcp" where
  "tcp_move other = (other, other\<lparr>tcp_fd := -1\<rparr>)"

text \<open>As a transport of the client.\<close>

definition tcp_transport :: "'k kernel \<Rightarrow> 'k tcp transport" where
  "tcp_transport K =
     \<lparr>tr_now = (\<lambda>s. let (t, k) = k_now K (tcp_kernel s) in (t, s\<lparr>tcp_kernel := k\<rparr>)),
      tr_read_some = tcp_read_some K,
      tr_write_some = tcp_write_some K,
      tr_wait_readable = tcp_wait_readable K,
      tr_shutdown = tcp_shutdown K,
      tr_close = tcp_close K\<rparr>"

lemma tcp_transport_sel [simp]:
  "tr_now (tcp_transport K) = (\<lambda>s. let (t, k) = k_now K (tcp_kernel s) in (t, s\<lparr>tcp_kernel := k\<rparr>))"
  "tr_read_some (tcp_transport K) = tcp_read_some K" "tr_write_some (tcp_transport K) = tcp_write_some K"
  "tr_wait_readable (tcp_transport K) = tcp_wait_readable K"
  "tr_shutdown (tcp_transport K) = tcp_shutdown K" "tr_close (tcp_transport K) = tcp_close K"
  by (simp_all add: tcp_transport_def)

subsection \<open>What the kernel promises, and what the socket promises then\<close>

text \<open>
  The documented behaviour of a connected stream socket \<open>fd\<close>: \<open>recv\<close> delivers a non-empty prefix of
  what the peer has sent and \<open>send\<close> accepts a non-empty prefix of the data when they return a positive
  number, and otherwise nothing happens to the data; \<open>select\<close> and the clock leave the data alone, and
  shutting down and closing send none. Interrupted calls, full buffers and errors may come at any time.
\<close>

locale kernel_streams =
  fixes K :: "'k kernel" and fd :: int and good :: "'k \<Rightarrow> bool"
    and kpend :: "'k \<Rightarrow> byte list" and ksent :: "'k \<Rightarrow> byte list"
  assumes k_now_ok: "good k \<Longrightarrow> k_now K k = (t, k') \<Longrightarrow> good k' \<and> kpend k' = kpend k \<and> ksent k' = ksent k"
    and k_select_ok: "good k \<Longrightarrow> k_select K w fd tv k = Some (ret, k') \<Longrightarrow>
      good k' \<and> kpend k' = kpend k \<and> ksent k' = ksent k"
    and k_recv_ok: "good k \<Longrightarrow> 0 < n \<Longrightarrow> k_recv K fd n k = ((ret, xs), k') \<Longrightarrow>
      good k' \<and> ksent k' = ksent k \<and>
      (if ret > 0 then ret = int (length xs) \<and> length xs \<le> n \<and> kpend k = xs @ kpend k'
       else kpend k' = kpend k)"
    and k_send_ok: "good k \<Longrightarrow> data \<noteq> [] \<Longrightarrow> k_send K fd data k = (ret, k') \<Longrightarrow>
      good k' \<and> kpend k' = kpend k \<and>
      (if ret > 0 then ret \<le> int (length data) \<and> ksent k' = ksent k @ take (nat ret) data
       else ksent k' = ksent k)"
    and k_shutdown_ok: "good k \<Longrightarrow> k_shutdown K fd k = (ret, k') \<Longrightarrow> good k' \<and> ksent k' = ksent k"
    and k_close_ok: "good k \<Longrightarrow> k_close K fd k = (ret, k') \<Longrightarrow> ksent k' = ksent k"

text \<open>
  A descriptor that fits an \<open>fd_set\<close>. The kernel does not promise this, and \<open>TcpSocket\<close> does not
  check it; for other descriptors see \<open>tcp_large_descriptor\<close> below.
\<close>

locale selectable_kernel = kernel_streams K fd good kpend ksent
  for K :: "'k kernel" and fd :: int and good :: "'k \<Rightarrow> bool" and kpend ksent :: "'k \<Rightarrow> byte list" +
  assumes fd_range: "0 \<le> fd \<and> fd < FD_SETSIZE"
begin

definition tcp_inv :: "'k tcp \<Rightarrow> bool" where
  "tcp_inv s \<longleftrightarrow> tcp_fd s = fd \<and> good (tcp_kernel s)"

definition tcp_pend :: "'k tcp \<Rightarrow> byte list" where "tcp_pend s = kpend (tcp_kernel s)"

definition tcp_sent :: "'k tcp \<Rightarrow> byte list" where "tcp_sent s = ksent (tcp_kernel s)"

lemmas tcp_defs = tcp_inv_def tcp_pend_def tcp_sent_def

definition quiet :: "'k tcp \<Rightarrow> 'k tcp \<Rightarrow> bool" where
  "quiet s s' \<longleftrightarrow> tcp_inv s' \<and> tcp_pend s' = tcp_pend s \<and> tcp_sent s' = tcp_sent s"

lemma select_quiet:
  assumes "tcp_inv s" and "tcp_select K w to s = Some (r, s')"
  shows "r \<noteq> Abort \<and> quiet s s'"
proof -
  obtain rem k where rem: "remaining_timeval (k_now K) to (tcp_kernel s) = (rem, k)" by fastforce
  have "k = snd (k_now K (tcp_kernel s))"
    using arg_cong [OF rem, of snd]
    by (simp add: remaining_timeval_def remaining_def elapsed_def case_prod_beta Let_def)
  then have "k_now K (tcp_kernel s) = (fst (k_now K (tcp_kernel s)), k)" by simp
  note k = k_now_ok [OF _ this]
  from assms rem fd_range obtain ret k' where
    "k_select K w fd rem k = Some (ret, k')" "r = Ok ret" "s' = s\<lparr>tcp_kernel := k'\<rparr>"
    by (auto simp: tcp_select_def tcp_inv_def split: option.splits)
  with k k_select_ok [OF _ this(1)] assms(1) show ?thesis by (auto simp: quiet_def tcp_defs)
qed

lemma quiet_trans: "quiet s s1 \<Longrightarrow> quiet s1 s2 \<Longrightarrow> quiet s s2"
  by (simp add: quiet_def)

lemma wait_quiet:
  assumes major: "tcp_wait K w desc to s = Some res" and inv: "tcp_inv s"
  shows "fst res \<noteq> Abort \<and> quiet s (snd res)"
proof -
  define P where "P = (\<lambda>(K' :: 'k kernel) (w :: bool) (desc :: string) (to :: timeout) s (res :: bool ws_result \<times> 'k tcp).
    K' = K \<longrightarrow> tcp_inv s \<longrightarrow> fst res \<noteq> Abort \<and> quiet s (snd res))"
  have "P K w desc to s res"
  proof (rule tcp_wait.raw_induct [OF _ major, of P])
    fix wait K' w desc to s res
    assume IH: "\<And>K' w desc to s y. wait K' w desc to s = Some y \<Longrightarrow> P K' w desc to s y"
      and run: "ws_try (tcp_select K' w to)
        (\<lambda>ret s. if 0 < ret then Some (Ok True, s) else if ret = 0 then Some (Ok False, s)
           else if k_errno K' (tcp_kernel s) = EINTR then wait K' w desc to s
           else Some (Err (tcp_error (k_errno K' (tcp_kernel s)) desc), s)) s = Some res"
    show "P K' w desc to s res"
      unfolding P_def
    proof (intro impI)
      assume K: "K' = K" and inv: "tcp_inv s"
      obtain r s' where res: "res = (r, s')" by fastforce
      from run [unfolded K res] show "fst res \<noteq> Abort \<and> quiet s (snd res)"
      proof (cases rule: ws_try_cases)
        case (ok ret s1)
        from select_quiet [OF inv ok(1)] have q: "quiet s s1" by simp
        then have i1: "tcp_inv s1" by (simp add: quiet_def)
        from ok(2) have "r \<noteq> Abort \<and> s' = s1 \<or> wait K w desc to s1 = Some (r, s')"
          by (simp split: if_splits) (elim conjE, hypsubst, simp)+
        then show ?thesis
        proof
          assume "wait K w desc to s1 = Some (r, s')"
          from IH [OF this] i1 quiet_trans [OF q] res show ?thesis by (simp add: P_def)
        qed (use q res in simp)
      next
        case (err e)
        with select_quiet [OF inv err(1)] res show ?thesis by simp
      next
        case abort
        with select_quiet [OF inv abort(1)] show ?thesis by simp
      qed
    qed
  qed
  with inv show ?thesis by (simp add: P_def)
qed

end

context selectable_kernel
begin

text \<open>The result of a transfer: the data moved on success, nothing on an error.\<close>

definition read_post :: "nat \<Rightarrow> 'k tcp \<Rightarrow> byte list ws_result \<times> 'k tcp \<Rightarrow> bool" where
  "read_post n s res \<longleftrightarrow>
     (case fst res of
        Ok xs \<Rightarrow> tcp_inv (snd res) \<and> xs \<noteq> [] \<and> length xs \<le> n \<and> tcp_pend s = xs @ tcp_pend (snd res) \<and>
          tcp_sent (snd res) = tcp_sent s
      | Err e \<Rightarrow> quiet s (snd res)
      | Abort \<Rightarrow> False)"

definition write_post :: "byte list \<Rightarrow> 'k tcp \<Rightarrow> nat ws_result \<times> 'k tcp \<Rightarrow> bool" where
  "write_post data s res \<longleftrightarrow>
     (case fst res of
        Ok n \<Rightarrow> tcp_inv (snd res) \<and> 0 < n \<and> n \<le> length data \<and> tcp_pend (snd res) = tcp_pend s \<and>
          tcp_sent (snd res) = tcp_sent s @ take n data
      | Err e \<Rightarrow> quiet s (snd res)
      | Abort \<Rightarrow> False)"

lemma read_post_trans: "quiet s s1 \<Longrightarrow> read_post n s1 res \<Longrightarrow> read_post n s res"
  by (auto simp: read_post_def quiet_def split: ws_result.splits)

lemma write_post_trans: "quiet s s1 \<Longrightarrow> write_post data s1 res \<Longrightarrow> write_post data s res"
  by (auto simp: write_post_def quiet_def split: ws_result.splits)

lemma recv_step:
  assumes "tcp_inv s" and "0 < n" and "sys (k_recv K (tcp_fd s) n) s = Some (r, s1)"
  shows "\<exists>ret xs. r = Ok (ret, xs) \<and> (if ret > 0 then read_post n s (Ok xs, s1) else quiet s s1)"
proof -
  obtain ret xs k where k: "k_recv K (tcp_fd s) n (tcp_kernel s) = ((ret, xs), k)" by (metis surj_pair)
  note o = k_recv_ok [OF _ assms(2) k [unfolded assms(1) [unfolded tcp_inv_def, THEN conjunct1]]]
  from k assms(3) have "r = Ok (ret, xs)" "s1 = s\<lparr>tcp_kernel := k\<rparr>" by (simp_all add: sys_def)
  with o assms(1) show ?thesis by (auto simp: read_post_def quiet_def tcp_defs split: if_splits)
qed

lemma send_step:
  assumes "tcp_inv s" and "data \<noteq> []" and "sys (k_send K (tcp_fd s) data) s = Some (r, s1)"
  shows "\<exists>ret. r = Ok ret \<and> (if ret > 0 then write_post data s (Ok (nat ret), s1) else quiet s s1)"
proof -
  obtain ret k where k: "k_send K (tcp_fd s) data (tcp_kernel s) = (ret, k)" by fastforce
  note o = k_send_ok [OF _ assms(2) k [unfolded assms(1) [unfolded tcp_inv_def, THEN conjunct1]]]
  from k assms(3) have "r = Ok ret" "s1 = s\<lparr>tcp_kernel := k\<rparr>" by (simp_all add: sys_def)
  with o assms(1) show ?thesis by (auto simp: write_post_def quiet_def tcp_defs split: if_splits)
qed

text \<open>Waiting, then going on: either an error with nothing moved, or the continuation.\<close>

lemma wait_then:
  assumes run: "ws_try (tcp_wait K w desc to) (\<lambda>ok s. if \<not> ok then Some (Err e, s) else cont s) s = Some res"
    and inv: "tcp_inv s"
  shows "(\<exists>e s1. res = (Err e, s1) \<and> quiet s s1) \<or> (\<exists>s1. quiet s s1 \<and> cont s1 = Some res)"
proof -
  obtain r s' where res: "res = (r, s')" by fastforce
  from run [unfolded res] show ?thesis
  proof (cases rule: ws_try_cases)
    case (ok v s1)
    with wait_quiet [OF ok(1) inv] res show ?thesis by (cases v) auto
  next
    case (err e)
    with wait_quiet [OF err(1) inv] res show ?thesis by auto
  next
    case abort
    with wait_quiet [OF abort(1) inv] show ?thesis by simp
  qed
qed

text \<open>The branches behind a transfer call that moved data or nothing, with the retry \<open>again\<close>.\<close>

lemma retry_post:
  assumes run: "(if ret > 0 then Some (Ok out, s1)
      else if ret = 0 then Some (Err e0, s1)
      else if k_errno K (tcp_kernel s1) = EAGAIN \<or> k_errno K (tcp_kernel s1) = EWOULDBLOCK
      then ws_try (tcp_wait K w desc to) (\<lambda>ok s. if \<not> ok then Some (Err e1, s) else again s) s1
      else if k_errno K (tcp_kernel s1) = EINTR then again s1
      else Some (Err (tcp_error (k_errno K (tcp_kernel s1)) desc2), s1)) = Some res"
    and first: "if ret > (0 :: int) then post (Ok out, s1) else quiet s s1"
    and err: "\<And>e s2. quiet s s2 \<Longrightarrow> post (Err e, s2)"
    and again: "\<And>s2. quiet s s2 \<Longrightarrow> again s2 = Some res \<Longrightarrow> post res"
  shows "post res"
proof (cases "ret > 0")
  case True
  with run first show ?thesis by auto
next
  case False
  let ?e = "k_errno K (tcp_kernel s1)"
  from False first have q: "quiet s s1" by simp
  then have i1: "tcp_inv s1" by (simp add: quiet_def)
  show ?thesis
  proof (cases "ret = 0 \<or> \<not> (?e = EAGAIN \<or> ?e = EWOULDBLOCK) \<and> ?e \<noteq> EINTR")
    case True
    with False run have "\<exists>e. res = (Err e, s1)" by (auto split: if_splits)
    with err q show ?thesis by blast
  next
    case go: False
    show ?thesis
    proof (cases "?e = EAGAIN \<or> ?e = EWOULDBLOCK")
      case True
      with False go run have
        "ws_try (tcp_wait K w desc to) (\<lambda>ok s. if \<not> ok then Some (Err e1, s) else again s) s1 = Some res" by simp
      from wait_then [OF this i1] show ?thesis using err again quiet_trans [OF q] by blast
    next
      case eintr: False
      with False go run have "again s1 = Some res" by simp
      with again q show ?thesis by blast
    qed
  qed
qed

lemma tcp_read_post:
  assumes major: "tcp_read_some K n to s = Some res" and inv: "tcp_inv s" and n: "0 < n"
  shows "read_post n s res"
proof -
  define P where "P = (\<lambda>(K' :: 'k kernel) n (to :: timeout) s res. K' = K \<longrightarrow> 0 < n \<longrightarrow> tcp_inv s \<longrightarrow> read_post n s res)"
  have "P K n to s res"
  proof (rule tcp_read_some.raw_induct [OF _ major, of P], unfold tcp_wait_readable_def)
    fix rd K' n to s res
    assume IH: "\<And>K' n to s y. rd K' n to s = Some y \<Longrightarrow> P K' n to s y"
      and run: "ws_try (\<lambda>s. sys (k_recv K' (tcp_fd s) n) s)
       (\<lambda>(ret, xs) s.
          if ret > 0 then Some (Ok xs, s)
          else if ret = 0 then Some (Err transport_closed, s)
          else if k_errno K' (tcp_kernel s) = EAGAIN \<or> k_errno K' (tcp_kernel s) = EWOULDBLOCK
          then ws_try (tcp_wait K' False ''Unexpected error in wait_readable'' to)
                 (\<lambda>ok s. if \<not> ok then Some (Err (transport_text Timeout_error ''Socket read timed out''), s)
                   else rd K' n to s) s
          else if k_errno K' (tcp_kernel s) = EINTR then rd K' n to s
          else Some (Err (tcp_error (k_errno K' (tcp_kernel s))
                 ''Unexpected recv error in socket read operation''), s)) s = Some res"
    show "P K' n to s res"
      unfolding P_def
    proof (intro impI)
      assume K: "K' = K" and n: "0 < n" and inv: "tcp_inv s"
      obtain r s' where res: "res = (r, s')" by fastforce
      have again: "read_post n s res" if "quiet s s1" "rd K n to s1 = Some res" for s1
        using IH [OF that(2)] n that(1) read_post_trans [OF that(1)] by (simp add: P_def quiet_def)
      have err: "read_post n s (Err e, s1)" if "quiet s s1" for e s1
        using that by (simp add: read_post_def)
      from run [unfolded K res] show "read_post n s res"
      proof (cases rule: ws_try_cases)
        case (ok v s1)
        from recv_step [OF inv n ok(1)] obtain ret xs where
          v: "v = (ret, xs)" "if ret > 0 then read_post n s (Ok xs, s1) else quiet s s1" by auto
        show ?thesis
          by (rule retry_post [where post = "read_post n s" and again = "rd K n to",
              OF ok(2) [unfolded v(1) prod.case res [symmetric]] v(2) err again])
      next
        case (err e)
        with recv_step [OF inv n err(1)] show ?thesis by simp
      next
        case abort
        with recv_step [OF inv n abort(1)] show ?thesis by simp
      qed
    qed
  qed
  with inv n show ?thesis by (simp add: P_def)
qed

lemma tcp_write_post:
  assumes major: "tcp_write_some K data to s = Some res" and inv: "tcp_inv s" and n: "data \<noteq> []"
  shows "write_post data s res"
proof -
  define P where "P = (\<lambda>(K' :: 'k kernel) data (to :: timeout) s res. K' = K \<longrightarrow> data \<noteq> [] \<longrightarrow> tcp_inv s \<longrightarrow> write_post data s res)"
  have "P K data to s res"
  proof (rule tcp_write_some.raw_induct [OF _ major, of P], unfold tcp_wait_writeable_def)
    fix wr K' data to s res
    assume IH: "\<And>K' data to s y. wr K' data to s = Some y \<Longrightarrow> P K' data to s y"
      and run: "ws_try (\<lambda>s. sys (k_send K' (tcp_fd s) data) s)
       (\<lambda>ret s.
          if ret > 0 then Some (Ok (nat ret), s)
          else if ret = 0 then Some (Err transport_closed, s)
          else if k_errno K' (tcp_kernel s) = EAGAIN \<or> k_errno K' (tcp_kernel s) = EWOULDBLOCK
          then ws_try (tcp_wait K' True ''Unexpected error in wait_writeable'' to)
                 (\<lambda>ok s. if \<not> ok then Some (Err (transport_text Timeout_error ''Socket write timed out''), s)
                   else wr K' data to s) s
          else if k_errno K' (tcp_kernel s) = EINTR then wr K' data to s
          else Some (Err (tcp_error (k_errno K' (tcp_kernel s))
                 ''Unexpected send error in socket write operation''), s)) s = Some res"
    show "P K' data to s res"
      unfolding P_def
    proof (intro impI)
      assume K: "K' = K" and n: "data \<noteq> []" and inv: "tcp_inv s"
      obtain r s' where res: "res = (r, s')" by fastforce
      have again: "write_post data s res" if "quiet s s1" "wr K data to s1 = Some res" for s1
        using IH [OF that(2)] n that(1) write_post_trans [OF that(1)] by (simp add: P_def quiet_def)
      have err: "write_post data s (Err e, s1)" if "quiet s s1" for e s1
        using that by (simp add: write_post_def)
      from run [unfolded K res] show "write_post data s res"
      proof (cases rule: ws_try_cases)
        case (ok ret s1)
        from send_step [OF inv n ok(1)] have
          v: "if ret > 0 then write_post data s (Ok (nat ret), s1) else quiet s s1" by auto
        show ?thesis
          by (rule retry_post [where post = "write_post data s" and again = "wr K data to",
              OF ok(2) [unfolded res [symmetric]] v err again])
      next
        case (err e)
        with send_step [OF inv n err(1)] show ?thesis by simp
      next
        case abort
        with send_step [OF inv n abort(1)] show ?thesis by simp
      qed
    qed
  qed
  with inv n show ?thesis by (simp add: P_def)
qed

end

sublocale selectable_kernel \<subseteq> tcp: strict_socket "tcp_transport K" tcp_inv tcp_pend tcp_sent
proof unfold_locales
  fix s t s'
  assume "tcp_inv s" and "tr_now (tcp_transport K) s = (t, s')"
  moreover obtain t' k where "k_now K (tcp_kernel s) = (t', k)" by fastforce
  ultimately show "tcp_inv s' \<and> tcp_pend s' = tcp_pend s \<and> tcp_sent s' = tcp_sent s"
    using k_now_ok [of "tcp_kernel s" t' k] by (auto simp: tcp_defs)
next
  fix s n to xs s'
  assume "tcp_inv s" "0 < n" "tr_read_some (tcp_transport K) n to s = Some (Ok xs, s')"
  with tcp_read_post [of n to s] show "tcp_inv s' \<and> xs \<noteq> [] \<and> length xs \<le> n \<and>
      tcp_pend s = xs @ tcp_pend s' \<and> tcp_sent s' = tcp_sent s"
    by (auto simp: read_post_def)
next
  fix s n to e s'
  assume "tcp_inv s" "0 < n" "tr_read_some (tcp_transport K) n to s = Some (Err e, s')"
  with tcp_read_post [of n to s] show "tcp_inv s' \<and> tcp_pend s' = tcp_pend s \<and> tcp_sent s' = tcp_sent s"
    by (auto simp: read_post_def quiet_def)
next
  fix s to s' and n :: nat
  assume "tcp_inv s" "0 < n"
  with tcp_read_post [of n to s] show "tr_read_some (tcp_transport K) n to s \<noteq> Some (Abort, s')"
    by (auto simp: read_post_def)
next
  fix s data to k s'
  assume "tcp_inv s" "data \<noteq> []" "tr_write_some (tcp_transport K) data to s = Some (Ok k, s')"
  with tcp_write_post [of data to s] show "tcp_inv s' \<and> 0 < k \<and> k \<le> length data \<and>
      tcp_pend s' = tcp_pend s \<and> tcp_sent s' = tcp_sent s @ take k data"
    by (auto simp: write_post_def)
next
  fix s data to e s'
  assume "tcp_inv s" "data \<noteq> []" "tr_write_some (tcp_transport K) data to s = Some (Err e, s')"
  with tcp_write_post [of data to s]
  show "\<exists>k \<le> length data. tcp_inv s' \<and> tcp_pend s' = tcp_pend s \<and> tcp_sent s' = tcp_sent s @ take k data"
    by (auto simp: write_post_def quiet_def intro!: exI [of _ 0])
next
  fix s to s' and data :: "byte list"
  assume "tcp_inv s" "data \<noteq> []"
  with tcp_write_post [of data to s] show "tr_write_some (tcp_transport K) data to s \<noteq> Some (Abort, s')"
    by (auto simp: write_post_def)
next
  fix s fail to r s'
  assume i: "tcp_inv s" and run: "tr_shutdown (tcp_transport K) fail to s = Some (r, s')"
  obtain ret k where k: "k_shutdown K (tcp_fd s) (tcp_kernel s) = (ret, k)" by fastforce
  with i k_shutdown_ok [of "tcp_kernel s" ret k] run show "r \<noteq> Abort \<and> tcp_inv s' \<and> tcp_sent s' = tcp_sent s"
    by (auto simp: tcp_shutdown_def sys_def ws_try_def tcp_defs split: if_splits)
next
  fix s fail r s'
  assume i: "tcp_inv s" and run: "tr_close (tcp_transport K) fail s = Some (r, s')"
  obtain ret k where k: "k_close K (tcp_fd s) (tcp_kernel s) = (ret, k)" by fastforce
  with i k_close_ok [of "tcp_kernel s" ret k] run show "r \<noteq> Abort \<and> tcp_sent s' = tcp_sent s"
    by (auto simp: tcp_close_def sys_def ws_try_def tcp_defs split: if_splits)
next
  fix s data to e s'
  assume "tcp_inv s" "data \<noteq> []" "tr_write_some (tcp_transport K) data to s = Some (Err e, s')"
  with tcp_write_post [of data to s] show "tcp_inv s' \<and> tcp_pend s' = tcp_pend s \<and> tcp_sent s' = tcp_sent s"
    by (auto simp: write_post_def quiet_def)
qed

subsection \<open>A scripted kernel\<close>

text \<open>
  A kernel for the witnesses: every transfer call consumes one entry of a script, which is the errno of
  a call that fails or the most bytes a successful call moves (one byte when the script is empty). \<open>select\<close> reports readiness
  at once and the clock stands still.
\<close>

datatype call = Fails int | Moves nat

record script_state =
  ss_in :: "byte list"
  ss_out :: "byte list"
  ss_calls :: "call list"
  ss_errno :: int

definition next_call :: "script_state \<Rightarrow> call \<times> script_state" where
  "next_call k = (case ss_calls k of [] \<Rightarrow> (Moves 1, k) | c # cs \<Rightarrow> (c, k\<lparr>ss_calls := cs\<rparr>))"

definition script_kernel :: "script_state kernel" where
  "script_kernel =
     \<lparr>k_now = (\<lambda>k. (0, k)),
      k_errno = ss_errno,
      k_socket = (\<lambda>family k. (3, k)),
      k_connect = (\<lambda>fd k. (-1, k\<lparr>ss_errno := EINPROGRESS\<rparr>)),
      k_select = (\<lambda>w fd tv k. Some (1, k)),
      k_recv = (\<lambda>fd n k. case next_call k of
          (Fails e, k) \<Rightarrow> ((-1, []), k\<lparr>ss_errno := e\<rparr>)
        | (Moves m, k) \<Rightarrow> (let xs = take (min n (max 1 m)) (ss_in k)
            in ((int (length xs), xs), k\<lparr>ss_in := drop (length xs) (ss_in k)\<rparr>))),
      k_send = (\<lambda>fd data k. case next_call k of
          (Fails e, k) \<Rightarrow> (-1, k\<lparr>ss_errno := e\<rparr>)
        | (Moves m, k) \<Rightarrow> (let m = min (length data) (max 1 m)
            in (int m, k\<lparr>ss_out := ss_out k @ take m data\<rparr>))),
      k_shutdown = (\<lambda>fd k. (0, k)), k_close = (\<lambda>fd k. (0, k)),
      k_setsockopt = (\<lambda>fd opt v k. (0, k)), k_so_error = (\<lambda>fd k. ((0, 0), k)),
      k_getfl = (\<lambda>fd k. (2, k)), k_setfl = (\<lambda>fd flags k. (0, k))\<rparr>"

lemma next_call_data [simp]:
  "next_call k = (c, k') \<Longrightarrow> ss_in k' = ss_in k \<and> ss_out k' = ss_out k"
  by (auto simp: next_call_def split: list.splits)

lemma take_append_drop_length: "take j ys @ drop (length (take j ys)) ys = ys"
  by (cases "j \<le> length ys") simp_all

lemma script_recv:
  assumes "0 < n" and "k_recv script_kernel fd n k = ((ret, xs), k')"
  shows "ss_out k' = ss_out k \<and>
    (if ret > 0 then ret = int (length xs) \<and> length xs \<le> n \<and> ss_in k = xs @ ss_in k' else ss_in k' = ss_in k)"
proof -
  obtain c k1 where c: "next_call k = (c, k1)" by fastforce
  note d = next_call_data [OF c]
  show ?thesis
  proof (cases c)
    case (Fails e)
    with assms(2) c d show ?thesis by (auto simp: script_kernel_def)
  next
    case (Moves m)
    let ?xs = "take (min n (max 1 m)) (ss_in k)"
    from assms(2) c d Moves have "xs = ?xs" and "ret = int (length xs)" "k' = k1\<lparr>ss_in := drop (length xs) (ss_in k)\<rparr>"
      by (auto simp: script_kernel_def Let_def)
    then have xs: "ss_out k' = ss_out k" "ret = int (length xs)" "ss_in k' = drop (length xs) (ss_in k)" using d by simp_all
    have "length xs \<le> n" unfolding \<open>xs = ?xs\<close> by simp
    moreover have "ss_in k = xs @ ss_in k'"
      unfolding xs(3) unfolding \<open>xs = ?xs\<close> by (rule take_append_drop_length [symmetric])
    ultimately show ?thesis using xs(1,2) by (cases "ret > 0") simp_all
  qed
qed

lemma script_send:
  assumes "data \<noteq> []" and "k_send script_kernel fd data k = (ret, k')"
  shows "ss_in k' = ss_in k \<and>
    (if ret > 0 then ret \<le> int (length data) \<and> ss_out k' = ss_out k @ take (nat ret) data else ss_out k' = ss_out k)"
proof -
  obtain c k1 where c: "next_call k = (c, k1)" by fastforce
  note d = next_call_data [OF c]
  show ?thesis
  proof (cases c)
    case (Fails e)
    with assms(2) c d show ?thesis by (auto simp: script_kernel_def)
  next
    case (Moves m)
    from assms(2) c d Moves have "ret = int (min (length data) (max 1 m))"
      "k' = k1\<lparr>ss_out := ss_out k @ take (min (length data) (max 1 m)) data\<rparr>"
      by (auto simp: script_kernel_def Let_def)
    with d assms(1) show ?thesis by simp
  qed
qed

interpretation script_tcp: selectable_kernel script_kernel 3 "\<lambda>_. True" ss_in ss_out
proof unfold_locales
  show "0 \<le> (3 :: int) \<and> 3 < FD_SETSIZE" by (simp add: FD_SETSIZE_def)
next
  fix k n ret xs k'
  assume "0 < n" and "k_recv script_kernel 3 n k = ((ret, xs), k')"
  from script_recv [OF this] show "True \<and> ss_out k' = ss_out k \<and> (if 0 < ret
      then ret = int (length xs) \<and> length xs \<le> n \<and> ss_in k = xs @ ss_in k' else ss_in k' = ss_in k)" by simp
next
  fix k data ret k'
  assume "data \<noteq> []" and "k_send script_kernel 3 data k = (ret, k')"
  from script_send [OF this] show "True \<and> ss_in k' = ss_in k \<and> (if 0 < ret
      then ret \<le> int (length data) \<and> ss_out k' = ss_out k @ take (nat ret) data else ss_out k' = ss_out k)" by simp
qed (simp_all add: script_kernel_def)

context selectable_kernel
begin

lemma tcp_contract:
  "strict_socket (tcp_transport K) (\<lambda>s. tcp_fd s = fd \<and> good (tcp_kernel s))
    (\<lambda>s. kpend (tcp_kernel s)) (\<lambda>s. ksent (tcp_kernel s))"
proof -
  have "tcp_inv = (\<lambda>s. tcp_fd s = fd \<and> good (tcp_kernel s))" "tcp_pend = (\<lambda>s. kpend (tcp_kernel s))"
    "tcp_sent = (\<lambda>s. ksent (tcp_kernel s))"
    by (simp_all add: fun_eq_iff tcp_defs)
  with tcp.strict_socket_axioms show ?thesis by simp
qed

end

subsection \<open>Properties\<close>

text \<open>
  C13: The TCP socket keeps the contract the client relies on, on a descriptor below \<open>FD_SETSIZE\<close> (1024).
  Over any kernel that behaves as documented, a read delivers the next bytes of the stream or fails
  without losing one, and a write accepts a prefix of the data or fails without accepting any, however
  often calls are interrupted by signals, would block, time out or fail in between; reading,
  writing, shutting down and closing never touch memory they should not.
\<close>

theorem tcp_is_stream_socket:
  assumes "kernel_streams K fd good kpend ksent" and "0 \<le> fd" and "fd < FD_SETSIZE"
  shows "strict_socket (tcp_transport K) (\<lambda>s. tcp_fd s = fd \<and> good (tcp_kernel s))
    (\<lambda>s. kpend (tcp_kernel s)) (\<lambda>s. ksent (tcp_kernel s))"
  using assms
  by (intro selectable_kernel.tcp_contract) (simp add: selectable_kernel_def selectable_kernel_axioms_def)

theorem tcp_is_stream_socket_witness:
  "let s = \<lparr>tcp_fd = 3, tcp_family = 2, tcp_connected = True, tcp_kernel =
        \<lparr>ss_in = [1, 2, 3], ss_out = [], ss_calls = [Fails EINTR, Fails EAGAIN, Moves 2], ss_errno = 0\<rparr>\<rparr>
   in \<exists>s'. tcp_read_some script_kernel 9 \<lparr>to_start = 0, to_timeout = 5\<rparr> s = Some (Ok [1, 2], s') \<and>
     ss_in (tcp_kernel s') = [3]"
proof -
  let ?s = "\<lparr>tcp_fd = 3, tcp_family = 2, tcp_connected = True, tcp_kernel =
        \<lparr>ss_in = [1, 2, 3], ss_out = [], ss_calls = [Fails EINTR, Fails EAGAIN, Moves 2], ss_errno = 0\<rparr>\<rparr>"
  let ?to = "\<lparr>to_start = 0, to_timeout = 5\<rparr>"
  have "ws_holds (tcp_read_some script_kernel 9 ?to ?s) (\<lambda>xs s. xs = [1, 2])" by code_simp
  then obtain s' where run: "tcp_read_some script_kernel 9 ?to ?s = Some (Ok [1, 2], s')" by (auto simp: ws_holds_iff)
  from stream_socket.read_ok [OF strict_socket.axioms(1) [OF tcp_is_stream_socket [OF script_tcp.kernel_streams_axioms script_tcp.fd_range [THEN conjunct1] script_tcp.fd_range [THEN conjunct2]]], of ?s 9 ?to "[1, 2]" s'] run
  have "[1, 2, 3] = [1, 2] @ ss_in (tcp_kernel s')" by simp
  with run show ?thesis by simp
qed

text \<open>
  C33: The life of the descriptor, for every kernel: \<open>init\<close> refuses an initialised socket and \<open>connect\<close> one
  that is not initialised or already connected, without touching anything. After a \<open>close\<close> that succeeds
  the descriptor is gone, and closing, shutting down and destroying do nothing more; when the kernel's
  \<open>close\<close> fails, its error is returned and the object keeps the descriptor.
\<close>

theorem tcp_descriptor_life:
  "(tcp_fd s \<noteq> -1 \<longrightarrow> (\<exists>e. tcp_init K s = Some (Err e, s) \<and> err_code e = Logic_error)) \<and>
   (tcp_fd s = -1 \<or> tcp_connected s \<longrightarrow> (\<exists>e. tcp_connect K ms s = Some (Err e, s) \<and> err_code e = Logic_error)) \<and>
   (case tcp_close K f s of
      Some (Ok u, s') \<Rightarrow> tcp_fd s' = -1 \<and> tcp_close K f' s' = Some (Ok (), s') \<and>
        tcp_shutdown K f' to s' = Some (Ok (), s') \<and> tcp_destroy K s' = Some (Ok (), s')
    | Some (Err e, s') \<Rightarrow> tcp_fd s' = tcp_fd s \<and> tcp_fd s \<noteq> -1 \<and> err_code e = Transport_error
    | _ \<Rightarrow> False)"
  by (auto simp: tcp_init_def tcp_connect_def tcp_close_def tcp_shutdown_def tcp_destroy_def sys_def ws_try_def
      tcp_error_def transport_text_def Let_def split: prod.splits)

theorem tcp_descriptor_life_witness:
  "\<exists>e s'. tcp_init script_kernel (tcp_new 2 \<lparr>ss_in = [], ss_out = [], ss_calls = [], ss_errno = 0\<rparr>) = Some (Ok (), s') \<and>
     tcp_init script_kernel s' = Some (Err e, s') \<and> err_code e = Logic_error"
proof -
  let ?s = "tcp_new 2 \<lparr>ss_in = [], ss_out = [], ss_calls = [], ss_errno = 0\<rparr>"
  have "ws_holds (tcp_init script_kernel ?s) (\<lambda>u s. tcp_fd s \<noteq> -1)" by code_simp
  then obtain s' where "tcp_init script_kernel ?s = Some (Ok (), s')" "tcp_fd s' \<noteq> -1" by (auto simp: ws_holds_iff)
  with tcp_descriptor_life [of s' script_kernel] show ?thesis by blast
qed

text \<open>
  With a descriptor of 1024 or more, which a process with many open files gets, the first call that
  has to wait writes outside the \<open>fd_set\<close>: whenever \<open>recv\<close> would block, \<open>read_some\<close> goes wrong.
\<close>

theorem tcp_large_descriptor:
  assumes "FD_SETSIZE \<le> tcp_fd s" and "k_recv K (tcp_fd s) n (tcp_kernel s) = ((-1, xs), k)"
    and "k_errno K k = EAGAIN"
  shows "\<exists>s'. tcp_read_some K n to s = Some (Abort, s')"
  using assms
  by (subst tcp_read_some.simps)
    (simp add: sys_def ws_try_def tcp_wait_readable_def, subst tcp_wait.simps, simp add: tcp_select_def ws_try_def)

theorem tcp_large_descriptor_witness:
  "\<exists>s'. tcp_read_some script_kernel 9 \<lparr>to_start = 0, to_timeout = 5\<rparr>
     \<lparr>tcp_fd = 1024, tcp_family = 2, tcp_connected = True, tcp_kernel =
        \<lparr>ss_in = [1], ss_out = [], ss_calls = [Fails EAGAIN], ss_errno = 0\<rparr>\<rparr> = Some (Abort, s')"
  by (rule tcp_large_descriptor [where xs = "[]" and
        k = "\<lparr>ss_in = [1], ss_out = [], ss_calls = [], ss_errno = EAGAIN\<rparr>"])
    (simp_all add: FD_SETSIZE_def script_kernel_def next_call_def)

end
