(* ===== verification/Ssl_Socket.thy ===== *)
theory Ssl_Socket
  imports Tcp_Socket Utf8
begin

section \<open>The TLS socket (transport/builtin/OpenSslSocket.hpp)\<close>

text \<open>
  \<open>OpenSslSocket\<close> over OpenSSL, whose functions are parameters: a record of operations on the same
  state as the kernel's, that take the pointer of the \<open>SSL\<close> structure (0 is the null pointer) and
  return what the C function returns. \<open>SSL_read\<close> gives the bytes it stored along with its result.
  \<open>SSL_get_error\<close> and the checks of a certificate only look. Using a null \<open>SSL\<close> pointer is \<open>Abort\<close>. The
  descriptor is non-blocking (\<open>TcpSocket::init\<close>), so no call of the library blocks; \<open>select\<close> may. The
  two callbacks only write log messages (the verify callback keeps the verdict it is given, but rejects when it has no memory for its log), so
  registering them is an operation of the library. Logging is left out.
\<close>

record 'k openssl =
  o_new :: "int \<Rightarrow> 'k \<Rightarrow> int \<times> 'k"
  o_set_ex_data :: "int \<Rightarrow> 'k \<Rightarrow> 'k"
  o_set_fd :: "int \<Rightarrow> int \<Rightarrow> 'k \<Rightarrow> int \<times> 'k"
  o_set_hostname :: "int \<Rightarrow> string \<Rightarrow> 'k \<Rightarrow> int \<times> 'k"
  o_set_cipher_list :: "int \<Rightarrow> string \<Rightarrow> 'k \<Rightarrow> int \<times> 'k"
  o_set_min_proto_version :: "int \<Rightarrow> int \<Rightarrow> 'k \<Rightarrow> int \<times> 'k"
  o_set_max_proto_version :: "int \<Rightarrow> int \<Rightarrow> 'k \<Rightarrow> int \<times> 'k"
  o_set_verify :: "int \<Rightarrow> bool \<Rightarrow> 'k \<Rightarrow> 'k"
  o_set_info_callback :: "int \<Rightarrow> 'k \<Rightarrow> 'k"
  o_clear_error :: "'k \<Rightarrow> 'k"
  o_print_errors :: "'k \<Rightarrow> 'k"
  o_get_error :: "int \<Rightarrow> int \<Rightarrow> 'k \<Rightarrow> int"
  o_connect :: "int \<Rightarrow> 'k \<Rightarrow> int \<times> 'k"
  o_peek :: "int \<Rightarrow> int \<Rightarrow> 'k \<Rightarrow> int \<times> 'k"
  o_read :: "int \<Rightarrow> int \<Rightarrow> 'k \<Rightarrow> (int \<times> byte list) \<times> 'k"
  o_write :: "int \<Rightarrow> byte list \<Rightarrow> int \<Rightarrow> 'k \<Rightarrow> int \<times> 'k"
  o_shutdown :: "int \<Rightarrow> 'k \<Rightarrow> int \<times> 'k"
  o_free :: "int \<Rightarrow> 'k \<Rightarrow> 'k"
  o_peer_certificate :: "int \<Rightarrow> 'k \<Rightarrow> int \<times> 'k"
  o_check_host :: "int \<Rightarrow> string \<Rightarrow> 'k \<Rightarrow> int"
  o_x509_free :: "int \<Rightarrow> 'k \<Rightarrow> 'k"
  o_verify_result :: "int \<Rightarrow> 'k \<Rightarrow> int"
  o_cipher :: "int \<Rightarrow> 'k \<Rightarrow> string"
  o_version :: "int \<Rightarrow> 'k \<Rightarrow> int"

definition SSL_ERROR_NONE :: int where "SSL_ERROR_NONE = 0"
definition SSL_ERROR_WANT_READ :: int where "SSL_ERROR_WANT_READ = 2"
definition SSL_ERROR_WANT_WRITE :: int where "SSL_ERROR_WANT_WRITE = 3"
definition SSL_ERROR_SYSCALL :: int where "SSL_ERROR_SYSCALL = 5"
definition SSL_ERROR_ZERO_RETURN :: int where "SSL_ERROR_ZERO_RETURN = 6"
definition X509_V_OK :: int where "X509_V_OK = 0"

lemmas ssl_constants = SSL_ERROR_NONE_def SSL_ERROR_WANT_READ_def SSL_ERROR_WANT_WRITE_def
  SSL_ERROR_SYSCALL_def SSL_ERROR_ZERO_RETURN_def X509_V_OK_def

record 'k ssl =
  ssl_tcp :: "'k tcp"
  ssl_ctx :: int
  ssl_ptr :: int
  ssl_hostname :: string
  ssl_verify :: bool

definition ssl_new :: "'k tcp \<Rightarrow> int \<Rightarrow> string \<Rightarrow> bool \<Rightarrow> 'k ssl" where
  "ssl_new socket ctx hostname verify =
     \<lparr>ssl_tcp = socket, ssl_ctx = ctx, ssl_ptr = 0, ssl_hostname = hostname, ssl_verify = verify\<rparr>"

text \<open>Operations of the underlying TCP socket, and calls of the library on the \<open>SSL\<close> structure.\<close>

definition on_tcp :: "('k tcp, 'r) ws \<Rightarrow> ('k ssl, 'r) ws" where
  "on_tcp = on_part ssl_tcp (\<lambda>t s. s\<lparr>ssl_tcp := t\<rparr>)"

abbreviation ssl_kernel :: "'k ssl \<Rightarrow> 'k" where
  "ssl_kernel s \<equiv> tcp_kernel (ssl_tcp s)"

definition ssl_call :: "(int \<Rightarrow> 'k \<Rightarrow> 'r \<times> 'k) \<Rightarrow> ('k ssl, 'r) ws" where
  "ssl_call f s = (if ssl_ptr s = 0 then Some (Abort, s) else on_tcp (sys (f (ssl_ptr s))) s)"

definition ssl_do :: "(int \<Rightarrow> 'k \<Rightarrow> 'k) \<Rightarrow> ('k ssl, unit) ws" where
  "ssl_do f = ssl_call (\<lambda>p k. ((), f p k))"

definition clear_error :: "'k openssl \<Rightarrow> ('k ssl, unit) ws" where
  "clear_error L = on_tcp (sys (\<lambda>k. ((), o_clear_error L k)))"

definition get_error :: "'k openssl \<Rightarrow> int \<Rightarrow> 'k ssl \<Rightarrow> int" where
  "get_error L ret s = o_get_error L (ssl_ptr s) ret (ssl_kernel s)"

definition ssl_expired :: "'k kernel \<Rightarrow> timeout \<Rightarrow> ('k ssl, bool) ws" where
  "ssl_expired K to = on_tcp (sys (is_expired (k_now K) to))"

subsection \<open>Errors (ssl_utils.hpp)\<close>

text \<open>Both empty the error queue of the library; the text of the queue is not modelled.\<close>

definition ssl_error :: "'k openssl \<Rightarrow> int \<Rightarrow> int \<Rightarrow> string \<Rightarrow> ('k ssl, 'r) ws" where
  "ssl_error L ret e desc =
     ws_try (on_tcp (sys (\<lambda>k. ((), o_print_errors L k))))
       (\<lambda>_. ws_fail (WSError Transport_error (Transport_msg (Msg_ssl_error desc ret e)) not_set))"

definition syscall_error :: "'k openssl \<Rightarrow> int \<Rightarrow> int \<Rightarrow> string \<Rightarrow> ('k ssl, 'r) ws" where
  "syscall_error L ret e desc =
     ws_try (clear_error L)
       (\<lambda>_. ws_fail (WSError Transport_error (Transport_msg (Msg_syscall desc e ret)) not_set))"

definition ensure_ssl_init :: "('k ssl, unit) ws" where
  "ensure_ssl_init s =
     (if ssl_ptr s = 0 then Some (Err (transport_text Logic_error ''OpenSslSocket not initialized.''), s)
      else Some (Ok (), s))"

subsection \<open>Configuration\<close>

text \<open>A call that reports success by 1.\<close>

definition ssl_setting ::
  "'k openssl \<Rightarrow> (int \<Rightarrow> 'k \<Rightarrow> int \<times> 'k) \<Rightarrow> string \<Rightarrow> ('k ssl, unit) ws" where
  "ssl_setting L f desc =
     ws_try (ssl_call f)
       (\<lambda>ret s. if ret \<noteq> 1 then ssl_error L ret (get_error L ret s) desc s else Some (Ok (), s))"

definition set_hostname :: "'k openssl \<Rightarrow> string \<Rightarrow> ('k ssl, unit) ws" where
  "set_hostname L hostname =
     ws_try ensure_ssl_init
       (\<lambda>_. ssl_setting L (\<lambda>p. o_set_hostname L p hostname) ''Unable to set hostname'')"

definition set_verify_peer :: "'k openssl \<Rightarrow> bool \<Rightarrow> ('k ssl, unit) ws" where
  "set_verify_peer L v =
     ws_try ensure_ssl_init
       (\<lambda>_ s. ssl_do (\<lambda>p. o_set_verify L p v) (s\<lparr>ssl_verify := v\<rparr>))"

definition set_cipher_list :: "'k openssl \<Rightarrow> string \<Rightarrow> ('k ssl, unit) ws" where
  "set_cipher_list L ciphers =
     ws_try ensure_ssl_init
       (\<lambda>_. ssl_setting L (\<lambda>p. o_set_cipher_list L p ciphers) ''Unable to set cipher list'')"

definition set_tls_version_range :: "'k openssl \<Rightarrow> int \<Rightarrow> int \<Rightarrow> ('k ssl, unit) ws" where
  "set_tls_version_range L min_version max_version =
     ws_try ensure_ssl_init
       (\<lambda>_. ws_try (ssl_setting L (\<lambda>p. o_set_min_proto_version L p min_version) ''Unable to set min. TLS version'')
         (\<lambda>_. ssl_setting L (\<lambda>p. o_set_max_proto_version L p max_version) ''Unable to set max. TLS version''))"

definition get_current_cipher :: "'k openssl \<Rightarrow> ('k ssl, string) ws" where
  "get_current_cipher L =
     ws_try ensure_ssl_init (\<lambda>_ s. Some (Ok (o_cipher L (ssl_ptr s) (ssl_kernel s)), s))"

definition get_current_tls_version :: "'k openssl \<Rightarrow> ('k ssl, int) ws" where
  "get_current_tls_version L =
     ws_try ensure_ssl_init (\<lambda>_ s. Some (Ok (o_version L (ssl_ptr s) (ssl_kernel s)), s))"

definition ssl_init :: "'k openssl \<Rightarrow> ('k ssl, unit) ws" where
  "ssl_init L s =
     (if ssl_ptr s \<noteq> 0
      then Some (Err (transport_text Logic_error ''OpenSslSocket already initialized''), s)
      else if ssl_ctx s = 0 then Some (Abort, s)
      else ws_try (on_tcp (sys (o_new L (ssl_ctx s))))
        (\<lambda>p s.
           let s = s\<lparr>ssl_ptr := p\<rparr>
           in if p = 0 then ssl_error L 0 0 ''Unable to create SSL structure'' s
              else ws_try (ssl_do (o_set_ex_data L))
                (\<lambda>_ s. ws_try (ssl_setting L (\<lambda>p. o_set_fd L p (tcp_fd (ssl_tcp s)))
                                ''Unable to create SSL object for file descriptor'')
                  (\<lambda>_ s. ws_try (set_verify_peer L (ssl_verify s))
                    (\<lambda>_ s. ws_try (set_hostname L (ssl_hostname s))
                      (\<lambda>_. ssl_do (o_set_info_callback L)) s) s) s) s) s)"

subsection \<open>Waiting\<close>

text \<open>
  \<open>ssl_select\<close> waits until the descriptor is ready for what the library wants; unlike the loops of
  \<open>TcpSocket\<close> it looks at the clock after an interruption.
\<close>

partial_function (option) ssl_select ::
  "'k kernel \<Rightarrow> 'k openssl \<Rightarrow> bool \<Rightarrow> timeout \<Rightarrow> 'k ssl \<Rightarrow> (bool ws_result \<times> 'k ssl) option"
where
  "ssl_select K L writing to s =
     ws_try (on_tcp (tcp_select K writing to))
       (\<lambda>ret s.
          if ret > 0 then Some (Ok True, s)
          else if ret = 0 then Some (Ok False, s)
          else if k_errno K (ssl_kernel s) = EINTR
          then ws_try (ssl_expired K to)
                 (\<lambda>expired s. if expired then Some (Ok False, s) else ssl_select K L writing to s) s
          else syscall_error L ret (k_errno K (ssl_kernel s))
                 ''SSL socket operation failed due to system error in select()'' s) s"

text \<open>
  The loops are all \<open>do { attempt } while (!timeout.is_expired())\<close>, followed by what happens when the
  time is over. An attempt ends the loop with a value or an error, or wants another round.
\<close>

partial_function (option) ssl_loop ::
  "'k kernel \<Rightarrow> timeout \<Rightarrow> ('k ssl, 'r option) ws \<Rightarrow> ('k ssl, 'r) ws \<Rightarrow> 'k ssl \<Rightarrow> ('r ws_result \<times> 'k ssl) option"
where
  "ssl_loop K to attempt over s =
     ws_try attempt
       (\<lambda>r s. case r of
          Some v \<Rightarrow> Some (Ok v, s)
        | None \<Rightarrow> ws_try (ssl_expired K to)
                    (\<lambda>expired s. if expired then over s else ssl_loop K to attempt over s) s) s"

declare ssl_select.simps [code] ssl_loop.simps [code]

text \<open>
  A call failed with \<open>ret\<close>: wait for the descriptor (\<open>False\<close> when the time ran out), go on after an
  interruption, or fail. \<open>zero\<close> is the text for an orderly close by the peer, where the code has one.
\<close>

definition ssl_recover ::
  "'k kernel \<Rightarrow> 'k openssl \<Rightarrow> timeout \<Rightarrow> string option \<Rightarrow> string \<Rightarrow> string \<Rightarrow> int \<Rightarrow> ('k ssl, bool) ws" where
  "ssl_recover K L to zero desc_sys desc_ssl ret s =
     (let e = get_error L ret s; errno = k_errno K (ssl_kernel s)
      in if e = SSL_ERROR_WANT_READ \<or> e = SSL_ERROR_WANT_WRITE
         then ssl_select K L (e = SSL_ERROR_WANT_WRITE) to s
         else if e = SSL_ERROR_SYSCALL
         then (if errno = EINTR then Some (Ok True, s) else syscall_error L ret errno desc_sys s)
         else if e = SSL_ERROR_ZERO_RETURN \<and> zero \<noteq> None
         then Some (Err (transport_text Connection_closed (the zero)), s)
         else ssl_error L ret e desc_ssl s)"

subsection \<open>Connecting\<close>

text \<open>The TLS handshake, after which the loop is left, whether it was completed or the time is over.\<close>

definition connect_attempt :: "'k kernel \<Rightarrow> 'k openssl \<Rightarrow> timeout \<Rightarrow> ('k ssl, unit option) ws" where
  "connect_attempt K L to =
     ws_try (clear_error L)
      (\<lambda>_. ws_try (ssl_call (o_connect L))
        (\<lambda>ret s.
           if ret = 1 then Some (Ok (Some ()), s)
           else ws_try (ssl_recover K L to (Some ''SSL connection closed in connect (SSL_ERROR_ZERO_RETURN)'')
                    ''connect failed due to system error'' ''connect failed due to SSL error'' ret)
                  (\<lambda>ready s.
                     if ready then Some (Ok None, s)
                     else Some (Err (transport_text Timeout_error ''SSL handshake timed out''), s)) s))"

definition ssl_handshake :: "'k kernel \<Rightarrow> 'k openssl \<Rightarrow> timeout \<Rightarrow> ('k ssl, unit) ws" where
  "ssl_handshake K L to = ssl_loop K to (connect_attempt K L to) (ws_return ())"

text \<open>The certificate of the peer: presented, for this host, and with a valid chain.\<close>

definition ssl_check_certificate :: "'k openssl \<Rightarrow> ('k ssl, unit) ws" where
  "ssl_check_certificate L =
     ws_try (ssl_call (o_peer_certificate L))
       (\<lambda>cert s.
          if cert = 0
          then Some (Err (transport_text Transport_error
                 ''Certificate verification error: No certificate presented''), s)
          else let match = o_check_host L cert (ssl_hostname s) (ssl_kernel s)
               in ws_try (on_tcp (sys (\<lambda>k. ((), o_x509_free L cert k))))
                    (\<lambda>_ s.
                       if match \<noteq> 1
                       then Some (Err (transport_text Transport_error
                              (''Certificate verification error: Hostname mismatch, expected: '' @ ssl_hostname s)), s)
                       else let verify_ret = o_verify_result L (ssl_ptr s) (ssl_kernel s)
                            in if verify_ret \<noteq> X509_V_OK
                               then Some (Err (WSError Transport_error (Transport_msg
                                      (Msg_errno ''Certificate chain verification failed'' verify_ret)) not_set), s)
                               else Some (Ok (), s)) s)"

definition ssl_connect :: "'k kernel \<Rightarrow> 'k openssl \<Rightarrow> int \<Rightarrow> ('k ssl, unit) ws" where
  "ssl_connect K L ms s =
     (if ssl_ptr s = 0
      then Some (Err (transport_text Logic_error ''OpenSslSocket not initialized, call init() first.''), s)
      else ws_try (on_tcp (\<lambda>t. let (to, k) = timeout_new (k_now K) ms (tcp_kernel t) in Some (to, t\<lparr>tcp_kernel := k\<rparr>)))
        (\<lambda>to. ws_try (on_tcp (tcp_connect K ms))
          (\<lambda>_. ws_try (ssl_handshake K L to)
            (\<lambda>_ s. if \<not> ssl_verify s then Some (Ok (), s) else ssl_check_certificate L s))) s)"

subsection \<open>Reading and writing\<close>

text \<open>The sizes are cast to \<open>int\<close> (\<open>narrow_len\<close>).\<close>

definition peek_attempt :: "'k kernel \<Rightarrow> 'k openssl \<Rightarrow> timeout \<Rightarrow> ('k ssl, bool option) ws" where
  "peek_attempt K L to =
     ws_try (clear_error L)
      (\<lambda>_. ws_try (ssl_call (\<lambda>p. o_peek L p 1))
        (\<lambda>ret s.
           if get_error L ret s = SSL_ERROR_NONE then Some (Ok (Some True), s)
           else if get_error L ret s = SSL_ERROR_SYSCALL \<and> k_errno K (ssl_kernel s) = 0
           then Some (Err (transport_text Connection_closed ''TLS peer closed connection abruptly''), s)
           else ws_try (ssl_recover K L to (Some ''SSL connection closed in wait_readable (SSL_ERROR_ZERO_RETURN)'')
                    ''SSL syscall error in wait_readable'' ''Unexpected SSL error in wait_readable'' ret)
                  (\<lambda>ready s. Some (Ok (if ready then None else Some False), s)) s))"

definition ssl_wait_readable :: "'k kernel \<Rightarrow> 'k openssl \<Rightarrow> timeout \<Rightarrow> ('k ssl, bool) ws" where
  "ssl_wait_readable K L to = ssl_loop K to (peek_attempt K L to) (ws_return False)"

definition read_attempt :: "'k kernel \<Rightarrow> 'k openssl \<Rightarrow> nat \<Rightarrow> timeout \<Rightarrow> ('k ssl, byte list option) ws" where
  "read_attempt K L n to =
     ws_try (clear_error L)
      (\<lambda>_. ws_try (ssl_call (\<lambda>p. o_read L p (narrow_len n)))
        (\<lambda>(ret, xs) s.
           if ret > 0 then Some (Ok (Some xs), s)
           else if ret = 0
           then Some (Err (transport_text Transport_error ''SSL connection closed on transport layer''), s)
           else ws_try (ssl_recover K L to (Some ''SSL connection closed in read_some (SSL_ERROR_ZERO_RETURN)'')
                    ''SSL syscall error in read_some'' ''Unexpected SSL error in read_some'' ret)
                  (\<lambda>ready s.
                     if ready then Some (Ok None, s)
                     else Some (Err (transport_text Timeout_error ''SSL read timed out''), s)) s))"

definition ssl_read_some :: "'k kernel \<Rightarrow> 'k openssl \<Rightarrow> nat \<Rightarrow> timeout \<Rightarrow> ('k ssl, byte list) ws" where
  "ssl_read_some K L n to = ssl_loop K to (read_attempt K L n to) (ws_fail (transport_text Timeout_error ''SSL read timed out''))"

definition write_attempt :: "'k kernel \<Rightarrow> 'k openssl \<Rightarrow> byte list \<Rightarrow> timeout \<Rightarrow> ('k ssl, nat option) ws" where
  "write_attempt K L data to =
     ws_try (clear_error L)
      (\<lambda>_. ws_try (ssl_call (\<lambda>p. o_write L p data (narrow_len (length data))))
        (\<lambda>ret s.
           if ret > 0 then Some (Ok (Some (nat ret)), s)
           else if ret = 0
           then Some (Err (transport_text Connection_closed ''SSL connection closed on transport layer''), s)
           else ws_try (ssl_recover K L to (Some ''SSL connection closed in write_some (SSL_ERROR_ZERO_RETURN)'')
                    ''SSL syscall error in write_some'' ''Unexpected SSL error in write_some'' ret)
                  (\<lambda>ready s.
                     if ready then Some (Ok None, s)
                     else Some (Err (transport_text Timeout_error ''SSL write timed out''), s)) s))"

definition ssl_write_some :: "'k kernel \<Rightarrow> 'k openssl \<Rightarrow> byte list \<Rightarrow> timeout \<Rightarrow> ('k ssl, nat) ws" where
  "ssl_write_some K L data to = ssl_loop K to (write_attempt K L data to) (ws_fail (transport_text Timeout_error ''SSL write timed out''))"

subsection \<open>Shutting down and closing\<close>

definition shutdown_attempt :: "'k kernel \<Rightarrow> 'k openssl \<Rightarrow> timeout \<Rightarrow> ('k ssl, unit option) ws" where
  "shutdown_attempt K L to =
     ws_try (clear_error L)
      (\<lambda>_. ws_try (ssl_call (o_shutdown L))
        (\<lambda>ret s.
           if ret = 1 then Some (Ok (Some ()), s)
           else if ret < 0
           then ws_try (ssl_recover K L to None ''SSL syscall error during shutdown'' ''SSL shutdown failed'' ret)
                  (\<lambda>ready s.
                     if ready then Some (Ok None, s)
                     else Some (Err (transport_text Timeout_error ''SSL shutdown timed out''), s)) s
           else Some (Ok None, s)))"

definition ssl_close_notify :: "'k kernel \<Rightarrow> 'k openssl \<Rightarrow> timeout \<Rightarrow> ('k ssl, unit) ws" where
  "ssl_close_notify K L to = ssl_loop K to (shutdown_attempt K L to) (ws_return ())"

text \<open>A call whose result is not looked at.\<close>

definition ignore_result :: "('s, 'r) ws \<Rightarrow> ('s, unit) ws" where
  "ignore_result m s =
     (case m s of None \<Rightarrow> None | Some (r, s) \<Rightarrow> Some (if r = Abort then Abort else Ok (), s))"

definition ssl_shutdown :: "'k kernel \<Rightarrow> 'k openssl \<Rightarrow> bool \<Rightarrow> timeout \<Rightarrow> ('k ssl, unit) ws" where
  "ssl_shutdown K L fail_connection to s =
     ws_try (\<lambda>s. if \<not> fail_connection \<and> ssl_ptr s \<noteq> 0 then ssl_close_notify K L to s else Some (Ok (), s))
       (\<lambda>_. ignore_result (on_tcp (tcp_shutdown K fail_connection to))) s"

definition ssl_close :: "'k kernel \<Rightarrow> 'k openssl \<Rightarrow> bool \<Rightarrow> ('k ssl, unit) ws" where
  "ssl_close K L fail_connection s =
     ws_try (\<lambda>s. if ssl_ptr s \<noteq> 0
                  then ws_try (ssl_do (o_free L)) (\<lambda>_ s. Some (Ok (), s\<lparr>ssl_ptr := 0\<rparr>)) s
                  else Some (Ok (), s))
       (\<lambda>_. ignore_result (on_tcp (tcp_close K fail_connection))) s"

definition ssl_destroy :: "'k kernel \<Rightarrow> 'k openssl \<Rightarrow> ('k ssl, unit) ws" where
  "ssl_destroy K L s = (if ssl_ptr s \<noteq> 0 then ssl_close K L True s else Some (Ok (), s))"

text \<open>The move constructor: the new object, with its address known to the library, and the old one.\<close>

definition ssl_move :: "'k openssl \<Rightarrow> 'k ssl \<Rightarrow> 'k ssl \<times> 'k ssl" where
  "ssl_move L other =
     (let (sock, old) = tcp_move (ssl_tcp other);
          k = (if ssl_ptr other \<noteq> 0 then o_set_ex_data L (ssl_ptr other) (tcp_kernel sock) else tcp_kernel sock)
      in (other\<lparr>ssl_tcp := sock\<lparr>tcp_kernel := k\<rparr>\<rparr>,
          other\<lparr>ssl_tcp := old, ssl_ctx := 0, ssl_ptr := 0\<rparr>))"

definition ssl_transport :: "'k kernel \<Rightarrow> 'k openssl \<Rightarrow> 'k ssl transport" where
  "ssl_transport K L =
     \<lparr>tr_now = (\<lambda>s. let (t, k) = k_now K (ssl_kernel s)
                in (t, s\<lparr>ssl_tcp := (ssl_tcp s)\<lparr>tcp_kernel := k\<rparr>\<rparr>)),
      tr_read_some = ssl_read_some K L,
      tr_write_some = ssl_write_some K L,
      tr_wait_readable = ssl_wait_readable K L,
      tr_shutdown = ssl_shutdown K L,
      tr_close = ssl_close K L\<rparr>"

lemma ssl_transport_sel [simp]:
  "tr_now (ssl_transport K L) = (\<lambda>s. let (t, k) = k_now K (ssl_kernel s)
     in (t, s\<lparr>ssl_tcp := (ssl_tcp s)\<lparr>tcp_kernel := k\<rparr>\<rparr>))"
  "tr_read_some (ssl_transport K L) = ssl_read_some K L" "tr_write_some (ssl_transport K L) = ssl_write_some K L"
  "tr_wait_readable (ssl_transport K L) = ssl_wait_readable K L"
  "tr_shutdown (ssl_transport K L) = ssl_shutdown K L" "tr_close (ssl_transport K L) = ssl_close K L"
  by (simp_all add: ssl_transport_def)

end
