(* ===== verification/Ssl_Contract.thy ===== *)
theory Ssl_Contract
  imports Ssl_Socket
begin

section \<open>What the TLS socket promises\<close>

text \<open>
  The documented behaviour of OpenSSL as a locale, the proof that \<open>OpenSslSocket\<close> over it is a stream
  socket of the client, a library that can be run, and what a successful \<open>connect\<close> says of the peer.
\<close>

subsection \<open>The contract of the library\<close>

text \<open>
  The documented behaviour of a TLS connection \<open>p\<close> on the descriptor \<open>fd\<close>: \<open>SSL_read\<close> moves application
  data when it returns a positive number, at most as much as it was given room for, and none otherwise.
  \<open>SSL_write\<close> may send a part of the data (some records of it) also when it fails; \<open>kwait\<close> holds then
  the arguments of that call and how much of its data has gone. The call may be repeated, with the
  same arguments only, and goes on where it stopped; of any other \<open>SSL_write\<close> after one that failed
  nothing is said. No other call moves application data. Every call may fail at any time.
\<close>

locale tls_streams =
  fixes K :: "'k kernel" and L :: "'k openssl" and fd :: int and p :: int and good :: "'k \<Rightarrow> bool"
    and kpend :: "'k \<Rightarrow> byte list" and ksent :: "'k \<Rightarrow> byte list"
    and kwait :: "'k \<Rightarrow> (byte list \<times> int \<times> nat) option"
  assumes now_ok: "good k \<Longrightarrow> k_now K k = (t, k') \<Longrightarrow>
      good k' \<and> kpend k' = kpend k \<and> ksent k' = ksent k \<and> kwait k' = kwait k"
    and select_ok: "good k \<Longrightarrow> k_select K w fd tv k = Some (ret, k') \<Longrightarrow>
      good k' \<and> kpend k' = kpend k \<and> ksent k' = ksent k \<and> kwait k' = kwait k"
    and clear_ok: "good k \<Longrightarrow> o_clear_error L k = k' \<Longrightarrow>
      good k' \<and> kpend k' = kpend k \<and> ksent k' = ksent k \<and> kwait k' = kwait k"
    and print_ok: "good k \<Longrightarrow> o_print_errors L k = k' \<Longrightarrow>
      good k' \<and> kpend k' = kpend k \<and> ksent k' = ksent k \<and> kwait k' = kwait k"
    and ssl_read_ok: "good k \<Longrightarrow> o_read L p num k = ((ret, xs), k') \<Longrightarrow>
      good k' \<and> ksent k' = ksent k \<and> kwait k' = kwait k \<and>
      (if ret > 0 then ret = int (length xs) \<and> ret \<le> num \<and> kpend k = xs @ kpend k' else kpend k' = kpend k)"
    and ssl_write_ok: "good k \<Longrightarrow> kwait k = None \<and> m = 0 \<or> kwait k = Some (data, num, m) \<Longrightarrow>
      o_write L p data num k = (ret, k') \<Longrightarrow>
      good k' \<and> kpend k' = kpend k \<and>
      (if ret > 0
       then ret \<le> num \<and> m \<le> nat ret \<and> kwait k' = None \<and> ksent k' = ksent k @ drop m (take (nat ret) data)
       else \<exists>j. m \<le> j \<and> j \<le> length data \<and> ksent k' = ksent k @ drop m (take j data) \<and>
         (kwait k' = Some (data, num, j) \<or> j = 0 \<and> kwait k' = None))"
    and ssl_shutdown_ok: "good k \<Longrightarrow> o_shutdown L p k = (ret, k') \<Longrightarrow>
      good k' \<and> ksent k' = ksent k \<and> kwait k' = kwait k"
    and ssl_free_ok: "good k \<Longrightarrow> good (o_free L p k) \<and> ksent (o_free L p k) = ksent k"
    and tcp_shutdown_ok: "good k \<Longrightarrow> k_shutdown K fd k = (ret, k') \<Longrightarrow>
      good k' \<and> ksent k' = ksent k \<and> kwait k' = kwait k"
    and tcp_close_ok: "good k \<Longrightarrow> k_close K fd k = (ret, k') \<Longrightarrow> ksent k' = ksent k"

text \<open>An initialised socket whose descriptor fits an \<open>fd_set\<close> (which the code does not check).\<close>

locale selectable_tls = tls_streams K L fd p good kpend ksent kwait
  for K :: "'k kernel" and L :: "'k openssl" and fd :: int and p :: int and good :: "'k \<Rightarrow> bool"
    and kpend ksent :: "'k \<Rightarrow> byte list" and kwait :: "'k \<Rightarrow> (byte list \<times> int \<times> nat) option" +
  assumes fd_range: "0 \<le> fd \<and> fd < FD_SETSIZE" and ptr: "p \<noteq> 0"
begin

definition ssl_inv :: "'k ssl \<Rightarrow> bool" where
  "ssl_inv s \<longleftrightarrow> tcp_fd (ssl_tcp s) = fd \<and> ssl_ptr s = p \<and> good (ssl_kernel s)"

definition ssl_pend :: "'k ssl \<Rightarrow> byte list" where "ssl_pend s = kpend (ssl_kernel s)"

definition ssl_sent :: "'k ssl \<Rightarrow> byte list" where "ssl_sent s = ksent (ssl_kernel s)"

definition ssl_wait :: "'k ssl \<Rightarrow> (byte list \<times> int \<times> nat) option" where "ssl_wait s = kwait (ssl_kernel s)"

lemmas ssl_defs = ssl_inv_def ssl_pend_def ssl_sent_def ssl_wait_def

text \<open>Nothing was written; and neither was anything read.\<close>

definition mute :: "'k ssl \<Rightarrow> 'k ssl \<Rightarrow> bool" where
  "mute s s' \<longleftrightarrow> ssl_inv s' \<and> ssl_sent s' = ssl_sent s \<and> ssl_wait s' = ssl_wait s"

definition quiet :: "'k ssl \<Rightarrow> 'k ssl \<Rightarrow> bool" where
  "quiet s s' \<longleftrightarrow> mute s s' \<and> ssl_pend s' = ssl_pend s"

lemma quiet_refl: "ssl_inv s \<Longrightarrow> quiet s s"
  by (simp add: quiet_def mute_def)

lemma quiet_trans: "quiet s s1 \<Longrightarrow> quiet s1 s2 \<Longrightarrow> quiet s s2"
  by (simp add: quiet_def mute_def)

lemma quiet_inv: "quiet s s' \<Longrightarrow> ssl_inv s'"
  by (simp add: quiet_def mute_def)

text \<open>Steps that move no data, and what a program made of them does.\<close>

definition moves_nothing :: "('k ssl, 'r) ws \<Rightarrow> bool" where
  "moves_nothing m \<longleftrightarrow> (\<forall>s r s'. ssl_inv s \<longrightarrow> m s = Some (r, s') \<longrightarrow> r \<noteq> Abort \<and> quiet s s')"

lemma moves_nothingD: "moves_nothing m \<Longrightarrow> ssl_inv s \<Longrightarrow> m s = Some (r, s') \<Longrightarrow> r \<noteq> Abort \<and> quiet s s'"
  by (simp add: moves_nothing_def)

lemma moves_nothing_sys:
  assumes "\<And>k r k'. good k \<Longrightarrow> m k = (r, k') \<Longrightarrow>
      good k' \<and> kpend k' = kpend k \<and> ksent k' = ksent k \<and> kwait k' = kwait k"
  shows "moves_nothing (on_tcp (sys m))"
  using assms by (auto simp: moves_nothing_def on_tcp_def on_part_Some sys_def quiet_def mute_def ssl_defs
      split: prod.splits)

lemma moves_nothing_try:
  assumes "moves_nothing m" and "\<And>v. moves_nothing (f v)"
  shows "moves_nothing (ws_try m f)"
  unfolding moves_nothing_def
proof (intro allI impI)
  fix s r s'
  assume i: "ssl_inv s" and run: "ws_try m f s = Some (r, s')"
  from run show "r \<noteq> Abort \<and> quiet s s'"
  proof (cases rule: ws_try_cases)
    case (ok v s1)
    from moves_nothingD [OF assms(1) i ok(1)] have q: "quiet s s1" by simp
    from moves_nothingD [OF assms(2) quiet_inv [OF q] ok(2)] quiet_trans [OF q] show ?thesis by simp
  qed (use moves_nothingD [OF assms(1) i] in auto)
qed

lemma moves_nothing_if:
  "moves_nothing m \<Longrightarrow> moves_nothing n \<Longrightarrow> moves_nothing (\<lambda>s. if b s then m s else n s)"
  by (simp add: moves_nothing_def)

lemma moves_nothing_state: "(\<And>v. moves_nothing (m v)) \<Longrightarrow> moves_nothing (\<lambda>s. m (f s) s)"
  by (simp add: moves_nothing_def)

lemma moves_nothing_end:
  "moves_nothing (ws_fail e)" "moves_nothing (\<lambda>s. Some (Ok v, s))" "moves_nothing (\<lambda>s. Some (Err e, s))"
  by (auto simp: moves_nothing_def quiet_refl)

lemma moves_nothing_clear: "moves_nothing (clear_error L)"
  unfolding clear_error_def by (rule moves_nothing_sys) (use clear_ok in auto)

lemma moves_nothing_expired: "moves_nothing (ssl_expired K to)"
  unfolding ssl_expired_def
proof (rule moves_nothing_sys)
  fix k r k'
  assume "good k" and "is_expired (k_now K) to k = (r, k')"
  then have "k_now K k = (fst (k_now K k), k')"
    using is_expired_state [of "k_now K" to k] by (metis prod.collapse snd_conv)
  with now_ok \<open>good k\<close> show "good k' \<and> kpend k' = kpend k \<and> ksent k' = ksent k \<and> kwait k' = kwait k" by blast
qed

lemma moves_nothing_errors: "moves_nothing (ssl_error L ret e d)" "moves_nothing (syscall_error L ret e d)"
  unfolding ssl_error_def syscall_error_def
  by (intro moves_nothing_try moves_nothing_end moves_nothing_clear moves_nothing_sys; use print_ok in auto)+

lemma moves_nothing_tcp_select: "moves_nothing (on_tcp (tcp_select K w to))"
  unfolding moves_nothing_def
proof (intro allI impI)
  fix s r s'
  assume i: "ssl_inv s" and run: "on_tcp (tcp_select K w to) s = Some (r, s')"
  obtain rem k where rem: "remaining_timeval (k_now K) to (ssl_kernel s) = (rem, k)" by fastforce
  have "k = snd (k_now K (ssl_kernel s))"
    using arg_cong [OF rem, of snd]
    by (simp add: remaining_timeval_def remaining_def elapsed_def case_prod_beta Let_def)
  then have "k_now K (ssl_kernel s) = (fst (k_now K (ssl_kernel s)), k)" by simp
  note k = now_ok [OF _ this]
  from i run rem fd_range obtain ret k' where "k_select K w fd rem k = Some (ret, k')" "r = Ok ret"
    "s' = s\<lparr>ssl_tcp := (ssl_tcp s)\<lparr>tcp_kernel := k'\<rparr>\<rparr>"
    by (auto simp: on_tcp_def on_part_Some tcp_select_def ssl_inv_def split: option.splits)
  with k select_ok [OF _ this(1)] i show "r \<noteq> Abort \<and> quiet s s'" by (auto simp: quiet_def mute_def ssl_defs)
qed

lemma moves_nothing_select: "moves_nothing (ssl_select K L w to)"
  unfolding moves_nothing_def
proof (intro allI impI)
  fix s r s'
  assume inv: "ssl_inv s" and major: "ssl_select K L w to s = Some (r, s')"
  define P where "P = (\<lambda>(K' :: 'k kernel) (L' :: 'k openssl) (w :: bool) (to :: timeout) s (res :: bool ws_result \<times> 'k ssl).
    K' = K \<longrightarrow> L' = L \<longrightarrow> ssl_inv s \<longrightarrow> fst res \<noteq> Abort \<and> quiet s (snd res))"
  have "P K L w to s (r, s')"
  proof (rule ssl_select.raw_induct [OF _ major, of P])
    fix sel K' L' w to s res
    assume IH: "\<And>K' L' w to s y. sel K' L' w to s = Some y \<Longrightarrow> P K' L' w to s y"
      and run: "ws_try (on_tcp (tcp_select K' w to))
        (\<lambda>ret s. if 0 < ret then Some (Ok True, s) else if ret = 0 then Some (Ok False, s)
           else if k_errno K' (ssl_kernel s) = EINTR
           then ws_try (ssl_expired K' to)
                  (\<lambda>expired s. if expired then Some (Ok False, s) else sel K' L' w to s) s
           else syscall_error L' ret (k_errno K' (ssl_kernel s))
             ''SSL socket operation failed due to system error in select()'' s) s = Some res"
    show "P K' L' w to s res"
      unfolding P_def
    proof (intro impI)
      assume K: "K' = K" "L' = L" and inv: "ssl_inv s"
      have again: "moves_nothing (\<lambda>s. if expired then Some (Ok False, s) else sel K L w to s)" for expired
        using IH by (fastforce simp: moves_nothing_def P_def quiet_refl)
      have "moves_nothing (\<lambda>s. if 0 < ret then Some (Ok True, s) else if ret = 0 then Some (Ok False, s)
           else if k_errno K (ssl_kernel s) = EINTR
           then ws_try (ssl_expired K to)
                  (\<lambda>expired s. if expired then Some (Ok False, s) else sel K L w to s) s
           else syscall_error L ret (k_errno K (ssl_kernel s))
             ''SSL socket operation failed due to system error in select()'' s)" for ret
        by (rule moves_nothing_if [OF moves_nothing_end(2) moves_nothing_if [OF moves_nothing_end(2)
              moves_nothing_if [OF moves_nothing_try [OF moves_nothing_expired again]
                moves_nothing_state [of "\<lambda>e. syscall_error L ret e d" for d, OF moves_nothing_errors(2)]]]])
      from moves_nothingD [where r = "fst res" and s' = "snd res", OF moves_nothing_try [OF moves_nothing_tcp_select this] inv] run
      show "fst res \<noteq> Abort \<and> quiet s (snd res)" unfolding K by simp
    qed
  qed
  with inv show "r \<noteq> Abort \<and> quiet s s'" by (simp add: P_def)
qed

lemma moves_nothing_recover: "moves_nothing (ssl_recover K L to zero ds dl ret)"
proof -
  have "moves_nothing (\<lambda>s. if get_error L ret s = SSL_ERROR_WANT_READ \<or> get_error L ret s = SSL_ERROR_WANT_WRITE
      then ssl_select K L (get_error L ret s = SSL_ERROR_WANT_WRITE) to s
      else if get_error L ret s = SSL_ERROR_SYSCALL
      then (if k_errno K (ssl_kernel s) = EINTR then Some (Ok True, s)
        else syscall_error L ret (k_errno K (ssl_kernel s)) ds s)
      else if get_error L ret s = SSL_ERROR_ZERO_RETURN \<and> zero \<noteq> None
      then Some (Err (transport_text Connection_closed (the zero)), s)
      else ssl_error L ret (get_error L ret s) dl s)"
    by (intro moves_nothing_if moves_nothing_end moves_nothing_state [OF moves_nothing_errors(1)]
        moves_nothing_state [OF moves_nothing_errors(2)]
        moves_nothing_state [of "\<lambda>w. ssl_select K L w to", OF moves_nothing_select])
  then show ?thesis by (simp add: moves_nothing_def ssl_recover_def Let_def)
qed

text \<open>
  The loop: while attempts that want another round keep \<open>R s\<close>, the outcome is that of the attempt
  that ended it, or of the code after it.
\<close>

lemma ssl_loop_rule:
  assumes major: "ssl_loop K to attempt over s = Some res" and start: "R s"
    and inv: "\<And>s. R s \<Longrightarrow> ssl_inv s"
    and round: "\<And>s r s'. R s \<Longrightarrow> attempt s = Some (r, s') \<Longrightarrow>
      (case r of Ok None \<Rightarrow> R s' | Ok (Some v) \<Rightarrow> post (Ok v, s') | Err e \<Rightarrow> post (Err e, s') | Abort \<Rightarrow> post (Abort, s'))"
    and quiet: "\<And>s s'. R s \<Longrightarrow> quiet s s' \<Longrightarrow> R s'"
    and over: "\<And>s res. R s \<Longrightarrow> over s = Some res \<Longrightarrow> post res"
  shows "post res"
proof -
  define P where "P = (\<lambda>(K' :: 'k kernel) (to :: timeout) attempt' over' s res.
    K' = K \<longrightarrow> attempt' = attempt \<longrightarrow> over' = over \<longrightarrow> R s \<longrightarrow> post res)"
  have "P K to attempt over s res"
  proof (rule ssl_loop.raw_induct [OF _ major, of P])
    fix loop K' to attempt' over' s res
    assume IH: "\<And>K' to a ov s y. loop K' to a ov s = Some y \<Longrightarrow> P K' to a ov s y"
      and run: "ws_try attempt' (\<lambda>r s. case r of
          None \<Rightarrow> ws_try (ssl_expired K' to)
                    (\<lambda>expired s. if expired then over' s else loop K' to attempt' over' s) s
        | Some v \<Rightarrow> Some (Ok v, s)) s = Some res"
    show "P K' to attempt' over' s res"
      unfolding P_def
    proof (intro impI)
      assume eq: "K' = K" "attempt' = attempt" "over' = over" and R: "R s"
      obtain r s2 where res: "res = (r, s2)" by fastforce
      from run [unfolded eq res] show "post res"
      proof (cases rule: ws_try_cases)
        case (ok w s1)
        show ?thesis
        proof (cases w)
          case None
          with round [OF R ok(1)] have R1: "R s1" by simp
          from ok(2) [unfolded None] have "ws_try (ssl_expired K to)
            (\<lambda>expired s. if expired then over s else loop K to attempt over s) s1 = Some (r, s2)" by simp
          then show ?thesis
          proof (cases rule: ws_try_cases)
            case (ok expired s3)
            from moves_nothingD [OF moves_nothing_expired inv [OF R1] ok(1)] quiet [OF R1] have "R s3" by simp
            with ok(2) over [of s3 res] IH [of K to attempt over s3 res] res show ?thesis
              by (cases expired) (simp_all add: P_def)
          next
            case (err e)
            then show ?thesis by (simp add: ssl_expired_def on_tcp_def on_part_Some sys_def case_prod_beta)
          next
            case abort
            then show ?thesis by (simp add: ssl_expired_def on_tcp_def on_part_Some sys_def case_prod_beta)
          qed
        next
          case (Some v)
          with round [OF R ok(1)] ok(2) res show ?thesis by simp
        qed
      next
        case (err e)
        with round [OF R err(1)] res show ?thesis by simp
      next
        case abort
        with round [OF R abort(1)] res show ?thesis by simp
      qed
    qed
  qed
  with start show ?thesis by (simp add: P_def)
qed


abbreviation (input) set_kernel :: "'k \<Rightarrow> 'k ssl \<Rightarrow> 'k ssl" where
  "set_kernel k s \<equiv> s\<lparr>ssl_tcp := (ssl_tcp s)\<lparr>tcp_kernel := k\<rparr>\<rparr>"

lemma attempt_cases:
  assumes "ssl_inv s"
    and "ws_try (clear_error L) (\<lambda>_. ws_try (ssl_call f) cont) s = Some (r, s')"
  obtains s1 ret k where "quiet s s1" and "f p (ssl_kernel s1) = (ret, k)"
    and "cont ret (set_kernel k s1) = Some (r, s')"
proof -
  let ?s1 = "set_kernel (o_clear_error L (ssl_kernel s)) s"
  obtain ret k where k: "f p (ssl_kernel ?s1) = (ret, k)" by fastforce
  from assms(1) clear_ok [OF _ refl] have q: "quiet s ?s1" by (simp add: quiet_def mute_def ssl_defs)
  from assms k ptr have "cont ret (set_kernel k ?s1) = Some (r, s')"
    by (simp add: clear_error_def on_tcp_def on_part_def sys_def ws_try_def ssl_call_def ssl_inv_def)
  with q k show thesis by (rule that)
qed

text \<open>A failed call, handled: nothing has moved, and the attempt is over or wants another round.\<close>

lemma recovered:
  assumes "ssl_inv s"
    and "ws_try (ssl_recover K L to zero ds dl ret) cont s = Some (r, s')"
    and "\<And>ready s. cont ready s = Some (if ready then Ok None else give_up, s)"
  shows "quiet s s' \<and> (r = Ok None \<or> r = give_up \<or> (\<exists>e. r = Err e))"
  using assms(2)
proof (cases rule: ws_try_cases)
  case (ok v s1)
  with moves_nothingD [OF moves_nothing_recover assms(1) ok(1)] assms(3) show ?thesis by (auto split: if_splits)
next
  case (err e)
  with moves_nothingD [OF moves_nothing_recover assms(1) err(1)] show ?thesis by simp
next
  case abort
  with moves_nothingD [OF moves_nothing_recover assms(1) abort(1)] show ?thesis by simp
qed

subsubsection \<open>Transfers\<close>

definition read_post :: "nat \<Rightarrow> 'k ssl \<Rightarrow> byte list ws_result \<times> 'k ssl \<Rightarrow> bool" where
  "read_post n s res \<longleftrightarrow>
     (case fst res of
        Ok xs \<Rightarrow> mute s (snd res) \<and> xs \<noteq> [] \<and> length xs \<le> n \<and> ssl_pend s = xs @ ssl_pend (snd res)
      | Err e \<Rightarrow> quiet s (snd res)
      | Abort \<Rightarrow> False)"

text \<open>In the middle of a write: nothing has gone, or a call has failed after a part of the data.\<close>

definition writing :: "byte list \<Rightarrow> 'k ssl \<Rightarrow> 'k ssl \<Rightarrow> bool" where
  "writing data s s' \<longleftrightarrow>
     ssl_inv s' \<and> ssl_pend s' = ssl_pend s \<and>
     (\<exists>j \<le> length data. ssl_sent s' = ssl_sent s @ take j data \<and>
        (ssl_wait s' = None \<and> j = 0 \<or> ssl_wait s' = Some (data, narrow_len (length data), j)))"

definition write_post :: "byte list \<Rightarrow> 'k ssl \<Rightarrow> nat ws_result \<times> 'k ssl \<Rightarrow> bool" where
  "write_post data s res \<longleftrightarrow>
     (case fst res of
        Ok n \<Rightarrow> ssl_inv (snd res) \<and> 0 < n \<and> n \<le> length data \<and> ssl_pend (snd res) = ssl_pend s \<and>
          ssl_sent (snd res) = ssl_sent s @ take n data \<and> ssl_wait (snd res) = None
      | Err e \<Rightarrow> writing data s (snd res)
      | Abort \<Rightarrow> False)"

lemma writing_quiet: "writing data s s1 \<Longrightarrow> quiet s1 s2 \<Longrightarrow> writing data s s2"
  by (simp add: writing_def quiet_def mute_def)

lemma writing_start: "ssl_inv s \<Longrightarrow> ssl_wait s = None \<Longrightarrow> writing data s s"
  by (auto simp: writing_def)

text \<open>What a round leaves behind: the outcome of the call, or nothing moved.\<close>

definition round_post :: "('r ws_result \<times> 'k ssl \<Rightarrow> bool) \<Rightarrow> 'k ssl \<Rightarrow> 'r option ws_result \<Rightarrow> 'k ssl \<Rightarrow> bool" where
  "round_post post s0 r s' \<longleftrightarrow>
     (case r of
        Ok None \<Rightarrow> quiet s0 s'
      | Ok (Some v) \<Rightarrow> post (Ok v, s')
      | Err e \<Rightarrow> post (Err e, s')
      | Abort \<Rightarrow> post (Abort, s'))"

lemma narrow_len_le: "narrow_len n \<le> int n"
proof -
  have "narrow_len n \<le> uint (word_of_nat n :: 32 word)"
    by (simp add: narrow_len_def sint_uint signed_take_bit_int_less_eq_self_iff order_trans [OF _ uint_ge_0])
  also have "\<dots> \<le> int n" by (simp add: unsigned_of_nat take_bit_nat_less_eq_self)
  finally show ?thesis .
qed

lemma failed_call:
  assumes q: "quiet s0 s"
    and run: "(if ret = 0 then Some (Err e0, s)
      else ws_try (ssl_recover K L to zero ds dl ret)
             (\<lambda>ready s. if ready then Some (Ok None, s) else Some (Err e1, s)) s) = Some (r, s')"
    and err: "\<And>e s'. quiet s0 s' \<Longrightarrow> post (Err e, s')"
  shows "round_post post s0 r s'"
proof (cases "ret = 0")
  case True
  with run q err show ?thesis by (auto simp: round_post_def)
next
  case False
  with run recovered [OF quiet_inv [OF q], where r = r and s' = s' and give_up = "Err e1"]
  have "quiet s s'" "r = Ok None \<or> (\<exists>e. r = Err e)" by (fastforce split: if_splits)+
  with quiet_trans [OF q] err show ?thesis by (auto simp: round_post_def)
qed

lemma read_round:
  assumes q: "quiet s0 s" and run: "read_attempt K L n to s = Some (r, s')"
  shows "round_post (read_post n s0) s0 r s'"
proof (rule attempt_cases [OF quiet_inv [OF q] run [unfolded read_attempt_def]])
  fix s1 v k
  assume q1: "quiet s s1" and call: "o_read L p (narrow_len n) (ssl_kernel s1) = (v, k)"
    and rest: "(case v of (ret, xs) \<Rightarrow> \<lambda>s.
              if ret > 0 then Some (Ok (Some xs), s)
              else if ret = 0
              then Some (Err (transport_text Transport_error ''SSL connection closed on transport layer''), s)
              else ws_try (ssl_recover K L to (Some ''SSL connection closed in read_some (SSL_ERROR_ZERO_RETURN)'')
                       ''SSL syscall error in read_some'' ''Unexpected SSL error in read_some'' ret)
                     (\<lambda>ready s.
                        if ready then Some (Ok None, s)
                        else Some (Err (transport_text Timeout_error ''SSL read timed out''), s)) s)
            (set_kernel k s1) = Some (r, s')"
  obtain ret xs where v: "v = (ret, xs)" by fastforce
  from quiet_inv [OF q1] have "good (ssl_kernel s1)" by (simp add: ssl_inv_def)
  note o = ssl_read_ok [OF this call [unfolded v]]
  show ?thesis
  proof (cases "ret > 0")
    case True
    with rest v have r: "r = Ok (Some xs)" "s' = set_kernel k s1" by simp_all
    from True o narrow_len_le [of n] have "length xs \<le> n" "xs \<noteq> []" by auto
    with True o quiet_inv [OF q1] q q1 r show ?thesis
      by (auto simp: round_post_def read_post_def quiet_def mute_def ssl_defs)
  next
    case False
    with o quiet_inv [OF q1] have "quiet s1 (set_kernel k s1)" by (auto simp: quiet_def mute_def ssl_defs)
    with quiet_trans [OF q quiet_trans [OF q1]] have "quiet s0 (set_kernel k s1)" by blast
    from failed_call [OF this rest [unfolded v prod.case if_not_P [OF False]]] show ?thesis by (simp add: read_post_def)
  qed
qed

lemma write_call:
  assumes w: "writing data s0 s" and call: "o_write L p data (narrow_len (length data)) (ssl_kernel s) = (ret, k)"
  shows "if ret > 0 then write_post data s0 (Ok (nat ret), set_kernel k s) else writing data s0 (set_kernel k s)"
proof -
  let ?num = "narrow_len (length data)"
  from w obtain m where i: "ssl_inv s" "ssl_pend s = ssl_pend s0" and m: "m \<le> length data"
    "ssl_sent s = ssl_sent s0 @ take m data" "ssl_wait s = None \<and> m = 0 \<or> ssl_wait s = Some (data, ?num, m)"
    by (auto simp: writing_def)
  have "good (ssl_kernel s)" using i(1) by (simp add: ssl_inv_def)
  note o = ssl_write_ok [OF this m(3) [unfolded ssl_wait_def] call]
  have join: "take m data @ drop m (take j data) = take j data" if "m \<le> j" for j
    using append_take_drop_id [of m "take j data"] that by (simp add: min_absorb1)
  show ?thesis
  proof (cases "ret > 0")
    case True
    with o narrow_len_le [of "length data"] have n: "m \<le> nat ret" "nat ret \<le> length data" by auto
    with True o i m(2) join [OF n(1)] show ?thesis by (auto simp: write_post_def ssl_defs)
  next
    case False
    with o obtain j where j: "m \<le> j" "j \<le> length data" "ksent k = ksent (ssl_kernel s) @ drop m (take j data)"
      "kwait k = Some (data, ?num, j) \<or> j = 0 \<and> kwait k = None" "good k" "kpend k = kpend (ssl_kernel s)" by auto
    with False i m(2) join [OF j(1)] show ?thesis
      by (auto simp: writing_def ssl_defs intro!: exI [of _ j])
  qed
qed

lemma write_round:
  assumes w: "writing data s0 s" and run: "write_attempt K L data to s = Some (r, s')"
  shows "case r of
      Ok None \<Rightarrow> writing data s0 s'
    | Ok (Some v) \<Rightarrow> write_post data s0 (Ok v, s')
    | Err e \<Rightarrow> write_post data s0 (Err e, s')
    | Abort \<Rightarrow> write_post data s0 (Abort, s')"
proof -
  have i: "ssl_inv s" using w by (simp add: writing_def)
  show ?thesis
  proof (rule attempt_cases [OF i run [unfolded write_attempt_def]])
    fix s1 ret k
    assume q1: "quiet s s1" and call: "o_write L p data (narrow_len (length data)) (ssl_kernel s1) = (ret, k)"
      and rest: "(if ret > 0 then Some (Ok (Some (nat ret)), set_kernel k s1)
                else if ret = 0
                then Some (Err (transport_text Connection_closed ''SSL connection closed on transport layer''), set_kernel k s1)
                else ws_try (ssl_recover K L to (Some ''SSL connection closed in write_some (SSL_ERROR_ZERO_RETURN)'')
                         ''SSL syscall error in write_some'' ''Unexpected SSL error in write_some'' ret)
                       (\<lambda>ready s.
                          if ready then Some (Ok None, s)
                          else Some (Err (transport_text Timeout_error ''SSL write timed out''), s)) (set_kernel k s1)) =
              Some (r, s')"
    note wc = write_call [OF writing_quiet [OF w q1] call]
    show ?thesis
    proof (cases "ret > 0")
      case True
      with rest wc show ?thesis by auto
    next
      case False
      with wc have w': "writing data s0 (set_kernel k s1)" by simp
      then have q: "quiet (set_kernel k s1) (set_kernel k s1)" by (intro quiet_refl) (simp add: writing_def)
      from failed_call [OF q rest [unfolded if_not_P [OF False]], where post = "write_post data s0"] writing_quiet [OF w']
      have "round_post (write_post data s0) (set_kernel k s1) r s'" by (simp add: write_post_def)
      with writing_quiet [OF w'] show ?thesis
        by (cases r) (auto simp: round_post_def split: option.splits)
    qed
  qed
qed

text \<open>Loops that look at no data once they are over.\<close>

lemma quiet_loop:
  assumes run: "ssl_loop K to attempt over s0 = Some res" and inv: "ssl_inv s0"
    and round: "\<And>s r s'. quiet s0 s \<Longrightarrow> attempt s = Some (r, s') \<Longrightarrow> round_post post s0 r s'"
    and over: "\<And>s res. quiet s0 s \<Longrightarrow> over s = Some res \<Longrightarrow> post res"
  shows "post res"
proof (rule ssl_loop_rule [where R = "quiet s0", OF run quiet_refl [OF inv]])
  fix s r s'
  assume "quiet s0 s" and "attempt s = Some (r, s')"
  from round [OF this] show "case r of Ok None \<Rightarrow> quiet s0 s' | Ok (Some v) \<Rightarrow> post (Ok v, s')
      | Err e \<Rightarrow> post (Err e, s') | Abort \<Rightarrow> post (Abort, s')"
    by (simp add: round_post_def)
qed (use over quiet_inv quiet_trans in blast)+

lemma ssl_read_post:
  assumes "ssl_read_some K L n to s = Some res" and "ssl_inv s"
  shows "read_post n s res"
  by (rule quiet_loop [OF assms(1) [unfolded ssl_read_some_def] assms(2) read_round])
    (auto simp: read_post_def)

lemma ssl_write_post:
  assumes "ssl_write_some K L data to s = Some res" and "ssl_inv s" and "ssl_wait s = None"
  shows "write_post data s res"
proof (rule ssl_loop_rule [where R = "writing data s", OF assms(1) [unfolded ssl_write_some_def]
      writing_start [OF assms(2,3)] _ write_round])
  fix s1 and res :: "nat ws_result \<times> 'k ssl"
  assume "writing data s s1" and "ws_fail (transport_text Timeout_error ''SSL write timed out'') s1 = Some res"
  then show "write_post data s res" by (auto simp: write_post_def)
qed (auto simp: writing_def quiet_def mute_def)

subsubsection \<open>Shutting down\<close>

lemma mute_trans: "mute s s1 \<Longrightarrow> mute s1 s2 \<Longrightarrow> mute s s2"
  by (simp add: mute_def)

lemma quiet_mute: "mute s s1 \<Longrightarrow> quiet s1 s2 \<Longrightarrow> mute s s2"
  by (simp add: quiet_def mute_trans)

lemma shutdown_round:
  assumes q: "mute s0 s" and run: "shutdown_attempt K L to s = Some (r, s')"
  shows "r \<noteq> Abort \<and> mute s0 s'"
proof -
  from q have i: "ssl_inv s" by (simp add: mute_def)
  show ?thesis
  proof (rule attempt_cases [OF i run [unfolded shutdown_attempt_def]])
    fix s1 ret k
    assume q1: "quiet s s1" and call: "o_shutdown L p (ssl_kernel s1) = (ret, k)"
      and rest: "(if ret = 1 then Some (Ok (Some ()), set_kernel k s1)
              else if ret < 0
              then ws_try (ssl_recover K L to None ''SSL syscall error during shutdown'' ''SSL shutdown failed'' ret)
                     (\<lambda>ready s.
                        if ready then Some (Ok None, s)
                        else Some (Err (transport_text Timeout_error ''SSL shutdown timed out''), s)) (set_kernel k s1)
              else Some (Ok None, set_kernel k s1)) = Some (r, s')"
    from quiet_inv [OF q1] ssl_shutdown_ok [OF _ call] have "mute s1 (set_kernel k s1)"
      by (auto simp: mute_def ssl_defs)
    with q q1 have m: "mute s0 (set_kernel k s1)" by (auto simp: quiet_def intro: mute_trans)
    then have i2: "ssl_inv (set_kernel k s1)" by (simp add: mute_def)
    show ?thesis
    proof (cases "ret < 0")
      case True
      with rest recovered [OF i2, where r = r and s' = s'
          and give_up = "Err (transport_text Timeout_error ''SSL shutdown timed out'')"] quiet_mute [OF m]
      show ?thesis by fastforce
    next
      case False
      with rest m show ?thesis by (auto split: if_splits)
    qed
  qed
qed

lemma close_notify_mute:
  assumes "ssl_close_notify K L to s = Some res" and "ssl_inv s"
  shows "fst res \<noteq> Abort \<and> mute s (snd res)"
proof (rule ssl_loop_rule [where R = "mute s" and post = "\<lambda>res. fst res \<noteq> Abort \<and> mute s (snd res)",
      OF assms(1) [unfolded ssl_close_notify_def]])
  fix s1 r s'
  assume "mute s s1" and "shutdown_attempt K L to s1 = Some (r, s')"
  from shutdown_round [OF this] show "case r of Ok None \<Rightarrow> mute s s'
      | Ok (Some v) \<Rightarrow> fst (Ok v, s') \<noteq> Abort \<and> mute s (snd (Ok v, s'))
      | Err e \<Rightarrow> fst (Err e, s') \<noteq> Abort \<and> mute s (snd (Err e, s'))
      | Abort \<Rightarrow> fst (Abort, s') \<noteq> Abort \<and> mute s (snd (Abort, s'))"
    by (cases r) (auto split: option.splits)
next
  show "mute s s" using assms(2) by (simp add: mute_def)
next
  fix s1 s'
  assume "mute s s1" and "quiet s1 s'"
  then show "mute s s'" by (rule quiet_mute)
next
  fix s1 res
  assume "mute s s1" and "ws_return () s1 = Some res"
  then show "fst res \<noteq> Abort \<and> mute s (snd res)" by auto
qed (simp add: mute_def)

lemma ssl_shutdown_quiet:
  assumes inv: "ssl_inv s" and run: "ssl_shutdown K L fail to s = Some (r, s')"
  shows "r \<noteq> Abort \<and> ssl_inv s' \<and> ssl_sent s' = ssl_sent s \<and> ssl_wait s' = ssl_wait s"
  using run [unfolded ssl_shutdown_def]
proof (cases rule: ws_try_cases)
  case (ok v s1)
  then have m: "mute s s1"
    using close_notify_mute [of to s "(Ok v, s1)"] inv by (auto simp: mute_def split: if_splits)
  obtain ret k where k: "k_shutdown K fd (ssl_kernel s1) = (ret, k)" by fastforce
  from m ok(2) tcp_shutdown_ok [OF _ k] k show ?thesis
    by (auto simp: ignore_result_def on_tcp_def on_part_def tcp_shutdown_def sys_def ws_try_def mute_def ssl_defs
        split: if_splits)
next
  case (err e)
  with close_notify_mute [of to s "(Err e, s')"] inv show ?thesis by (auto simp: mute_def split: if_splits)
next
  case abort
  with close_notify_mute [of to s "(Abort, s')"] inv show ?thesis by (auto split: if_splits)
qed

lemma ssl_close_quiet:
  assumes inv: "ssl_inv s" and run: "ssl_close K L fail s = Some (r, s')"
  shows "r \<noteq> Abort \<and> ssl_sent s' = ssl_sent s"
proof -
  let ?k = "o_free L p (ssl_kernel s)"
  obtain ret k where k: "k_close K fd ?k = (ret, k)" by fastforce
  from inv ssl_free_ok have "good ?k" "ksent ?k = ksent (ssl_kernel s)" by (auto simp: ssl_inv_def)
  with tcp_close_ok [OF this(1) k] inv run ptr k show ?thesis
    by (auto simp: ssl_close_def ssl_do_def ssl_call_def ignore_result_def on_tcp_def on_part_def tcp_close_def
        sys_def ws_try_def ssl_defs split: if_splits)
qed

end

text \<open>What holds between the calls of a client that has seen no write fail.\<close>

context selectable_tls
begin

definition ssl_clean :: "'k ssl \<Rightarrow> bool" where
  "ssl_clean s \<longleftrightarrow> ssl_inv s \<and> ssl_wait s = None"

lemma quiet_clean: "ssl_clean s \<Longrightarrow> quiet s s' \<Longrightarrow> ssl_clean s' \<and> ssl_pend s' = ssl_pend s \<and> ssl_sent s' = ssl_sent s"
  by (simp add: ssl_clean_def quiet_def mute_def)

lemma clean_read: "ssl_clean s \<Longrightarrow> ssl_read_some K L n to s = Some res \<Longrightarrow> read_post n s res"
  by (rule ssl_read_post) (simp_all add: ssl_clean_def)

lemma clean_write: "ssl_clean s \<Longrightarrow> ssl_write_some K L data to s = Some res \<Longrightarrow> write_post data s res"
  by (rule ssl_write_post) (simp_all add: ssl_clean_def)

end

sublocale selectable_tls \<subseteq> tls: fragile_socket "ssl_transport K L" ssl_clean ssl_pend ssl_sent
proof unfold_locales
  fix s t s'
  assume "ssl_clean s" and "tr_now (ssl_transport K L) s = (t, s')"
  moreover obtain t' k where "k_now K (ssl_kernel s) = (t', k)" by fastforce
  ultimately show "ssl_clean s' \<and> ssl_pend s' = ssl_pend s \<and> ssl_sent s' = ssl_sent s"
    using now_ok [of "ssl_kernel s" t' k] by (auto simp: ssl_defs ssl_clean_def)
next
  fix s n to xs s'
  assume "ssl_clean s" "0 < n" "tr_read_some (ssl_transport K L) n to s = Some (Ok xs, s')"
  with clean_read [of s n to] show "ssl_clean s' \<and> xs \<noteq> [] \<and> length xs \<le> n \<and>
      ssl_pend s = xs @ ssl_pend s' \<and> ssl_sent s' = ssl_sent s"
    by (auto simp: read_post_def mute_def ssl_clean_def)
next
  fix s n to e s'
  assume "ssl_clean s" "0 < n" "tr_read_some (ssl_transport K L) n to s = Some (Err e, s')"
  with clean_read [of s n to "(Err e, s')"] have "quiet s s'" by (simp add: read_post_def)
  with quiet_clean \<open>ssl_clean s\<close> show "ssl_clean s' \<and> ssl_pend s' = ssl_pend s \<and> ssl_sent s' = ssl_sent s" by blast
  with \<open>quiet s s'\<close> show "ssl_clean s' \<and> ssl_sent s' = ssl_sent s \<and> (\<exists>lost. ssl_pend s = lost @ ssl_pend s' \<and>
      length lost \<le> n \<and> (err_code e \<noteq> Timeout_error \<longrightarrow> lost = []))" by simp
next
  fix s to s' and n :: nat
  assume "ssl_clean s" "0 < n"
  with clean_read [of s n to] show "tr_read_some (ssl_transport K L) n to s \<noteq> Some (Abort, s')"
    by (auto simp: read_post_def)
next
  fix s data to k s'
  assume "ssl_clean s" "data \<noteq> []" "tr_write_some (ssl_transport K L) data to s = Some (Ok k, s')"
  with clean_write [of s data to] show "ssl_clean s' \<and> 0 < k \<and> k \<le> length data \<and>
      ssl_pend s' = ssl_pend s \<and> ssl_sent s' = ssl_sent s @ take k data"
    by (auto simp: write_post_def ssl_clean_def)
next
  fix s data to e s'
  assume "ssl_clean s" "data \<noteq> []" "tr_write_some (ssl_transport K L) data to s = Some (Err e, s')"
  with clean_write [of s data to] show "\<exists>k \<le> length data. ssl_sent s' = ssl_sent s @ take k data"
    by (fastforce simp: write_post_def writing_def)
next
  fix s to s' and data :: "byte list"
  assume "ssl_clean s" "data \<noteq> []"
  with clean_write [of s data to] show "tr_write_some (ssl_transport K L) data to s \<noteq> Some (Abort, s')"
    by (auto simp: write_post_def)
next
  fix s fail to r s'
  assume "ssl_clean s" and "tr_shutdown (ssl_transport K L) fail to s = Some (r, s')"
  then show "r \<noteq> Abort \<and> ssl_clean s' \<and> ssl_sent s' = ssl_sent s"
    using ssl_shutdown_quiet [of s fail to r s'] by (simp add: ssl_clean_def)
next
  fix s fail r s'
  assume "ssl_clean s" and "tr_close (ssl_transport K L) fail s = Some (r, s')"
  then show "r \<noteq> Abort \<and> ssl_sent s' = ssl_sent s"
    using ssl_close_quiet [of s fail r s'] by (simp add: ssl_clean_def)
qed

context selectable_tls
begin

lemma tls_contract:
  "fragile_socket (ssl_transport K L)
    (\<lambda>s. tcp_fd (ssl_tcp s) = fd \<and> ssl_ptr s = p \<and> good (ssl_kernel s) \<and> kwait (ssl_kernel s) = None)
    (\<lambda>s. kpend (ssl_kernel s)) (\<lambda>s. ksent (ssl_kernel s))"
proof -
  have "ssl_clean = (\<lambda>s. tcp_fd (ssl_tcp s) = fd \<and> ssl_ptr s = p \<and> good (ssl_kernel s) \<and> kwait (ssl_kernel s) = None)"
    "ssl_pend = (\<lambda>s. kpend (ssl_kernel s))" "ssl_sent = (\<lambda>s. ksent (ssl_kernel s))"
    by (simp_all add: fun_eq_iff ssl_defs ssl_clean_def)
  with tls.fragile_socket_axioms show ?thesis by simp
qed

end

subsection \<open>A scripted library\<close>

text \<open>
  A library for the witnesses, on the state of the scripted kernel: each call consumes an entry of the
  script. A call that fails with \<open>EAGAIN\<close> wants to read; other failures are system errors.
  Certificates are presented, for any host, and valid.
\<close>

definition script_openssl :: "script_state openssl" where
  "script_openssl =
     \<lparr>o_new = (\<lambda>ctx k. (7, k)), o_set_ex_data = (\<lambda>p k. k), o_set_fd = (\<lambda>p fd k. (1, k)),
      o_set_hostname = (\<lambda>p h k. (1, k)), o_set_cipher_list = (\<lambda>p c k. (1, k)),
      o_set_min_proto_version = (\<lambda>p v k. (1, k)), o_set_max_proto_version = (\<lambda>p v k. (1, k)),
      o_set_verify = (\<lambda>p v k. k), o_set_info_callback = (\<lambda>p k. k),
      o_clear_error = (\<lambda>k. k), o_print_errors = (\<lambda>k. k),
      o_get_error = (\<lambda>p ret k. if ret > 0 then SSL_ERROR_NONE
        else if ss_errno k = EAGAIN then SSL_ERROR_WANT_READ else SSL_ERROR_SYSCALL),
      o_connect = (\<lambda>p k. case next_call k of
          (Fails e, k) \<Rightarrow> (-1, k\<lparr>ss_errno := e\<rparr>) | (Moves m, k) \<Rightarrow> (1, k)),
      o_peek = (\<lambda>p n k. (if ss_in k = [] then (-1, k\<lparr>ss_errno := 0\<rparr>) else (1, k))),
      o_read = (\<lambda>p num k. if num \<le> 0 then ((-1, []), k\<lparr>ss_errno := 22\<rparr>) else k_recv script_kernel 3 (nat num) k),
      o_write = (\<lambda>p data num k. if num \<le> 0 \<or> nat num > length data then (-1, k\<lparr>ss_errno := 22\<rparr>)
        else k_send script_kernel 3 (take (nat num) data) k),
      o_shutdown = (\<lambda>p k. (1, k)), o_free = (\<lambda>p k. k),
      o_peer_certificate = (\<lambda>p k. (5, k)), o_check_host = (\<lambda>cert h k. 1), o_x509_free = (\<lambda>cert k. k),
      o_verify_result = (\<lambda>p k. 0), o_cipher = (\<lambda>p k. ''TLS_AES_128_GCM_SHA256''), o_version = (\<lambda>p k. 0x304)\<rparr>"

interpretation script_tls: selectable_tls script_kernel script_openssl 3 7 "\<lambda>_. True" ss_in ss_out "\<lambda>_. None"
proof unfold_locales
  show "0 \<le> (3 :: int) \<and> 3 < FD_SETSIZE" by (simp add: FD_SETSIZE_def)
next
  fix k num ret xs k'
  assume run: "o_read script_openssl 7 num k = ((ret, xs), k')"
  show "True \<and> ss_out k' = ss_out k \<and> None = None \<and> (if 0 < ret
      then ret = int (length xs) \<and> ret \<le> num \<and> ss_in k = xs @ ss_in k' else ss_in k' = ss_in k)"
  proof (cases "num \<le> 0")
    case True
    with run show ?thesis by (auto simp: script_openssl_def)
  next
    case False
    with run have "k_recv script_kernel 3 (nat num) k = ((ret, xs), k')" by (simp add: script_openssl_def)
    with script_recv [OF _ this] False show ?thesis by (auto split: if_splits)
  qed
next
  fix k data num ret k' and m :: nat
  assume m: "None = None \<and> m = 0 \<or> None = Some (data, num, m)"
    and run: "o_write script_openssl 7 data num k = (ret, k')"
  have o: "ss_in k' = ss_in k \<and> (if ret > 0 then ret \<le> num \<and> ss_out k' = ss_out k @ take (nat ret) data
      else ss_out k' = ss_out k)"
  proof (cases "num \<le> 0 \<or> nat num > length data")
    case True
    with run show ?thesis by (auto simp: script_openssl_def)
  next
    case False
    with run have "k_send script_kernel 3 (take (nat num) data) k = (ret, k')" by (simp add: script_openssl_def)
    moreover from False have "take (nat num) data \<noteq> []" by auto
    ultimately have o: "ss_in k' = ss_in k \<and> (if ret > 0 then ret \<le> int (length (take (nat num) data)) \<and>
        ss_out k' = ss_out k @ take (nat ret) (take (nat num) data) else ss_out k' = ss_out k)"
      using script_send by blast
    show ?thesis
    proof (cases "ret > 0")
      case True
      with o False have "ret \<le> num" by auto
      then have "take (nat ret) (take (nat num) data) = take (nat ret) data" by (simp add: min_absorb1 nat_mono)
      with o True \<open>ret \<le> num\<close> show ?thesis by simp
    next
      case False
      with o show ?thesis by simp
    qed
  qed
  with m show "True \<and> ss_in k' = ss_in k \<and> (if 0 < ret
      then ret \<le> num \<and> m \<le> nat ret \<and> None = None \<and> ss_out k' = ss_out k @ drop m (take (nat ret) data)
      else \<exists>j. m \<le> j \<and> j \<le> length data \<and> ss_out k' = ss_out k @ drop m (take j data) \<and>
        (None = Some (data, num, j) \<or> j = 0 \<and> None = None))"
    by (auto intro!: exI [of _ 0])
qed (simp_all add: script_kernel_def script_openssl_def)

subsection \<open>Connecting checks the peer\<close>

text \<open>The configuration of the object, which connecting leaves alone.\<close>

definition ssl_config :: "'k ssl \<Rightarrow> int \<times> int \<times> string \<times> bool" where
  "ssl_config s = (ssl_ctx s, ssl_ptr s, ssl_hostname s, ssl_verify s)"

definition keeps_config :: "('k ssl, 'r) ws \<Rightarrow> bool" where
  "keeps_config m \<longleftrightarrow> (\<forall>s r s'. m s = Some (r, s') \<longrightarrow> ssl_config s' = ssl_config s)"

lemma keeps_configD: "keeps_config m \<Longrightarrow> m s = Some (r, s') \<Longrightarrow> ssl_config s' = ssl_config s"
  by (auto simp: keeps_config_def)

lemma keeps_config_tcp: "keeps_config (on_tcp m)"
  by (auto simp: keeps_config_def on_tcp_def on_part_Some ssl_config_def)

lemma keeps_config_try:
  assumes "keeps_config m" and "\<And>v. keeps_config (f v)"
  shows "keeps_config (ws_try m f)"
  unfolding keeps_config_def
  by (intro allI impI, erule ws_try_cases) (auto dest!: keeps_configD [OF assms(1)] keeps_configD [OF assms(2)])

lemma keeps_config_if:
  "(\<And>s. keeps_config (m s)) \<Longrightarrow> (\<And>s. keeps_config (n s)) \<Longrightarrow> keeps_config (\<lambda>s. if b s then m s s else n s s)"
  by (simp add: keeps_config_def)

lemma keeps_config_call: "keeps_config (ssl_call f)"
  using keeps_config_tcp by (auto simp: keeps_config_def ssl_call_def split: if_splits)

lemma keeps_config_end: "keeps_config (\<lambda>s. Some (r, s))" "keeps_config (ws_fail e)" "keeps_config (ws_return v)"
  by (auto simp: keeps_config_def)

lemma keeps_config_errors: "keeps_config (ssl_error L ret e d)" "keeps_config (syscall_error L ret e d)"
  unfolding ssl_error_def syscall_error_def clear_error_def
  by (intro keeps_config_try keeps_config_tcp keeps_config_end)+

lemma keeps_config_select: "keeps_config (ssl_select K L w to)"
  unfolding keeps_config_def
proof (intro allI impI)
  fix s r s'
  assume major: "ssl_select K L w to s = Some (r, s')"
  define P where "P = (\<lambda>(K :: 'a kernel) (L :: 'a openssl) (w :: bool) (to :: timeout) (s :: 'a ssl) (res :: bool ws_result \<times> 'a ssl).
    ssl_config (snd res) = ssl_config s)"
  have "P K L w to s (r, s')"
  proof (rule ssl_select.raw_induct [OF _ major, of P])
    fix sel :: "'a kernel \<Rightarrow> 'a openssl \<Rightarrow> bool \<Rightarrow> timeout \<Rightarrow> ('a ssl, bool) ws" and K L w to s res
    assume IH: "\<And>K L w to s y. sel K L w to s = Some y \<Longrightarrow> P K L w to s y"
      and run: "ws_try (on_tcp (tcp_select K w to))
        (\<lambda>ret s. if 0 < ret then Some (Ok True, s) else if ret = 0 then Some (Ok False, s)
           else if k_errno K (ssl_kernel s) = EINTR
           then ws_try (ssl_expired K to)
                  (\<lambda>expired s. if expired then Some (Ok False, s) else sel K L w to s) s
           else syscall_error L ret (k_errno K (ssl_kernel s))
             ''SSL socket operation failed due to system error in select()'' s) s = Some res"
    have again: "keeps_config (sel K L w to)" using IH by (fastforce simp: keeps_config_def P_def)
    have "keeps_config (ws_try (on_tcp (tcp_select K w to))
        (\<lambda>ret s. if 0 < ret then Some (Ok True, s) else if ret = 0 then Some (Ok False, s)
           else if k_errno K (ssl_kernel s) = EINTR
           then ws_try (ssl_expired K to)
                  (\<lambda>expired s. if expired then Some (Ok False, s) else sel K L w to s) s
           else syscall_error L ret (k_errno K (ssl_kernel s))
             ''SSL socket operation failed due to system error in select()'' s))"
      unfolding ssl_expired_def
      by (intro keeps_config_try keeps_config_if keeps_config_tcp keeps_config_end keeps_config_errors again)
    from keeps_configD [OF this, of s "fst res" "snd res"] run show "P K L w to s res" by (simp add: P_def)
  qed
  then show "ssl_config s' = ssl_config s" by (simp add: P_def)
qed

lemma keeps_config_recover: "keeps_config (ssl_recover K L to zero ds dl ret)"
proof -
  have "keeps_config (\<lambda>s. if get_error L ret s = SSL_ERROR_WANT_READ \<or> get_error L ret s = SSL_ERROR_WANT_WRITE
      then ssl_select K L (get_error L ret s = SSL_ERROR_WANT_WRITE) to s
      else if get_error L ret s = SSL_ERROR_SYSCALL
      then (if k_errno K (ssl_kernel s) = EINTR then Some (Ok True, s)
        else syscall_error L ret (k_errno K (ssl_kernel s)) ds s)
      else if get_error L ret s = SSL_ERROR_ZERO_RETURN \<and> zero \<noteq> None
      then Some (Err (transport_text Connection_closed (the zero)), s)
      else ssl_error L ret (get_error L ret s) dl s)"
    by (intro keeps_config_if keeps_config_end keeps_config_select keeps_config_errors)
  then show ?thesis by (simp add: keeps_config_def ssl_recover_def Let_def)
qed

lemma keeps_config_loop:
  assumes "keeps_config attempt" and "keeps_config over"
  shows "keeps_config (ssl_loop K to attempt over)"
  unfolding keeps_config_def
proof (intro allI impI)
  fix s r s'
  assume major: "ssl_loop K to attempt over s = Some (r, s')"
  define P where "P = (\<lambda>(K :: 'a kernel) (to :: timeout) attempt' over' (s :: 'a ssl) (res :: 'b ws_result \<times> 'a ssl).
    attempt' = attempt \<longrightarrow> over' = over \<longrightarrow> ssl_config (snd res) = ssl_config s)"
  have "P K to attempt over s (r, s')"
  proof (rule ssl_loop.raw_induct [OF _ major, of P])
    fix loop K to attempt' over' s res
    assume IH: "\<And>K to a ov s y. loop K to a ov s = Some y \<Longrightarrow> P K to a ov s y"
      and run: "ws_try attempt' (\<lambda>r s. case r of
          None \<Rightarrow> ws_try (ssl_expired K to)
                    (\<lambda>expired s. if expired then over' s else loop K to attempt' over' s) s
        | Some v \<Rightarrow> Some (Ok v, s)) s = Some res"
    show "P K to attempt' over' s res"
      unfolding P_def
    proof (intro impI)
      assume eq: "attempt' = attempt" "over' = over"
      have again: "keeps_config (loop K to attempt over)" using IH by (fastforce simp: keeps_config_def P_def)
      have "keeps_config (\<lambda>s. case r of
          None \<Rightarrow> ws_try (ssl_expired K to)
                    (\<lambda>expired s. if expired then over s else loop K to attempt over s) s
        | Some v \<Rightarrow> Some (Ok v, s))" for r
      proof (cases r)
        case None
        have "keeps_config (ws_try (ssl_expired K to) (\<lambda>expired s. if expired then over s else loop K to attempt over s))"
          unfolding ssl_expired_def by (intro keeps_config_try keeps_config_tcp keeps_config_if assms again)
        with None show ?thesis by simp
      qed (simp add: keeps_config_end)
      then have k: "keeps_config (ws_try attempt (\<lambda>r s. case r of
          None \<Rightarrow> ws_try (ssl_expired K to)
                    (\<lambda>expired s. if expired then over s else loop K to attempt over s) s
        | Some v \<Rightarrow> Some (Ok v, s)))" by (rule keeps_config_try [OF assms(1)])
      show "ssl_config (snd res) = ssl_config s"
        by (rule keeps_configD [OF k, where r = "fst res"]) (use run [unfolded eq] in simp)
    qed
  qed
  then show "ssl_config s' = ssl_config s" by (simp add: P_def)
qed

lemma keeps_config_handshake: "keeps_config (ssl_handshake K L to)"
  unfolding ssl_handshake_def connect_attempt_def clear_error_def
  by (intro keeps_config_loop keeps_config_try keeps_config_tcp keeps_config_call keeps_config_if
      keeps_config_end keeps_config_recover)

lemma ssl_check_certificate_Ok:
  assumes "ssl_check_certificate L s = Some (Ok (), s')"
  shows "\<exists>cert k. o_peer_certificate L (ssl_ptr s) (ssl_kernel s) = (cert, k) \<and> cert \<noteq> 0 \<and>
    o_check_host L cert (ssl_hostname s) k = 1 \<and> ssl_kernel s' = o_x509_free L cert k \<and>
    o_verify_result L (ssl_ptr s) (ssl_kernel s') = X509_V_OK"
  using assms
  by (cases "o_peer_certificate L (ssl_ptr s) (ssl_kernel s)")
    (auto simp: ssl_check_certificate_def ssl_call_def on_tcp_def on_part_def sys_def ws_try_def Let_def
      split: if_splits)

subsection \<open>Properties\<close>

text \<open>
  C15: Up to the first failed write, the TLS socket keeps the contract the client relies on, just like the
  TCP socket: over a library and a kernel that behave as documented, and with a descriptor below
  \<open>FD_SETSIZE\<close>, a read delivers the next bytes of application data or fails without losing one, and a
  write that succeeds has sent exactly the prefix it reports, through all retries, waits, interruptions and
  time-outs, also for spans whose size does not fit an \<open>int\<close>. A failed write has sent a prefix of its
  data (records that had gone before the time was over), and nothing is promised of the calls after it.
\<close>

theorem ssl_is_stream_socket:
  assumes "tls_streams K L fd p good kpend ksent kwait" and "0 \<le> fd" and "fd < FD_SETSIZE" and "p \<noteq> 0"
  shows "fragile_socket (ssl_transport K L)
    (\<lambda>s. tcp_fd (ssl_tcp s) = fd \<and> ssl_ptr s = p \<and> good (ssl_kernel s) \<and> kwait (ssl_kernel s) = None)
    (\<lambda>s. kpend (ssl_kernel s)) (\<lambda>s. ksent (ssl_kernel s))"
proof -
  from assms have "selectable_tls K L fd p good kpend ksent kwait"
    by (simp add: selectable_tls_def selectable_tls_axioms_def)
  then show ?thesis by (rule selectable_tls.tls_contract)
qed

theorem ssl_is_stream_socket_witness:
  "let s = \<lparr>ssl_tcp = \<lparr>tcp_fd = 3, tcp_family = 2, tcp_connected = True, tcp_kernel =
        \<lparr>ss_in = [1, 2, 3], ss_out = [], ss_calls = [Fails EINTR, Fails EAGAIN, Moves 2], ss_errno = 0\<rparr>\<rparr>,
        ssl_ctx = 1, ssl_ptr = 7, ssl_hostname = ''h'', ssl_verify = True\<rparr>
   in \<exists>s'. ssl_read_some script_kernel script_openssl 9 \<lparr>to_start = 0, to_timeout = 5\<rparr> s = Some (Ok [1, 2], s') \<and>
     ss_in (ssl_kernel s') = [3]"
proof -
  let ?s = "\<lparr>ssl_tcp = \<lparr>tcp_fd = 3, tcp_family = 2, tcp_connected = True, tcp_kernel =
        \<lparr>ss_in = [1, 2, 3], ss_out = [], ss_calls = [Fails EINTR, Fails EAGAIN, Moves 2], ss_errno = 0\<rparr>\<rparr>,
        ssl_ctx = 1, ssl_ptr = 7, ssl_hostname = ''h'', ssl_verify = True\<rparr>"
  let ?to = "\<lparr>to_start = 0, to_timeout = 5\<rparr>"
  have "ws_holds (ssl_read_some script_kernel script_openssl 9 ?to ?s) (\<lambda>xs s. xs = [1, 2])" by code_simp
  then obtain s' where run: "ssl_read_some script_kernel script_openssl 9 ?to ?s = Some (Ok [1, 2], s')"
    by (auto simp: ws_holds_iff)
  have "fragile_socket (ssl_transport script_kernel script_openssl)
      (\<lambda>s. tcp_fd (ssl_tcp s) = 3 \<and> ssl_ptr s = 7 \<and> True \<and> None = None) (\<lambda>s. ss_in (ssl_kernel s)) (\<lambda>s. ss_out (ssl_kernel s))"
    using ssl_is_stream_socket [OF script_tls.tls_streams_axioms] by (simp add: FD_SETSIZE_def)
  from lossy_socket.read_ok [OF fragile_socket.axioms(1) [OF this], of ?s 9 ?to "[1, 2]" s'] run
  have "[1, 2, 3] = [1, 2] @ ss_in (ssl_kernel s')" by simp
  with run show ?thesis by simp
qed

text \<open>
  C14: With verification switched on, \<open>connect\<close> succeeds only through these steps, one after the other: the
  TCP connection is made, the handshake loop ends without an error, the library hands out the certificate
  that the peer of this connection presented, that certificate is found to be for the host that was asked
  for, it is given back, and the chain of certificates of this connection is reported valid. Nothing
  happens between these steps or after them.
\<close>

theorem ssl_connect_verified:
  assumes "ssl_verify s" and "ssl_connect K L ms s = Some (Ok (), s')"
  shows "\<exists>to k0 s2 s3 cert k.
    timeout_new (k_now K) ms (ssl_kernel s) = (Ok to, k0) \<and>
    on_tcp (tcp_connect K ms) (s\<lparr>ssl_tcp := (ssl_tcp s)\<lparr>tcp_kernel := k0\<rparr>\<rparr>) = Some (Ok (), s2) \<and>
    ssl_handshake K L to s2 = Some (Ok (), s3) \<and>
    o_peer_certificate L (ssl_ptr s) (ssl_kernel s3) = (cert, k) \<and> cert \<noteq> 0 \<and>
    o_check_host L cert (ssl_hostname s) k = 1 \<and>
    ssl_kernel s' = o_x509_free L cert k \<and>
    o_verify_result L (ssl_ptr s) (ssl_kernel s') = X509_V_OK"
proof -
  from assms(2) obtain to s1 s2 s3 where
    steps: "on_tcp (\<lambda>t. let (to, k) = timeout_new (k_now K) ms (tcp_kernel t) in Some (to, t\<lparr>tcp_kernel := k\<rparr>)) s =
        Some (Ok to, s1)"
      "on_tcp (tcp_connect K ms) s1 = Some (Ok (), s2)" "ssl_handshake K L to s2 = Some (Ok (), s3)"
    and last: "(if \<not> ssl_verify s3 then Some (Ok (), s3) else ssl_check_certificate L s3) = Some (Ok (), s')"
    by (auto simp: ssl_connect_def ws_try_Some_Ok split: if_splits)
  have "ssl_config s3 = ssl_config s"
    using keeps_configD [OF keeps_config_tcp steps(1)] keeps_configD [OF keeps_config_tcp steps(2)]
      keeps_configD [OF keeps_config_handshake steps(3)] by simp
  then have c: "ssl_ptr s3 = ssl_ptr s" "ssl_hostname s3 = ssl_hostname s" "ssl_verify s3"
    using assms(1) by (simp_all add: ssl_config_def)
  from steps(1) obtain k0 where s1: "timeout_new (k_now K) ms (ssl_kernel s) = (Ok to, k0)"
      "s1 = s\<lparr>ssl_tcp := (ssl_tcp s)\<lparr>tcp_kernel := k0\<rparr>\<rparr>"
    by (auto simp: on_tcp_def on_part_Some split: prod.splits)
  from last c(3) have "ssl_check_certificate L s3 = Some (Ok (), s')" by simp
  from ssl_check_certificate_Ok [OF this, unfolded c(1,2)] steps(2,3) s1 show ?thesis by blast
qed

theorem ssl_connect_verified_witness:
  "let s = \<lparr>ssl_tcp = \<lparr>tcp_fd = 3, tcp_family = 2, tcp_connected = False, tcp_kernel =
        \<lparr>ss_in = [], ss_out = [], ss_calls = [Fails EAGAIN, Fails EINTR], ss_errno = 0\<rparr>\<rparr>,
        ssl_ctx = 1, ssl_ptr = 7, ssl_hostname = ''h'', ssl_verify = True\<rparr>
   in \<exists>s' to s2 s3. ssl_connect script_kernel script_openssl 5 s = Some (Ok (), s') \<and>
     ssl_handshake script_kernel script_openssl to s2 = Some (Ok (), s3) \<and>
     o_check_host script_openssl (fst (o_peer_certificate script_openssl 7 (ssl_kernel s3))) ''h''
       (snd (o_peer_certificate script_openssl 7 (ssl_kernel s3))) = 1"
proof -
  let ?s = "\<lparr>ssl_tcp = \<lparr>tcp_fd = 3, tcp_family = 2, tcp_connected = False, tcp_kernel =
        \<lparr>ss_in = [], ss_out = [], ss_calls = [Fails EAGAIN, Fails EINTR], ss_errno = 0\<rparr>\<rparr>,
        ssl_ctx = 1, ssl_ptr = 7, ssl_hostname = ''h'', ssl_verify = True\<rparr>"
  have "ws_holds (ssl_connect script_kernel script_openssl 5 ?s) (\<lambda>u s. True)" by code_simp
  then obtain s' where run: "ssl_connect script_kernel script_openssl 5 ?s = Some (Ok (), s')"
    by (auto simp: ws_holds_iff)
  from ssl_connect_verified [OF _ run] obtain to s2 s3 cert k where
    "ssl_handshake script_kernel script_openssl to s2 = Some (Ok (), s3)"
    "o_peer_certificate script_openssl 7 (ssl_kernel s3) = (cert, k)" "o_check_host script_openssl cert ''h'' k = 1"
    by auto
  with run show ?thesis unfolding Let_def by (metis fst_conv snd_conv)
qed

text \<open>
  C37: Without verification, \<open>connect\<close> may report success although the TLS handshake was not completed:
  when its first \<open>SSL_connect\<close> is interrupted by a signal, or wants to read or to write and the wait for
  that succeeds, and the time is over by then, the loop is left like after a success.
\<close>

theorem ssl_connect_unfinished:
  assumes "ssl_ptr s \<noteq> 0" and "\<not> ssl_verify s"
    and "timeout_new (k_now K) ms (ssl_kernel s) = (Ok to, k0)"
    and "tcp_connect K ms ((ssl_tcp s)\<lparr>tcp_kernel := k0\<rparr>) = Some (Ok (), t)"
    and "o_connect L (ssl_ptr s) (o_clear_error L (tcp_kernel t)) = (ret, k1)" and "ret \<noteq> 1"
    and "let e = o_get_error L (ssl_ptr s) ret k1; s1 = s\<lparr>ssl_tcp := t\<lparr>tcp_kernel := k1\<rparr>\<rparr>
      in e = SSL_ERROR_SYSCALL \<and> k_errno K k1 = EINTR \<and> s2 = s1 \<or>
         e = SSL_ERROR_WANT_READ \<and> ssl_select K L False to s1 = Some (Ok True, s2) \<or>
         e = SSL_ERROR_WANT_WRITE \<and> ssl_select K L True to s1 = Some (Ok True, s2)"
    and "is_expired (k_now K) to (ssl_kernel s2) = (True, k2)"
  shows "ssl_connect K L ms s = Some (Ok (), s2\<lparr>ssl_tcp := (ssl_tcp s2)\<lparr>tcp_kernel := k2\<rparr>\<rparr>)"
proof -
  let ?s2 = "s\<lparr>ssl_tcp := t\<rparr>" and ?s3 = "s\<lparr>ssl_tcp := t\<lparr>tcp_kernel := k1\<rparr>\<rparr>"
  let ?s4 = "s2\<lparr>ssl_tcp := (ssl_tcp s2)\<lparr>tcp_kernel := k2\<rparr>\<rparr>"
  have rec: "ssl_recover K L to zero ds dl ret ?s3 = Some (Ok True, s2)" for zero ds dl
    using assms(7) by (auto simp: ssl_recover_def get_error_def ssl_constants Let_def)
  have "connect_attempt K L to ?s2 = Some (Ok None, s2)"
    using assms(1,5,6) rec
    by (simp add: connect_attempt_def clear_error_def ssl_call_def on_tcp_def on_part_def sys_def ws_try_def)
  moreover have "ssl_expired K to s2 = Some (Ok True, ?s4)"
    using assms(8) by (simp add: ssl_expired_def on_tcp_def on_part_def sys_def)
  ultimately have h: "ssl_handshake K L to ?s2 = Some (Ok (), ?s4)"
    unfolding ssl_handshake_def by (subst ssl_loop.simps) (simp add: ws_try_def)
  with keeps_configD [OF keeps_config_handshake h] assms(2) have "\<not> ssl_verify ?s4" by (simp add: ssl_config_def)
  with h assms(1-4) show ?thesis by (simp add: ssl_connect_def on_tcp_def on_part_def ws_try_def)
qed

theorem ssl_connect_unfinished_witness:
  "let K = script_kernel\<lparr>k_now := (\<lambda>k. ((1 - int (length (ss_calls k))) * 1000000000, k))\<rparr>;
       s = (\<lambda>e. \<lparr>ssl_tcp = \<lparr>tcp_fd = 3, tcp_family = 2, tcp_connected = False, tcp_kernel =
         \<lparr>ss_in = [], ss_out = [], ss_calls = [Fails e], ss_errno = 0\<rparr>\<rparr>,
         ssl_ctx = 1, ssl_ptr = 7, ssl_hostname = ''h'', ssl_verify = False\<rparr>)
   in (\<exists>s'. ssl_connect K script_openssl 500 (s EINTR) = Some (Ok (), s')) \<and>
      (\<exists>s'. ssl_connect K script_openssl 500 (s EAGAIN) = Some (Ok (), s'))"
proof -
  let ?K = "script_kernel\<lparr>k_now := (\<lambda>k. ((1 - int (length (ss_calls k))) * 1000000000, k))\<rparr>"
  let ?k = "\<lambda>e. \<lparr>ss_in = [], ss_out = [], ss_calls = [Fails e], ss_errno = 0\<rparr>"
  let ?s = "\<lambda>e. \<lparr>ssl_tcp = \<lparr>tcp_fd = 3, tcp_family = 2, tcp_connected = False, tcp_kernel = ?k e\<rparr>,
         ssl_ctx = 1, ssl_ptr = 7, ssl_hostname = ''h'', ssl_verify = False\<rparr>"
  let ?t = "\<lambda>e. (ssl_tcp (?s e))\<lparr>tcp_connected := True, tcp_kernel := (?k e)\<lparr>ss_errno := EINPROGRESS\<rparr>\<rparr>"
  let ?k1 = "\<lambda>e. (?k e)\<lparr>ss_calls := [], ss_errno := e\<rparr>"
  note unfinished = ssl_connect_unfinished [where K = ?K and L = script_openssl and ms = 500 and ret = "-1"
      and to = "\<lparr>to_start = 0, to_timeout = 500\<rparr>"]
  have "\<exists>s'. ssl_connect ?K script_openssl 500 (?s EINTR) = Some (Ok (), s')"
    by (rule exI, rule unfinished [where ?k0.0 = "?k EINTR" and t = "?t EINTR" and ?k1.0 = "?k1 EINTR"
          and ?s2.0 = "(?s EINTR)\<lparr>ssl_tcp := (?t EINTR)\<lparr>tcp_kernel := ?k1 EINTR\<rparr>\<rparr>" and ?k2.0 = "?k1 EINTR"]; code_simp)
  moreover have "\<exists>s'. ssl_connect ?K script_openssl 500 (?s EAGAIN) = Some (Ok (), s')"
    by (rule exI, rule unfinished [where ?k0.0 = "?k EAGAIN" and t = "?t EAGAIN" and ?k1.0 = "?k1 EAGAIN"
          and ?s2.0 = "(?s EAGAIN)\<lparr>ssl_tcp := (?t EAGAIN)\<lparr>tcp_kernel := ?k1 EAGAIN\<rparr>\<rparr>" and ?k2.0 = "?k1 EAGAIN"]; code_simp)
  ultimately show ?thesis by simp
qed

end
