(* ===== verification/Ssl_Context.thy ===== *)
theory Ssl_Context
  imports Ssl_Socket
begin

section \<open>The TLS context (transport/builtin/OpenSslContext.hpp)\<close>

text \<open>
  \<open>OpenSslContext\<close> owns the \<open>SSL_CTX\<close> of the sockets. The OpenSSL functions that it calls are a record of
  operations on the state of the library, which take the pointer of the context (0 is the null pointer)
  and return what the C function returns; \<open>get_ssl_errors\<close> drains the error queue into a text. The signal
  disposition and the once flag are those of the process. Logging is left out, and so are the numbers in
  the texts of errors.
\<close>

record 'k ctx_ops =
  x_clear_error :: "'k \<Rightarrow> 'k"
  x_errors :: "'k \<Rightarrow> string \<times> 'k"
  x_new :: "'k \<Rightarrow> int \<times> 'k"
  x_set_min_proto_version :: "int \<Rightarrow> int \<Rightarrow> 'k \<Rightarrow> int \<times> 'k"
  x_set_mode :: "int \<Rightarrow> u64 \<Rightarrow> 'k \<Rightarrow> 'k"
  x_clear_mode :: "int \<Rightarrow> u64 \<Rightarrow> 'k \<Rightarrow> 'k"
  x_set_default_verify_paths :: "int \<Rightarrow> 'k \<Rightarrow> int \<times> 'k"
  x_load_verify_file :: "int \<Rightarrow> string \<Rightarrow> 'k \<Rightarrow> int \<times> 'k"
  x_set_verify_peer :: "int \<Rightarrow> 'k \<Rightarrow> 'k"
  x_set_cipher_list :: "int \<Rightarrow> string \<Rightarrow> 'k \<Rightarrow> int \<times> 'k"
  x_set_ciphersuites :: "int \<Rightarrow> string \<Rightarrow> 'k \<Rightarrow> int \<times> 'k"
  x_set_options :: "int \<Rightarrow> u64 \<Rightarrow> 'k \<Rightarrow> u64 \<times> 'k"
  x_set_session_cache_mode :: "int \<Rightarrow> int \<Rightarrow> 'k \<Rightarrow> 'k"

definition TLS1_2_VERSION :: int where "TLS1_2_VERSION = 0x0303"
definition SSL_OP_NO_COMPRESSION :: u64 where "SSL_OP_NO_COMPRESSION = 0x20000"
definition SSL_OP_NO_RENEGOTIATION :: u64 where "SSL_OP_NO_RENEGOTIATION = 0x40000000"
definition SSL_MODE_AUTO_RETRY :: u64 where "SSL_MODE_AUTO_RETRY = 4"
definition SSL_SESS_CACHE_CLIENT :: int where "SSL_SESS_CACHE_CLIENT = 1"

text \<open>The names of \<open>SSL_get_error\<close> results, from \<open>ssl_utils.hpp\<close>.\<close>

definition ssl_err_name :: "int \<Rightarrow> string" where
  "ssl_err_name e =
     (if e = SSL_ERROR_NONE then ''SSL_ERROR_NONE''
      else if e = SSL_ERROR_ZERO_RETURN then ''SSL_ERROR_ZERO_RETURN''
      else if e = SSL_ERROR_WANT_READ then ''SSL_ERROR_WANT_READ''
      else if e = SSL_ERROR_WANT_WRITE then ''SSL_ERROR_WANT_WRITE''
      else if e = 7 then ''SSL_ERROR_WANT_CONNECT''
      else if e = 8 then ''SSL_ERROR_WANT_ACCEPT''
      else if e = 4 then ''SSL_ERROR_WANT_X509_LOOKUP''
      else if e = SSL_ERROR_SYSCALL then ''SSL_ERROR_SYSCALL''
      else if e = 1 then ''SSL_ERROR_SSL''
      else ''SSL_ERROR_UNKNOWN'')"

subsection \<open>The process\<close>

record process =
  sigpipe_once :: bool
  sigpipe_ignored :: bool

definition ignore_sigpipe_once :: "process \<Rightarrow> process" where
  "ignore_sigpipe_once p =
     (if sigpipe_once p then p else p\<lparr>sigpipe_once := True, sigpipe_ignored := True\<rparr>)"

subsection \<open>The context\<close>

record 'k ctx =
  ctx_ptr :: int
  ctx_lib :: 'k

definition ctx_new :: "'k \<Rightarrow> process \<Rightarrow> 'k ctx \<times> process" where
  "ctx_new k p = (\<lparr>ctx_ptr = 0, ctx_lib = k\<rparr>, ignore_sigpipe_once p)"

definition ctx_handle :: "'k ctx \<Rightarrow> int ws_result" where
  "ctx_handle c = (if ctx_ptr c = 0 then Abort else Ok (ctx_ptr c))"

text \<open>A call of the library on the handle, and the error that each operation makes of a failure.\<close>

definition ctx_call :: "(int \<Rightarrow> 'k \<Rightarrow> 'r \<times> 'k) \<Rightarrow> ('k ctx, 'r) st" where
  "ctx_call f c =
     (case ctx_handle c of
        Ok p \<Rightarrow> (let (r, k) = f p (ctx_lib c) in (Ok r, c\<lparr>ctx_lib := k\<rparr>))
      | Err e \<Rightarrow> (Err e, c)
      | Abort \<Rightarrow> (Abort, c))"

definition ctx_error :: "'k ctx_ops \<Rightarrow> string \<Rightarrow> ('k ctx, 'r) st" where
  "ctx_error X msg c =
     (let (errors, k) = x_errors X (ctx_lib c)
      in (Err (transport_text Transport_error (msg @ '': '' @ errors)), c\<lparr>ctx_lib := k\<rparr>))"

definition ctx_clear_error :: "'k ctx_ops \<Rightarrow> 'k ctx \<Rightarrow> 'k ctx" where
  "ctx_clear_error X c = c\<lparr>ctx_lib := x_clear_error X (ctx_lib c)\<rparr>"

subsection \<open>Settings\<close>

text \<open>The shape of the settings: clear the queue, call, and fail with a text unless the result is good.\<close>

definition ctx_setting ::
  "'k ctx_ops \<Rightarrow> (int \<Rightarrow> 'k \<Rightarrow> 'r \<times> 'k) \<Rightarrow> ('r \<Rightarrow> bool) \<Rightarrow> string \<Rightarrow> ('k ctx, unit) st" where
  "ctx_setting X f good msg c =
     st_try (ctx_call f) (\<lambda>ret c. if \<not> good ret then ctx_error X msg c else (Ok (), c)) (ctx_clear_error X c)"

definition set_min_proto_version :: "'k ctx_ops \<Rightarrow> int \<Rightarrow> ('k ctx, unit) st" where
  "set_min_proto_version X version =
     ctx_setting X (\<lambda>p. x_set_min_proto_version X p version) (\<lambda>ret. ret \<noteq> 0) ''Failed to set proto version''"

definition set_mode_auto_retry :: "'k ctx_ops \<Rightarrow> bool \<Rightarrow> ('k ctx, unit) st" where
  "set_mode_auto_retry X enable =
     (if enable then ctx_call (\<lambda>p k. ((), x_set_mode X p SSL_MODE_AUTO_RETRY k))
      else ctx_call (\<lambda>p k. ((), x_clear_mode X p SSL_MODE_AUTO_RETRY k)))"

definition set_default_verify_paths :: "'k ctx_ops \<Rightarrow> ('k ctx, unit) st" where
  "set_default_verify_paths X =
     st_try (ctx_setting X (x_set_default_verify_paths X) (\<lambda>ret. ret = 1) ''Failed to load default CA certificates.'')
       (\<lambda>_. ctx_call (\<lambda>p k. ((), x_set_verify_peer X p k)))"

definition load_verify_file :: "'k ctx_ops \<Rightarrow> string \<Rightarrow> ('k ctx, unit) st" where
  "load_verify_file X path =
     st_try (ctx_setting X (\<lambda>p. x_load_verify_file X p path) (\<lambda>ret. ret = 1) (''Failed to load CA file from: '' @ path))
       (\<lambda>_. ctx_call (\<lambda>p k. ((), x_set_verify_peer X p k)))"

definition ctx_set_cipher_list :: "'k ctx_ops \<Rightarrow> string \<Rightarrow> ('k ctx, unit) st" where
  "ctx_set_cipher_list X cipher_list =
     ctx_setting X (\<lambda>p. x_set_cipher_list X p cipher_list) (\<lambda>ret. ret \<noteq> 0)
       (''Failed to set cipher list to '' @ cipher_list @ ''.'')"

definition set_ciphersuites :: "'k ctx_ops \<Rightarrow> string \<Rightarrow> ('k ctx, unit) st" where
  "set_ciphersuites X suites =
     ctx_setting X (\<lambda>p. x_set_ciphersuites X p suites) (\<lambda>ret. ret \<noteq> 0)
       (''Failed to set TLS 1.3 suites to '' @ suites)"

definition set_options :: "'k ctx_ops \<Rightarrow> u64 \<Rightarrow> ('k ctx, unit) st" where
  "set_options X options =
     ctx_setting X (\<lambda>p. x_set_options X p options) (\<lambda>applied. applied AND options = options)
       ''Failed to set context options mask.''"

definition set_session_cache_mode :: "'k ctx_ops \<Rightarrow> int \<Rightarrow> ('k ctx, unit) st" where
  "set_session_cache_mode X mode = ctx_call (\<lambda>p k. ((), x_set_session_cache_mode X p mode k))"

definition set_session_cache_mode_client :: "'k ctx_ops \<Rightarrow> ('k ctx, unit) st" where
  "set_session_cache_mode_client X = set_session_cache_mode X SSL_SESS_CACHE_CLIENT"

subsection \<open>Initialisation\<close>

definition tls12_ciphers :: string where
  "tls12_ciphers =
     ''ECDHE+CHACHA20:ECDHE+AESGCM:DHE+CHACHA20:DHE+AESGCM:'' @
     ''!aNULL:!eNULL:!kRSA:!3DES:!CAMELLIA:!SEED:!MD5:@STRENGTH''"

definition tls13_suites :: string where
  "tls13_suites = ''TLS_AES_128_GCM_SHA256:'' @ ''TLS_CHACHA20_POLY1305_SHA256:'' @ ''TLS_AES_256_GCM_SHA384''"

definition hardening :: u64 where
  "hardening = SSL_OP_NO_RENEGOTIATION OR SSL_OP_NO_COMPRESSION"

definition ctx_init :: "'k ctx_ops \<Rightarrow> ('k ctx, unit) st" where
  "ctx_init X c =
     (if ctx_ptr c \<noteq> 0
      then ctx_error X ''init function has been called already, can only be called once.'' c
      else let c = ctx_clear_error X c; (raw, k) = x_new X (ctx_lib c); c = c\<lparr>ctx_lib := k\<rparr>
           in if raw = 0 then ctx_error X ''Failed to create SSL context.'' c
              else st_try (set_min_proto_version X TLS1_2_VERSION)
                (\<lambda>_. st_try (set_options X hardening)
                  (\<lambda>_. st_try (ctx_set_cipher_list X tls12_ciphers)
                    (\<lambda>_. set_ciphersuites X tls13_suites))) (c\<lparr>ctx_ptr := raw\<rparr>))"

subsection \<open>What OpenSSL promises about settings\<close>

text \<open>The settings of a context, as a connection sees them.\<close>

record settings =
  st_min_proto :: int
  st_options :: u64
  st_ciphers :: string
  st_suites :: string
  st_verify_peer :: bool
  st_trusted :: bool

definition ctx_conf :: "(int \<Rightarrow> 'k \<Rightarrow> settings) \<Rightarrow> 'k ctx \<Rightarrow> settings" where
  "ctx_conf conf c = conf (ctx_ptr c) (ctx_lib c)"

text \<open>
  A setter that reports success has changed its setting and no other; one that fails has changed none.
  \<open>SSL_CTX_set_options\<close> adds the options and returns what is in force then. Draining the error queue
  changes nothing.
\<close>

locale tls_settings =
  fixes X :: "'k ctx_ops" and conf :: "int \<Rightarrow> 'k \<Rightarrow> settings"
  assumes queue: "conf p (x_clear_error X k) = conf p k" "x_errors X k = (t, k1) \<Longrightarrow> conf p k1 = conf p k"
    and min_proto: "x_set_min_proto_version X p v k = (r, k1) \<Longrightarrow>
      conf p k1 = (if r \<noteq> 0 then (conf p k)\<lparr>st_min_proto := v\<rparr> else conf p k)"
    and options: "x_set_options X p opts k = (applied, k1) \<Longrightarrow> conf p k1 = (conf p k)\<lparr>st_options := applied\<rparr>"
    and ciphers: "x_set_cipher_list X p l k = (r, k1) \<Longrightarrow>
      conf p k1 = (if r \<noteq> 0 then (conf p k)\<lparr>st_ciphers := l\<rparr> else conf p k)"
    and suites: "x_set_ciphersuites X p l k = (r, k1) \<Longrightarrow>
      conf p k1 = (if r \<noteq> 0 then (conf p k)\<lparr>st_suites := l\<rparr> else conf p k)"
    and verify: "conf p (x_set_verify_peer X p k) = (conf p k)\<lparr>st_verify_peer := True\<rparr>"
    and default_paths: "x_set_default_verify_paths X p k = (r, k1) \<Longrightarrow>
      conf p k1 = (if r = 1 then (conf p k)\<lparr>st_trusted := True\<rparr> else conf p k)"
    and verify_file: "x_load_verify_file X p path k = (r, k1) \<Longrightarrow>
      conf p k1 = (if r = 1 then (conf p k)\<lparr>st_trusted := True\<rparr> else conf p k)"
begin

lemma setting_Ok:
  assumes "ctx_setting X f good msg c = (Ok (), c')"
  obtains ret where "good ret" "f (ctx_ptr c) (x_clear_error X (ctx_lib c)) = (ret, ctx_lib c')"
    "ctx_ptr c' = ctx_ptr c" "ctx_ptr c \<noteq> 0"
  using assms
  by (auto simp: ctx_setting_def st_try_Ok ctx_call_def ctx_handle_def ctx_clear_error_def ctx_error_def
      split: if_splits prod.splits)

lemma init_settings:
  "set_min_proto_version X v c = (Ok (), c') \<Longrightarrow> ctx_conf conf c' = (ctx_conf conf c)\<lparr>st_min_proto := v\<rparr> \<and> ctx_ptr c' = ctx_ptr c"
  "set_options X opts c = (Ok (), c') \<Longrightarrow>
     \<exists>applied. ctx_conf conf c' = (ctx_conf conf c)\<lparr>st_options := applied\<rparr> \<and> applied AND opts = opts \<and> ctx_ptr c' = ctx_ptr c"
  "ctx_set_cipher_list X l c = (Ok (), c') \<Longrightarrow> ctx_conf conf c' = (ctx_conf conf c)\<lparr>st_ciphers := l\<rparr> \<and> ctx_ptr c' = ctx_ptr c"
  "set_ciphersuites X l c = (Ok (), c') \<Longrightarrow> ctx_conf conf c' = (ctx_conf conf c)\<lparr>st_suites := l\<rparr> \<and> ctx_ptr c' = ctx_ptr c"
  unfolding set_min_proto_version_def set_options_def ctx_set_cipher_list_def set_ciphersuites_def ctx_conf_def
  by (auto elim!: setting_Ok simp: queue dest!: min_proto options ciphers suites)

lemma verifying:
  "set_default_verify_paths X c = (Ok (), c') \<or> load_verify_file X path c = (Ok (), c') \<Longrightarrow>
     ctx_conf conf c' = (ctx_conf conf c)\<lparr>st_trusted := True, st_verify_peer := True\<rparr> \<and> ctx_ptr c' = ctx_ptr c"
  unfolding set_default_verify_paths_def load_verify_file_def ctx_conf_def
  by (auto elim!: setting_Ok simp: st_try_Ok ctx_call_def ctx_handle_def verify queue
      split: if_splits dest!: default_paths verify_file)

lemma ctx_init_hardens:
  assumes "ctx_init X c = (Ok (), c')"
  shows "ctx_ptr c = 0 \<and> ctx_ptr c' \<noteq> 0 \<and> st_min_proto (ctx_conf conf c') = TLS1_2_VERSION \<and>
    st_options (ctx_conf conf c') AND hardening = hardening \<and>
    st_ciphers (ctx_conf conf c') = tls12_ciphers \<and> st_suites (ctx_conf conf c') = tls13_suites"
proof -
  from assms obtain raw k c1 c2 c3 where new: "ctx_ptr c = 0" "raw \<noteq> 0"
    and s1: "set_min_proto_version X TLS1_2_VERSION ((ctx_clear_error X c)\<lparr>ctx_lib := k, ctx_ptr := raw\<rparr>) = (Ok (), c1)"
    and s2: "set_options X hardening c1 = (Ok (), c2)"
    and s3: "ctx_set_cipher_list X tls12_ciphers c2 = (Ok (), c3)"
    and s4: "set_ciphersuites X tls13_suites c3 = (Ok (), c')"
    by (auto simp: ctx_init_def Let_def ctx_error_def st_try_Ok split: if_splits prod.splits)
  from init_settings(1) [OF s1] init_settings(2) [OF s2] init_settings(3) [OF s3] init_settings(4) [OF s4] new
  show ?thesis by auto
qed

end

subsection \<open>A library of settings\<close>

text \<open>One context, whose settings are the state. It knows the options of the low 32 bits and no empty list of ciphers.\<close>

definition plain_ctx_ops :: "settings ctx_ops" where
  "plain_ctx_ops =
     \<lparr>x_clear_error = (\<lambda>k. k), x_errors = (\<lambda>k. (''reason'', k)), x_new = (\<lambda>k. (1, k)),
      x_set_min_proto_version = (\<lambda>p v k. if v \<le> 0x0304 then (1, k\<lparr>st_min_proto := v\<rparr>) else (0, k)),
      x_set_mode = (\<lambda>p m k. k), x_clear_mode = (\<lambda>p m k. k),
      x_set_default_verify_paths = (\<lambda>p k. (1, k\<lparr>st_trusted := True\<rparr>)),
      x_load_verify_file = (\<lambda>p path k. if path = [] then (0, k) else (1, k\<lparr>st_trusted := True\<rparr>)),
      x_set_verify_peer = (\<lambda>p k. k\<lparr>st_verify_peer := True\<rparr>),
      x_set_cipher_list = (\<lambda>p l k. if l = [] then (0, k) else (1, k\<lparr>st_ciphers := l\<rparr>)),
      x_set_ciphersuites = (\<lambda>p l k. if l = [] then (0, k) else (1, k\<lparr>st_suites := l\<rparr>)),
      x_set_options = (\<lambda>p opts k. let applied = st_options k OR (opts AND 0xFFFFFFFF)
        in (applied, k\<lparr>st_options := applied\<rparr>)),
      x_set_session_cache_mode = (\<lambda>p m k. k)\<rparr>"

interpretation plain: tls_settings plain_ctx_ops "\<lambda>p k. k"
  by unfold_locales (auto simp: plain_ctx_ops_def Let_def split: if_splits)

subsection \<open>Properties\<close>

text \<open>A failure after the context was created cannot be made good: \<open>init\<close> refuses every further call.\<close>

lemma ctx_init_failure_sticks:
  assumes "ctx_ptr c \<noteq> 0"
  shows "\<exists>e c'. ctx_init X c = (Err e, c') \<and> ctx_ptr c' = ctx_ptr c"
  using assms by (auto simp: ctx_init_def ctx_error_def split: prod.splits)

text \<open>
  C19: Over an OpenSSL whose setters do what they report, a context on which \<open>init\<close> and then
  \<open>set_default_verify_paths\<close> have succeeded accepts nothing older than TLS 1.2, refuses renegotiation and
  compression, offers just the cipher lists of the source, and makes its connections verify the peer
  against the installed certificates.
\<close>

theorem ctx_init_hardened:
  assumes "tls_settings X conf"
    and "ctx_init X c = (Ok (), c1)" and "set_default_verify_paths X c1 = (Ok (), c2)"
  shows "let s = conf (ctx_ptr c2) (ctx_lib c2)
    in ctx_ptr c2 \<noteq> 0 \<and> st_min_proto s = TLS1_2_VERSION \<and> st_options s AND hardening = hardening \<and>
      st_ciphers s = tls12_ciphers \<and> st_suites s = tls13_suites \<and> st_verify_peer s \<and> st_trusted s"
proof -
  have v: "conf (ctx_ptr c2) (ctx_lib c2) = (conf (ctx_ptr c1) (ctx_lib c1))\<lparr>st_trusted := True, st_verify_peer := True\<rparr>"
    and p: "ctx_ptr c2 = ctx_ptr c1"
    using tls_settings.verifying [OF assms(1), of c1 c2] assms(3) unfolding ctx_conf_def by blast+
  show ?thesis
    unfolding Let_def v using tls_settings.ctx_init_hardens [OF assms(1,2)] p by (simp add: ctx_conf_def)
qed

theorem ctx_init_hardened_witness:
  "let c = fst (ctx_new \<lparr>st_min_proto = 0, st_options = 1, st_ciphers = [], st_suites = [], st_verify_peer = False,
        st_trusted = False\<rparr> \<lparr>sigpipe_once = False, sigpipe_ignored = False\<rparr>)
   in \<exists>c1 c2. ctx_init plain_ctx_ops c = (Ok (), c1) \<and> set_default_verify_paths plain_ctx_ops c1 = (Ok (), c2) \<and>
     st_options (ctx_lib c2) AND hardening = hardening \<and> st_verify_peer (ctx_lib c2)"
proof -
  let ?c = "fst (ctx_new \<lparr>st_min_proto = 0, st_options = 1, st_ciphers = [], st_suites = [], st_verify_peer = False,
    st_trusted = False\<rparr> \<lparr>sigpipe_once = False, sigpipe_ignored = False\<rparr>)"
  obtain r1 c1 r2 c2 where c1: "ctx_init plain_ctx_ops ?c = (r1, c1)"
    and c2: "set_default_verify_paths plain_ctx_ops c1 = (r2, c2)" by fastforce
  have "fst (ctx_init plain_ctx_ops ?c) = Ok () \<and>
      fst (set_default_verify_paths plain_ctx_ops (snd (ctx_init plain_ctx_ops ?c))) = Ok ()" by code_simp
  with c1 c2 have "r1 = Ok ()" "r2 = Ok ()" by simp_all
  with c1 c2 ctx_init_hardened [OF plain.tls_settings_axioms, of ?c c1 c2] show ?thesis by (simp add: Let_def)
qed

end
