(* ===== verification/Asio_Socket.thy ===== *)
theory Asio_Socket
  imports Ssl_Contract
begin

section \<open>The asio socket (transport/AsioSocket.hpp)\<close>

text \<open>
  \<open>AsioSocket\<close> over the asio library, whose objects (the socket, the two timers, the event loop) are the
  state \<open>'k\<close> and whose functions are a record of operations on it. \<open>op || timer.async_wait\<close> is one
  operation: it returns the index of the operation that was finished first (the other is cancelled), the error code
  of the transfer and what the transfer delivered. An await that never ends is \<open>None\<close>. The template
  parameter \<open>SocketType\<close> is a flag, which tells a TLS stream from a plain socket. Member functions of asio
  without an \<open>error_code\<close> argument throw; an exception that leaves the coroutine is \<open>Abort\<close>.
\<close>

datatype asio_error = Ec_none | Operation_aborted | Ec_eof | Ec_other int

datatype asio_timer = Read_timer | Write_timer | Shutdown_timer

record 'k asio =
  a_now :: "'k clock"
  a_errno :: "'k \<Rightarrow> int"
  a_message :: "asio_error \<Rightarrow> string"
  a_native_handle :: "'k \<Rightarrow> int"
  a_expires_after :: "asio_timer \<Rightarrow> int \<Rightarrow> 'k \<Rightarrow> 'k"
  a_cancel_timer :: "asio_timer \<Rightarrow> 'k \<Rightarrow> 'k"
  a_available :: "'k \<Rightarrow> (nat \<times> asio_error) \<times> 'k"
  a_read_or_timer :: "nat \<Rightarrow> 'k \<Rightarrow> ((nat \<times> asio_error \<times> byte list) \<times> 'k) option"
  a_write_or_timer :: "byte list \<Rightarrow> 'k \<Rightarrow> ((nat \<times> asio_error \<times> nat) \<times> 'k) option"
  a_cancel :: "'k \<Rightarrow> asio_error \<times> 'k"
  a_shutdown_or_timer :: "'k \<Rightarrow> ((nat \<times> asio_error) \<times> 'k) option"
  a_tcp_shutdown :: "'k \<Rightarrow> asio_error \<times> 'k"
  a_close :: "'k \<Rightarrow> asio_error \<times> 'k"

definition ec_failure :: "'k asio \<Rightarrow> asio_error \<Rightarrow> ws_error" where
  "ec_failure A ec = transport_text Transport_error (a_message A ec)"

subsection \<open>Polling\<close>

text \<open>The loop over \<open>SSL_peek\<close>, which goes on after an interruption.\<close>

partial_function (option) asio_peek ::
  "'k asio \<Rightarrow> 'k openssl \<Rightarrow> int \<Rightarrow> 'k \<Rightarrow> (bool ws_result \<times> 'k) option"
where
  "asio_peek A L ssl k =
     (let (ret, k) = o_peek L ssl 1 (o_clear_error L k);
          e = o_get_error L ssl ret k; errno = a_errno A k
      in if e = SSL_ERROR_NONE then Some (Ok True, k)
         else if e = SSL_ERROR_WANT_READ \<or> e = SSL_ERROR_WANT_WRITE then Some (Ok False, k)
         else if e = SSL_ERROR_SYSCALL
         then if errno = EINTR then asio_peek A L ssl k
              else if errno = 0
              then Some (Err (transport_text Connection_closed ''TLS peer closed connection abruptly''), k)
              else Some (Err (WSError Transport_error (Transport_msg
                     (Msg_syscall ''SSL syscall error in wait_readable'' errno ret)) not_set), o_clear_error L k)
         else if e = SSL_ERROR_ZERO_RETURN
         then Some (Err (transport_text Connection_closed
                ''SSL connection closed in wait_readable (SSL_ERROR_ZERO_RETURN)''), o_clear_error L k)
         else Some (Err (WSError Transport_error (Transport_msg
                (Msg_ssl_error ''Unexpected SSL error in wait_readable'' ret e)) not_set), o_print_errors L k))"

declare asio_peek.simps [code]

definition asio_can_read :: "bool \<Rightarrow> 'k asio \<Rightarrow> 'k openssl \<Rightarrow> ('k, bool) ws" where
  "asio_can_read tls A L k =
     (if tls
      then let ssl = a_native_handle A k
           in if ssl = 0 then Some (Err (transport_text Transport_error ''Invalid SSL handle''), k)
              else asio_peek A L ssl k
      else let ((available, ec), k) = a_available A k
           in if ec \<noteq> Ec_none then Some (Err (ec_failure A ec), k) else Some (Ok (available > 0), k))"

subsection \<open>Reading and writing\<close>

text \<open>What both functions do when the await is over.\<close>

definition asio_outcome ::
  "'k asio \<Rightarrow> string \<Rightarrow> string \<Rightarrow> nat \<times> asio_error \<times> 'r \<Rightarrow> 'r ws_result" where
  "asio_outcome A timed_out cancelled res =
     (let (index, ec, v) = res
      in if index = 1 then Err (transport_text Timeout_error timed_out)
         else if ec = Operation_aborted then Err (transport_text Operation_cancelled cancelled)
         else if ec \<noteq> Ec_none then Err (ec_failure A ec)
         else Ok v)"

definition asio_read_some :: "'k asio \<Rightarrow> nat \<Rightarrow> timeout \<Rightarrow> ('k, byte list) ws" where
  "asio_read_some A n to k =
     (let (ms, k) = remaining (a_now A) to k;
          k = a_expires_after A Read_timer ms k
      in case a_read_or_timer A n k of
           None \<Rightarrow> None
         | Some (res, k) \<Rightarrow>
             Some (asio_outcome A ''Read timed out'' ''Read cancelled'' res, a_cancel_timer A Read_timer k))"

definition asio_write_some :: "'k asio \<Rightarrow> byte list \<Rightarrow> timeout \<Rightarrow> ('k, nat) ws" where
  "asio_write_some A data to k =
     (let (ms, k) = remaining (a_now A) to k;
          k = a_expires_after A Write_timer ms k
      in case a_write_or_timer A data k of
           None \<Rightarrow> None
         | Some (res, k) \<Rightarrow>
             Some (asio_outcome A ''Write timed out'' ''Write cancelled'' res, a_cancel_timer A Write_timer k))"

subsection \<open>Shutting down and closing\<close>

text \<open>The TLS layer is shut down first; whether the timer was faster makes no difference.\<close>

definition asio_tls_shutdown :: "'k asio \<Rightarrow> 'k openssl \<Rightarrow> timeout \<Rightarrow> ('k, unit) ws" where
  "asio_tls_shutdown A L to k =
     (let (ms, k) = remaining (a_now A) to k;
          k = o_clear_error L (a_expires_after A Shutdown_timer ms k)
      in case a_shutdown_or_timer A k of
           None \<Rightarrow> None
         | Some ((index, ec1), k) \<Rightarrow>
             (let k = a_cancel_timer A Shutdown_timer k
              in if ec1 \<noteq> Ec_none \<and> ec1 \<noteq> Ec_eof then Some (Err (ec_failure A ec1), k) else Some (Ok (), k)))"

definition asio_shutdown :: "bool \<Rightarrow> 'k asio \<Rightarrow> 'k openssl \<Rightarrow> bool \<Rightarrow> timeout \<Rightarrow> ('k, unit) ws" where
  "asio_shutdown tls A L fail_connection to k =
     (let (ec0, k) = a_cancel A k
      in if ec0 \<noteq> Ec_none then Some (Abort, k)
         else if fail_connection then Some (Ok (), k)
         else ws_try (if tls then asio_tls_shutdown A L to else ws_return ())
                (\<lambda>_ k. let (ec, k) = a_tcp_shutdown A k
                  in if ec \<noteq> Ec_none \<and> ec \<noteq> Ec_eof then Some (Err (ec_failure A ec), k)
                     else Some (Ok (), k)) k)"

definition asio_close :: "'k asio \<Rightarrow> bool \<Rightarrow> ('k, unit) ws" where
  "asio_close A fail_connection k =
     (let (ec, k) = a_close A k
      in if ec \<noteq> Ec_none then Some (Err (ec_failure A ec), k) else Some (Ok (), k))"

text \<open>
  As a transport. The class has no \<open>wait_readable\<close>, and the asynchronous client calls none: the field
  holds \<open>can_read\<close>.
\<close>

definition asio_transport :: "bool \<Rightarrow> 'k asio \<Rightarrow> 'k openssl \<Rightarrow> 'k transport" where
  "asio_transport tls A L =
     \<lparr>tr_now = a_now A, tr_read_some = asio_read_some A, tr_write_some = asio_write_some A,
      tr_wait_readable = (\<lambda>to. asio_can_read tls A L),
      tr_shutdown = asio_shutdown tls A L, tr_close = asio_close A\<rparr>"

lemma asio_transport_sel [simp]:
  "tr_now (asio_transport tls A L) = a_now A" "tr_read_some (asio_transport tls A L) = asio_read_some A"
  "tr_write_some (asio_transport tls A L) = asio_write_some A"
  "tr_shutdown (asio_transport tls A L) = asio_shutdown tls A L" "tr_close (asio_transport tls A L) = asio_close A"
  by (simp_all add: asio_transport_def)

subsection \<open>What asio promises, and what the socket promises then\<close>

text \<open>
  The documented behaviour for an open socket: \<open>async_read_some\<close> delivers a non-empty prefix of what the
  peer has sent, or an error and nothing, as when it was cancelled; \<open>async_write\<close> sends all the data, or fails
  after some of it, and then nothing is said of the stream any more; cancelling the operations of an open socket
  succeeds; nothing else moves data. The timer may be first although the transfer is done, too, when the
  cancellation comes too late: then the error code says that the transfer was good.
\<close>

locale asio_streams =
  fixes A :: "'k asio" and L :: "'k openssl" and good :: "'k \<Rightarrow> bool"
    and kpend ksent :: "'k \<Rightarrow> byte list"
  assumes now_ok: "good k \<Longrightarrow> a_now A k = (t, k') \<Longrightarrow> good k' \<and> kpend k' = kpend k \<and> ksent k' = ksent k"
    and timers_ok: "good k \<Longrightarrow> k' \<in> {a_expires_after A tm ms k, a_cancel_timer A tm k, o_clear_error L k} \<Longrightarrow>
      good k' \<and> kpend k' = kpend k \<and> ksent k' = ksent k"
    and timer_silent: "ksent (a_cancel_timer A tm k) = ksent k"
    and read_ok: "good k \<Longrightarrow> 0 < n \<Longrightarrow> a_read_or_timer A n k = Some ((i, ec, xs), k') \<Longrightarrow>
      good k' \<and> ksent k' = ksent k \<and>
      (if ec = Ec_none then xs \<noteq> [] \<and> length xs \<le> n \<and> kpend k = xs @ kpend k' else kpend k' = kpend k)"
    and write_ok: "good k \<Longrightarrow> data \<noteq> [] \<Longrightarrow> a_write_or_timer A data k = Some ((i, ec, m), k') \<Longrightarrow>
      (if ec = Ec_none then good k' \<and> kpend k' = kpend k \<and> m = length data \<and> ksent k' = ksent k @ data
       else \<exists>j \<le> length data. ksent k' = ksent k @ take j data)"
    and cancel_ok: "good k \<Longrightarrow> a_cancel A k = (ec, k') \<Longrightarrow> ec = Ec_none \<and> good k' \<and> ksent k' = ksent k"
    and tls_shutdown_ok: "good k \<Longrightarrow> a_shutdown_or_timer A k = Some (r, k') \<Longrightarrow> good k' \<and> ksent k' = ksent k"
    and tcp_shutdown_ok: "good k \<Longrightarrow> a_tcp_shutdown A k = (ec, k') \<Longrightarrow> good k' \<and> ksent k' = ksent k"
    and close_ok: "good k \<Longrightarrow> a_close A k = (ec, k') \<Longrightarrow> ksent k' = ksent k"
begin

lemma timer_ok [simp]:
  "good k \<Longrightarrow> good (a_expires_after A tm ms k) \<and> kpend (a_expires_after A tm ms k) = kpend k \<and>
     ksent (a_expires_after A tm ms k) = ksent k"
  "good k \<Longrightarrow> good (a_cancel_timer A tm k) \<and> kpend (a_cancel_timer A tm k) = kpend k \<and>
     ksent (a_cancel_timer A tm k) = ksent k"
  "good k \<Longrightarrow> good (o_clear_error L k) \<and> kpend (o_clear_error L k) = kpend k \<and> ksent (o_clear_error L k) = ksent k"
  using timers_ok [of k] by blast+

lemma remaining_ok: "good k \<Longrightarrow> remaining (a_now A) to k = (ms, k') \<Longrightarrow> good k' \<and> kpend k' = kpend k \<and> ksent k' = ksent k"
  using now_ok [of k] by (cases "a_now A k") (auto simp: remaining_def elapsed_def)

text \<open>Before the await the timer is set.\<close>

lemma armed:
  assumes "good k" and "remaining (a_now A) to k = (ms, k1)"
  shows "good (a_expires_after A tm ms k1)" "kpend (a_expires_after A tm ms k1) = kpend k"
    "ksent (a_expires_after A tm ms k1) = ksent k"
  using remaining_ok [OF assms] by simp_all

lemma asio_write_post:
  assumes "good k" and "data \<noteq> []" and "asio_write_some A data to k = Some (r, k')"
  shows "(case r of Ok m \<Rightarrow> good k' \<and> kpend k' = kpend k \<and> m = length data \<and> ksent k' = ksent k @ data
       | Err e \<Rightarrow> \<exists>j \<le> length data. ksent k' = ksent k @ take j data | Abort \<Rightarrow> False)"
proof -
  obtain ms k1 where rem: "remaining (a_now A) to k = (ms, k1)" by fastforce
  from assms(3) rem obtain i ec m k2 where
    run: "a_write_or_timer A data (a_expires_after A Write_timer ms k1) = Some ((i, ec, m), k2)"
    and r: "r = asio_outcome A ''Write timed out'' ''Write cancelled'' (i, ec, m)" "k' = a_cancel_timer A Write_timer k2"
    by (auto simp: asio_write_some_def split: option.splits)
  note arm = armed [OF assms(1) rem, of Write_timer]
  show ?thesis
  proof (cases "ec = Ec_none")
    case True
    with write_ok [OF arm(1) assms(2) run] arm r show ?thesis
      by (auto simp: asio_outcome_def intro!: exI [of _ "length data"])
  next
    case False
    with write_ok [OF arm(1) assms(2) run] arm r show ?thesis
      by (auto simp: asio_outcome_def timer_silent split: if_splits)
  qed
qed

lemma asio_tls_shutdown_post:
  assumes "good k" and "asio_tls_shutdown A L to k = Some (r, k')"
  shows "r \<noteq> Abort \<and> good k' \<and> ksent k' = ksent k"
proof -
  obtain ms k1 where rem: "remaining (a_now A) to k = (ms, k1)" by fastforce
  define k2 where "k2 = o_clear_error L (a_expires_after A Shutdown_timer ms k1)"
  have k2: "good k2" "ksent k2 = ksent k" using armed [OF assms(1) rem, of Shutdown_timer] by (simp_all add: k2_def)
  from assms(2) rem obtain i ec k3 where run: "a_shutdown_or_timer A k2 = Some ((i, ec), k3)"
    and r: "k' = a_cancel_timer A Shutdown_timer k3" "r \<noteq> Abort"
    by (auto simp: asio_tls_shutdown_def k2_def Let_def split: option.splits if_splits)
  from tls_shutdown_ok [OF k2(1) run] k2 r show ?thesis by simp
qed

lemma asio_shutdown_post:
  assumes "good k" and "asio_shutdown tls A L fail to k = Some (r, k')"
  shows "r \<noteq> Abort \<and> good k' \<and> ksent k' = ksent k"
proof -
  obtain ec k1 where c: "a_cancel A k = (ec, k1)" by fastforce
  note k1 = cancel_ok [OF assms(1) c]
  show ?thesis
  proof (cases fail)
    case True
    with assms(2) c k1 show ?thesis by (auto simp: asio_shutdown_def)
  next
    case False
    with assms(2) c k1 have "ws_try (if tls then asio_tls_shutdown A L to else ws_return ())
      (\<lambda>_ k. let (ec, k) = a_tcp_shutdown A k
         in if ec \<noteq> Ec_none \<and> ec \<noteq> Ec_eof then Some (Err (ec_failure A ec), k) else Some (Ok (), k)) k1 = Some (r, k')"
      by (simp add: asio_shutdown_def)
    then show ?thesis
    proof (cases rule: ws_try_cases)
      case (ok v k2)
      have k2: "good k2" "ksent k2 = ksent k"
        using ok(1) asio_tls_shutdown_post [of k1 to "Ok v" k2] k1 by (auto split: if_splits)
      from ok(2) tcp_shutdown_ok [OF k2(1)] k2(2) show ?thesis by (auto split: prod.splits if_splits)
    next
      case (err e)
      with asio_tls_shutdown_post [of k1 to "Err e" k'] k1 show ?thesis by (auto split: if_splits)
    next
      case abort
      with asio_tls_shutdown_post [of k1 to Abort k'] k1 show ?thesis by (auto split: if_splits)
    qed
  qed
qed

text \<open>A timer that was first says nothing of the bytes the read it raced may have received.\<close>

lemma asio_read_post:
  assumes "good k" and "0 < n" and "asio_read_some A n to k = Some (r, k')"
  shows "good k' \<and> ksent k' = ksent k \<and>
    (case r of Ok xs \<Rightarrow> xs \<noteq> [] \<and> length xs \<le> n \<and> kpend k = xs @ kpend k'
       | Err e \<Rightarrow> \<exists>lost. kpend k = lost @ kpend k' \<and> length lost \<le> n \<and> (err_code e \<noteq> Timeout_error \<longrightarrow> lost = [])
       | Abort \<Rightarrow> False)"
proof -
  obtain ms k1 where rem: "remaining (a_now A) to k = (ms, k1)" by fastforce
  from assms(3) rem obtain i ec xs k2 where
    run: "a_read_or_timer A n (a_expires_after A Read_timer ms k1) = Some ((i, ec, xs), k2)"
    and r: "r = asio_outcome A ''Read timed out'' ''Read cancelled'' (i, ec, xs)" "k' = a_cancel_timer A Read_timer k2"
    by (auto simp: asio_read_some_def split: option.splits)
  note arm = armed [OF assms(1) rem, of Read_timer]
  show ?thesis
  proof (cases "ec = Ec_none")
    case True
    with read_ok [OF arm(1) assms(2) run] arm r show ?thesis
      by (auto simp: asio_outcome_def transport_text_def intro!: exI [of _ xs] split: if_splits)
  next
    case False
    with read_ok [OF arm(1) assms(2) run] arm r show ?thesis
      by (auto simp: asio_outcome_def split: if_splits)
  qed
qed

lemma asio_stream: "lossy_socket (asio_transport tls A L) good kpend ksent"
proof unfold_locales
  fix k t k'
  assume "good k" and "tr_now (asio_transport tls A L) k = (t, k')"
  then show "good k' \<and> kpend k' = kpend k \<and> ksent k' = ksent k" using now_ok [of k t k'] by simp
next
  fix k n to xs k'
  assume "good k" "0 < n" "tr_read_some (asio_transport tls A L) n to k = Some (Ok xs, k')"
  with asio_read_post [of k n to "Ok xs" k']
  show "good k' \<and> xs \<noteq> [] \<and> length xs \<le> n \<and> kpend k = xs @ kpend k' \<and> ksent k' = ksent k" by simp
next
  fix k n to e k'
  assume "good k" "0 < n" "tr_read_some (asio_transport tls A L) n to k = Some (Err e, k')"
  with asio_read_post [of k n to "Err e" k'] show "good k' \<and> ksent k' = ksent k \<and>
      (\<exists>lost. kpend k = lost @ kpend k' \<and> length lost \<le> n \<and> (err_code e \<noteq> Timeout_error \<longrightarrow> lost = []))" by simp
next
  fix k n to k'
  assume "good k" "(0 :: nat) < n"
  with asio_read_post [of k n to Abort k'] show "tr_read_some (asio_transport tls A L) n to k \<noteq> Some (Abort, k')" by auto
next
  fix k data to m k'
  assume "good k" "data \<noteq> []" "tr_write_some (asio_transport tls A L) data to k = Some (Ok m, k')"
  with asio_write_post [of k data to "Ok m" k']
  show "good k' \<and> 0 < m \<and> m \<le> length data \<and> kpend k' = kpend k \<and> ksent k' = ksent k @ take m data" by simp
next
  fix k data to e k'
  assume "good k" "data \<noteq> []" "tr_write_some (asio_transport tls A L) data to k = Some (Err e, k')"
  with asio_write_post [of k data to "Err e" k']
  show "\<exists>j \<le> length data. ksent k' = ksent k @ take j data" by simp
next
  fix k to k' and data :: "byte list"
  assume "good k" "data \<noteq> []"
  with asio_write_post [of k data to Abort k'] show "tr_write_some (asio_transport tls A L) data to k \<noteq> Some (Abort, k')"
    by auto
next
  fix k fail to r k'
  assume "good k" and "tr_shutdown (asio_transport tls A L) fail to k = Some (r, k')"
  with asio_shutdown_post [of k tls fail to r k'] show "r \<noteq> Abort \<and> good k' \<and> ksent k' = ksent k" by simp
next
  fix k fail r k'
  assume "good k" and "tr_close (asio_transport tls A L) fail k = Some (r, k')"
  with close_ok [of k] show "r \<noteq> Abort \<and> ksent k' = ksent k" by (auto simp: asio_close_def split: prod.splits if_splits)
qed

end

sublocale asio_streams \<subseteq> asio: lossy_socket "asio_transport tls A L" good kpend ksent for tls
  by (rule asio_stream)

subsection \<open>A scripted asio\<close>

text \<open>
  A failure with errno 110 is the timer that fires first, after a write has sent one byte; one with 125 a
  cancelled operation. When the timer is \<open>late\<close>, the read it races has got one byte by then. \<open>async_write\<close> sends everything when the script does not say otherwise.
\<close>

definition script_asio :: "bool \<Rightarrow> script_state asio" where
  "script_asio late =
     \<lparr>a_now = (\<lambda>k. (0, k)), a_errno = ss_errno, a_message = (\<lambda>ec. ''error''), a_native_handle = (\<lambda>k. 7),
      a_expires_after = (\<lambda>tm ms k. k), a_cancel_timer = (\<lambda>tm k. k),
      a_available = (\<lambda>k. ((length (ss_in k), Ec_none), k)),
      a_read_or_timer = (\<lambda>n k. case next_call k of
          (Fails e, k) \<Rightarrow>
            if e = 110 \<and> late \<and> ss_in k \<noteq> []
            then Some ((1, Ec_none, [hd (ss_in k)]), k\<lparr>ss_in := tl (ss_in k)\<rparr>)
            else Some ((if e = 110 then (1, Operation_aborted, [])
                        else (0, if e = 125 then Operation_aborted else Ec_other e, [])), k)
        | (Moves m, k) \<Rightarrow> (let xs = take (min n (max 1 m)) (ss_in k)
            in Some ((0, if xs = [] then Ec_eof else Ec_none, xs), k\<lparr>ss_in := drop (length xs) (ss_in k)\<rparr>))),
      a_write_or_timer = (\<lambda>data k. case next_call k of
          (Fails e, k) \<Rightarrow> Some ((if e = 110 then 1 else 0, if e = 125 then Operation_aborted else Ec_other e, 0),
                              k\<lparr>ss_out := ss_out k @ take 1 data\<rparr>)
        | (Moves m, k) \<Rightarrow> Some ((0, Ec_none, length data), k\<lparr>ss_out := ss_out k @ data\<rparr>)),
      a_cancel = (\<lambda>k. (Ec_none, k)),
      a_shutdown_or_timer = (\<lambda>k. case next_call k of
          (Fails e, k) \<Rightarrow> Some ((if e = 110 then (1, Operation_aborted) else (0, Ec_other e)), k)
        | (Moves m, k) \<Rightarrow> Some ((0, Ec_none), k)),
      a_tcp_shutdown = (\<lambda>k. (Ec_none, k)), a_close = (\<lambda>k. (Ec_none, k))\<rparr>"

interpretation script_late: asio_streams "script_asio late" script_openssl "\<lambda>_. True" ss_in ss_out for late
proof unfold_locales
  fix k n i ec xs k'
  assume "(0 :: nat) < n" and "a_read_or_timer (script_asio late) n k = Some ((i, ec, xs), k')"
  then show "True \<and> ss_out k' = ss_out k \<and>
      (if ec = Ec_none then xs \<noteq> [] \<and> length xs \<le> n \<and> ss_in k = xs @ ss_in k' else ss_in k' = ss_in k)"
    by (auto simp: script_asio_def Let_def min_def split: prod.splits call.splits if_splits dest: next_call_data)
next
  fix k data i ec m k'
  assume "data \<noteq> []" and "a_write_or_timer (script_asio late) data k = Some ((i, ec, m), k')"
  then show "if ec = Ec_none then True \<and> ss_in k' = ss_in k \<and> m = length data \<and> ss_out k' = ss_out k @ data
       else \<exists>j \<le> length data. ss_out k' = ss_out k @ take j data"
    by (auto simp: script_asio_def split: prod.splits call.splits if_splits dest: next_call_data
        intro!: exI [of _ "Suc 0"] simp: Suc_le_eq)
qed (auto simp: script_asio_def script_openssl_def split: prod.splits call.splits if_splits dest: next_call_data)

text \<open>
  When \<open>async_shutdown\<close> is too slow it is cancelled, its error code says so, and \<open>shutdown\<close> returns that error
  before the TCP connection is shut down.
\<close>

lemma asio_shutdown_timeout:
  assumes "a_cancel A k = (Ec_none, k0)" and "remaining (a_now A) to k0 = (ms, k1)"
    and "a_shutdown_or_timer A (o_clear_error L (a_expires_after A Shutdown_timer ms k1)) = Some ((1, Operation_aborted), k2)"
  shows "asio_shutdown True A L False to k =
    Some (Err (ec_failure A Operation_aborted), a_cancel_timer A Shutdown_timer k2)"
  using assms by (simp add: asio_shutdown_def asio_tls_shutdown_def ws_try_simps)

subsection \<open>Properties\<close>

text \<open>
  C16: What the client may rely on of the asio socket, as plain socket and as TLS stream, over an asio that
  behaves as documented: a read that succeeds delivers the next bytes of the stream, at most as many as
  asked for; one that fails by an error or by cancellation loses nothing; one that times out loses at most
  the bytes that this read had received (which happens, see \<open>asio_read_loses_bytes\<close>). A write that succeeds
  has sent everything; one that fails has sent a prefix of its data, and nothing is promised after it.
  Shutting down and closing send no data.
\<close>

theorem asio_is_lossy_socket:
  assumes "asio_streams A L good kpend ksent"
  shows "lossy_socket (asio_transport tls A L) good kpend ksent"
  using asio_streams.asio_stream [OF assms] .

theorem asio_is_lossy_socket_witness:
  "let k = \<lparr>ss_in = [1, 2, 3], ss_out = [9], ss_calls = [Fails 110, Moves 2, Fails 110], ss_errno = 0\<rparr>;
       to = \<lparr>to_start = 0, to_timeout = 5\<rparr>
   in \<exists>k1 k2 k3. asio_read_some (script_asio False) 4 to k =
        Some (Err (transport_text Timeout_error ''Read timed out''), k1) \<and>
      asio_read_some (script_asio False) 4 to k1 = Some (Ok [1, 2], k2) \<and> ss_in k1 = [1, 2] @ ss_in k2 \<and>
      asio_write_some (script_asio False) [5, 6] to k2 = Some (Err (transport_text Timeout_error ''Write timed out''), k3) \<and>
      ss_out k3 = [9, 5]"
proof -
  let ?to = "\<lparr>to_start = 0, to_timeout = 5\<rparr>"
  let ?k = "\<lparr>ss_in = [1, 2, 3], ss_out = [9], ss_calls = [Fails 110, Moves 2, Fails 110], ss_errno = 0\<rparr>"
  let ?k1 = "\<lparr>ss_in = [1, 2, 3], ss_out = [9], ss_calls = [Moves 2, Fails 110], ss_errno = 0\<rparr>"
  let ?k2 = "\<lparr>ss_in = [3], ss_out = [9], ss_calls = [Fails 110], ss_errno = 0\<rparr>"
  let ?k3 = "\<lparr>ss_in = [3], ss_out = [9, 5], ss_calls = [], ss_errno = 0\<rparr>"
  have run: "asio_read_some (script_asio False) 4 ?to ?k = Some (Err (transport_text Timeout_error ''Read timed out''), ?k1)"
    "asio_read_some (script_asio False) 4 ?to ?k1 = Some (Ok [1, 2], ?k2)"
    "asio_write_some (script_asio False) [5, 6] ?to ?k2 = Some (Err (transport_text Timeout_error ''Write timed out''), ?k3)"
    by code_simp+
  from lossy_socket.read_ok [OF asio_is_lossy_socket [OF script_late.asio_streams_axioms, of False True],
      where s = ?k1 and n = 4 and to = ?to and xs = "[1, 2]" and s' = ?k2]
    run(2) have "ss_in ?k1 = [1, 2] @ ss_in ?k2" by simp
  moreover have "ss_out ?k3 = [9, 5]" by simp
  ultimately show ?thesis using run unfolding Let_def by blast
qed

text \<open>
  C17: When the timer is first but the bytes have arrived as well, before the read could be cancelled,
  \<open>read_some\<close> returns a timeout without looking at the error code of the read: the bytes are gone from the
  stream, and a client that reads on after the timeout continues in the middle of a frame.
\<close>

theorem asio_read_loses_bytes:
  assumes "asio_streams A L good kpend ksent" and "good k" and "0 < n"
    and "remaining (a_now A) to k = (ms, k1)"
    and "a_read_or_timer A n (a_expires_after A Read_timer ms k1) = Some ((1, Ec_none, xs), k2)"
  shows "\<exists>k'. asio_read_some A n to k = Some (Err (transport_text Timeout_error ''Read timed out''), k') \<and>
    xs \<noteq> [] \<and> kpend k = xs @ kpend k'"
proof -
  note arm = asio_streams.armed [OF assms(1,2,4), of Read_timer]
  from asio_streams.read_ok [OF assms(1) arm(1) assms(3,5)]
  have xs: "good k2" "xs \<noteq> []" "kpend k = xs @ kpend k2" using arm(2) by simp_all
  have "asio_read_some A n to k =
      Some (Err (transport_text Timeout_error ''Read timed out''), a_cancel_timer A Read_timer k2)"
    using assms(4,5) by (simp add: asio_read_some_def asio_outcome_def)
  with xs asio_streams.timer_ok(2) [OF assms(1) xs(1), of Read_timer] show ?thesis by auto
qed

theorem asio_read_loses_bytes_witness:
  "let k = \<lparr>ss_in = [1, 2, 3], ss_out = [], ss_calls = [Fails 110], ss_errno = 0\<rparr>;
       to = \<lparr>to_start = 0, to_timeout = 5\<rparr>
   in \<exists>k'. asio_read_some (script_asio True) 4 to k =
        Some (Err (transport_text Timeout_error ''Read timed out''), k') \<and> ss_in k' = [2, 3]"
proof -
  let ?k = "\<lparr>ss_in = [1, 2, 3], ss_out = [], ss_calls = [Fails 110], ss_errno = 0\<rparr>"
  let ?k1 = "\<lparr>ss_in = [2, 3], ss_out = [], ss_calls = [], ss_errno = 0\<rparr>"
  let ?to = "\<lparr>to_start = 0, to_timeout = 5\<rparr>"
  have "remaining (a_now (script_asio True)) ?to ?k = (5, ?k)"
    "a_read_or_timer (script_asio True) 4 (a_expires_after (script_asio True) Read_timer 5 ?k) =
      Some ((1, Ec_none, [1]), ?k1)" by code_simp+
  from asio_read_loses_bytes [OF script_late.asio_streams_axioms TrueI _ this]
  show ?thesis by (auto simp: Let_def)
qed

end
