(* ===== verification/Coroio_Socket.thy ===== *)
theory Coroio_Socket
  imports Tcp_Socket
begin

section \<open>The coroio socket (transport/CoroioSocket.hpp)\<close>

text \<open>
  \<open>CoroioSocket\<close> over the sockets of the coroio library, its template parameter, which are a record of
  operations: a coroutine returns a number, with the bytes that a read stored, or throws an exception with a
  text (\<open>Inl\<close>). The functions store the number in an \<open>int\<close> and cast that to \<open>size_t\<close>. None of them uses
  its timeout. The record is filled by \<open>tsocket\<close> below, the model of coroio's plain socket \<open>TSocket\<close>
  (coroio/socket.hpp and socket.cpp), over the kernel of \<open>Tcp_Socket\<close>. Its TLS socket (\<open>TSslSocket\<close>,
  coroio/ssl.hpp) is not modelled, and does not keep the contract below: its \<open>WriteSome\<close> loops, and may
  throw after a part of the data was sent.
\<close>

record 'k coroio =
  c_now :: "'k clock"
  c_read_some :: "nat \<Rightarrow> 'k \<Rightarrow> ((string + int \<times> byte list) \<times> 'k) option"
  c_write_some :: "byte list \<Rightarrow> 'k \<Rightarrow> ((string + int) \<times> 'k) option"
  c_close :: "'k \<Rightarrow> (string + unit) \<times> 'k"

definition to_int :: "int \<Rightarrow> int" where
  "to_int n = sint (word_of_int n :: 32 word)"

definition to_size :: "int \<Rightarrow> nat" where
  "to_size n = unat (word_of_int n :: u64)"

lemma to_int_id: "- (2 ^ 31) \<le> n \<Longrightarrow> n < 2 ^ 31 \<Longrightarrow> to_int n = n"
  by (simp add: to_int_def signed_of_int signed_take_bit_int_eq_self)

lemma to_size_nat:
  assumes "0 \<le> n" and "n < 2 ^ 31"
  shows "to_size n = nat n"
proof -
  obtain m where m: "n = int m" using assms(1) nonneg_int_cases by blast
  then have "m < 2 ^ 64" using assms(2) by simp
  then show ?thesis by (simp add: to_size_def m unat_of_nat take_bit_nat_eq_self)
qed

subsection \<open>The operations\<close>

definition thrown :: "string \<Rightarrow> 'r ws_result" where
  "thrown what = Err (transport_text Transport_error what)"

definition coroio_read_some :: "'k coroio \<Rightarrow> nat \<Rightarrow> timeout \<Rightarrow> ('k, byte list) ws" where
  "coroio_read_some C n to k =
     (case c_read_some C n k of
        None \<Rightarrow> None
      | Some (Inl what, k) \<Rightarrow> Some (thrown what, k)
      | Some (Inr (ret, xs), k) \<Rightarrow>
          (let n = to_int ret
           in Some (if n = 0 then Err (transport_text Connection_closed ''Connection closed by peer'')
                    else if n = -1 then Err (transport_text Transport_error ''Read error'')
                    else Ok (take (to_size n) xs), k)))"

definition coroio_write_some :: "'k coroio \<Rightarrow> byte list \<Rightarrow> timeout \<Rightarrow> ('k, nat) ws" where
  "coroio_write_some C data to k =
     (case c_write_some C data k of
        None \<Rightarrow> None
      | Some (Inl what, k) \<Rightarrow> Some (thrown what, k)
      | Some (Inr ret, k) \<Rightarrow>
          (let n = to_int ret
           in Some (if n = 0 then Err (transport_text Connection_closed ''Connection closed by peer'')
                    else if n = -1 then Err (transport_text Transport_error ''Read error'')
                    else Ok (to_size n), k)))"

definition coroio_shutdown :: "bool \<Rightarrow> timeout \<Rightarrow> ('k, unit) ws" where
  "coroio_shutdown fail_connection to = ws_return ()"

definition coroio_close :: "'k coroio \<Rightarrow> bool \<Rightarrow> ('k, unit) ws" where
  "coroio_close C fail_connection k =
     (case c_close C k of
        (Inl what, k) \<Rightarrow> Some (thrown what, k)
      | (Inr u, k) \<Rightarrow> Some (Ok (), k))"

text \<open>
  The class has neither \<open>wait_readable\<close> nor the \<open>can_read\<close> of its base class; the field of the record, which the
  asynchronous client does not use, says that nothing is ready.
\<close>

definition coroio_transport :: "'k coroio \<Rightarrow> 'k transport" where
  "coroio_transport C =
     \<lparr>tr_now = c_now C, tr_read_some = coroio_read_some C, tr_write_some = coroio_write_some C,
      tr_wait_readable = (\<lambda>to. ws_return False), tr_shutdown = coroio_shutdown, tr_close = coroio_close C\<rparr>"

lemma coroio_transport_sel [simp]:
  "tr_now (coroio_transport C) = c_now C" "tr_read_some (coroio_transport C) = coroio_read_some C"
  "tr_write_some (coroio_transport C) = coroio_write_some C" "tr_shutdown (coroio_transport C) = coroio_shutdown"
  "tr_close (coroio_transport C) = coroio_close C"
  by (simp_all add: coroio_transport_def)

text \<open>Whatever the library returns, a write of nothing is an error.\<close>

lemma to_size_nonzero:
  assumes "to_int ret \<noteq> 0"
  shows "to_size (to_int ret) \<noteq> 0"
proof
  let ?n = "sint (word_of_int ret :: 32 word)"
  assume "to_size (to_int ret) = 0"
  then have "(word_of_int ?n :: u64) = 0" unfolding to_size_def to_int_def by (simp only: unat_eq_0)
  then have "2 ^ 64 dvd ?n" unfolding word_of_int_eq_0_iff by simp
  moreover have "\<bar>?n\<bar> < 2 ^ 64"
    using sint_greater_eq [of "word_of_int ret :: 32 word"] sint_less [of "word_of_int ret :: 32 word"] by simp
  ultimately show False using assms dvd_imp_le_int [of ?n "2 ^ 64"] by (auto simp: to_int_def)
qed

lemma coroio_never_writes_zero: "never_writes_zero (coroio_transport C)"
  using to_size_nonzero
  by (auto simp: never_writes_zero_def coroio_write_some_def thrown_def Let_def split: option.splits sum.splits if_splits)

subsection \<open>The plain socket of coroio (coroio/socket.hpp)\<close>

text \<open>
  What surrounds the system calls: what happens between the suspension of a coroutine that waits for the
  descriptor (to write, or to read) and its resumption (the other coroutines, the poller; \<open>None\<close> when it
  is never resumed), the removal of a descriptor from the poller, and the text of an error number.
\<close>

record 'k event_loop =
  el_await :: "bool \<Rightarrow> int \<Rightarrow> 'k \<Rightarrow> 'k option"
  el_remove :: "int \<Rightarrow> 'k \<Rightarrow> 'k"
  el_strerror :: "int \<Rightarrow> string"

text \<open>\<open>TAwaitable::SafeRun\<close>, its result and the bytes it stored; other errors than these three are thrown.\<close>

definition safe_run ::
  "'k kernel \<Rightarrow> 'k event_loop \<Rightarrow> ('k \<Rightarrow> (int \<times> 'r) \<times> 'k) \<Rightarrow> 'k \<Rightarrow> (string + int \<times> 'r) \<times> 'k" where
  "safe_run K V run k =
     (let ((ret, xs), k) = run k; ret = to_int ret; errno = k_errno K k
      in if ret < 0 \<and> \<not> (errno = EINTR \<or> errno = EAGAIN \<or> errno = EINPROGRESS)
         then (Inl (el_strerror V errno), k) else (Inr (ret, xs), k))"

text \<open>
  \<open>co_await\<close> on it: \<open>await_ready\<close> tries at once, a call that would block suspends the coroutine, and
  \<open>await_resume\<close> tries once more, whatever comes of it.
\<close>

definition await_run ::
  "'k kernel \<Rightarrow> 'k event_loop \<Rightarrow> ('k \<Rightarrow> (int \<times> 'r) \<times> 'k) \<Rightarrow> ('k \<Rightarrow> 'k option) \<Rightarrow> 'k \<Rightarrow>
     ((string + int \<times> 'r) \<times> 'k) option" where
  "await_run K V run suspend k =
     (case safe_run K V run k of
        (Inl what, k) \<Rightarrow> Some (Inl what, k)
      | (Inr (ret, xs), k) \<Rightarrow>
          if ret \<ge> 0 then Some (Inr (ret, xs), k)
          else (case suspend k of None \<Rightarrow> None | Some k \<Rightarrow> Some (safe_run K V run k)))"

definition tsocket_read_some ::
  "'k kernel \<Rightarrow> 'k event_loop \<Rightarrow> int \<Rightarrow> nat \<Rightarrow> 'k \<Rightarrow> ((string + int \<times> byte list) \<times> 'k) option" where
  "tsocket_read_some K V fd n = await_run K V (k_recv K fd n) (el_await V False fd)"

definition tsocket_write_some ::
  "'k kernel \<Rightarrow> 'k event_loop \<Rightarrow> int \<Rightarrow> byte list \<Rightarrow> 'k \<Rightarrow> ((string + int) \<times> 'k) option" where
  "tsocket_write_some K V fd data k =
     (case await_run K V (\<lambda>k. let (ret, k) = k_send K fd data k in ((ret, ()), k)) (el_await V True fd) k of
        None \<Rightarrow> None
      | Some (r, k) \<Rightarrow> Some (map_sum id fst r, k))"

text \<open>\<open>Close\<close> keeps the number of the descriptor it has closed.\<close>

definition tsocket_close :: "'k kernel \<Rightarrow> 'k event_loop \<Rightarrow> int \<Rightarrow> 'k \<Rightarrow> (string + unit) \<times> 'k" where
  "tsocket_close K V fd k = (Inr (), if fd \<ge> 0 then el_remove V fd (snd (k_close K fd k)) else k)"

definition tsocket :: "'k kernel \<Rightarrow> 'k event_loop \<Rightarrow> int \<Rightarrow> 'k coroio" where
  "tsocket K V fd =
     \<lparr>c_now = k_now K, c_read_some = tsocket_read_some K V fd, c_write_some = tsocket_write_some K V fd,
      c_close = tsocket_close K V fd\<rparr>"

lemma tsocket_sel [simp]:
  "c_now (tsocket K V fd) = k_now K" "c_read_some (tsocket K V fd) = tsocket_read_some K V fd"
  "c_write_some (tsocket K V fd) = tsocket_write_some K V fd" "c_close (tsocket K V fd) = tsocket_close K V fd"
  by (simp_all add: tsocket_def)

subsection \<open>The contract of a coroio socket, and what \<open>CoroioSocket\<close> promises then\<close>

text \<open>
  A call moves the bytes it says (fewer than \<open>2 ^ 31\<close>, the most that one system call moves), or returns 0
  or \<open>-1\<close>, or throws, and then it moves none.
\<close>

locale coroio_streams =
  fixes C :: "'k coroio" and good :: "'k \<Rightarrow> bool" and kpend ksent :: "'k \<Rightarrow> byte list"
  assumes now_ok: "good k \<Longrightarrow> c_now C k = (t, k') \<Longrightarrow> good k' \<and> kpend k' = kpend k \<and> ksent k' = ksent k"
    and read_ok: "good k \<Longrightarrow> 0 < n \<Longrightarrow> c_read_some C n k = Some (r, k') \<Longrightarrow>
      good k' \<and> ksent k' = ksent k \<and>
      (case r of
         Inr (ret, xs) \<Rightarrow> -1 \<le> ret \<and> ret < 2 ^ 31 \<and>
           (if ret > 0 then ret = int (length xs) \<and> length xs \<le> n \<and> kpend k = xs @ kpend k' else kpend k' = kpend k)
       | Inl what \<Rightarrow> kpend k' = kpend k)"
    and write_ok: "good k \<Longrightarrow> data \<noteq> [] \<Longrightarrow> c_write_some C data k = Some (w, k') \<Longrightarrow>
      good k' \<and> kpend k' = kpend k \<and>
      (case w of
         Inr ret \<Rightarrow> -1 \<le> ret \<and> ret < 2 ^ 31 \<and>
           (if ret > 0 then ret \<le> int (length data) \<and> ksent k' = ksent k @ take (nat ret) data else ksent k' = ksent k)
       | Inl what \<Rightarrow> ksent k' = ksent k)"
    and close_ok: "good k \<Longrightarrow> c_close C k = (u, k') \<Longrightarrow> ksent k' = ksent k"
begin

lemma coroio_read_post:
  assumes "good k" and "0 < n" and "coroio_read_some C n to k = Some (r, k')"
  shows "good k' \<and> ksent k' = ksent k \<and>
    (case r of Ok xs \<Rightarrow> xs \<noteq> [] \<and> length xs \<le> n \<and> kpend k = xs @ kpend k' | Err e \<Rightarrow> kpend k' = kpend k | Abort \<Rightarrow> False)"
proof -
  from assms(3) obtain x where run: "c_read_some C n k = Some (x, k')"
    by (auto simp: coroio_read_some_def Let_def split: option.splits sum.splits prod.splits)
  note ok = read_ok [OF assms(1,2) run]
  show ?thesis
  proof (cases x)
    case (Inl what)
    with assms(3) run ok show ?thesis by (auto simp: coroio_read_some_def thrown_def)
  next
    case (Inr p)
    obtain ret xs where p: "p = (ret, xs)" by fastforce
    with ok Inr have i: "-1 \<le> ret" "ret < 2 ^ 31" "to_int ret = ret" using to_int_id [of ret] by auto
    show ?thesis
    proof (cases "ret > 0")
      case True
      with assms(3) run Inr p i to_size_nat [of ret] ok show ?thesis
        by (auto simp: coroio_read_some_def Let_def)
    next
      case False
      with i(1) have "ret = 0 \<or> ret = -1" by auto
      with assms(3) run Inr p i ok show ?thesis by (auto simp: coroio_read_some_def Let_def)
    qed
  qed
qed

lemma coroio_write_post:
  assumes "good k" and "data \<noteq> []" and "coroio_write_some C data to k = Some (r, k')"
  shows "good k' \<and> kpend k' = kpend k \<and>
    (case r of Ok m \<Rightarrow> 0 < m \<and> m \<le> length data \<and> ksent k' = ksent k @ take m data
       | Err e \<Rightarrow> ksent k' = ksent k | Abort \<Rightarrow> False)"
proof -
  from assms(3) obtain x where run: "c_write_some C data k = Some (x, k')"
    by (auto simp: coroio_write_some_def Let_def split: option.splits sum.splits)
  note ok = write_ok [OF assms(1,2) run]
  show ?thesis
  proof (cases x)
    case (Inl what)
    with assms(3) run ok show ?thesis by (auto simp: coroio_write_some_def thrown_def)
  next
    case (Inr ret)
    with ok have i: "-1 \<le> ret" "ret < 2 ^ 31" "to_int ret = ret" using to_int_id [of ret] by auto
    show ?thesis
    proof (cases "ret > 0")
      case True
      with assms(3) run Inr i to_size_nat [of ret] ok show ?thesis
        by (auto simp: coroio_write_some_def Let_def)
    next
      case False
      with i(1) have "ret = 0 \<or> ret = -1" by auto
      with assms(3) run Inr i ok show ?thesis by (auto simp: coroio_write_some_def Let_def)
    qed
  qed
qed

end

context coroio_streams
begin

lemma coroio_strict: "strict_socket (coroio_transport C) good kpend ksent"
proof unfold_locales
  fix k t k'
  assume "good k" and "tr_now (coroio_transport C) k = (t, k')"
  then show "good k' \<and> kpend k' = kpend k \<and> ksent k' = ksent k" using now_ok [of k t k'] by simp
next
  fix k n to xs k'
  assume "good k" "0 < n" "tr_read_some (coroio_transport C) n to k = Some (Ok xs, k')"
  with coroio_read_post [of k n to "Ok xs" k']
  show "good k' \<and> xs \<noteq> [] \<and> length xs \<le> n \<and> kpend k = xs @ kpend k' \<and> ksent k' = ksent k" by simp
next
  fix k n to e k'
  assume "good k" "0 < n" "tr_read_some (coroio_transport C) n to k = Some (Err e, k')"
  with coroio_read_post [of k n to "Err e" k'] show "good k' \<and> kpend k' = kpend k \<and> ksent k' = ksent k" by simp
next
  fix k n to k'
  assume "good k" "(0 :: nat) < n"
  with coroio_read_post [of k n to Abort k'] show "tr_read_some (coroio_transport C) n to k \<noteq> Some (Abort, k')" by auto
next
  fix k data to m k'
  assume "good k" "data \<noteq> []" "tr_write_some (coroio_transport C) data to k = Some (Ok m, k')"
  with coroio_write_post [of k data to "Ok m" k']
  show "good k' \<and> 0 < m \<and> m \<le> length data \<and> kpend k' = kpend k \<and> ksent k' = ksent k @ take m data" by simp
next
  fix k data to e k'
  assume "good k" "data \<noteq> []" "tr_write_some (coroio_transport C) data to k = Some (Err e, k')"
  with coroio_write_post [of k data to "Err e" k']
  show "good k' \<and> kpend k' = kpend k \<and> ksent k' = ksent k"
    and "\<exists>j \<le> length data. good k' \<and> kpend k' = kpend k \<and> ksent k' = ksent k @ take j data"
    by (auto intro!: exI [of _ 0])
next
  fix k to k' and data :: "byte list"
  assume "good k" "data \<noteq> []"
  with coroio_write_post [of k data to Abort k'] show "tr_write_some (coroio_transport C) data to k \<noteq> Some (Abort, k')"
    by auto
next
  fix k fail to r k'
  assume "good k" and "tr_shutdown (coroio_transport C) fail to k = Some (r, k')"
  then show "r \<noteq> Abort \<and> good k' \<and> ksent k' = ksent k" by (auto simp: coroio_shutdown_def)
next
  fix k fail r k'
  assume "good k" and "tr_close (coroio_transport C) fail k = Some (r, k')"
  with close_ok [of k] show "r \<noteq> Abort \<and> ksent k' = ksent k"
    by (auto simp: coroio_close_def thrown_def split: prod.splits sum.splits)
qed

end

sublocale coroio_streams \<subseteq> coroio: strict_socket "coroio_transport C" good kpend ksent
  by (rule coroio_strict)

subsection \<open>\<open>TSocket\<close> keeps it\<close>

text \<open>
  The kernel of the other sockets, of which a call moves fewer than \<open>2 ^ 31\<close> bytes (Linux moves at most
  0x7ffff000) and reports failure as \<open>-1\<close>, and an event loop in which nobody else uses this connection
  while a coroutine waits for it. The descriptor may be any.
\<close>

locale coroio_kernel = kernel_streams K fd good kpend ksent
  for K :: "'k kernel" and fd :: int and good :: "'k \<Rightarrow> bool" and kpend ksent :: "'k \<Rightarrow> byte list" +
  fixes V :: "'k event_loop"
  assumes recv_range: "good k \<Longrightarrow> k_recv K fd n k = ((ret, xs), k') \<Longrightarrow> -1 \<le> ret \<and> ret < 2 ^ 31"
    and send_range: "good k \<Longrightarrow> k_send K fd data k = (ret, k') \<Longrightarrow> -1 \<le> ret \<and> ret < 2 ^ 31"
    and await_ok: "good k \<Longrightarrow> el_await V w fd k = Some k' \<Longrightarrow> good k' \<and> kpend k' = kpend k \<and> ksent k' = ksent k"
    and remove_ok: "ksent (el_remove V fd k) = ksent k"
begin

text \<open>One more relation than the outcome of the last attempt: nothing had moved before it.\<close>

lemma await_run_cases:
  assumes "await_run K V run suspend k = Some (r, k')" and "good k"
    and run: "\<And>k ret xs k'. good k \<Longrightarrow> run k = ((ret, xs), k') \<Longrightarrow>
      -1 \<le> ret \<and> ret < 2 ^ 31 \<and> good k' \<and> (ret \<le> 0 \<longrightarrow> kpend k' = kpend k \<and> ksent k' = ksent k)"
    and suspend: "\<And>k k'. good k \<Longrightarrow> suspend k = Some k' \<Longrightarrow> good k' \<and> kpend k' = kpend k \<and> ksent k' = ksent k"
  obtains k1 ret xs where "good k1" "kpend k1 = kpend k" "ksent k1 = ksent k" "run k1 = ((ret, xs), k')"
    "r = Inr (ret, xs) \<or> ret = -1 \<and> (\<exists>what. r = Inl what)"
proof -
  have step: "\<exists>ret xs. run k = ((ret, xs), k') \<and> (r = Inr (ret, xs) \<or> ret = -1 \<and> (\<exists>what. r = Inl what))"
    if g: "good k" and s: "safe_run K V run k = (r, k')" for k r k'
  proof -
    obtain ret xs k2 where e: "run k = ((ret, xs), k2)" by (metis surj_pair)
    from run [OF g e] have "to_int ret = ret" "-1 \<le> ret" using to_int_id [of ret] by simp_all
    with s e show ?thesis by (auto simp: safe_run_def Let_def split: if_splits)
  qed
  obtain r1 k1 where s1: "safe_run K V run k = (r1, k1)" by fastforce
  from step [OF assms(2) s1] obtain ret xs where first: "run k = ((ret, xs), k1)"
    "r1 = Inr (ret, xs) \<or> ret = -1 \<and> (\<exists>what. r1 = Inl what)" by blast
  show thesis
  proof (cases "r1 = Inr (ret, xs) \<and> ret < 0")
    case False
    with assms(1) s1 first(2) have "r = r1 \<and> k' = k1" by (auto simp: await_run_def)
    with first assms(2) show thesis by (intro that [of k]) auto
  next
    case True
    with assms(1) s1 obtain k2 where k2: "suspend k1 = Some k2" "safe_run K V run k2 = (r, k')"
      by (auto simp: await_run_def split: option.splits)
    from run [OF assms(2) first(1)] True suspend [OF _ k2(1)]
    have g: "good k2" "kpend k2 = kpend k" "ksent k2 = ksent k" by auto
    from step [OF g(1) k2(2)] g show thesis by (auto intro: that)
  qed
qed

lemma tsocket_read_post:
  assumes "good k" and "0 < n" and "tsocket_read_some K V fd n k = Some (r, k')"
  shows "good k' \<and> ksent k' = ksent k \<and>
      (case r of
         Inr (ret, xs) \<Rightarrow> -1 \<le> ret \<and> ret < 2 ^ 31 \<and>
           (if ret > 0 then ret = int (length xs) \<and> length xs \<le> n \<and> kpend k = xs @ kpend k' else kpend k' = kpend k)
       | Inl what \<Rightarrow> kpend k' = kpend k)"
proof (rule await_run_cases [OF assms(3) [unfolded tsocket_read_some_def] assms(1)])
  fix k1 ret xs
  assume k1: "good k1" "kpend k1 = kpend k" "ksent k1 = ksent k" "k_recv K fd n k1 = ((ret, xs), k')"
    and r: "r = Inr (ret, xs) \<or> ret = -1 \<and> (\<exists>what. r = Inl what)"
  from k_recv_ok [OF k1(1) assms(2) k1(4)] recv_range [OF k1(1,4)] k1(2,3) r show ?thesis
    by (auto split: if_splits)
next
  fix k ret xs k'
  assume "good k" and "k_recv K fd n k = ((ret, xs), k')"
  from k_recv_ok [OF this(1) assms(2) this(2)] recv_range [OF this]
  show "-1 \<le> ret \<and> ret < 2 ^ 31 \<and> good k' \<and> (ret \<le> 0 \<longrightarrow> kpend k' = kpend k \<and> ksent k' = ksent k)" by auto
qed (use await_ok in blast)

lemma tsocket_write_post:
  assumes "good k" and "data \<noteq> []" and "tsocket_write_some K V fd data k = Some (w, k')"
  shows "good k' \<and> kpend k' = kpend k \<and>
      (case w of
         Inr ret \<Rightarrow> -1 \<le> ret \<and> ret < 2 ^ 31 \<and>
           (if ret > 0 then ret \<le> int (length data) \<and> ksent k' = ksent k @ take (nat ret) data else ksent k' = ksent k)
       | Inl what \<Rightarrow> ksent k' = ksent k)"
proof -
  let ?run = "\<lambda>k. let (ret, k) = k_send K fd data k in ((ret, ()), k)"
  from assms(3) obtain r where run: "await_run K V ?run (el_await V True fd) k = Some (r, k')" and w: "w = map_sum id fst r"
    by (auto simp: tsocket_write_some_def split: option.splits)
  have send: "k_send K fd data k = (ret, k')" if "?run k = ((ret, u), k')" for k ret u k'
    using that by (simp split: prod.splits)
  show ?thesis
  proof (rule await_run_cases [OF run assms(1)])
    fix k1 ret u
    assume k1: "good k1" "kpend k1 = kpend k" "ksent k1 = ksent k" "?run k1 = ((ret, u), k')"
      and r: "r = Inr (ret, u) \<or> ret = -1 \<and> (\<exists>what. r = Inl what)"
    from k_send_ok [OF k1(1) assms(2) send [OF k1(4)]] send_range [OF k1(1) send [OF k1(4)]] k1(2,3) r w show ?thesis
      by (auto split: if_splits)
  next
    fix k ret u k'
    assume "good k" and "?run k = ((ret, u), k')"
    from k_send_ok [OF this(1) assms(2) send [OF this(2)]] send_range [OF this(1) send [OF this(2)]]
    show "-1 \<le> ret \<and> ret < 2 ^ 31 \<and> good k' \<and> (ret \<le> 0 \<longrightarrow> kpend k' = kpend k \<and> ksent k' = ksent k)" by auto
  qed (use await_ok in blast)
qed

end

sublocale coroio_kernel \<subseteq> tsocket: coroio_streams "tsocket K V fd" good kpend ksent
proof unfold_locales
  fix k t k'
  assume "good k" and "c_now (tsocket K V fd) k = (t, k')"
  with k_now_ok [of k t k'] show "good k' \<and> kpend k' = kpend k \<and> ksent k' = ksent k" by simp
next
  fix k u k'
  assume "good k" and "c_close (tsocket K V fd) k = (u, k')"
  with k_close_ok [of k] remove_ok show "ksent k' = ksent k"
    by (cases "k_close K fd k") (auto simp: tsocket_close_def)
next
  fix k n r k'
  assume "good k" "0 < n" "c_read_some (tsocket K V fd) n k = Some (r, k')"
  then show "good k' \<and> ksent k' = ksent k \<and>
      (case r of
         Inr (ret, xs) \<Rightarrow> -1 \<le> ret \<and> ret < 2 ^ 31 \<and>
           (if ret > 0 then ret = int (length xs) \<and> length xs \<le> n \<and> kpend k = xs @ kpend k' else kpend k' = kpend k)
       | Inl what \<Rightarrow> kpend k' = kpend k)"
    unfolding tsocket_sel by (rule tsocket_read_post)
next
  fix k data w k'
  assume "good k" "data \<noteq> []" "c_write_some (tsocket K V fd) data k = Some (w, k')"
  then show "good k' \<and> kpend k' = kpend k \<and>
      (case w of
         Inr ret \<Rightarrow> -1 \<le> ret \<and> ret < 2 ^ 31 \<and>
           (if ret > 0 then ret \<le> int (length data) \<and> ksent k' = ksent k @ take (nat ret) data else ksent k' = ksent k)
       | Inl what \<Rightarrow> ksent k' = ksent k)"
    unfolding tsocket_sel by (rule tsocket_write_post)
qed

context coroio_kernel
begin

lemma tsocket_strict: "strict_socket (coroio_transport (tsocket K V fd)) good kpend ksent"
  by (rule tsocket.coroio_strict)

end

subsection \<open>A scripted kernel for it\<close>

text \<open>The scripted kernel, at most 1024 bytes at a time, and an event loop that resumes at once.\<close>

definition small_kernel :: "script_state kernel" where
  "small_kernel = script_kernel
     \<lparr>k_recv := \<lambda>fd n. k_recv script_kernel fd (min n 1024), k_send := \<lambda>fd data. k_send script_kernel fd (take 1024 data)\<rparr>"

definition script_loop :: "script_state event_loop" where
  "script_loop =
     \<lparr>el_await = (\<lambda>w fd k. Some k), el_remove = (\<lambda>fd k. k),
      el_strerror = (\<lambda>e. if e = 110 then ''Connection timed out'' else ''error'')\<rparr>"

lemma small_kernel_sel [simp]:
  "k_recv small_kernel fd n = k_recv script_kernel fd (min n 1024)"
  "k_send small_kernel fd data = k_send script_kernel fd (take 1024 data)"
  "k_now small_kernel = k_now script_kernel" "k_select small_kernel = k_select script_kernel"
  "k_shutdown small_kernel = k_shutdown script_kernel" "k_close small_kernel = k_close script_kernel"
  by (simp_all add: small_kernel_def)

lemma script_results:
  "k_recv script_kernel fd n k = ((ret, xs), k') \<Longrightarrow> -1 \<le> ret \<and> ret \<le> int n"
  "k_send script_kernel fd data k = (ret, k') \<Longrightarrow> -1 \<le> ret \<and> ret \<le> int (length data)"
  by (auto simp: script_kernel_def Let_def split: prod.splits call.splits)

interpretation script_coroio: coroio_kernel small_kernel 3 "\<lambda>_. True" ss_in ss_out script_loop
proof unfold_locales
  fix k ret xs k' and n :: nat
  assume run: "k_recv small_kernel 3 n k = ((ret, xs), k')"
  from script_results(1) [OF run [unfolded small_kernel_sel]] show "-1 \<le> ret \<and> ret < 2 ^ 31" by (auto simp: min_def split: if_splits)
  assume "0 < n"
  then have "0 < min n 1024" by simp
  from script_recv [OF this run [unfolded small_kernel_sel]]
  show "True \<and> ss_out k' = ss_out k \<and>
      (if ret > 0 then ret = int (length xs) \<and> length xs \<le> n \<and> ss_in k = xs @ ss_in k' else ss_in k' = ss_in k)"
    by (auto split: if_splits)
next
  fix k ret k' and data :: "byte list"
  assume run: "k_send small_kernel 3 data k = (ret, k')"
  note range = script_results(2) [OF run [unfolded small_kernel_sel]]
  then show "-1 \<le> ret \<and> ret < 2 ^ 31" by (simp add: min_def split: if_splits)
  assume "data \<noteq> []"
  then have "take 1024 data \<noteq> []" by simp
  note sent = script_send [OF this run [unfolded small_kernel_sel]]
  from range have "nat ret \<le> 1024" "ret \<le> int (length data)" by (auto simp: min_def split: if_splits)
  then have "take (nat ret) (take 1024 data) = take (nat ret) data" by (simp add: min_absorb1)
  with sent \<open>ret \<le> int (length data)\<close>
  show "True \<and> ss_in k' = ss_in k \<and>
      (if ret > 0 then ret \<le> int (length data) \<and> ss_out k' = ss_out k @ take (nat ret) data else ss_out k' = ss_out k)"
    by (cases "ret > 0") simp_all
qed (simp_all add: script_kernel_def script_loop_def)

subsection \<open>Properties\<close>

text \<open>
  C18: \<open>CoroioSocket\<close> over coroio's plain socket (\<open>TSocket\<close>) keeps the contract of a transport, over a kernel
  that behaves as documented and moves fewer than \<open>2 ^ 31\<close> bytes per call, when nobody else uses the
  connection while the coroutine waits: a read delivers the next bytes of the stream or fails without
  losing one, a write has sent the prefix it reports or fails without sending any, through a suspension
  and the second attempt after it, in spite of the narrowing to \<open>int\<close>; an exception is an error of the
  call. The timeouts have no influence: a read returns when the event loop resumes it.
\<close>

theorem coroio_is_stream_socket:
  assumes "kernel_streams K fd good kpend ksent"
    and "\<And>n k ret xs k'. good k \<Longrightarrow> k_recv K fd n k = ((ret, xs), k') \<Longrightarrow> -1 \<le> ret \<and> ret < 2 ^ 31"
    and "\<And>data k ret k'. good k \<Longrightarrow> k_send K fd data k = (ret, k') \<Longrightarrow> -1 \<le> ret \<and> ret < 2 ^ 31"
    and "\<And>w k k'. good k \<Longrightarrow> el_await V w fd k = Some k' \<Longrightarrow> good k' \<and> kpend k' = kpend k \<and> ksent k' = ksent k"
    and "\<And>k. ksent (el_remove V fd k) = ksent k"
  shows "strict_socket (coroio_transport (tsocket K V fd)) good kpend ksent \<and>
    coroio_read_some (tsocket K V fd) n to k = coroio_read_some (tsocket K V fd) n to' k \<and>
    coroio_write_some (tsocket K V fd) data to k = coroio_write_some (tsocket K V fd) data to' k"
proof -
  have "coroio_kernel K fd good kpend ksent V"
    by (intro coroio_kernel.intro coroio_kernel_axioms.intro) (fact assms)+
  from coroio_kernel.tsocket_strict [OF this] show ?thesis by (simp add: coroio_read_some_def coroio_write_some_def)
qed

theorem coroio_is_stream_socket_witness:
  "let k = \<lparr>ss_in = [1, 2, 3], ss_out = [], ss_calls = [Fails EAGAIN, Fails 110, Fails EAGAIN, Moves 2], ss_errno = 0\<rparr>;
       to = \<lparr>to_start = 0, to_timeout = 5\<rparr>; C = tsocket small_kernel script_loop 3
   in \<exists>k1 k2. coroio_read_some C 4 to k = Some (Err (transport_text Transport_error ''Connection timed out''), k1) \<and>
      coroio_read_some C 4 to k1 = Some (Ok [1, 2], k2) \<and> ss_in k1 = [1, 2] @ ss_in k2"
proof -
  let ?to = "\<lparr>to_start = 0, to_timeout = 5\<rparr>" and ?C = "tsocket small_kernel script_loop 3"
  let ?k = "\<lparr>ss_in = [1, 2, 3], ss_out = [], ss_calls = [Fails EAGAIN, Fails 110, Fails EAGAIN, Moves 2], ss_errno = 0\<rparr>"
  let ?k1 = "\<lparr>ss_in = [1, 2, 3], ss_out = [], ss_calls = [Fails EAGAIN, Moves 2], ss_errno = 110\<rparr>"
  let ?k2 = "\<lparr>ss_in = [3], ss_out = [], ss_calls = [], ss_errno = EAGAIN\<rparr>"
  have run: "coroio_read_some ?C 4 ?to ?k = Some (Err (transport_text Transport_error ''Connection timed out''), ?k1)"
    "coroio_read_some ?C 4 ?to ?k1 = Some (Ok [1, 2], ?k2)"
    by code_simp+
  have "strict_socket (coroio_transport ?C) (\<lambda>_. True) ss_in ss_out"
    by (rule conjunct1 [OF coroio_is_stream_socket [OF script_coroio.kernel_streams_axioms script_coroio.recv_range
            script_coroio.send_range script_coroio.await_ok script_coroio.remove_ok]])
  from stream_socket.read_ok [OF strict_socket.axioms(1) [OF this],
      where s = ?k1 and n = 4 and to = ?to and xs = "[1, 2]" and s' = ?k2] run(2)
  have "ss_in ?k1 = [1, 2] @ ss_in ?k2" by simp
  with run show ?thesis unfolding Let_def by blast
qed

end
