(* ===== verification/Name_Resolution.thy ===== *)
theory Name_Resolution
  imports Bytes
begin

section \<open>Addresses and name resolution (AddressInfo.hpp, DnsResolver.hpp)\<close>

text \<open>
  An \<open>AddressInfo\<close> holds a \<open>sockaddr_storage\<close>, a block of 128 bytes, of which the first \<open>addrlen\<close> were
  copied from the resolver; in both families the port lies at offset 2, in network byte order. The
  resolver functions of the C library are parameters: \<open>getaddrinfo\<close> returns its code, the pointer of
  the list and the list; \<open>inet_ntop\<close> may fail; \<open>freeaddrinfo\<close> gives a list back. Copying more than a
  block holds is \<open>Abort\<close>. The macros have their Linux values. Logging is left out.
\<close>

datatype addr_type = Unspecified | Ipv4 | Ipv6

fun addr_type_to_string :: "addr_type \<Rightarrow> string" where
  "addr_type_to_string Unspecified = ''unspecified''"
| "addr_type_to_string Ipv4 = ''ipv4''"
| "addr_type_to_string Ipv6 = ''ipv6''"

definition AF_UNSPEC :: int where "AF_UNSPEC = 0"
definition AF_INET :: int where "AF_INET = 2"
definition AF_INET6 :: int where "AF_INET6 = 10"

lemmas families = AF_UNSPEC_def AF_INET_def AF_INET6_def

subsection \<open>Addresses\<close>

record address_info =
  adr_hostname :: string
  adr_ip :: string
  adr_type :: addr_type
  adr_family :: int
  adr_addrlen :: nat
  adr_address :: "byte list"
  adr_canonname :: string

definition sockaddr_storage_size :: nat where "sockaddr_storage_size = 128"

definition storage :: "(nat \<Rightarrow> byte) \<Rightarrow> byte list" where
  "storage junk = map junk [0..<sockaddr_storage_size]"

definition address_new ::
  "(nat \<Rightarrow> byte) \<Rightarrow> string \<Rightarrow> addr_type \<Rightarrow> string \<Rightarrow> int \<Rightarrow> nat \<Rightarrow> byte list \<Rightarrow> string \<Rightarrow> address_info ws_result"
where
  "address_new junk hostname type ip family addrlen addr canonname =
     (if addrlen > length addr \<or> addrlen > sockaddr_storage_size then Abort
      else Ok \<lparr>adr_hostname = hostname, adr_ip = ip, adr_type = type, adr_family = family,
               adr_addrlen = addrlen, adr_address = blit 0 (take addrlen addr) (storage junk),
               adr_canonname = canonname\<rparr>)"

text \<open>The move constructor: only the first \<open>addrlen\<close> bytes of the storage are copied.\<close>

definition address_move :: "(nat \<Rightarrow> byte) \<Rightarrow> address_info \<Rightarrow> address_info" where
  "address_move junk other =
     other\<lparr>adr_address := blit 0 (take (adr_addrlen other) (adr_address other)) (storage junk)\<rparr>"

definition set_port :: "endian \<Rightarrow> u16 \<Rightarrow> address_info \<Rightarrow> address_info" where
  "set_port e p a =
     (if adr_family a = AF_INET \<or> adr_family a = AF_INET6
      then a\<lparr>adr_address := blit 2 (mem_bytes e (host_to_network16 e p)) (adr_address a)\<rparr>
      else a)"

definition port :: "endian \<Rightarrow> address_info \<Rightarrow> int" where
  "port e a =
     (if adr_family a = AF_INET \<or> adr_family a = AF_INET6
      then uint (network_to_host16 e (from_mem e (subspan 2 2 (adr_address a))))
      else -1)"

definition address_ok :: "address_info \<Rightarrow> bool" where
  "address_ok a \<longleftrightarrow> length (adr_address a) = sockaddr_storage_size \<and> adr_addrlen a \<le> sockaddr_storage_size"

lemma length_storage [simp]: "length (storage junk) = sockaddr_storage_size"
  by (simp add: storage_def)

lemma address_new_ok:
  assumes "address_new junk h t ip fam n addr c = Ok a"
  shows "address_ok a" and "take n (adr_address a) = take n addr"
    and "adr_hostname a = h" "adr_type a = t" "adr_ip a = ip" "adr_family a = fam"
  using assms by (auto simp: address_new_def address_ok_def blit_def split: if_splits)

lemma port_network_order:
  assumes "address_ok a" and "adr_family a = AF_INET \<or> adr_family a = AF_INET6"
  shows "port e a = uint (be_word (subspan 2 2 (adr_address a)) :: u16)"
proof -
  from assms(1) have "length (subspan 2 2 (adr_address a)) = 2"
    by (simp add: address_ok_def sockaddr_storage_size_def subspan_def)
  with assms(2) show ?thesis by (simp add: port_def network_to_host16_mem)
qed

lemma port_set_port:
  assumes "address_ok a"
  shows "port e (set_port e' p a) =
    (if adr_family a = AF_INET \<or> adr_family a = AF_INET6 then uint p else -1)"
proof (cases "adr_family a = AF_INET \<or> adr_family a = AF_INET6")
  case True
  from assms have len: "2 + length (be_bytes p) \<le> length (adr_address a)"
    by (simp add: address_ok_def sockaddr_storage_size_def)
  then have "subspan 2 2 (blit 2 (be_bytes p) (adr_address a)) = be_bytes p"
    by (simp add: subspan_def blit_def)
  moreover from True have set: "set_port e' p a = a\<lparr>adr_address := blit 2 (be_bytes p) (adr_address a)\<rparr>"
    by (simp add: set_port_def mem_host_to_network16)
  moreover from assms len have "address_ok (set_port e' p a)" by (simp add: set address_ok_def)
  ultimately show ?thesis using True port_network_order [of "set_port e' p a" e]
    by (simp add: be_word_be_bytes)
qed (simp add: port_def set_port_def)

subsection \<open>The resolver\<close>

record addrinfo =
  ai_family :: int
  ai_addrlen :: nat
  ai_addr :: "byte list"
  ai_canonname :: "string option"

record 'k dns =
  d_getaddrinfo :: "string \<Rightarrow> string \<Rightarrow> int \<Rightarrow> bool \<Rightarrow> 'k \<Rightarrow> (int \<times> int \<times> addrinfo list) \<times> 'k"
  d_inet_ntop :: "int \<Rightarrow> byte list \<Rightarrow> 'k \<Rightarrow> string option \<times> 'k"
  d_freeaddrinfo :: "int \<Rightarrow> 'k \<Rightarrow> 'k"
  d_errno :: "'k \<Rightarrow> int"

fun hints_family :: "addr_type \<Rightarrow> int" where
  "hints_family Unspecified = AF_UNSPEC"
| "hints_family Ipv4 = AF_INET"
| "hints_family Ipv6 = AF_INET6"

text \<open>One entry in a family: the address bytes lie at \<open>off\<close> of the \<open>sockaddr\<close>.\<close>

definition resolve_entry ::
  "'k dns \<Rightarrow> (nat \<Rightarrow> byte) \<Rightarrow> string \<Rightarrow> addr_type \<Rightarrow> nat \<Rightarrow> nat \<Rightarrow> string \<Rightarrow> addrinfo \<Rightarrow> ('k, address_info) st"
where
  "resolve_entry D junk hostname t off len desc e k =
     (if length (ai_addr e) < off + len then (Abort, k)
      else let (ip, k) = d_inet_ntop D (ai_family e) (subspan off len (ai_addr e)) k
           in case ip of
                None \<Rightarrow> (Err (WSError Transport_error (Transport_msg (Msg_errno desc (d_errno D k))) not_set), k)
              | Some ip \<Rightarrow>
                  (address_new junk hostname t ip (ai_family e) (ai_addrlen e) (ai_addr e)
                     (case ai_canonname e of None \<Rightarrow> '''' | Some c \<Rightarrow> c), k))"

fun resolve_loop ::
  "'k dns \<Rightarrow> (nat \<Rightarrow> byte) \<Rightarrow> string \<Rightarrow> addr_type \<Rightarrow> addrinfo list \<Rightarrow> address_info list \<Rightarrow> ('k, address_info list) st"
where
  "resolve_loop D junk hostname type [] result k = (Ok result, k)"
| "resolve_loop D junk hostname type (e # es) result k =
     (if ai_family e = AF_INET \<and> (type = Ipv4 \<or> type = Unspecified)
      then st_try (resolve_entry D junk hostname Ipv4 4 4 ''Failed to convert IPv4 address to string'' e)
             (\<lambda>a. resolve_loop D junk hostname type es (result @ [a])) k
      else if ai_family e = AF_INET6 \<and> (type = Ipv6 \<or> type = Unspecified)
      then st_try (resolve_entry D junk hostname Ipv6 8 16 ''Failed to convert IPv6 address to string'' e)
             (\<lambda>a. resolve_loop D junk hostname type es (result @ [a])) k
      else resolve_loop D junk hostname type es result k)"

definition resolve ::
  "'k dns \<Rightarrow> (nat \<Rightarrow> byte) \<Rightarrow> string \<Rightarrow> string \<Rightarrow> addr_type \<Rightarrow> bool \<Rightarrow> ('k, address_info list) st"
where
  "resolve D junk hostname service type resolve_canonname k =
     (let ((ret, list, entries), k) =
            d_getaddrinfo D hostname service (hints_family type) resolve_canonname k
      in if ret \<noteq> 0
         then (Err (WSError Url_error (Transport_msg (Msg_errno ''Failed to resolve hostname'' ret)) not_set), k)
         else st_try (resolve_loop D junk hostname type entries [])
                (\<lambda>result k. let k = d_freeaddrinfo D list k
                  in if result = []
                     then (Err (WSError Url_error (Transport_msg (Msg_text ''No address found for hostname'')) not_set), k)
                     else (Ok result, k)) k)"

subsection \<open>What the resolver returns\<close>

text \<open>An address that the caller asked for: of a family that was asked for, with its type and text.\<close>

definition wanted :: "string \<Rightarrow> addr_type \<Rightarrow> addrinfo list \<Rightarrow> address_info \<Rightarrow> bool" where
  "wanted hostname type entries a \<longleftrightarrow>
     adr_hostname a = hostname \<and> address_ok a \<and>
     (adr_type a = Ipv4 \<and> adr_family a = AF_INET \<or> adr_type a = Ipv6 \<and> adr_family a = AF_INET6) \<and>
     (type = Unspecified \<or> adr_type a = type) \<and>
     (\<exists>e\<in>set entries. ai_family e = adr_family a \<and>
        take (ai_addrlen e) (adr_address a) = take (ai_addrlen e) (ai_addr e))"

lemma resolve_entry_Ok:
  assumes "resolve_entry D junk h t off len desc e k = (Ok a, k')"
  shows "address_ok a" "adr_hostname a = h" "adr_type a = t" "adr_family a = ai_family e"
    "take (ai_addrlen e) (adr_address a) = take (ai_addrlen e) (ai_addr e)"
  using assms address_new_ok by (auto simp: resolve_entry_def split: if_splits prod.splits option.splits)

lemma resolve_loop_Ok:
  assumes "resolve_loop D junk h type es result k = (Ok infos, k')"
  shows "\<exists>new. infos = result @ new \<and> (\<forall>a\<in>set new. wanted h type es a)"
  using assms
proof (induction D junk h type es result k rule: resolve_loop.induct)
  case (1 D junk h type result k)
  then show ?case by simp
next
  case (2 D junk h type e es result k)
  have mono: "wanted h type es a \<Longrightarrow> wanted h type (e # es) a" for a by (auto simp: wanted_def)
  consider (v4) "ai_family e = AF_INET \<and> (type = Ipv4 \<or> type = Unspecified)"
    | (v6) "\<not> (ai_family e = AF_INET \<and> (type = Ipv4 \<or> type = Unspecified))"
      "ai_family e = AF_INET6 \<and> (type = Ipv6 \<or> type = Unspecified)"
    | (skip) "\<not> (ai_family e = AF_INET \<and> (type = Ipv4 \<or> type = Unspecified))"
      "\<not> (ai_family e = AF_INET6 \<and> (type = Ipv6 \<or> type = Unspecified))" by blast
  then show ?case
  proof cases
    case v4
    with "2.prems" obtain a k1 where
      a: "resolve_entry D junk h Ipv4 4 4 ''Failed to convert IPv4 address to string'' e k = (Ok a, k1)"
      and rest: "resolve_loop D junk h type es (result @ [a]) k1 = (Ok infos, k')" by (auto simp: st_try_Ok)
    from "2.IH"(1) [OF v4 rest] resolve_entry_Ok [OF a] v4 mono show ?thesis by (fastforce simp: wanted_def)
  next
    case v6
    with "2.prems" obtain a k1 where
      a: "resolve_entry D junk h Ipv6 8 16 ''Failed to convert IPv6 address to string'' e k = (Ok a, k1)"
      and rest: "resolve_loop D junk h type es (result @ [a]) k1 = (Ok infos, k')" by (auto simp: st_try_Ok)
    from "2.IH"(2) [OF v6 rest] resolve_entry_Ok [OF a] v6 mono show ?thesis by (fastforce simp: wanted_def)
  next
    case skip
    with "2.prems" "2.IH"(3) mono show ?thesis by auto
  qed
qed

text \<open>A resolver for the witnesses; its state is the list of the pointers that were given back.\<close>

definition demo_addr :: addrinfo where
  "demo_addr = \<lparr>ai_family = AF_INET, ai_addrlen = 16,
     ai_addr = [2, 0, 0, 80, 127, 0, 0, 1, 0, 0, 0, 0, 0, 0, 0, 0], ai_canonname = None\<rparr>"

definition demo_dns :: "addrinfo list \<Rightarrow> string option \<Rightarrow> int list dns" where
  "demo_dns entries ip =
     \<lparr>d_getaddrinfo = (\<lambda>h s f c k. ((0, 17, entries), k)), d_inet_ntop = (\<lambda>f b k. (ip, k)),
      d_freeaddrinfo = (\<lambda>p k. p # k), d_errno = (\<lambda>k. 28)\<rparr>"

text \<open>
  C36: A successful resolution returns at least one address; every address belongs to the host, is of a
  family that was asked for and carries the bytes of an entry of the list; its port can be set and read
  back on any host; and the list has been given back to the C library.
\<close>

theorem resolve_addresses:
  assumes "resolve D junk hostname service type canon k = (Ok infos, k')"
  shows "infos \<noteq> [] \<and>
    (\<exists>list entries k1 k2. d_getaddrinfo D hostname service (hints_family type) canon k = ((0, list, entries), k1) \<and>
       k' = d_freeaddrinfo D list k2 \<and>
       (\<forall>a\<in>set infos. wanted hostname type entries a \<and> port e (set_port e p a) = uint p))"
proof -
  obtain ret list entries k1 where
    gai: "d_getaddrinfo D hostname service (hints_family type) canon k = ((ret, list, entries), k1)"
    by (metis surj_pair)
  with assms obtain result k2 where loop: "resolve_loop D junk hostname type entries [] k1 = (Ok result, k2)"
    and res: "ret = 0" "infos = result" "infos \<noteq> []" "k' = d_freeaddrinfo D list k2"
    by (auto simp: resolve_def st_try_Ok Let_def split: if_splits)
  from resolve_loop_Ok [OF loop] res(2) have w: "\<forall>a\<in>set infos. wanted hostname type entries a" by simp
  moreover have "port e (set_port e p a) = uint p" if "a \<in> set infos" for a
    using w that port_set_port [of a e e p] by (auto simp: wanted_def)
  ultimately show ?thesis using gai res by blast
qed

theorem resolve_addresses_witness:
  "\<exists>a k'. resolve (demo_dns [demo_addr] (Some ''127.0.0.1'')) (\<lambda>i. 0) ''localhost'' ''80'' Ipv4 False [] =
       (Ok [a], k') \<and> k' = [17] \<and> port Little (set_port Little 8080 a) = 8080"
proof -
  let ?r = "resolve (demo_dns [demo_addr] (Some ''127.0.0.1'')) (\<lambda>i. 0) ''localhost'' ''80'' Ipv4 False []"
  obtain a where run: "?r = (Ok [a], [17])"
    by (simp add: resolve_def demo_dns_def demo_addr_def resolve_entry_def address_new_def st_try_def
        families sockaddr_storage_size_def)
  from resolve_addresses [OF run, of Little 8080] run show ?thesis by auto
qed

text \<open>
  When an address cannot be converted to text, the error is returned at once, without giving the
  list of addresses back: the memory is lost.
\<close>

theorem resolve_leaks:
  assumes "d_getaddrinfo D hostname service (hints_family type) canon k = ((0, list, e # es), k1)"
    and "ai_family e = AF_INET" and "type \<noteq> Ipv6" and "8 \<le> length (ai_addr e)"
    and "d_inet_ntop D AF_INET (subspan 4 4 (ai_addr e)) k1 = (None, k2)"
  shows "\<exists>err. resolve D junk hostname service type canon k = (Err err, k2) \<and> err_code err = Transport_error"
  using assms by (cases type) (simp_all add: resolve_def resolve_entry_def st_try_def)

theorem resolve_leaks_witness:
  "\<exists>err. resolve (demo_dns [demo_addr] None) (\<lambda>i. 0) ''localhost'' ''80'' Ipv4 False [] = (Err err, []) \<and>
     err_code err = Transport_error"
  by (rule resolve_leaks [where list = 17 and e = demo_addr and es = "[]" and ?k1.0 = "[]"])
    (simp_all add: demo_dns_def demo_addr_def)

end
