(* ===== verification/Logging.thy ===== *)
theory Logging
  imports Errors
begin

section \<open>Logging (log.hpp, config.hpp)\<close>

text \<open>
  The console logger: a level for each topic, and the line that \<open>log\<close> writes. The state of a logger is
  the array of levels; what was written to \<open>std::clog\<close> is a string. The formatted time, the file name and
  the line number of the call are arguments. The \<open>#define\<close>s with the default levels are a function on topics.
\<close>

datatype log_level = Lv_N | Lv_E | Lv_W | Lv_I | Lv_D

fun level_value :: "log_level \<Rightarrow> int" where
  "level_value Lv_N = 0"
| "level_value Lv_E = 1"
| "level_value Lv_W = 2"
| "level_value Lv_I = 3"
| "level_value Lv_D = 4"

definition log_level_from_int :: "int \<Rightarrow> log_level ws_result" where
  "log_level_from_int level =
     (if level = 0 then Ok Lv_N else if level = 1 then Ok Lv_E else if level = 2 then Ok Lv_W
      else if level = 3 then Ok Lv_I else if level = 4 then Ok Lv_D else Abort)"

fun level_to_string :: "log_level \<Rightarrow> string" where
  "level_to_string Lv_I = ''I''"
| "level_to_string Lv_D = ''D''"
| "level_to_string Lv_E = ''E''"
| "level_to_string Lv_W = ''W''"
| "level_to_string Lv_N = ''?''"

datatype log_topic =
    Tp_None | Tp_DNS | Tp_TCP | Tp_SSL | Tp_Handshake | Tp_Compression | Tp_SendFrame
  | Tp_SendFramePayload | Tp_RecvFrame | Tp_RecvFramePayload | Tp_User

fun topic_value :: "log_topic \<Rightarrow> nat" where
  "topic_value Tp_None = 0"
| "topic_value Tp_DNS = 1"
| "topic_value Tp_TCP = 2"
| "topic_value Tp_SSL = 3"
| "topic_value Tp_Handshake = 4"
| "topic_value Tp_Compression = 5"
| "topic_value Tp_SendFrame = 6"
| "topic_value Tp_SendFramePayload = 7"
| "topic_value Tp_RecvFrame = 8"
| "topic_value Tp_RecvFramePayload = 9"
| "topic_value Tp_User = 10"

definition topics_count :: nat where "topics_count = 11"

fun topic_to_string :: "log_topic \<Rightarrow> string" where
  "topic_to_string Tp_None = ''None''"
| "topic_to_string Tp_DNS = ''DNS''"
| "topic_to_string Tp_TCP = ''TCP''"
| "topic_to_string Tp_SSL = ''SSL''"
| "topic_to_string Tp_Handshake = ''Handshake''"
| "topic_to_string Tp_Compression = ''Compression''"
| "topic_to_string Tp_SendFrame = ''SendFrame''"
| "topic_to_string Tp_SendFramePayload = ''SendFramePayload''"
| "topic_to_string Tp_RecvFrame = ''RecvFrame''"
| "topic_to_string Tp_RecvFramePayload = ''RecvFramePayload''"
| "topic_to_string Tp_User = ''User''"

text \<open>The scan for the last separator: a pointer into the path, which is the rest of the path from there.\<close>

fun scan_separators :: "string option \<Rightarrow> string \<Rightarrow> string option" where
  "scan_separators last_separator [] = last_separator"
| "scan_separators last_separator (c # p) =
     scan_separators (if c = CHR ''/'' \<or> c = CHR 0x5C then Some p else last_separator) p"

definition extract_log_file_name :: "string \<Rightarrow> string" where
  "extract_log_file_name path =
     (case scan_separators None path of Some last_separator \<Rightarrow> last_separator | None \<Rightarrow> path)"

subsection \<open>The logger\<close>

record console_logger =
  topic_levels :: "log_level list"

definition is_enabled :: "log_level \<Rightarrow> log_topic \<Rightarrow> console_logger \<Rightarrow> bool" where
  "is_enabled level topic lg \<longleftrightarrow> level_value level \<le> level_value (topic_levels lg ! topic_value topic)"

definition set_level :: "log_topic \<Rightarrow> log_level \<Rightarrow> console_logger \<Rightarrow> console_logger" where
  "set_level topic level lg = lg\<lparr>topic_levels := (topic_levels lg)[topic_value topic := level]\<rparr>"

text \<open>The body of the loop over the topics, and the loop.\<close>

definition lower_level :: "log_level \<Rightarrow> nat \<Rightarrow> console_logger \<Rightarrow> console_logger" where
  "lower_level min_level i lg =
     (if level_value (topic_levels lg ! i) > level_value min_level
      then lg\<lparr>topic_levels := (topic_levels lg)[i := min_level]\<rparr> else lg)"

definition set_min_level :: "log_level \<Rightarrow> console_logger \<Rightarrow> console_logger" where
  "set_min_level min_level lg = fold (lower_level min_level) [0..<length (topic_levels lg)] lg"

text \<open>The constructor sets the topics in this order; \<open>None\<close> keeps the initial value of its atomic, 0.\<close>

definition configured_topics :: "log_topic list" where
  "configured_topics =
     [Tp_DNS, Tp_TCP, Tp_SSL, Tp_Handshake, Tp_Compression, Tp_SendFrame, Tp_SendFramePayload,
      Tp_RecvFrame, Tp_RecvFramePayload, Tp_User]"

fun configure :: "(log_topic \<Rightarrow> int) \<Rightarrow> log_topic list \<Rightarrow> console_logger \<Rightarrow> console_logger ws_result" where
  "configure cfg [] lg = Ok lg"
| "configure cfg (t # ts) lg =
     res_try (log_level_from_int (cfg t)) (\<lambda>l. configure cfg ts (set_level t l lg))"

definition console_logger_new :: "(log_topic \<Rightarrow> int) \<Rightarrow> log_level \<Rightarrow> console_logger ws_result" where
  "console_logger_new cfg min_level =
     res_try (configure cfg configured_topics \<lparr>topic_levels = replicate topics_count Lv_N\<rparr>)
       (\<lambda>lg. Ok (set_min_level min_level lg))"

fun default_levels :: "log_topic \<Rightarrow> int" where
  "default_levels Tp_DNS = 3"
| "default_levels Tp_TCP = 3"
| "default_levels Tp_SSL = 2"
| "default_levels Tp_Handshake = 3"
| "default_levels Tp_Compression = 2"
| "default_levels Tp_SendFrame = 2"
| "default_levels Tp_SendFramePayload = 2"
| "default_levels Tp_RecvFrame = 2"
| "default_levels Tp_RecvFramePayload = 2"
| "default_levels Tp_User = 3"
| "default_levels Tp_None = 0"

subsection \<open>The line\<close>

definition escape :: "string \<Rightarrow> string" where
  "escape code = CHR 0x1B # CHR 0x5B # code"

fun level_to_color :: "log_level \<Rightarrow> string" where
  "level_to_color Lv_E = escape ''1;91m''"
| "level_to_color Lv_W = escape ''0;93m''"
| "level_to_color Lv_I = escape ''0;37m''"
| "level_to_color Lv_D = escape ''0;30m''"
| "level_to_color Lv_N = ''''"

text \<open>\<open>std::left << std::setw(n)\<close> before a text, and the decimal digits of a line number.\<close>

definition pad_right :: "nat \<Rightarrow> string \<Rightarrow> string" where
  "pad_right n s = s @ replicate (n - length s) CHR '' ''"

fun decimal :: "nat \<Rightarrow> string" where
  "decimal n = (if n < 10 then [char_of (48 + n)] else decimal (n div 10) @ [char_of (48 + n mod 10)])"

declare decimal.simps [simp del]

definition log_line :: "log_level \<Rightarrow> log_topic \<Rightarrow> string \<Rightarrow> string \<Rightarrow> nat \<Rightarrow> string \<Rightarrow> string" where
  "log_line level topic time file line message =
     level_to_color level @ time @ '' '' @ level_to_string level @
     '' '' @ pad_right 17 (topic_to_string topic) @
     '' '' @ pad_right 20 (extract_log_file_name file @ '':'' @ decimal line) @
     '': '' @ level_to_color level @ message @ escape ''0m'' @ [CHR 0x0A]"

definition logger_log ::
  "log_level \<Rightarrow> log_topic \<Rightarrow> string \<Rightarrow> string \<Rightarrow> nat \<Rightarrow> string \<Rightarrow> console_logger \<Rightarrow> string \<Rightarrow> string" where
  "logger_log level topic time file line message lg clog =
     (if \<not> is_enabled level topic lg then clog
      else clog @ log_line level topic time file line message)"

subsection \<open>What is logged\<close>

lemma topic_value_less: "topic_value t < topics_count"
  by (cases t) (simp_all add: topics_count_def)

lemma topic_value_inj: "topic_value t = topic_value u \<longleftrightarrow> t = u"
  by (cases t; cases u) simp_all

lemma log_level_from_int_Ok: "log_level_from_int n = Ok l \<longleftrightarrow> level_value l = n"
  by (cases l) (auto simp: log_level_from_int_def)

lemma log_level_from_int_total: "0 \<le> n \<Longrightarrow> n \<le> 4 \<Longrightarrow> \<exists>l. log_level_from_int n = Ok l"
  by (auto simp: log_level_from_int_def)

lemma configure_Ok:
  assumes "\<forall>t \<in> set ts. 0 \<le> cfg t \<and> cfg t \<le> 4" and "length (topic_levels lg) = topics_count" and "distinct ts"
  shows "\<exists>lg'. configure cfg ts lg = Ok lg' \<and> length (topic_levels lg') = topics_count \<and>
    (\<forall>t. if t \<in> set ts then level_value (topic_levels lg' ! topic_value t) = cfg t
         else topic_levels lg' ! topic_value t = topic_levels lg ! topic_value t)"
  using assms
proof (induction ts arbitrary: lg)
  case (Cons t ts)
  obtain l where l: "log_level_from_int (cfg t) = Ok l" "level_value l = cfg t"
    using Cons.prems(1) log_level_from_int_total [of "cfg t"] by (auto simp: log_level_from_int_Ok)
  have "length (topic_levels (set_level t l lg)) = topics_count" using Cons.prems(2) by (simp add: set_level_def)
  from Cons.IH [OF _ this] Cons.prems(1,3) obtain lg' where
    lg': "configure cfg ts (set_level t l lg) = Ok lg'" "length (topic_levels lg') = topics_count"
      "\<forall>u. if u \<in> set ts then level_value (topic_levels lg' ! topic_value u) = cfg u
         else topic_levels lg' ! topic_value u = topic_levels (set_level t l lg) ! topic_value u" by auto
  show ?case
  proof (intro exI [of _ lg'] conjI allI)
    fix u
    show "if u \<in> set (t # ts) then level_value (topic_levels lg' ! topic_value u) = cfg u
         else topic_levels lg' ! topic_value u = topic_levels lg ! topic_value u"
      using lg'(3) [rule_format, of u] Cons.prems(2,3) l(2) topic_value_less [of u] topic_value_inj [of t u]
      by (cases "u = t") (auto simp: set_level_def nth_list_update split: if_splits)
  qed (simp_all add: l(1) lg'(1,2))
qed simp

text \<open>The loop of \<open>set_min_level\<close>: the entries below \<open>n\<close> are done.\<close>

lemma set_min_level_loop:
  assumes "n \<le> length (topic_levels lg)"
  shows "length (topic_levels (fold (lower_level m) [0..<n] lg)) = length (topic_levels lg) \<and>
    (\<forall>i < length (topic_levels lg). level_value (topic_levels (fold (lower_level m) [0..<n] lg) ! i) =
       (if i < n then min (level_value (topic_levels lg ! i)) (level_value m) else level_value (topic_levels lg ! i)) \<and>
       (n \<le> i \<longrightarrow> topic_levels (fold (lower_level m) [0..<n] lg) ! i = topic_levels lg ! i))"
  using assms
proof (induction n)
  case (Suc n)
  define lg1 where "lg1 = fold (lower_level m) [0..<n] lg"
  have IH: "length (topic_levels lg1) = length (topic_levels lg)"
    "\<forall>i < length (topic_levels lg). level_value (topic_levels lg1 ! i) =
       (if i < n then min (level_value (topic_levels lg ! i)) (level_value m) else level_value (topic_levels lg ! i)) \<and>
       (n \<le> i \<longrightarrow> topic_levels lg1 ! i = topic_levels lg ! i)"
    using Suc by (simp_all add: lg1_def)
  have eq: "fold (lower_level m) [0..<Suc n] lg = lower_level m n lg1" by (simp add: lg1_def)
  show ?case
    unfolding eq using IH Suc.prems by (auto simp: lower_level_def nth_list_update less_Suc_eq min_def)
qed simp

lemma set_min_level_nth:
  assumes "length (topic_levels lg) = topics_count"
  shows "length (topic_levels (set_min_level m lg)) = topics_count \<and>
    level_value (topic_levels (set_min_level m lg) ! topic_value t) =
      min (level_value (topic_levels lg ! topic_value t)) (level_value m)"
  using set_min_level_loop [of "length (topic_levels lg)" lg m] topic_value_less [of t] assms
  by (simp add: set_min_level_def)

text \<open>
  A logger that was built from levels in range writes the messages up to the level of their topic, and
  up to the minimum level, and no others; \<open>None\<close> is silent but for the level \<open>N\<close>.
\<close>

lemma logger_filters:
  assumes "\<forall>t. 0 \<le> cfg t \<and> cfg t \<le> 4"
  shows "\<exists>lg. console_logger_new cfg m = Ok lg \<and>
    (\<forall>level topic time file line message clog.
       logger_log level topic time file line message lg clog =
         (if level_value level \<le> min ((cfg(Tp_None := 0)) topic) (level_value m)
          then clog @ log_line level topic time file line message else clog))"
proof -
  let ?lg0 = "\<lparr>topic_levels = replicate topics_count Lv_N\<rparr>"
  have dist: "distinct configured_topics" by (simp add: configured_topics_def)
  have mem: "t \<in> set configured_topics \<longleftrightarrow> t \<noteq> Tp_None" for t by (cases t) (simp_all add: configured_topics_def)
  from configure_Ok [OF _ _ dist, of cfg ?lg0] assms obtain lg where
    lg: "configure cfg configured_topics ?lg0 = Ok lg" "length (topic_levels lg) = topics_count"
    and lv: "\<forall>t. if t \<in> set configured_topics then level_value (topic_levels lg ! topic_value t) = cfg t
         else topic_levels lg ! topic_value t = topic_levels ?lg0 ! topic_value t" by auto
  have "level_value (topic_levels lg ! topic_value t) = (cfg(Tp_None := 0)) t" for t
    using lv [rule_format, of t] mem [of t] by (auto simp: topics_count_def split: if_splits)
  with set_min_level_nth [OF lg(2), of m] have
    "is_enabled level topic (set_min_level m lg) \<longleftrightarrow> level_value level \<le> min ((cfg(Tp_None := 0)) topic) (level_value m)"
    for level topic by (simp add: is_enabled_def)
  then show ?thesis by (simp add: console_logger_new_def lg(1) logger_log_def)
qed

text \<open>The name of a file is its path behind the last separator.\<close>

lemma scan_separators_spec:
  "case scan_separators l p of
     Some q \<Rightarrow> (\<exists>d c. p = d @ c # q \<and> c \<in> {CHR ''/'', CHR 0x5C} \<and> set q \<inter> {CHR ''/'', CHR 0x5C} = {}) \<or>
       l = Some q \<and> set p \<inter> {CHR ''/'', CHR 0x5C} = {}
   | None \<Rightarrow> l = None \<and> set p \<inter> {CHR ''/'', CHR 0x5C} = {}"
proof (induction l p rule: scan_separators.induct)
  case (2 l c p)
  then show ?case
    by (cases "c = CHR ''/'' \<or> c = CHR 0x5C")
      (auto split: option.splits intro: exI [of _ "[]"] exI [of _ "c # _"])
qed (simp split: option.splits)

lemma extract_log_file_name_spec:
  "\<exists>dir. path = dir @ extract_log_file_name path \<and> set (extract_log_file_name path) \<inter> {CHR ''/'', CHR 0x5C} = {} \<and>
     (dir = [] \<or> last dir \<in> {CHR ''/'', CHR 0x5C})"
proof (cases "scan_separators None path")
  case None
  then show ?thesis using scan_separators_spec [of None path] by (simp add: extract_log_file_name_def)
next
  case (Some q)
  then obtain d c where "path = (d @ [c]) @ q" "c \<in> {CHR ''/'', CHR 0x5C}" "set q \<inter> {CHR ''/'', CHR 0x5C} = {}"
    using scan_separators_spec [of None path] by auto
  with Some show ?thesis by (intro exI [of _ "d @ [c]"]) (simp add: extract_log_file_name_def)
qed

end
