(* ===== verification/Spec2Isabelle.thy ===== *)
theory Spec2Isabelle
  imports Client Client_Safety Send_Outcome Receive_Refinement Async_Duplex Ssl_Contract Ssl_Context
    Asio_Socket Coroio_Socket Name_Resolution Logging
begin

text \<open>
  A verification of \<open>websocketclient-cpp\<close>, a header-only WebSocket client (RFC 6455 with the
  permessage-deflate extension of RFC 7692). All paths are relative to \<open>src/include/ws_client\<close>.

  The program. \<open>WebSocketClient\<close> opens a connection with an HTTP upgrade request (\<open>Handshake\<close>,
  \<open>HttpHeader\<close>, \<open>HttpParser\<close>, \<open>URL\<close>), then exchanges frames. It reads and writes through a
  \<open>BufferedSocket\<close>, which puts a \<open>CircularBuffer\<close> in front of a transport (\<open>TcpSocket\<close>,
  \<open>OpenSslSocket\<close>, or any class with the operations of \<open>HasSocketOperations\<close>). \<open>DnsResolver\<close> finds
  the addresses to connect to. Payloads are masked with keys of a \<open>MaskKey\<close>
  generator (\<open>xoshiro128p\<close>), compressed and decompressed by a \<open>PermessageDeflateContext\<close>, checked for
  UTF-8, and collected in a caller's \<open>Buffer\<close>. Every blocking call carries a \<open>Timeout\<close>.
  \<open>WebSocketClientAsync\<close> and \<open>BufferedSocketAsync\<close> are the same classes with coroutines.

  Conventions. A C++ function on an object is a function on a record of the object's fields that also
  returns the changed record. \<open>std::expected\<close> is \<open>ws_result\<close>: \<open>Ok\<close>, \<open>Err\<close> with the \<open>WSError\<close>, or
  \<open>Abort\<close> for a failed assertion and for memory accesses that the C++ standard leaves undefined. The
  type \<open>('s, 'a) st\<close> is a total step on a state \<open>'s\<close>; \<open>('s, 'a) ws\<close> is a step that may not return
  (\<open>None\<close>). \<open>res_try\<close>, \<open>st_try\<close> and \<open>ws_try\<close> are the macros \<open>WS_TRY\<close>, \<open>WS_TRYV\<close> and \<open>WS_TRY_RAW\<close> at
  these types. A coroutine is such a step on the state that the coroutines share, which takes as an
  argument what the others do at each of its suspensions; a span that outlives a suspension is a
  \<open>place\<close>, read and written through the state. Fixed-width integers are words of their width; texts of error messages are constructors
  with the values that the format string shows.

  The theories, and what they model:

  \<^item> \<open>Prelude\<close>, \<open>Bytes\<close>, \<open>Strings\<close>, \<open>Text_Streams\<close>: lists and words; byte order
    (\<open>utils/networking.hpp\<close>); \<open>utils/string.hpp\<close>; the string stream and number conversion that the
    parsers use from the standard library.
  \<^item> \<open>Errors\<close>: \<open>errors.hpp\<close>, and the result types above with their rules.
  \<^item> \<open>Queue_Interface\<close> and \<open>Circular_Buffer\<close> (\<open>utils/CircularBuffer.hpp\<close>); \<open>Buffer_Interface\<close> and
    \<open>Byte_Buffer\<close> (\<open>HasBufferOperations.hpp\<close>, \<open>Buffer.hpp\<close>). The interfaces are locales, with an
    interpretation on the model of the class.
  \<^item> \<open>Utf8\<close>, \<open>Base64\<close>, \<open>Sha1\<close>, \<open>Xoshiro\<close>: \<open>utils/utf8.hpp\<close>, \<open>utils/base64.hpp\<close>, \<open>utils/SHA1.hpp\<close>,
    \<open>utils/random.hpp\<close>.
  \<^item> \<open>Http\<close>, \<open>Url\<close>: \<open>HttpHeader.hpp\<close>, \<open>HttpParser.hpp\<close>, \<open>URL.hpp\<close>.
  \<^item> \<open>Permessage_Deflate\<close> and \<open>Deflate_Context\<close>: the two classes of \<open>PermessageDeflate.hpp\<close>.
  \<^item> \<open>Handshake\<close>: \<open>Handshake.hpp\<close>. \<open>Mask_Key\<close>: \<open>MaskKey.hpp\<close>. \<open>Frame\<close>: \<open>Frame.hpp\<close>, \<open>Message.hpp\<close>.
  \<^item> \<open>Timeout\<close>, \<open>Transport\<close>, \<open>Buffered_Socket\<close>: \<open>utils/Timeout.hpp\<close>, the socket contract of
    \<open>HasSocketOperations.hpp\<close>, \<open>BufferedSocket.hpp\<close>.
  \<^item> \<open>Frame_IO\<close>, \<open>Client_Receive\<close>, \<open>Client_Send\<close>, \<open>Client\<close>: \<open>WebSocketClient.hpp\<close>: the object with
    \<open>read_frame\<close> and \<open>write_frame\<close>; \<open>handle_control_frame\<close> and \<open>read_message\<close>; \<open>send_message\<close>,
    \<open>send_pong_frame\<close> and \<open>close\<close>; \<open>handshake\<close> and \<open>wait_message\<close>.
  \<^item> \<open>Receive_Refinement\<close>: the abstract receiver (frames of a server, fragments reassembled, control
    frames in between) and the proof that \<open>read_message\<close> implements it.
  \<^item> \<open>Send_Outcome\<close>: what \<open>send_message\<close> leaves on a wire that may fail at any write (the whole frame or
    a prefix of it), and that it returns when every single write returns.
  \<^item> \<open>Client_Safety\<close>: what it is for a client to be well-typed, and that its operations keep it so and
    never abort, whatever the peer sends (triples with a postcondition for the error case).
  \<^item> \<open>Async_Socket\<close>, \<open>Async_Client\<close>: \<open>BufferedSocketAsync.hpp\<close> and \<open>WebSocketClientAsync.hpp\<close>.
    \<open>Async_Schedule\<close>, \<open>Async_View\<close>: the locales that relate a coroutine to a blocking operation, on a
    view of the shared state that other coroutines respect; \<open>Async_Refinement\<close> and \<open>Async_Duplex\<close>:
    their instances for coroutines that leave the client alone, and for those that send on it.
  \<^item> \<open>Tcp_Socket\<close>: \<open>transport/builtin/TcpSocket.hpp\<close> over the system calls it makes. \<open>Ssl_Socket\<close>:
    \<open>OpenSslSocket.hpp\<close> and \<open>transport/ssl_utils.hpp\<close> over the OpenSSL calls; \<open>Ssl_Contract\<close>: that it
    meets the contract of a transport, and what a successful \<open>connect\<close> has checked.
  \<^item> \<open>Ssl_Context\<close>: \<open>OpenSslContext.hpp\<close>, and what a context enforces once \<open>init\<close> has succeeded.
  \<^item> \<open>Asio_Socket\<close>, \<open>Coroio_Socket\<close>: the transports of the asynchronous client, \<open>transport/AsioSocket.hpp\<close> over the
    operations of asio, \<open>transport/CoroioSocket.hpp\<close> over those of a coroio socket, which coroio's plain
    socket (\<open>TSocket\<close> in \<open>src/coroio/socket.hpp\<close>) provides over the system calls.
  \<^item> \<open>Logging\<close>: \<open>log.hpp\<close> and the default levels of \<open>config.hpp\<close>.
  \<^item> \<open>Name_Resolution\<close>: \<open>AddressInfo.hpp\<close> and \<open>DnsResolver.hpp\<close>.
\<close>

text \<open>
  Parameters. The kernel (\<open>kernel\<close>), OpenSSL (\<open>openssl\<close>, \<open>ctx_ops\<close>), asio (\<open>asio\<close>), the event loop of coroio
  (\<open>event_loop\<close>), the resolver of the C library (\<open>dns\<close>), zlib (\<open>zlib\<close>), the allocator, the clock, the mask
  key generator and the contents of uninitialised memory are arguments of the definitions that use them
  (\<open>env\<close> gathers those of the client). What the properties need of them is stated in locales.

  \<^item> Transports: \<open>lossy_socket\<close> (whatever a read returns was next in the peer's stream, at most a timed-out
    read loses what it had received, what a write accepts is appended to what the peer gets, and nothing
    is promised after a failed write), \<open>fragile_socket\<close> (no read loses anything), \<open>stream_socket\<close> (the stream
    goes on after a failed write, which has sent a prefix), \<open>strict_socket\<close> (a failed write has sent nothing),
    \<open>delivering_socket\<close> and \<open>live_socket\<close> (reads, or all calls, return with progress or an error). The first
    four are ordered by \<open>sublocale\<close>; the client's theorems assume a \<open>stream_socket\<close> or more.
  \<^item> Outside code: \<open>kernel_streams\<close> (\<open>recv\<close> and \<open>send\<close> move the bytes they report), \<open>tls_streams\<close> (the same of
    \<open>SSL_read\<close> and \<open>SSL_write\<close>, where an \<open>SSL_write\<close> that fails may have sent a part and is to be repeated),
    \<open>asio_streams\<close> (the same of asio, whose timer may overtake a read that has succeeded), \<open>tls_settings\<close> (setters
    do what they report), \<open>deflate_streams\<close> and \<open>inflate_streams\<close> (\<open>deflate\<close> writes a valid encoding of what it was
    given; \<open>inflate\<close> decodes the prefixes of valid encodings, and of other input nothing is said). The clock
    does not reach the deadline: \<open>in_time\<close>.
  \<^item> \<open>selectable_kernel\<close> and \<open>selectable_tls\<close> add that the descriptor is below \<open>FD_SETSIZE\<close>, which the code does not
    check (\<open>tcp_large_descriptor\<close>); \<open>coroio_kernel\<close>, which needs no such bound, adds that one call moves fewer
    than \<open>2 ^ 31\<close> bytes and that the event loop leaves the connection alone.

  \<open>Tcp_Socket\<close> and \<open>Coroio_Socket\<close> (through \<open>coroio_streams\<close>) derive a \<open>strict_socket\<close>, \<open>Ssl_Contract\<close> a
  \<open>fragile_socket\<close> and \<open>Asio_Socket\<close> a \<open>lossy_socket\<close>, which is all their code provides: over TLS the client's
  theorems hold up to the first failed write, over asio also up to the first read that timed out.
  Each locale has an instance that can be run: a script of reads and writes, a script of system calls, and a
  toy codec that stuffs bytes, so that the witnesses evaluate whole operations of the client.

  What the lemmas show, component by component:

  \<^item> data structures: the ring buffer refines a bounded FIFO, appending to a buffer keeps its bytes;
  \<^item> codecs: SHA-1 against the standard's definition, UTF-8 against the grammar of well-formed
    sequences, masking against RFC 6455, round trips of Base64, URLs and HTTP headers;
  \<^item> handshake: which responses are accepted, and how the compression parameters are settled, against the
    tables in the code's comments; what was compressed decompresses to the same bytes;
  \<^item> streams: \<open>read_exact\<close> delivers the next bytes and returns, \<open>read_until\<close> splits at the delimiter,
    \<open>write\<close> sends everything, whatever the sizes of the partial reads and writes;
  \<^item> the client: \<open>read_message\<close> refines the abstract receiver; a frame that \<open>send_message\<close> wrote
    decodes, by the layout of RFC 6455, to the message; no input of the peer makes an operation abort; \<open>handshake\<close> opens the client just when the
    response is accepted; \<open>close\<close> sends a close frame or fails the connection and always closes;
  \<^item> the asynchronous client: it does what the blocking client does, on a transport whose calls include
    what other coroutines did meanwhile (and that never reports a write of nothing); \<open>read_message\<close> may run while another coroutine sends;
  \<^item> \<open>TcpSocket\<close>: it meets the stream contract, and the life of its descriptor; \<open>OpenSslSocket\<close>: it
    meets the contract up to the first failed write, and a verified connection has presented a certificate
    for the host; an initialised \<open>OpenSslContext\<close> enforces what it was told; \<open>AsioSocket\<close>: what a read or write
    that fails leaves; \<open>CoroioSocket\<close> over \<open>TSocket\<close> meets the stream contract;
  \<^item> \<open>DnsResolver\<close>: every address it returns is of a family the caller asked for;
  \<^item> defects: theorems that exhibit what goes wrong (masking at unaligned addresses, zero-length ring
    writes, size wrap-around in \<open>Buffer\<close>, UTF-8 lengths of 2 GiB, the handshake key's entropy,
    descriptors beyond \<open>FD_SETSIZE\<close>, writes of nothing, which the blocking client repeats for ever, TLS connections reported as open before the handshake is done,
    the address list that is not freed, bytes that \<open>AsioSocket\<close> drops with a timeout, two coroutines that send into each other's frames).

  Loops. Loops over data are structural or have a measure. The loops that wait for the outside world
  (\<open>read_exact\<close>, \<open>read_until\<close>, \<open>write\<close>, \<open>read_message\<close>, the zlib loops, the retries of \<open>TcpSocket\<close> and
  \<open>OpenSslSocket\<close>)
  are \<open>partial_function (option)\<close>, so that not returning is \<open>None\<close>; that they return is proved where a
  theorem needs it. No fuel is used.

  Not modelled:

  \<^item> the moving of client objects while a coroutine uses them, and the rest of the coroio library, of which
    \<open>src/coroio\<close> holds a copy: its pollers, and its TLS socket, which does not keep the contract of
    \<open>Coroio_Socket\<close> (its write loops, and may throw after a part was sent);
  \<^item> the callbacks of \<open>OpenSslSocket\<close>, which log, and the log calls of the components, which have no
    effect on the protocol;
  \<^item> the SIMD build of the UTF-8 check, which calls a library; the error category, formatters and source
    locations of \<open>errors.hpp\<close>.
\<close>

end
